(* ===== verification/Prelude.thy ===== *)
theory Prelude
  imports Main "HOL-Library.Word" "HOL-Library.Multiset"
begin

text \<open>
  Shared vocabulary of the development: the Go language and standard-library behaviour the
  sources rely on, as executable HOL definitions, with the lemmas the component theories
  use.  Machine words (\<open>uint64\<close>, \<open>byte\<close>), \<open>time.Time\<close>, slices changed through a
  pointer to their first matching element, \<open>sort.Sort\<close>, \<open>sort.Search\<close> and
  \<open>strings.ToLower\<close> on ASCII.
\<close>

section \<open>Types and lemma collections\<close>

type_synonym u64 = "64 word"
type_synonym u32 = "32 word"
type_synonym byte = "8 word"

named_theorems slice_simps \<open>equations for slices changed in place\<close>
named_theorems go_time_defs \<open>definitions of the time package\<close>

section \<open>time.Time and time.Duration\<close>

text \<open>
  A \<open>time.Time\<close> is the number of nanoseconds since Go's zero time (January 1, year 1,
  UTC), so the zero value is \<open>0\<close>.  A \<open>time.Duration\<close> is a number of nanoseconds.
  \<open>time.Time\<close> keeps seconds in a 64-bit field, which covers every sum of an
  \<open>int64\<close> Unix time and an \<open>int64\<close> duration, so unbounded integers are exact here;
  the one conversion that wraps, \<open>UnixNano\<close>, is written with its width.
\<close>

type_synonym go_time = int
type_synonym duration = int

definition Nanosecond :: duration where "Nanosecond = 1"
definition Second :: duration where "Second = 1000000000"
definition Hour :: duration where "Hour = 3600 * Second"

definition unix_epoch :: go_time where
  "unix_epoch = 62135596800 * Second"

definition IsZero :: "go_time \<Rightarrow> bool" where
  "IsZero t = (t = 0)"

definition time_Unix_nano :: "int \<Rightarrow> go_time" where
  "time_Unix_nano n = unix_epoch + n"

definition UnixNano :: "go_time \<Rightarrow> int" where
  "UnixNano t = sint (word_of_int (t - unix_epoch) :: u64)"

text \<open>\<open>Truncate\<close> rounds down to a multiple of \<open>d\<close> since the zero time.\<close>

definition Truncate :: "go_time \<Rightarrow> duration \<Rightarrow> go_time" where
  "Truncate t d = (if d \<le> 0 then t else t - t mod d)"

lemmas [go_time_defs] = Nanosecond_def Second_def Hour_def

lemma Truncate_le: "Truncate t d \<le> t"
  by (simp add: Truncate_def)

lemma Truncate_bound: "0 < d \<Longrightarrow> t < Truncate t d + d"
  by (simp add: Truncate_def)

lemma Truncate_dvd: "0 < d \<Longrightarrow> d dvd Truncate t d"
  by (simp add: Truncate_def minus_mod_eq_div_mult)

lemma UnixNano_time_Unix_nano:
  assumes "- (2 ^ 63) \<le> n" "n < 2 ^ 63"
  shows "UnixNano (time_Unix_nano n) = n"
  using assms
  by (simp add: UnixNano_def time_Unix_nano_def sint_sbintrunc' signed_take_bit_int_eq_self)

section \<open>Slices\<close>

text \<open>
  \<open>for i := range xs { if P(xs[i]) { xs[i] = f(xs[i]); return } }\<close> and the same through
  a pointer \<open>&xs[i]\<close> returned by a lookup.
\<close>

fun update_first :: "('a \<Rightarrow> bool) \<Rightarrow> ('a \<Rightarrow> 'a) \<Rightarrow> 'a list \<Rightarrow> 'a list" where
  "update_first P f [] = []"
| "update_first P f (x # xs) = (if P x then f x # xs else x # update_first P f xs)"

text \<open>\<open>xs = append(xs[:i], xs[i+1:]...)\<close> for the first index \<open>i\<close> with \<open>P(xs[i])\<close>.\<close>

fun remove_first :: "('a \<Rightarrow> bool) \<Rightarrow> 'a list \<Rightarrow> 'a list" where
  "remove_first P [] = []"
| "remove_first P (x # xs) = (if P x then xs else x # remove_first P xs)"

lemma length_update_first [simp]: "length (update_first P f xs) = length xs"
  by (induction xs) auto

lemma update_first_None: "find P xs = None \<Longrightarrow> update_first P f xs = xs"
  by (induction xs) (auto split: if_splits)

lemma map_update_first [slice_simps]:
  "(\<And>x. P x \<Longrightarrow> k (f x) = k x) \<Longrightarrow> map k (update_first P f xs) = map k xs"
  by (induction xs) auto

lemma set_update_first_cases:
  "y \<in> set (update_first P f xs) \<Longrightarrow> y \<in> set xs \<or> (\<exists>x. find P xs = Some x \<and> y = f x)"
  by (induction xs) (auto split: if_splits)

lemma find_update_first:
  "(\<And>x. P x \<Longrightarrow> P (f x)) \<Longrightarrow> find P (update_first P f xs) = map_option f (find P xs)"
  by (induction xs) auto

lemma find_update_first_other:
  "(\<And>x. P x \<Longrightarrow> \<not> Q x \<and> \<not> Q (f x)) \<Longrightarrow> find Q (update_first P f xs) = find Q xs"
  by (induction xs) auto

lemma update_first_in:
  "find P xs = Some x \<Longrightarrow> f x \<in> set (update_first P f xs)"
  by (induction xs) (auto split: if_splits)

lemma find_SomeD: "find P xs = Some x \<Longrightarrow> x \<in> set xs \<and> P x"
  by (induction xs) (auto split: if_splits)

lemma find_NoneD: "find P xs = None \<Longrightarrow> x \<in> set xs \<Longrightarrow> \<not> P x"
  by (auto simp: find_None_iff)

lemma set_remove_first_subset: "set (remove_first P xs) \<subseteq> set xs"
  by (induction xs) auto

lemma distinct_map_remove_first:
  "distinct (map k xs) \<Longrightarrow> distinct (map k (remove_first P xs))"
  by (induction xs) (use set_remove_first_subset in \<open>fastforce\<close>)+

lemma find_remove_first_None:
  assumes "distinct (map k xs)"
  shows "find (\<lambda>x. k x = a) (remove_first (\<lambda>x. k x = a) xs) = None"
  using assms by (induction xs) (auto simp: find_None_iff rev_image_eqI)

lemma set_remove_first:
  assumes "distinct (map k xs)"
  shows "set (remove_first (\<lambda>x. k x = a) xs) = {x \<in> set xs. k x \<noteq> a}"
  using assms by (induction xs) (auto simp: rev_image_eqI)

lemma find_append: "find P (xs @ ys) = (case find P xs of Some x \<Rightarrow> Some x | None \<Rightarrow> find P ys)"
  by (induction xs) auto

lemma list_all2_mem2: "list_all2 P xs ys \<Longrightarrow> y \<in> set ys \<Longrightarrow> \<exists>x \<in> set xs. P x y"
  by (induction rule: list_all2_induct) auto

lemma list_all2_mem1: "list_all2 P xs ys \<Longrightarrow> x \<in> set xs \<Longrightarrow> \<exists>y \<in> set ys. P x y"
  by (induction rule: list_all2_induct) auto

lemma filter_eq_length_iff: "length (filter P xs) = length xs \<longleftrightarrow> (\<forall>x \<in> set xs. P x)"
  by (metis filter_True length_filter_less linorder_neq_iff)

lemma find_distinct:
  assumes "distinct (map k xs)" "x \<in> set xs"
  shows "find (\<lambda>y. k y = k x) xs = Some x"
  using assms by (induction xs) auto

text \<open>
  A loop over a slice whose body changes the element in place and may return an error,
  which ends the loop and keeps the changes made so far.
\<close>

fun map_until :: "('a \<Rightarrow> 'e option \<times> 'a) \<Rightarrow> 'a list \<Rightarrow> 'e option \<times> 'a list" where
  "map_until f [] = (None, [])"
| "map_until f (x # xs) =
     (case f x of
        (Some e, x') \<Rightarrow> (Some e, x' # xs)
      | (None, x') \<Rightarrow> (let (e, xs') = map_until f xs in (e, x' # xs')))"

lemma map_until_ok:
  "(\<And>x. x \<in> set xs \<Longrightarrow> fst (f x) = None) \<Longrightarrow> map_until f xs = (None, map (\<lambda>x. snd (f x)) xs)"
  by (induction xs) (auto split: prod.splits option.splits simp: prod_eq_iff)

lemma map_until_rel:
  "map_until f xs = (e, ys) \<Longrightarrow> list_all2 (\<lambda>x y. y = x \<or> y = snd (f x)) xs ys"
proof (induction xs arbitrary: e ys)
  case (Cons x xs)
  then show ?case
    by (cases "f x"; cases "fst (f x)")
      (auto simp: list_all2_same split: prod.splits)
qed simp

text \<open>How the elements of a slice of slices change when one inner slice changes.\<close>

lemma mset_concat_update_first:
  assumes "find P xs = Some x" "mset (h (f x)) = mset (h x) + M"
  shows "mset (concat (map h (update_first P f xs))) = mset (concat (map h xs)) + M"
  using assms by (induction xs) (auto simp: ac_simps split: if_splits)

lemma mset_concat_update_first_le:
  assumes "\<And>x. P x \<Longrightarrow> mset (h (f x)) \<subseteq># mset (h x)"
  shows "mset (concat (map h (update_first P f xs))) \<subseteq># mset (concat (map h xs))"
  using assms by (induction xs) (auto intro: subset_mset.add_mono)

lemma mset_concat_remove_first_le:
  "mset (concat (map h (remove_first P xs))) \<subseteq># mset (concat (map h xs))"
  by (induction xs) auto

lemma concat_update_first_same:
  assumes "\<And>x. P x \<Longrightarrow> h (f x) = h x"
  shows "concat (map h (update_first P f xs)) = concat (map h xs)"
  using assms by (simp add: map_update_first)

section \<open>Integer division\<close>

text \<open>Go's \<open>/\<close> on signed integers truncates towards zero.\<close>

definition go_quot :: "int \<Rightarrow> int \<Rightarrow> int" where
  "go_quot a b = sgn a * sgn b * (\<bar>a\<bar> div \<bar>b\<bar>)"

lemma go_quot_pos: "0 \<le> a \<Longrightarrow> 0 < b \<Longrightarrow> go_quot a b = a div b"
  by (cases "a = 0") (auto simp: go_quot_def)

section \<open>Maps\<close>

text \<open>\<open>m[k] = v\<close> and \<open>delete(m, k)\<close> on a Go map kept as an association list.\<close>

fun map_put :: "'k \<Rightarrow> 'v \<Rightarrow> ('k \<times> 'v) list \<Rightarrow> ('k \<times> 'v) list" where
  "map_put k v [] = [(k, v)]"
| "map_put k v ((k', v') # m) = (if k = k' then (k, v) # m else (k', v') # map_put k v m)"

definition map_del :: "'k \<Rightarrow> ('k \<times> 'v) list \<Rightarrow> ('k \<times> 'v) list" where
  "map_del k m = filter (\<lambda>(k', _). k' \<noteq> k) m"

lemma map_of_map_put [simp]: "map_of (map_put k v m) = (map_of m)(k \<mapsto> v)"
  by (induction m) auto

lemma keys_map_put: "fst ` set (map_put k v m) = insert k (fst ` set m)"
  by (simp flip: dom_map_of_conv_image_fst)

lemma distinct_map_put: "distinct (map fst m) \<Longrightarrow> distinct (map fst (map_put k v m))"
proof (induction m)
  case (Cons x m)
  then show ?case
    using keys_map_put [of k v m] by (cases x) (auto simp: image_iff)
qed simp

lemma map_of_map_del: "map_of (map_del k m) = (map_of m)(k := None)"
  by (induction m) (auto simp: map_del_def)

lemma keys_map_del: "fst ` set (map_del k m) = fst ` set m - {k}"
  by (force simp: map_del_def)

lemma distinct_map_del: "distinct (map fst m) \<Longrightarrow> distinct (map fst (map_del k m))"
  by (simp add: map_del_def distinct_map_filter)

section \<open>sort.Sort\<close>

text \<open>
  \<open>sort.Sort\<close> promises a permutation of the slice in which no element is less than an
  earlier one; it is not stable.  That promise is the interface \<open>go_sort\<close>; the facts the
  components use are proved from it alone.
\<close>

locale go_sort =
  fixes lt :: "'a \<Rightarrow> 'a \<Rightarrow> bool"
    and sort :: "'a list \<Rightarrow> 'a list"
  assumes sort_mset: "mset (sort xs) = mset xs"
    and sort_ordered: "sorted_wrt (\<lambda>x y. \<not> lt y x) (sort xs)"
begin

lemma sort_set: "set (sort xs) = set xs"
  by (metis sort_mset set_mset_mset)

lemma sort_length: "length (sort xs) = length xs"
  by (metis sort_mset size_mset)

lemma sort_mset_map: "mset (map f (sort xs)) = mset (map f xs)"
  by (simp add: sort_mset)

lemma sort_distinct_map: "distinct (map f (sort xs)) = distinct (map f xs)"
  by (metis mset_eq_imp_distinct_iff sort_mset_map)

end

text \<open>
  The instance the model evaluates is the insertion sort \<open>sort.Sort\<close> runs on slices of
  at most twelve elements: element \<open>i\<close> moves left while it is less than its left
  neighbour.  The sorted prefix is kept reversed.
\<close>

fun go_insert :: "('a \<Rightarrow> 'a \<Rightarrow> bool) \<Rightarrow> 'a \<Rightarrow> 'a list \<Rightarrow> 'a list" where
  "go_insert lt x [] = [x]"
| "go_insert lt x (y # ys) = (if lt x y then y # go_insert lt x ys else x # y # ys)"

definition insertion_sort :: "('a \<Rightarrow> 'a \<Rightarrow> bool) \<Rightarrow> 'a list \<Rightarrow> 'a list" where
  "insertion_sort lt xs = rev (foldl (\<lambda>acc x. go_insert lt x acc) [] xs)"

lemma mset_go_insert: "mset (go_insert lt x ys) = add_mset x (mset ys)"
  by (induction ys) auto

lemma mset_foldl_go_insert:
  "mset (foldl (\<lambda>acc x. go_insert lt x acc) acc xs) = mset acc + mset xs"
  by (induction xs arbitrary: acc) (auto simp: mset_go_insert)

lemma mset_insertion_sort: "mset (insertion_sort lt xs) = mset xs"
  by (simp add: insertion_sort_def mset_foldl_go_insert)

text \<open>A \<open>Less\<close> that is a strict weak order makes insertion sort meet the contract.\<close>

locale weak_order =
  fixes lt :: "'a \<Rightarrow> 'a \<Rightarrow> bool"
  assumes less_asym: "lt x y \<Longrightarrow> \<not> lt y x"
    and less_negtrans: "\<not> lt x y \<Longrightarrow> \<not> lt y z \<Longrightarrow> \<not> lt x z"
begin

lemma sorted_go_insert:
  assumes "sorted_wrt (\<lambda>x y. \<not> lt x y) ys"
  shows "sorted_wrt (\<lambda>x y. \<not> lt x y) (go_insert lt x ys)"
  using assms
proof (induction ys)
  case Nil
  then show ?case by simp
next
  case (Cons y ys)
  have st: "set (go_insert lt x ys) = insert x (set ys)"
    by (metis mset_go_insert set_mset_add_mset_insert set_mset_mset)
  show ?case
  proof (cases "lt x y")
    case True
    with Cons st less_asym [OF True] show ?thesis by simp
  next
    case False
    have "\<not> lt x z" if "z \<in> set ys" for z
      using False Cons.prems that less_negtrans [of x y z] by auto
    with False Cons.prems show ?thesis by simp
  qed
qed

lemma sorted_foldl_go_insert:
  "sorted_wrt (\<lambda>x y. \<not> lt x y) acc \<Longrightarrow>
   sorted_wrt (\<lambda>x y. \<not> lt x y) (foldl (\<lambda>acc x. go_insert lt x acc) acc xs)"
  by (induction xs arbitrary: acc) (auto simp: sorted_go_insert)

sublocale isort: go_sort lt "insertion_sort lt"
  by unfold_locales
    (simp_all add: mset_insertion_sort, simp add: insertion_sort_def sorted_wrt_rev sorted_foldl_go_insert)

end

section \<open>sort.Search\<close>

text \<open>The loop of \<open>sort.Search\<close> on the range \<open>[i, j)\<close>.\<close>

function sort_Search_loop :: "(nat \<Rightarrow> bool) \<Rightarrow> nat \<Rightarrow> nat \<Rightarrow> nat" where
  "sort_Search_loop f i j =
     (if i < j then
        (let h = (i + j) div 2 in
         if \<not> f h then sort_Search_loop f (h + 1) j else sort_Search_loop f i h)
      else i)"
  by pat_completeness auto
termination
  by (relation "measure (\<lambda>(f, i, j). j - i)") auto

declare sort_Search_loop.simps [simp del]

definition sort_Search :: "nat \<Rightarrow> (nat \<Rightarrow> bool) \<Rightarrow> nat" where
  "sort_Search n f = sort_Search_loop f 0 n"

lemma sort_Search_loop_spec:
  assumes "i \<le> j"
    and "\<And>a b. a \<le> b \<Longrightarrow> b < n \<Longrightarrow> f a \<Longrightarrow> f b" and "j \<le> n"
    and "\<And>k. k < i \<Longrightarrow> \<not> f k" and "\<And>k. j \<le> k \<Longrightarrow> k < n \<Longrightarrow> f k"
  shows "(let r = sort_Search_loop f i j in
          r \<le> n \<and> (\<forall>k<r. \<not> f k) \<and> (\<forall>k. r \<le> k \<and> k < n \<longrightarrow> f k))"
  using assms
proof (induction f i j rule: sort_Search_loop.induct)
  case (1 f i j)
  show ?case
  proof (cases "i < j")
    case False
    then have "sort_Search_loop f i j = i" by (simp add: sort_Search_loop.simps [of f i j])
    with False "1.prems" show ?thesis by (simp add: Let_def)
  next
    case True
    let ?h = "(i + j) div 2"
    from True have h: "i \<le> ?h" "?h < j" by auto
    show ?thesis
    proof (cases "f ?h")
      case True
      have up: "f k" if "?h \<le> k" "k < n" for k
        using "1.prems"(2) [OF that] True .
      show ?thesis
        using "1.IH"(2) [OF \<open>i < j\<close> refl, of] True h "1.prems" up
        by (simp add: sort_Search_loop.simps [of f i j] Let_def)
    next
      case nf: False
      have down: "\<not> f k" if "k < ?h + 1" for k
        using "1.prems"(2) [of k ?h] nf that h(2) "1.prems"(3) by fastforce
      show ?thesis
        using "1.IH"(1) [OF \<open>i < j\<close> refl nf] h "1.prems" nf down
        by (simp add: sort_Search_loop.simps [of f i j] Let_def)
    qed
  qed
qed

lemma sort_Search_spec:
  assumes "\<And>a b. a \<le> b \<Longrightarrow> b < n \<Longrightarrow> f a \<Longrightarrow> f b"
  shows "sort_Search n f \<le> n"
    and "k < sort_Search n f \<Longrightarrow> \<not> f k"
    and "sort_Search n f \<le> k \<Longrightarrow> k < n \<Longrightarrow> f k"
  using sort_Search_loop_spec [of 0 n n f] assms by (auto simp: sort_Search_def Let_def)

section \<open>Strings\<close>

text \<open>\<open>strings.ToLower\<close> on ASCII text; other bytes are kept.\<close>

definition lower_char :: "char \<Rightarrow> char" where
  "lower_char c =
     (let n = (of_char c :: nat) in if 65 \<le> n \<and> n \<le> 90 then char_of (n + 32) else c)"

definition ToLower :: "string \<Rightarrow> string" where
  "ToLower s = map lower_char s"

text \<open>Decimal digits, for \<open>%d\<close> and \<open>strconv.FormatUint\<close>.\<close>

fun show_nat :: "nat \<Rightarrow> string" where
  "show_nat n =
     (if n < 10 then [char_of (48 + n)] else show_nat (n div 10) @ [char_of (48 + n mod 10)])"

declare show_nat.simps [simp del]

end
