(* ===== verification/MetaTypes.thy ===== *)
theory MetaTypes
  imports Prelude
begin

text \<open>
  The metadata structures of \<open>services/meta/data.go\<close> and the methods that read one
  structure: times and ownership of shards and shard groups, the choice of a shard group
  for a timestamp, durations of retention policies, authorization of a user, and the
  clone methods.  A Go slice is a list (\<open>nil\<close> and the empty slice behave alike in this
  code), a pointer that may be \<open>nil\<close> is an option, and a Go map is an association list
  with distinct keys whose order is one of the iteration orders the language allows.
\<close>

section \<open>Errors\<close>

text \<open>
  The errors of \<open>services/meta/errors.go\<close>, \<open>errors.go\<close> and the messages built in
  \<open>data.go\<close>; errors of the client (\<open>errRedirect\<close>, \<open>errCommand\<close>), of raft and of foreign code
  (\<open>ErrOther\<close>) by their text.  \<open>Panic\<close> stands for a run-time panic, \<open>Blocked\<close> for a call that
  is still waiting.
\<close>

datatype (plugins only: code) meta_error =
    ErrNodeExists
  | ErrNodeNotFound
  | ErrNodesRequired
  | ErrNodeIDRequired
  | ErrNodeUnableToDropFinalNode
  | ErrNodeUnableToDropNode
  | ErrDatabaseExists
  | ErrDatabaseNotExists
  | ErrDatabaseNameRequired
  | ErrDatabaseNotFound string
  | ErrInvalidName
  | ErrRetentionPolicyExists
  | ErrRetentionPolicyNotFound string
  | ErrRetentionPolicyDefault
  | ErrRetentionPolicyRequired
  | ErrRetentionPolicyNameRequired
  | ErrRetentionPolicyNameExists
  | ErrRetentionPolicyDurationTooLow
  | ErrRetentionPolicyConflict
  | ErrIncompatibleDurations
  | ErrReplicationFactorTooLow
  | ErrShardGroupExists
  | ErrShardGroupNotFound
  | ErrShardNotReplicated
  | ErrContinuousQueryExists
  | ErrContinuousQueryNotFound
  | ErrSubscriptionExists
  | ErrSubscriptionNotFound
  | ErrInvalidSubscriptionURL string
  | ErrUserExists
  | ErrUserNotFound
  | ErrUsernameRequired
  | ErrAuthenticate
  | ErrCannotReassignShard u64
  | ErrMoreThanOneMetaNode
  | ErrImportNoDatabase string
  | ErrImportDatabaseExists
  | ErrImportNoRetentionPolicy string string
  | ErrServiceUnavailable
  | ErrRaft string
  | errRedirect string
  | errCommand string
  | ErrOther string
  | Blocked
  | Panic string

section \<open>Structures\<close>

record NodeInfo =
  ni_ID :: u64
  ni_Host :: string
  ni_TCPHost :: string

record ShardOwner =
  so_NodeID :: u64

record ShardInfo =
  si_ID :: u64
  si_Owners :: "ShardOwner list"

record ShardGroupInfo =
  sgi_ID :: u64
  sgi_StartTime :: go_time
  sgi_EndTime :: go_time
  sgi_DeletedAt :: go_time
  sgi_Shards :: "ShardInfo list"
  sgi_TruncatedAt :: go_time

record SubscriptionInfo =
  sub_Name :: string
  sub_Mode :: string
  sub_Destinations :: "string list"

record RetentionPolicyInfo =
  rpi_Name :: string
  rpi_ReplicaN :: int
  rpi_Duration :: duration
  rpi_ShardGroupDuration :: duration
  rpi_ShardGroups :: "ShardGroupInfo list"
  rpi_Subscriptions :: "SubscriptionInfo list"

record RetentionPolicySpec =
  rps_Name :: string
  rps_ReplicaN :: "int option"
  rps_Duration :: "duration option"
  rps_ShardGroupDuration :: duration

record RetentionPolicyUpdate =
  rpu_Name :: "string option"
  rpu_Duration :: "duration option"
  rpu_ReplicaN :: "int option"
  rpu_ShardGroupDuration :: "duration option"

record ContinuousQueryInfo =
  cqi_Name :: string
  cqi_Query :: string

record DatabaseInfo =
  di_Name :: string
  di_DefaultRetentionPolicy :: string
  di_RetentionPolicies :: "RetentionPolicyInfo list"
  di_ContinuousQueries :: "ContinuousQueryInfo list"

text \<open>\<open>type Privilege int\<close> of \<open>services/influxql/ast.go\<close>.\<close>

type_synonym Privilege = int

definition NoPrivileges :: Privilege where "NoPrivileges = 0"
definition ReadPrivilege :: Privilege where "ReadPrivilege = 1"
definition WritePrivilege :: Privilege where "WritePrivilege = 2"
definition AllPrivileges :: Privilege where "AllPrivileges = 3"

record UserInfo =
  ui_Name :: string
  ui_Hash :: string
  ui_Admin :: bool
  ui_Privileges :: "(string \<times> Privilege) list"

record Data =
  Term :: u64
  Index :: u64
  ClusterID :: u64
  MetaNodes :: "NodeInfo list"
  DataNodes :: "NodeInfo list"
  Databases :: "DatabaseInfo list"
  Users :: "UserInfo list"
  adminUserExists :: bool
  MaxNodeID :: u64
  MaxShardGroupID :: u64
  MaxShardID :: u64

text \<open>The zero value \<open>Data{}\<close>.\<close>

definition zero_Data :: Data where
  "zero_Data = \<lparr>Term = 0, Index = 0, ClusterID = 0, MetaNodes = [], DataNodes = [],
     Databases = [], Users = [], adminUserExists = False,
     MaxNodeID = 0, MaxShardGroupID = 0, MaxShardID = 0\<rparr>"

text \<open>All shard groups and all shards of the metadata, in storage order.\<close>

definition groups_of_db :: "DatabaseInfo \<Rightarrow> ShardGroupInfo list" where
  "groups_of_db di = concat (map rpi_ShardGroups (di_RetentionPolicies di))"

definition groups_of :: "Data \<Rightarrow> ShardGroupInfo list" where
  "groups_of d = concat (map groups_of_db (Databases d))"

definition shards_of :: "Data \<Rightarrow> ShardInfo list" where
  "shards_of d = concat (map sgi_Shards (groups_of d))"

section \<open>Sorting\<close>

definition NodeInfos_Less :: "NodeInfo \<Rightarrow> NodeInfo \<Rightarrow> bool" where
  "NodeInfos_Less a b = (ni_ID a < ni_ID b)"

definition Deleted :: "ShardGroupInfo \<Rightarrow> bool" where
  "Deleted sgi = (\<not> IsZero (sgi_DeletedAt sgi))"

definition Truncated :: "ShardGroupInfo \<Rightarrow> bool" where
  "Truncated sgi = (\<not> IsZero (sgi_TruncatedAt sgi))"

definition ShardGroupInfos_Less :: "ShardGroupInfo \<Rightarrow> ShardGroupInfo \<Rightarrow> bool" where
  "ShardGroupInfos_Less a b =
     (let iEnd = (if Truncated a then sgi_TruncatedAt a else sgi_EndTime a);
          jEnd = (if Truncated b then sgi_TruncatedAt b else sgi_EndTime b)
      in if iEnd = jEnd then sgi_StartTime a < sgi_StartTime b else iEnd < jEnd)"

definition sort_NodeInfos :: "NodeInfo list \<Rightarrow> NodeInfo list" where
  "sort_NodeInfos = insertion_sort NodeInfos_Less"

definition sort_ShardGroupInfos :: "ShardGroupInfo list \<Rightarrow> ShardGroupInfo list" where
  "sort_ShardGroupInfos = insertion_sort ShardGroupInfos_Less"

interpretation ni_less: weak_order NodeInfos_Less
  by unfold_locales (auto simp: NodeInfos_Less_def)

interpretation sgi_less: weak_order ShardGroupInfos_Less
  by unfold_locales (auto simp: ShardGroupInfos_Less_def Let_def split: if_splits)

interpretation node_sort: go_sort NodeInfos_Less sort_NodeInfos
  unfolding sort_NodeInfos_def by (rule ni_less.isort.go_sort_axioms)

interpretation sg_sort: go_sort ShardGroupInfos_Less sort_ShardGroupInfos
  unfolding sort_ShardGroupInfos_def by (rule sgi_less.isort.go_sort_axioms)

section \<open>Shards and shard groups\<close>

definition OwnedBy :: "ShardInfo \<Rightarrow> u64 \<Rightarrow> bool" where
  "OwnedBy si nodeID = list_ex (\<lambda>so. so_NodeID so = nodeID) (si_Owners si)"

definition Contains :: "ShardGroupInfo \<Rightarrow> go_time \<Rightarrow> bool" where
  "Contains sgi t = (\<not> t < sgi_StartTime sgi \<and> t < sgi_EndTime sgi)"

definition Overlaps :: "ShardGroupInfo \<Rightarrow> go_time \<Rightarrow> go_time \<Rightarrow> bool" where
  "Overlaps sgi tmin tmax = (\<not> sgi_StartTime sgi > tmax \<and> sgi_EndTime sgi > tmin)"

text \<open>\<open>hash % uint64(len(sgi.Shards))\<close> panics on a group without shards.\<close>

definition ShardFor :: "ShardGroupInfo \<Rightarrow> u64 \<Rightarrow> meta_error + ShardInfo" where
  "ShardFor sgi hash =
     (let n = length (sgi_Shards sgi) in
      if n = 0 then Inl (Panic ''integer divide by zero'')
      else Inr (sgi_Shards sgi ! (unat hash mod n)))"

section \<open>Retention policies\<close>

definition MinRetentionPolicyDuration :: duration where
  "MinRetentionPolicyDuration = Hour"

definition DefaultRetentionPolicyName :: string where
  "DefaultRetentionPolicyName = ''autogen''"

definition DefaultRetentionPolicyReplicaN :: int where
  "DefaultRetentionPolicyReplicaN = 1"

definition DefaultRetentionPolicyDuration :: duration where
  "DefaultRetentionPolicyDuration = 0"

definition shardGroupDuration :: "duration \<Rightarrow> duration" where
  "shardGroupDuration d =
     (if d \<ge> 180 * 24 * Hour \<or> d = 0 then 7 * 24 * Hour
      else if d \<ge> 2 * 24 * Hour then 1 * 24 * Hour
      else 1 * Hour)"

definition normalisedShardDuration :: "duration \<Rightarrow> duration \<Rightarrow> duration" where
  "normalisedShardDuration sgd d =
     (if sgd = 0 then shardGroupDuration d
      else if sgd < MinRetentionPolicyDuration then shardGroupDuration MinRetentionPolicyDuration
      else sgd)"

definition NewRetentionPolicyInfo :: "string \<Rightarrow> RetentionPolicyInfo" where
  "NewRetentionPolicyInfo name =
     \<lparr>rpi_Name = name, rpi_ReplicaN = DefaultRetentionPolicyReplicaN,
      rpi_Duration = DefaultRetentionPolicyDuration, rpi_ShardGroupDuration = 0,
      rpi_ShardGroups = [], rpi_Subscriptions = []\<rparr>"

definition DefaultRetentionPolicyInfo :: RetentionPolicyInfo where
  "DefaultRetentionPolicyInfo = NewRetentionPolicyInfo DefaultRetentionPolicyName"

definition rpi_Apply :: "RetentionPolicyInfo \<Rightarrow> RetentionPolicySpec \<Rightarrow> RetentionPolicyInfo" where
  "rpi_Apply rpi spec =
     (let name = (if rps_Name spec \<noteq> '''' then rps_Name spec else rpi_Name rpi);
          replicaN = (case rps_ReplicaN spec of Some n \<Rightarrow> n | None \<Rightarrow> rpi_ReplicaN rpi);
          dur = (case rps_Duration spec of Some d \<Rightarrow> d | None \<Rightarrow> rpi_Duration rpi)
      in \<lparr>rpi_Name = name, rpi_ReplicaN = replicaN, rpi_Duration = dur,
          rpi_ShardGroupDuration = normalisedShardDuration (rps_ShardGroupDuration spec) dur,
          rpi_ShardGroups = [], rpi_Subscriptions = []\<rparr>)"

definition spec_NewRetentionPolicyInfo :: "RetentionPolicySpec \<Rightarrow> RetentionPolicyInfo" where
  "spec_NewRetentionPolicyInfo s = rpi_Apply DefaultRetentionPolicyInfo s"

definition spec_Matches :: "RetentionPolicySpec \<Rightarrow> RetentionPolicyInfo option \<Rightarrow> bool" where
  "spec_Matches s rp =
     (case rp of
        None \<Rightarrow> False
      | Some rpi \<Rightarrow>
          if rps_Name s \<noteq> '''' \<and> rps_Name s \<noteq> rpi_Name rpi then False
          else if rps_Duration s \<noteq> None \<and> rps_Duration s \<noteq> Some (rpi_Duration rpi) then False
          else if rps_ReplicaN s \<noteq> None \<and> rps_ReplicaN s \<noteq> Some (rpi_ReplicaN rpi) then False
          else normalisedShardDuration (rps_ShardGroupDuration s) (rpi_Duration rpi)
                 = rpi_ShardGroupDuration rpi)"

text \<open>The condition under which a shard group takes writes at a timestamp.\<close>

definition accepts :: "ShardGroupInfo \<Rightarrow> go_time \<Rightarrow> bool" where
  "accepts sgi timestamp =
     (Contains sgi timestamp \<and> \<not> Deleted sgi \<and>
      (\<not> Truncated sgi \<or> timestamp < sgi_TruncatedAt sgi))"

definition rpi_ShardGroupByTimestamp ::
    "RetentionPolicyInfo \<Rightarrow> go_time \<Rightarrow> ShardGroupInfo option" where
  "rpi_ShardGroupByTimestamp rpi timestamp =
     find (\<lambda>sgi. accepts sgi timestamp) (rpi_ShardGroups rpi)"

definition ExpiredShardGroups :: "RetentionPolicyInfo \<Rightarrow> go_time \<Rightarrow> ShardGroupInfo list" where
  "ExpiredShardGroups rpi t =
     filter (\<lambda>sgi. \<not> Deleted sgi \<and> rpi_Duration rpi \<noteq> 0 \<and>
                   sgi_EndTime sgi + rpi_Duration rpi < t)
            (rpi_ShardGroups rpi)"

definition DeletedShardGroups :: "RetentionPolicyInfo \<Rightarrow> ShardGroupInfo list" where
  "DeletedShardGroups rpi = filter Deleted (rpi_ShardGroups rpi)"

text \<open>\<open>DatabaseInfo.RetentionPolicy\<close>: the empty name stands for the default policy.\<close>

definition di_RetentionPolicy_name :: "DatabaseInfo \<Rightarrow> string \<Rightarrow> string option" where
  "di_RetentionPolicy_name di name =
     (if name = '''' then
        (if di_DefaultRetentionPolicy di = '''' then None
         else Some (di_DefaultRetentionPolicy di))
      else Some name)"

definition di_RetentionPolicy :: "DatabaseInfo \<Rightarrow> string \<Rightarrow> RetentionPolicyInfo option" where
  "di_RetentionPolicy di name =
     (case di_RetentionPolicy_name di name of
        None \<Rightarrow> None
      | Some n \<Rightarrow> find (\<lambda>rp. rpi_Name rp = n) (di_RetentionPolicies di))"

section \<open>Users\<close>

definition AuthorizeDatabase :: "UserInfo \<Rightarrow> Privilege \<Rightarrow> string \<Rightarrow> bool" where
  "AuthorizeDatabase ui privilege database =
     (if ui_Admin ui \<or> privilege = NoPrivileges then True
      else case map_of (ui_Privileges ui) database of
             None \<Rightarrow> False
           | Some p \<Rightarrow> p = privilege \<or> p = AllPrivileges)"

definition AuthorizeUnrestricted :: "UserInfo \<Rightarrow> bool" where
  "AuthorizeUnrestricted u = ui_Admin u"

section \<open>Clones\<close>

definition ShardInfo_clone :: "ShardInfo \<Rightarrow> ShardInfo" where
  "ShardInfo_clone si = si\<lparr>si_Owners := map (\<lambda>so. so) (si_Owners si)\<rparr>"

definition ShardGroupInfo_clone :: "ShardGroupInfo \<Rightarrow> ShardGroupInfo" where
  "ShardGroupInfo_clone sgi = sgi\<lparr>sgi_Shards := map ShardInfo_clone (sgi_Shards sgi)\<rparr>"

definition RetentionPolicyInfo_clone :: "RetentionPolicyInfo \<Rightarrow> RetentionPolicyInfo" where
  "RetentionPolicyInfo_clone rpi =
     rpi\<lparr>rpi_ShardGroups := map ShardGroupInfo_clone (rpi_ShardGroups rpi)\<rparr>"

definition DatabaseInfo_clone :: "DatabaseInfo \<Rightarrow> DatabaseInfo" where
  "DatabaseInfo_clone di =
     di\<lparr>di_RetentionPolicies := map RetentionPolicyInfo_clone (di_RetentionPolicies di),
        di_ContinuousQueries := map (\<lambda>cqi. cqi) (di_ContinuousQueries di)\<rparr>"

definition UserInfo_clone :: "UserInfo \<Rightarrow> UserInfo" where
  "UserInfo_clone ui =
     ui\<lparr>ui_Privileges := foldl (\<lambda>m (k, v). m @ [(k, v)]) [] (ui_Privileges ui)\<rparr>"

definition CloneDatabases :: "Data \<Rightarrow> DatabaseInfo list" where
  "CloneDatabases data = map DatabaseInfo_clone (Databases data)"

definition CloneUsers :: "Data \<Rightarrow> UserInfo list" where
  "CloneUsers data = (if length (Users data) = 0 then [] else map UserInfo_clone (Users data))"

definition Clone :: "Data \<Rightarrow> Data" where
  "Clone data = data\<lparr>Databases := CloneDatabases data, Users := CloneUsers data\<rparr>"

lemma foldl_snoc_pairs: "foldl (\<lambda>m (k, v). m @ [(k, v)]) acc xs = acc @ xs"
  by (induction xs arbitrary: acc) auto

lemma ShardInfo_clone_id [simp]: "ShardInfo_clone = id"
  by (rule ext) (simp add: ShardInfo_clone_def)

lemma ShardGroupInfo_clone_id [simp]: "ShardGroupInfo_clone = id"
  by (rule ext) (simp add: ShardGroupInfo_clone_def)

lemma RetentionPolicyInfo_clone_id [simp]: "RetentionPolicyInfo_clone = id"
  by (rule ext) (simp add: RetentionPolicyInfo_clone_def)

lemma DatabaseInfo_clone_id [simp]: "DatabaseInfo_clone = id"
  by (rule ext) (simp add: DatabaseInfo_clone_def)

lemma UserInfo_clone_id [simp]: "UserInfo_clone = id"
  by (rule ext) (simp add: UserInfo_clone_def foldl_snoc_pairs)

lemma Clone_id [simp]: "Clone data = data"
  by (simp add: Clone_def CloneDatabases_def CloneUsers_def)

section \<open>Lemmas on durations and shard groups\<close>

lemma Hour_pos [simp]: "0 < Hour"
  by (simp add: go_time_defs)

lemma normalisedShardDuration_ge: "Hour \<le> normalisedShardDuration sgd d"
  by (auto simp: normalisedShardDuration_def shardGroupDuration_def
      MinRetentionPolicyDuration_def go_time_defs)

lemma normalisedShardDuration_idem:
  "normalisedShardDuration (normalisedShardDuration sgd d) d' = normalisedShardDuration sgd d"
proof -
  have "normalisedShardDuration sgd d \<noteq> 0"
    using normalisedShardDuration_ge [of sgd d] Hour_pos by linarith
  with normalisedShardDuration_ge [of sgd d] show ?thesis
    by (simp add: normalisedShardDuration_def [of "normalisedShardDuration sgd d" d']
        MinRetentionPolicyDuration_def)
qed

lemma ShardFor_ok:
  "sgi_Shards sgi \<noteq> [] \<Longrightarrow> \<exists>sh \<in> set (sgi_Shards sgi). ShardFor sgi hash = Inr sh"
  by (auto simp: ShardFor_def Let_def)

lemma rpi_ShardGroupByTimestamp_Some:
  "rpi_ShardGroupByTimestamp rpi t = Some sgi \<Longrightarrow> sgi \<in> set (rpi_ShardGroups rpi) \<and> accepts sgi t"
  unfolding rpi_ShardGroupByTimestamp_def by (rule find_SomeD)

end
