(* ===== verification/MetaNodes.thy ===== *)
theory MetaNodes
  imports MetaTypes
begin

text \<open>
  The node operations of \<open>Data\<close> (\<open>services/meta/data.go\<close>): data nodes, meta nodes, and
  the removal of a data node with the reassignment of the shards it leaves without an
  owner.  An operation returns the error, if any, and the receiver as it is left.
\<close>

type_synonym result = "meta_error option \<times> Data"

section \<open>Data nodes\<close>

definition DataNode :: "Data \<Rightarrow> u64 \<Rightarrow> NodeInfo option" where
  "DataNode data nid = find (\<lambda>n. ni_ID n = nid) (DataNodes data)"

text \<open>
  The node ID an address already has among \<open>nodes\<close>, or the next unused one, with the
  updated \<open>MaxNodeID\<close>.
\<close>

definition node_id_for :: "NodeInfo list \<Rightarrow> string \<Rightarrow> u64 \<Rightarrow> u64 \<times> u64" where
  "node_id_for nodes tcp maxID =
     (let existingID = (case find (\<lambda>n. ni_TCPHost n = tcp) nodes of
                          Some n \<Rightarrow> ni_ID n | None \<Rightarrow> 0)
      in if existingID = 0 then (maxID + 1, maxID + 1) else (existingID, maxID))"

definition CreateDataNode :: "string \<Rightarrow> string \<Rightarrow> Data \<Rightarrow> result" where
  "CreateDataNode host tcpHost data =
     (if list_ex (\<lambda>n. ni_TCPHost n = tcpHost) (DataNodes data) then (Some ErrNodeExists, data)
      else
        (let (existingID, maxID) = node_id_for (MetaNodes data) tcpHost (MaxNodeID data)
         in (None, data\<lparr>MaxNodeID := maxID,
               DataNodes := sort_NodeInfos (DataNodes data @
                 [\<lparr>ni_ID = existingID, ni_Host = host, ni_TCPHost = tcpHost\<rparr>])\<rparr>)))"

definition setDataNode :: "u64 \<Rightarrow> string \<Rightarrow> string \<Rightarrow> Data \<Rightarrow> result" where
  "setDataNode nodeID host tcpHost data =
     (if list_ex (\<lambda>n. ni_Host n = host) (DataNodes data) then (Some ErrNodeExists, data)
      else (None, data\<lparr>DataNodes := DataNodes data @
              [\<lparr>ni_ID = nodeID, ni_Host = host, ni_TCPHost = tcpHost\<rparr>]\<rparr>))"

section \<open>Removing a data node\<close>

text \<open>
  \<open>nodeOwnerFreqs\<close> is a \<open>map[int]int\<close>, keyed by \<open>int(owner.NodeID)\<close>.  Go iterates a
  map in an unspecified order; \<open>rng\<close> is the order in which \<open>newShardOwner\<close> sees it.
\<close>

type_synonym freqs = "(int \<times> int) list"

fun freq_incr :: "int \<Rightarrow> freqs \<Rightarrow> freqs" where
  "freq_incr k [] = [(k, 1)]"
| "freq_incr k ((k', n) # m) = (if k = k' then (k', n + 1) # m else (k', n) # freq_incr k m)"

definition owner_freqs :: "ShardInfo list \<Rightarrow> freqs" where
  "owner_freqs shards =
     foldl (\<lambda>m s. foldl (\<lambda>m ow. freq_incr (sint (so_NodeID ow)) m) m (si_Owners s)) [] shards"

definition min_freq_step :: "int \<times> int \<Rightarrow> int \<times> int \<Rightarrow> int \<times> int" where
  "min_freq_step acc kv =
     (let (minId, minFreq) = acc; (nid, freq) = kv
      in if minId = - 1 \<or> freq < minFreq then (nid, freq) else (minId, minFreq))"

definition newShardOwner ::
    "(freqs \<Rightarrow> freqs) \<Rightarrow> ShardInfo \<Rightarrow> freqs \<Rightarrow> meta_error + u64 \<times> freqs" where
  "newShardOwner rng s ownerFreqs =
     (let minId = fst (foldl min_freq_step (- 1, 0) (rng ownerFreqs))
      in if minId < 0 then Inl (ErrCannotReassignShard (si_ID s))
         else Inr (word_of_int minId, freq_incr minId ownerFreqs))"

text \<open>
  The last owner entry equal to \<open>nid\<close> is dropped (\<open>nodeIdx\<close> is overwritten by every
  match), if there is one.
\<close>

definition relinquish :: "u64 \<Rightarrow> ShardInfo \<Rightarrow> ShardInfo" where
  "relinquish nid s =
     s\<lparr>si_Owners := rev (remove_first (\<lambda>ow. so_NodeID ow = nid) (rev (si_Owners s)))\<rparr>"

fun reassign ::
    "(freqs \<Rightarrow> freqs) \<Rightarrow> ShardInfo list \<Rightarrow> ShardInfo list \<Rightarrow> freqs \<Rightarrow>
     meta_error option \<times> ShardInfo list" where
  "reassign rng [] shards fr = (None, shards)"
| "reassign rng (orphan # rest) shards fr =
     (case newShardOwner rng orphan fr of
        Inl e \<Rightarrow> (Some e, shards)
      | Inr (newOwnerID, fr') \<Rightarrow>
          reassign rng rest
            (update_first (\<lambda>s. si_ID s = si_ID orphan)
               (\<lambda>s. s\<lparr>si_Owners := si_Owners s @ [\<lparr>so_NodeID = newOwnerID\<rparr>]\<rparr>) shards)
            fr')"

text \<open>The body of the loop over the shard groups of \<open>DeleteDataNode\<close>.\<close>

definition delete_node_group ::
    "go_time \<Rightarrow> (freqs \<Rightarrow> freqs) \<Rightarrow> u64 \<Rightarrow> ShardGroupInfo \<Rightarrow>
     meta_error option \<times> ShardGroupInfo" where
  "delete_node_group now rng nid sg =
     (let shards = map (relinquish nid) (sgi_Shards sg);
          orphanedShards = filter (\<lambda>s. length (si_Owners s) = 0) shards
      in if length (sgi_Shards sg) = 0 \<or> length orphanedShards = length (sgi_Shards sg)
         then (None, sg\<lparr>sgi_Shards := shards, sgi_DeletedAt := now\<rparr>)
         else
           (let fr = filter (\<lambda>(k, _). k \<noteq> sint nid) (owner_freqs (sgi_Shards sg));
                (e, shards') = reassign rng orphanedShards shards fr
            in (e, sg\<lparr>sgi_Shards := shards'\<rparr>)))"

definition DeleteDataNode :: "go_time \<Rightarrow> (freqs \<Rightarrow> freqs) \<Rightarrow> u64 \<Rightarrow> Data \<Rightarrow> result" where
  "DeleteDataNode now rng nid data =
     (let nodes = filter (\<lambda>n. ni_ID n \<noteq> nid) (DataNodes data)
      in if length nodes = length (DataNodes data) then (Some ErrNodeNotFound, data)
         else
           (let (e, dbs) =
              map_until (\<lambda>d.
                let (e, rps) = map_until (\<lambda>rp.
                      let (e, sgs) = map_until (delete_node_group now rng nid) (rpi_ShardGroups rp)
                      in (e, rp\<lparr>rpi_ShardGroups := sgs\<rparr>)) (di_RetentionPolicies d)
                in (e, d\<lparr>di_RetentionPolicies := rps\<rparr>)) (Databases data)
            in (e, data\<lparr>DataNodes := nodes, Databases := dbs\<rparr>)))"

section \<open>Meta nodes\<close>

definition MetaNode :: "Data \<Rightarrow> u64 \<Rightarrow> NodeInfo option" where
  "MetaNode data nid = find (\<lambda>n. ni_ID n = nid) (MetaNodes data)"

definition CreateMetaNode :: "string \<Rightarrow> string \<Rightarrow> Data \<Rightarrow> result" where
  "CreateMetaNode httpAddr tcpAddr data =
     (if list_ex (\<lambda>n. ni_Host n = httpAddr) (MetaNodes data) then (Some ErrNodeExists, data)
      else
        (let (existingID, maxID) = node_id_for (DataNodes data) tcpAddr (MaxNodeID data)
         in (None, data\<lparr>MaxNodeID := maxID,
               MetaNodes := sort_NodeInfos (MetaNodes data @
                 [\<lparr>ni_ID = existingID, ni_Host = httpAddr, ni_TCPHost = tcpAddr\<rparr>])\<rparr>)))"

definition SetMetaNode :: "string \<Rightarrow> string \<Rightarrow> Data \<Rightarrow> result" where
  "SetMetaNode httpAddr tcpAddr data =
     (case MetaNodes data of
        [] \<Rightarrow> CreateMetaNode httpAddr tcpAddr data
      | [n] \<Rightarrow> (None, data\<lparr>MetaNodes := [n\<lparr>ni_Host := httpAddr, ni_TCPHost := tcpAddr\<rparr>]\<rparr>)
      | _ \<Rightarrow> (Some ErrMoreThanOneMetaNode, data))"

definition DeleteMetaNode :: "u64 \<Rightarrow> Data \<Rightarrow> result" where
  "DeleteMetaNode nid data =
     (if nid = 0 then (Some ErrNodeIDRequired, data)
      else
        (let nodes = filter (\<lambda>n. ni_ID n \<noteq> nid) (MetaNodes data)
         in if length nodes = length (MetaNodes data) then (Some ErrNodeNotFound, data)
            else (None, data\<lparr>MetaNodes := nodes\<rparr>)))"

section \<open>Node invariant\<close>

text \<open>
  Node IDs are positive and bounded by \<open>MaxNodeID\<close>, a data node is identified by its ID
  and by its TCP address, and two nodes with one ID have one TCP address.
\<close>

definition ids_agree :: "NodeInfo set \<Rightarrow> bool" where
  "ids_agree S \<longleftrightarrow>
     (\<forall>m \<in> S. \<forall>n \<in> S. ni_ID m = ni_ID n \<longrightarrow> ni_TCPHost m = ni_TCPHost n)"

definition node_inv :: "Data \<Rightarrow> bool" where
  "node_inv d \<longleftrightarrow>
     (\<forall>n \<in> set (DataNodes d) \<union> set (MetaNodes d). ni_ID n \<noteq> 0 \<and> ni_ID n \<le> MaxNodeID d) \<and>
     distinct (map ni_ID (DataNodes d)) \<and>
     distinct (map ni_TCPHost (DataNodes d)) \<and>
     distinct (map ni_Host (MetaNodes d)) \<and>
     ids_agree (set (DataNodes d) \<union> set (MetaNodes d))"

lemma ids_agree_empty [simp]: "ids_agree {}"
  by (simp add: ids_agree_def)

lemma ids_agree_insert:
  "ids_agree (insert x S) \<longleftrightarrow>
     ids_agree S \<and> (\<forall>n \<in> S. ni_ID n = ni_ID x \<longrightarrow> ni_TCPHost n = ni_TCPHost x)"
  unfolding ids_agree_def by (metis insert_iff)

lemma ids_agree_subset: "ids_agree S \<Longrightarrow> T \<subseteq> S \<Longrightarrow> ids_agree T"
  unfolding ids_agree_def by blast

lemma word_less_incr:
  fixes x y :: u64
  assumes "x < - 1" "y \<le> x"
  shows "y < x + 1"
  using assms by unat_arith

lemma node_inv_zero: "node_inv zero_Data"
  by (simp add: node_inv_def zero_Data_def)

lemma node_id_for_cases:
  assumes "node_id_for nodes tcp m = (i, m')" "\<forall>n \<in> set nodes. ni_ID n \<noteq> 0"
  obtains n where "n \<in> set nodes" "ni_TCPHost n = tcp" "i = ni_ID n" "m' = m"
    | "\<forall>n \<in> set nodes. ni_TCPHost n \<noteq> tcp" "i = m + 1" "m' = m + 1"
proof (cases "find (\<lambda>n. ni_TCPHost n = tcp) nodes")
  case None
  with assms(1) show ?thesis
    by (intro that(2)) (auto simp: node_id_for_def find_None_iff)
next
  case (Some n)
  then have "n \<in> set nodes" "ni_TCPHost n = tcp" by (auto dest: find_SomeD)
  with assms Some show ?thesis
    by (intro that(1) [of n]) (auto simp: node_id_for_def)
qed

lemmas node_sort_simps [simp] = node_sort.sort_set node_sort.sort_distinct_map node_sort.sort_length

lemma node_inv_add_data:
  assumes inv: "node_inv d" and i: "i \<noteq> 0" "i \<le> m" "MaxNodeID d \<le> m"
    and new: "\<And>n. n \<in> set (DataNodes d) \<Longrightarrow> ni_ID n \<noteq> i \<and> ni_TCPHost n \<noteq> tcp"
    and same: "\<And>n. n \<in> set (MetaNodes d) \<Longrightarrow> ni_ID n = i \<Longrightarrow> ni_TCPHost n = tcp"
  shows "node_inv (d\<lparr>MaxNodeID := m, DataNodes := sort_NodeInfos (DataNodes d @
           [\<lparr>ni_ID = i, ni_Host = host, ni_TCPHost = tcp\<rparr>])\<rparr>)"
proof -
  have "ni_ID n \<le> m" if "n \<in> set (DataNodes d) \<union> set (MetaNodes d)" for n
    using inv that i(3) by (auto simp: node_inv_def intro: order_trans)
  moreover have "ni_ID n = i \<longrightarrow> ni_TCPHost n = tcp" if "n \<in> set (DataNodes d) \<union> set (MetaNodes d)" for n
    using that new same by blast
  moreover have "i \<notin> ni_ID ` set (DataNodes d)" "tcp \<notin> ni_TCPHost ` set (DataNodes d)"
    using new by blast+
  ultimately show ?thesis
    using inv i(1,2) by (simp add: node_inv_def ids_agree_insert)
qed

lemma node_inv_add_meta:
  assumes inv: "node_inv d" and i: "i \<noteq> 0" "i \<le> m" "MaxNodeID d \<le> m"
    and new: "\<And>n. n \<in> set (MetaNodes d) \<Longrightarrow> ni_Host n \<noteq> host"
    and same: "\<And>n. n \<in> set (DataNodes d) \<union> set (MetaNodes d) \<Longrightarrow> ni_ID n = i \<Longrightarrow> ni_TCPHost n = tcp"
  shows "node_inv (d\<lparr>MaxNodeID := m, MetaNodes := sort_NodeInfos (MetaNodes d @
           [\<lparr>ni_ID = i, ni_Host = host, ni_TCPHost = tcp\<rparr>])\<rparr>)"
proof -
  have "ni_ID n \<le> m" if "n \<in> set (DataNodes d) \<union> set (MetaNodes d)" for n
    using inv that i(3) by (auto simp: node_inv_def intro: order_trans)
  moreover have "host \<notin> ni_Host ` set (MetaNodes d)"
    using new by blast
  ultimately show ?thesis
    using inv i(1,2) same by (simp add: node_inv_def ids_agree_insert)
qed

lemma node_inv_fresh:
  assumes inv: "node_inv d" and max: "MaxNodeID d < - 1"
    and n: "n \<in> set (DataNodes d) \<union> set (MetaNodes d)"
  shows "ni_ID n \<noteq> MaxNodeID d + 1"
  using word_less_incr [OF max, of "ni_ID n"] inv n by (auto simp: node_inv_def)

lemma node_inv_same_id:
  assumes "node_inv d" "m \<in> set (DataNodes d) \<union> set (MetaNodes d)"
    "n \<in> set (DataNodes d) \<union> set (MetaNodes d)" "ni_ID m = ni_ID n"
  shows "ni_TCPHost m = ni_TCPHost n"
  using assms unfolding node_inv_def ids_agree_def by blast

lemma MaxNodeID_incr:
  assumes "MaxNodeID d < - 1"
  shows "MaxNodeID d \<le> MaxNodeID d + 1" "MaxNodeID d + 1 \<noteq> 0"
  using word_less_incr [OF assms, of "MaxNodeID d"] by auto

lemma CreateDataNode_inv:
  assumes inv: "node_inv d" and max: "MaxNodeID d < - 1"
    and ok: "CreateDataNode host tcp d = (None, d')"
  shows "node_inv d'"
proof -
  obtain i m where im: "node_id_for (MetaNodes d) tcp (MaxNodeID d) = (i, m)" by fastforce
  have d': "d' = d\<lparr>MaxNodeID := m, DataNodes := sort_NodeInfos (DataNodes d @
                 [\<lparr>ni_ID = i, ni_Host = host, ni_TCPHost = tcp\<rparr>])\<rparr>"
    and fresh: "\<And>n. n \<in> set (DataNodes d) \<Longrightarrow> ni_TCPHost n \<noteq> tcp"
    using ok im by (auto simp: CreateDataNode_def list_ex_iff split: if_splits)
  have "\<forall>n \<in> set (MetaNodes d). ni_ID n \<noteq> 0" using inv by (auto simp: node_inv_def)
  with im show ?thesis unfolding d'
  proof (cases rule: node_id_for_cases)
    case (1 n)
    have "ni_TCPHost x = tcp" if "x \<in> set (DataNodes d) \<union> set (MetaNodes d)" "ni_ID x = i" for x
      using node_inv_same_id [OF inv, of x n] that 1 by auto
    moreover have "i \<noteq> 0" "i \<le> MaxNodeID d" using inv 1 by (auto simp: node_inv_def)
    ultimately show "node_inv (d\<lparr>MaxNodeID := m, DataNodes := sort_NodeInfos (DataNodes d @
        [\<lparr>ni_ID = i, ni_Host = host, ni_TCPHost = tcp\<rparr>])\<rparr>)"
      using fresh 1(4) by (intro node_inv_add_data [OF inv]) auto
  next
    case 2
    with fresh show "node_inv (d\<lparr>MaxNodeID := m, DataNodes := sort_NodeInfos (DataNodes d @
        [\<lparr>ni_ID = i, ni_Host = host, ni_TCPHost = tcp\<rparr>])\<rparr>)"
      using node_inv_fresh [OF inv max] MaxNodeID_incr [OF max]
      by (intro node_inv_add_data [OF inv]) auto
  qed
qed

lemma CreateMetaNode_inv:
  assumes inv: "node_inv d" and max: "MaxNodeID d < - 1"
    and ok: "CreateMetaNode host tcp d = (None, d')"
  shows "node_inv d'"
proof -
  obtain i m where im: "node_id_for (DataNodes d) tcp (MaxNodeID d) = (i, m)" by fastforce
  have d': "d' = d\<lparr>MaxNodeID := m, MetaNodes := sort_NodeInfos (MetaNodes d @
                 [\<lparr>ni_ID = i, ni_Host = host, ni_TCPHost = tcp\<rparr>])\<rparr>"
    and fresh: "\<And>n. n \<in> set (MetaNodes d) \<Longrightarrow> ni_Host n \<noteq> host"
    using ok im by (auto simp: CreateMetaNode_def list_ex_iff split: if_splits)
  have "\<forall>n \<in> set (DataNodes d). ni_ID n \<noteq> 0" using inv by (auto simp: node_inv_def)
  with im show ?thesis unfolding d'
  proof (cases rule: node_id_for_cases)
    case (1 n)
    have "ni_TCPHost x = tcp" if "x \<in> set (DataNodes d) \<union> set (MetaNodes d)" "ni_ID x = i" for x
      using node_inv_same_id [OF inv, of x n] that 1 by auto
    moreover have "i \<noteq> 0" "i \<le> MaxNodeID d" using inv 1 by (auto simp: node_inv_def)
    ultimately show "node_inv (d\<lparr>MaxNodeID := m, MetaNodes := sort_NodeInfos (MetaNodes d @
        [\<lparr>ni_ID = i, ni_Host = host, ni_TCPHost = tcp\<rparr>])\<rparr>)"
      using fresh 1(4) by (intro node_inv_add_meta [OF inv]) auto
  next
    case 2
    with fresh show "node_inv (d\<lparr>MaxNodeID := m, MetaNodes := sort_NodeInfos (MetaNodes d @
        [\<lparr>ni_ID = i, ni_Host = host, ni_TCPHost = tcp\<rparr>])\<rparr>)"
      using node_inv_fresh [OF inv max] MaxNodeID_incr [OF max]
      by (intro node_inv_add_meta [OF inv]) auto
  qed
qed

lemma node_inv_subset:
  assumes "node_inv d" "DataNodes d' = filter P (DataNodes d)" "MetaNodes d' = filter Q (MetaNodes d)"
    "MaxNodeID d' = MaxNodeID d"
  shows "node_inv d'"
  using assms
  by (auto simp: node_inv_def distinct_map_filter elim!: ids_agree_subset)

section \<open>Correctness of the removal of a data node\<close>

lemma keys_freq_incr: "fst ` set (freq_incr k m) = insert k (fst ` set m)"
  by (induction k m rule: freq_incr.induct) auto

lemma keys_owner_freqs_owners:
  "fst ` set (foldl (\<lambda>m ow. freq_incr (sint (so_NodeID ow)) m) m os)
     = fst ` set m \<union> (\<lambda>ow. sint (so_NodeID ow)) ` set os"
  by (induction os arbitrary: m) (auto simp: keys_freq_incr)

lemma keys_owner_freqs:
  "fst ` set (owner_freqs shards) = (\<Union>s \<in> set shards. (\<lambda>ow. sint (so_NodeID ow)) ` set (si_Owners s))"
proof -
  have "fst ` set (foldl (\<lambda>m s. foldl (\<lambda>m ow. freq_incr (sint (so_NodeID ow)) m) m (si_Owners s)) m shards)
      = fst ` set m \<union> (\<Union>s \<in> set shards. (\<lambda>ow. sint (so_NodeID ow)) ` set (si_Owners s))" for m
    by (induction shards arbitrary: m) (auto simp: keys_owner_freqs_owners)
  from this [of "[]"] show ?thesis by (simp add: owner_freqs_def)
qed

lemma min_freq_fold:
  assumes "\<forall>kv \<in> set xs. 0 \<le> fst kv" "0 \<le> fst acc"
  shows "foldl min_freq_step acc xs \<in> insert acc (set xs) \<and>
    (\<forall>kv \<in> insert acc (set xs). snd (foldl min_freq_step acc xs) \<le> snd kv)"
  using assms
proof (induction xs arbitrary: acc)
  case (Cons x xs)
  define a where "a = min_freq_step acc x"
  have "a = acc \<and> snd acc \<le> snd x \<or> a = x \<and> snd x < snd acc"
    using Cons.prems by (auto simp: a_def min_freq_step_def split: prod.splits)
  with Cons.IH [of a] Cons.prems show ?case
    by (auto simp: a_def [symmetric])
qed simp

lemma newShardOwner_ok:
  assumes perm: "set (rng m) = set m" and ne: "m \<noteq> []" and pos: "\<forall>kv \<in> set m. 0 \<le> fst kv"
  obtains k f where "(k, f) \<in> set m" "\<forall>kv \<in> set m. f \<le> snd kv"
    "newShardOwner rng s m = Inr (word_of_int k, freq_incr k m)"
proof -
  from perm ne obtain x xs where x: "rng m = x # xs"
    by (metis list.exhaust set_empty)
  define r where "r = foldl min_freq_step x xs"
  have first: "foldl min_freq_step (- 1, 0) (rng m) = r"
    by (simp add: x r_def min_freq_step_def split: prod.splits)
  from perm x have sx: "insert x (set xs) = set m" by auto
  with min_freq_fold [of xs x] pos have r: "r \<in> set m" "\<forall>kv \<in> set m. snd r \<le> snd kv"
    by (auto simp: r_def)
  with pos have "0 \<le> fst r" by auto
  with r first show ?thesis
    by (intro that [of "fst r" "snd r"]) (simp_all add: newShardOwner_def Let_def)
qed

text \<open>What \<open>reassign\<close> does to one shard: new owners, taken from \<open>W\<close>, are appended.\<close>

definition extends :: "u64 set \<Rightarrow> ShardInfo \<Rightarrow> ShardInfo \<Rightarrow> bool" where
  "extends W s s' \<longleftrightarrow> si_ID s' = si_ID s \<and>
     (\<exists>ext. si_Owners s' = si_Owners s @ ext \<and> so_NodeID ` set ext \<subseteq> W)"

lemma extends_refl: "extends W s s"
  by (auto simp: extends_def)

lemma extends_trans:
  assumes "extends W a b" "extends W b c"
  shows "extends W a c"
proof -
  from assms obtain e1 e2 where "si_Owners b = si_Owners a @ e1" "so_NodeID ` set e1 \<subseteq> W"
    "si_Owners c = si_Owners b @ e2" "so_NodeID ` set e2 \<subseteq> W"
    by (auto simp: extends_def)
  with assms show ?thesis
    unfolding extends_def by (intro conjI exI [of _ "e1 @ e2"]) (auto simp: extends_def)
qed

lemma extends_nonempty: "extends W s s' \<Longrightarrow> si_Owners s \<noteq> [] \<Longrightarrow> si_Owners s' \<noteq> []"
  by (auto simp: extends_def)

lemma list_all2_trans_extends:
  "list_all2 (extends W) xs ys \<Longrightarrow> list_all2 (extends W) ys zs \<Longrightarrow> list_all2 (extends W) xs zs"
  by (rule list_all2_trans [where ?P1.0 = "extends W" and ?P2.0 = "extends W"])
    (auto intro: extends_trans)

lemma update_first_extends:
  assumes "\<And>s. P s \<Longrightarrow> extends W s (f s)"
  shows "list_all2 (extends W) xs (update_first P f xs)"
  using assms by (induction xs) (auto simp: list_all2_same extends_refl)

lemma map_si_ID_extends: "list_all2 (extends W) xs ys \<Longrightarrow> map si_ID ys = map si_ID xs"
  by (induction rule: list_all2_induct) (auto simp: extends_def)

lemma reassign_ok:
  assumes "fr \<noteq> []" "\<forall>kv \<in> set fr. 0 \<le> fst kv" and perm: "\<And>m. set (rng m) = set m"
    and "word_of_int ` fst ` set fr \<subseteq> W"
  shows "\<exists>shards'. reassign rng orphans shards fr = (None, shards') \<and>
    list_all2 (extends W) shards shards' \<and>
    (\<forall>orph \<in> set orphans. \<forall>s' . find (\<lambda>s. si_ID s = si_ID orph) shards' = Some s' \<longrightarrow> si_Owners s' \<noteq> [])"
  using assms(1,2,4)
proof (induction orphans arbitrary: shards fr)
  case Nil
  then show ?case by (simp add: list_all2_same extends_refl)
next
  case (Cons orph rest)
  obtain k f where k: "(k, f) \<in> set fr"
    and own: "newShardOwner rng orph fr = Inr (word_of_int k, freq_incr k fr)"
    using newShardOwner_ok [of rng fr, OF perm Cons.prems(1,2)] by metis
  let ?upd = "\<lambda>s. s\<lparr>si_Owners := si_Owners s @ [\<lparr>so_NodeID = word_of_int k\<rparr>]\<rparr>"
  let ?P = "\<lambda>s. si_ID s = si_ID orph"
  let ?sh1 = "update_first ?P ?upd shards"
  have kf: "fst ` set (freq_incr k fr) = fst ` set fr"
    using k by (force simp: keys_freq_incr)
  have "freq_incr k fr \<noteq> []" using kf Cons.prems(1) by (metis image_is_empty set_empty)
  moreover have "\<forall>kv \<in> set (freq_incr k fr). 0 \<le> fst kv"
    using Cons.prems(2) kf by (metis (no_types, opaque_lifting) image_iff)
  ultimately obtain sh2 where sh2: "reassign rng rest ?sh1 (freq_incr k fr) = (None, sh2)"
    "list_all2 (extends W) ?sh1 sh2"
    and rest: "\<forall>o' \<in> set rest. \<forall>s'. find (\<lambda>s. si_ID s = si_ID o') sh2 = Some s' \<longrightarrow> si_Owners s' \<noteq> []"
    using Cons.IH [of "freq_incr k fr" ?sh1] Cons.prems(3) kf by auto
  have kW: "word_of_int k \<in> W" using k Cons.prems(3) by force
  then have sh1: "list_all2 (extends W) shards ?sh1"
    by (intro update_first_extends) (auto simp: extends_def)
  have fnd: "\<And>xs. list_all2 (extends W) xs ys \<Longrightarrow> find ?P ys = Some s' \<Longrightarrow>
      \<exists>s. find ?P xs = Some s \<and> extends W s s'" for ys s'
    by (induction ys) (auto simp: list_all2_Cons2 extends_def split: if_splits)
  have "si_Owners s' \<noteq> []" if "find ?P sh2 = Some s'" for s'
  proof -
    from fnd [OF sh2(2) that] obtain s where s: "find ?P ?sh1 = Some s" "extends W s s'" by blast
    then have "si_Owners s \<noteq> []" by (auto simp: find_update_first)
    with s(2) show ?thesis by (rule extends_nonempty)
  qed
  with own sh2 rest list_all2_trans_extends [OF sh1 sh2(2)] show ?case by auto
qed

text \<open>
  The state of a shard group that \<open>CreateShardGroup\<close> and the other operations keep: shard
  IDs are distinct, no node owns a shard twice, and node IDs fit Go's \<open>int\<close>.
\<close>

definition group_ok :: "ShardGroupInfo \<Rightarrow> bool" where
  "group_ok sg \<longleftrightarrow>
     distinct (map si_ID (sgi_Shards sg)) \<and>
     (\<forall>s \<in> set (sgi_Shards sg). distinct (map so_NodeID (si_Owners s)) \<and>
        (\<forall>ow \<in> set (si_Owners s). 0 \<le> sint (so_NodeID ow)))"

text \<open>What the removal of node \<open>nid\<close> promises about a group \<open>sg\<close> and its new state.\<close>

definition node_removed :: "u64 \<Rightarrow> ShardGroupInfo \<Rightarrow> ShardGroupInfo \<Rightarrow> bool" where
  "node_removed nid sg sg' \<longleftrightarrow>
     sgi_ID sg' = sgi_ID sg \<and> sgi_StartTime sg' = sgi_StartTime sg \<and> sgi_EndTime sg' = sgi_EndTime sg \<and>
     list_all2 (\<lambda>s s'. si_ID s' = si_ID s \<and> \<not> OwnedBy s' nid \<and>
        set (si_Owners s) - {\<lparr>so_NodeID = nid\<rparr>} \<subseteq> set (si_Owners s'))
       (sgi_Shards sg) (sgi_Shards sg') \<and>
     (Deleted sg' \<or> (\<forall>s \<in> set (sgi_Shards sg'). si_Owners s \<noteq> []))"

lemma OwnedBy_iff: "OwnedBy s nid \<longleftrightarrow> \<lparr>so_NodeID = nid\<rparr> \<in> set (si_Owners s)"
  unfolding OwnedBy_def list_ex_iff
  by (metis (full_types) ShardOwner.select_convs(1) ShardOwner.surjective old.unit.exhaust)

lemma OwnedBy_image: "OwnedBy s nid \<longleftrightarrow> nid \<in> so_NodeID ` set (si_Owners s)"
  unfolding OwnedBy_def list_ex_iff by blast

lemma extends_OwnedBy: "extends W s s' \<Longrightarrow> nid \<notin> W \<Longrightarrow> OwnedBy s' nid = OwnedBy s nid"
  by (auto simp: extends_def OwnedBy_image image_Un image_subset_iff)

lemma extends_owners: "extends W s s' \<Longrightarrow> set (si_Owners s) \<subseteq> set (si_Owners s')"
  by (auto simp: extends_def)

lemma relinquish_owners:
  assumes "distinct (map so_NodeID (si_Owners s))"
  shows "set (si_Owners (relinquish nid s)) = set (si_Owners s) - {\<lparr>so_NodeID = nid\<rparr>}"
    and "si_ID (relinquish nid s) = si_ID s"
proof -
  have "distinct (map so_NodeID (rev (si_Owners s)))" using assms by (simp add: rev_map [symmetric])
  from set_remove_first [OF this, of nid]
  have "set (si_Owners (relinquish nid s)) = {x \<in> set (si_Owners s). so_NodeID x \<noteq> nid}"
    by (simp add: relinquish_def)
  also have "\<dots> = set (si_Owners s) - {\<lparr>so_NodeID = nid\<rparr>}" by (auto simp: ShardOwner.equality)
  finally show "set (si_Owners (relinquish nid s)) = set (si_Owners s) - {\<lparr>so_NodeID = nid\<rparr>}" .
qed (simp add: relinquish_def)

lemma node_keys:
  "(\<Union>s \<in> S. (\<lambda>ow. sint (so_NodeID ow)) ` set (si_Owners s)) - {sint nid} =
   (\<lambda>w. sint w) ` {w. w \<noteq> nid \<and> (\<exists>s \<in> S. w \<in> so_NodeID ` set (si_Owners s))}"
  by (auto intro: signed_word_eqI)

text \<open>The two facts about one shard that the group loop establishes.\<close>

abbreviation shard_removed :: "u64 \<Rightarrow> ShardInfo \<Rightarrow> ShardInfo \<Rightarrow> bool" where
  "shard_removed nid s s' \<equiv> si_ID s' = si_ID s \<and> \<not> OwnedBy s' nid \<and>
     set (si_Owners s) - {\<lparr>so_NodeID = nid\<rparr>} \<subseteq> set (si_Owners s')"

lemma relinquish_group:
  assumes "group_ok sg"
  shows "list_all2 (\<lambda>s s'. si_ID s' = si_ID s \<and>
      set (si_Owners s') = set (si_Owners s) - {\<lparr>so_NodeID = nid\<rparr>})
      (sgi_Shards sg) (map (relinquish nid) (sgi_Shards sg))"
  using assms relinquish_owners
  by (auto simp: list_all2_map2 list_all2_same group_ok_def)

text \<open>The candidates for a new owner: the other nodes that own a shard of the group.\<close>

definition candidates :: "u64 \<Rightarrow> ShardGroupInfo \<Rightarrow> u64 set" where
  "candidates nid sg =
     {w. w \<noteq> nid \<and> (\<exists>s \<in> set (sgi_Shards sg). w \<in> so_NodeID ` set (si_Owners s))}"

lemma candidate_freqs:
  fixes sg nid
  defines "fr \<equiv> filter (\<lambda>(k, _). k \<noteq> sint nid) (owner_freqs (sgi_Shards sg))"
  assumes "group_ok sg"
  shows "word_of_int ` fst ` set fr = candidates nid sg" "\<forall>kv \<in> set fr. 0 \<le> fst kv"
proof -
  have "fst ` set fr = fst ` set (owner_freqs (sgi_Shards sg)) - {sint nid}"
    by (force simp: fr_def)
  also have "\<dots> = (\<lambda>w. sint w) ` candidates nid sg"
    unfolding keys_owner_freqs candidates_def by (rule node_keys)
  finally have keys: "fst ` set fr = (\<lambda>w. sint w) ` candidates nid sg" .
  then show "word_of_int ` fst ` set fr = candidates nid sg" by (simp add: image_image)
  have "\<forall>k \<in> fst ` set fr. 0 \<le> k"
    using assms(2) by (auto simp: keys group_ok_def candidates_def)
  then show "\<forall>kv \<in> set fr. 0 \<le> fst kv" by blast
qed

lemma candidates_nonempty:
  assumes ok: "group_ok sg" and s: "s \<in> set (sgi_Shards sg)" "si_Owners (relinquish nid s) \<noteq> []"
  shows "candidates nid sg \<noteq> {}"
proof -
  obtain ow where ow: "ow \<in> set (si_Owners (relinquish nid s))"
    using s(2) last_in_set by blast
  have "set (si_Owners (relinquish nid s)) = set (si_Owners s) - {\<lparr>so_NodeID = nid\<rparr>}"
    using ok s(1) by (intro relinquish_owners) (auto simp: group_ok_def)
  then have "\<not> OwnedBy (relinquish nid s) nid" "ow \<in> set (si_Owners s)"
    using ow by (auto simp: OwnedBy_iff)
  moreover from this(1) have "so_NodeID ow \<noteq> nid"
    using ow by (auto simp: OwnedBy_def list_ex_iff)
  ultimately show ?thesis using s(1) by (auto simp: candidates_def)
qed

lemma reassign_full:
  assumes ext: "list_all2 (extends W) shards shards'" and dist: "distinct (map si_ID shards)"
    and orph: "\<forall>orph \<in> set (filter (\<lambda>s. length (si_Owners s) = 0) shards).
      \<forall>s'. find (\<lambda>s. si_ID s = si_ID orph) shards' = Some s' \<longrightarrow> si_Owners s' \<noteq> []"
    and s': "s' \<in> set shards'"
  shows "si_Owners s' \<noteq> []"
proof -
  from list_all2_mem2 [OF ext s'] obtain s where s: "s \<in> set shards" "extends W s s'" by blast
  have dist': "distinct (map si_ID shards')" using dist map_si_ID_extends [OF ext] by simp
  show ?thesis
  proof (cases "si_Owners s = []")
    case True
    then have "s \<in> set (filter (\<lambda>s. length (si_Owners s) = 0) shards)" using s(1) by simp
    moreover have "si_ID s' = si_ID s" using s(2) by (simp add: extends_def)
    then have "find (\<lambda>x. si_ID x = si_ID s) shards' = Some s'"
      using find_distinct [OF dist' s'] by simp
    ultimately show ?thesis using orph by blast
  next
    case False
    with s(2) show ?thesis by (rule extends_nonempty)
  qed
qed

lemma delete_node_group_orphans:
  assumes ok: "group_ok sg" and perm: "\<And>m. set (rng m) = set m"
    and some: "\<exists>s \<in> set (sgi_Shards sg). si_Owners (relinquish nid s) \<noteq> []"
  shows "\<exists>shards'. reassign rng (filter (\<lambda>s. length (si_Owners s) = 0) (map (relinquish nid) (sgi_Shards sg)))
      (map (relinquish nid) (sgi_Shards sg))
      (filter (\<lambda>(k, _). k \<noteq> sint nid) (owner_freqs (sgi_Shards sg))) = (None, shards') \<and>
    list_all2 (shard_removed nid) (sgi_Shards sg) shards' \<and> (\<forall>s \<in> set shards'. si_Owners s \<noteq> [])"
    (is "\<exists>shards'. reassign rng ?orphans ?shards ?fr = _ \<and> _ \<and> _")
proof -
  let ?W = "candidates nid sg"
  have "?fr \<noteq> []"
    using candidates_nonempty [OF ok] some candidate_freqs(1) [OF ok, of nid] by force
  from reassign_ok [OF this candidate_freqs(2) [OF ok] perm, of ?W ?orphans ?shards,
      OF equalityD1 [OF candidate_freqs(1) [OF ok]]]
  obtain shards' where sh': "reassign rng ?orphans ?shards ?fr = (None, shards')"
    "list_all2 (extends ?W) ?shards shards'"
    and orph: "\<forall>orph \<in> set ?orphans. \<forall>s'. find (\<lambda>s. si_ID s = si_ID orph) shards' = Some s' \<longrightarrow>
         si_Owners s' \<noteq> []"
    by blast
  have "distinct (map si_ID ?shards)"
    using ok by (simp add: group_ok_def relinquish_def o_def)
  from reassign_full [OF sh'(2) this orph] have "\<forall>s \<in> set shards'. si_Owners s \<noteq> []" by blast
  moreover have "nid \<notin> ?W" by (simp add: candidates_def)
  have step: "shard_removed nid a c"
    if "si_ID b = si_ID a \<and> set (si_Owners b) = set (si_Owners a) - {\<lparr>so_NodeID = nid\<rparr>}"
      "extends ?W b c" for a b c
    using that extends_OwnedBy [OF that(2) \<open>nid \<notin> ?W\<close>] extends_owners [OF that(2)]
    by (auto simp: OwnedBy_iff extends_def)
  have "list_all2 (shard_removed nid) (sgi_Shards sg) shards'"
    by (rule list_all2_trans [OF step relinquish_group [OF ok, of nid] sh'(2)])
  ultimately show ?thesis using sh'(1) by blast
qed

lemma delete_node_group_spec:
  assumes ok: "group_ok sg" and now: "now \<noteq> 0" and perm: "\<And>m. set (rng m) = set m"
  shows "\<exists>sg'. delete_node_group now rng nid sg = (None, sg') \<and> node_removed nid sg sg'"
proof -
  let ?shards = "map (relinquish nid) (sgi_Shards sg)"
  let ?orphans = "filter (\<lambda>s. length (si_Owners s) = 0) ?shards"
  show ?thesis
  proof (cases "length (sgi_Shards sg) = 0 \<or> length ?orphans = length (sgi_Shards sg)")
    case True
    then have "delete_node_group now rng nid sg = (None, sg\<lparr>sgi_Shards := ?shards, sgi_DeletedAt := now\<rparr>)"
      unfolding delete_node_group_def Let_def by argo
    moreover have "list_all2 (shard_removed nid) (sgi_Shards sg) ?shards"
      by (rule list_all2_mono [OF relinquish_group [OF ok, of nid]]) (simp add: OwnedBy_iff)
    ultimately show ?thesis
      using now by (simp add: node_removed_def Deleted_def IsZero_def)
  next
    case False
    then have "\<exists>s \<in> set (sgi_Shards sg). si_Owners (relinquish nid s) \<noteq> []"
      using filter_eq_length_iff [of "\<lambda>s. length (si_Owners s) = 0" ?shards] by auto
    from delete_node_group_orphans [OF ok perm this] obtain shards' where
      "reassign rng ?orphans ?shards (filter (\<lambda>(k, _). k \<noteq> sint nid) (owner_freqs (sgi_Shards sg)))
         = (None, shards')"
      "list_all2 (shard_removed nid) (sgi_Shards sg) shards'" "\<forall>s \<in> set shards'. si_Owners s \<noteq> []"
      by blast
    with False show ?thesis
      by (intro exI [of _ "sg\<lparr>sgi_Shards := shards'\<rparr>"])
        (simp add: delete_node_group_def Let_def node_removed_def)
  qed
qed

text \<open>The loops over databases and policies apply \<open>delete_node_group\<close> to every group.\<close>

lemma groups_of_map:
  "groups_of (d\<lparr>Databases := map (\<lambda>di. di\<lparr>di_RetentionPolicies :=
      map (\<lambda>rp. rp\<lparr>rpi_ShardGroups := map f (rpi_ShardGroups rp)\<rparr>) (di_RetentionPolicies di)\<rparr>)
      (Databases d)\<rparr>) = map f (groups_of d)"
  by (simp add: groups_of_def groups_of_db_def map_concat o_def)

lemma groups_of_mem:
  "di \<in> set (Databases d) \<Longrightarrow> rp \<in> set (di_RetentionPolicies di) \<Longrightarrow>
   sg \<in> set (rpi_ShardGroups rp) \<Longrightarrow> sg \<in> set (groups_of d)"
  by (auto simp: groups_of_def groups_of_db_def)

lemma DeleteDataNode_groups:
  assumes "\<And>sg. sg \<in> set (groups_of d) \<Longrightarrow> delete_node_group now rng nid sg = (None, f sg)"
    and "DataNode d nid \<noteq> None"
  shows "DeleteDataNode now rng nid d =
    (None, d\<lparr>DataNodes := filter (\<lambda>n. ni_ID n \<noteq> nid) (DataNodes d),
       Databases := map (\<lambda>di. di\<lparr>di_RetentionPolicies :=
         map (\<lambda>rp. rp\<lparr>rpi_ShardGroups := map f (rpi_ShardGroups rp)\<rparr>) (di_RetentionPolicies di)\<rparr>)
         (Databases d)\<rparr>)"
proof -
  let ?g = "delete_node_group now rng nid"
  have sgs: "map_until ?g (rpi_ShardGroups rp) = (None, map f (rpi_ShardGroups rp))"
    if "di \<in> set (Databases d)" "rp \<in> set (di_RetentionPolicies di)" for di rp
    using assms(1) groups_of_mem [OF that] by (subst map_until_ok) auto
  have rps: "map_until (\<lambda>rp. let (e, sgs) = map_until ?g (rpi_ShardGroups rp)
        in (e, rp\<lparr>rpi_ShardGroups := sgs\<rparr>)) (di_RetentionPolicies di)
      = (None, map (\<lambda>rp. rp\<lparr>rpi_ShardGroups := map f (rpi_ShardGroups rp)\<rparr>) (di_RetentionPolicies di))"
    if "di \<in> set (Databases d)" for di
    using sgs [OF that] by (subst map_until_ok) auto
  have "length (filter (\<lambda>n. ni_ID n \<noteq> nid) (DataNodes d)) \<noteq> length (DataNodes d)"
    using assms(2) by (auto simp: DataNode_def find_None_iff filter_eq_length_iff)
  moreover have "map_until (\<lambda>di. let (e, rps) = map_until (\<lambda>rp.
          let (e, sgs) = map_until ?g (rpi_ShardGroups rp) in (e, rp\<lparr>rpi_ShardGroups := sgs\<rparr>))
          (di_RetentionPolicies di) in (e, di\<lparr>di_RetentionPolicies := rps\<rparr>)) (Databases d)
      = (None, map (\<lambda>di. di\<lparr>di_RetentionPolicies :=
         map (\<lambda>rp. rp\<lparr>rpi_ShardGroups := map f (rpi_ShardGroups rp)\<rparr>) (di_RetentionPolicies di)\<rparr>)
         (Databases d))"
    using rps by (subst map_until_ok) auto
  ultimately show ?thesis
    by (simp add: DeleteDataNode_def Let_def)
qed

lemma DeleteDataNode_spec:
  assumes ok: "\<forall>sg \<in> set (groups_of d). group_ok sg" and now: "now \<noteq> 0"
    and perm: "\<And>m. set (rng m) = set m" and node: "DataNode d nid \<noteq> None"
  obtains d' where "DeleteDataNode now rng nid d = (None, d')"
    and "DataNodes d' = filter (\<lambda>n. ni_ID n \<noteq> nid) (DataNodes d)"
    and "list_all2 (node_removed nid) (groups_of d) (groups_of d')"
proof -
  have "\<forall>sg \<in> set (groups_of d). \<exists>sg'. delete_node_group now rng nid sg = (None, sg') \<and> node_removed nid sg sg'"
    using delete_node_group_spec [of _ now rng nid, OF _ now perm] ok by blast
  then obtain f where f: "\<And>sg. sg \<in> set (groups_of d) \<Longrightarrow>
      delete_node_group now rng nid sg = (None, f sg) \<and> node_removed nid sg (f sg)"
    by metis
  note eq = DeleteDataNode_groups [of d now rng nid f, OF _ node]
  let ?d' = "d\<lparr>DataNodes := filter (\<lambda>n. ni_ID n \<noteq> nid) (DataNodes d),
       Databases := map (\<lambda>di. di\<lparr>di_RetentionPolicies :=
         map (\<lambda>rp. rp\<lparr>rpi_ShardGroups := map f (rpi_ShardGroups rp)\<rparr>) (di_RetentionPolicies di)\<rparr>)
         (Databases d)\<rparr>"
  have "groups_of ?d' = map f (groups_of d)"
    using groups_of_map [of f d] by (simp add: groups_of_def)
  then have "list_all2 (node_removed nid) (groups_of d) (groups_of ?d')"
    using f by (simp add: list_all2_map2 list_all2_same)
  then show ?thesis by (intro that [of ?d']) (use eq f in simp_all)
qed

end
