(* ===== verification/MetaDatabases.thy ===== *)
theory MetaDatabases
  imports MetaNodes
begin

text \<open>
  Databases, retention policies, continuous queries and subscriptions of \<open>Data\<close>
  (\<open>services/meta/data.go\<close>).  A lookup that returns a pointer into a slice is followed by
  an update of the first matching element.
\<close>

section \<open>Databases\<close>

definition Database :: "Data \<Rightarrow> string \<Rightarrow> DatabaseInfo option" where
  "Database data name = find (\<lambda>d. di_Name d = name) (Databases data)"

text \<open>An assignment through the pointer \<open>data.Database(name)\<close>.\<close>

definition update_db :: "string \<Rightarrow> (DatabaseInfo \<Rightarrow> DatabaseInfo) \<Rightarrow> Data \<Rightarrow> Data" where
  "update_db name f data =
     data\<lparr>Databases := update_first (\<lambda>d. di_Name d = name) f (Databases data)\<rparr>"

definition new_DatabaseInfo :: "string \<Rightarrow> DatabaseInfo" where
  "new_DatabaseInfo name =
     \<lparr>di_Name = name, di_DefaultRetentionPolicy = '''', di_RetentionPolicies = [],
      di_ContinuousQueries = []\<rparr>"

definition CreateDatabase :: "string \<Rightarrow> Data \<Rightarrow> result" where
  "CreateDatabase name data =
     (if name = '''' then (Some ErrDatabaseNameRequired, data)
      else if Database data name \<noteq> None then (None, data)
      else (None, data\<lparr>Databases := Databases data @ [new_DatabaseInfo name]\<rparr>))"

definition DropDatabase :: "string \<Rightarrow> Data \<Rightarrow> result" where
  "DropDatabase name data =
     (if Database data name = None then (None, data)
      else (None, data\<lparr>Databases := remove_first (\<lambda>d. di_Name d = name) (Databases data),
              Users := map (\<lambda>u. u\<lparr>ui_Privileges := map_del name (ui_Privileges u)\<rparr>)
                         (Users data)\<rparr>))"

section \<open>Retention policies\<close>

definition RetentionPolicy ::
    "Data \<Rightarrow> string \<Rightarrow> string \<Rightarrow> meta_error + RetentionPolicyInfo option" where
  "RetentionPolicy data database name =
     (case Database data database of
        None \<Rightarrow> Inl (ErrDatabaseNotFound database)
      | Some di \<Rightarrow> Inr (find (\<lambda>rp. rpi_Name rp = name) (di_RetentionPolicies di)))"

text \<open>An assignment through the pointer \<open>data.RetentionPolicy(database, name)\<close>.\<close>

definition update_rp ::
    "string \<Rightarrow> string \<Rightarrow> (RetentionPolicyInfo \<Rightarrow> RetentionPolicyInfo) \<Rightarrow> Data \<Rightarrow> Data" where
  "update_rp database name f data =
     update_db database
       (\<lambda>di. di\<lparr>di_RetentionPolicies :=
          update_first (\<lambda>rp. rpi_Name rp = name) f (di_RetentionPolicies di)\<rparr>) data"

definition CreateRetentionPolicy ::
    "string \<Rightarrow> RetentionPolicyInfo option \<Rightarrow> bool \<Rightarrow> Data \<Rightarrow> result" where
  "CreateRetentionPolicy database rp0 makeDefault data =
     (case rp0 of
        None \<Rightarrow> (Some ErrRetentionPolicyRequired, data)
      | Some rpi0 \<Rightarrow>
          if rpi_Name rpi0 = '''' then (Some ErrRetentionPolicyNameRequired, data)
          else if rpi_ReplicaN rpi0 < 1 then (Some ErrReplicationFactorTooLow, data)
          else
            (let rpi = rpi0\<lparr>rpi_ShardGroupDuration :=
                   normalisedShardDuration (rpi_ShardGroupDuration rpi0) (rpi_Duration rpi0)\<rparr>
             in if rpi_Duration rpi > 0 \<and> rpi_Duration rpi < rpi_ShardGroupDuration rpi
                then (Some ErrIncompatibleDurations, data)
                else case Database data database of
                  None \<Rightarrow> (Some (ErrDatabaseNotFound database), data)
                | Some di \<Rightarrow>
                    (case di_RetentionPolicy di (rpi_Name rpi) of
                       Some rp \<Rightarrow>
                         if rpi_ReplicaN rp \<noteq> rpi_ReplicaN rpi \<or> rpi_Duration rp \<noteq> rpi_Duration rpi
                            \<or> rpi_ShardGroupDuration rp \<noteq> rpi_ShardGroupDuration rpi
                         then (Some ErrRetentionPolicyExists, data)
                         else if makeDefault \<and> di_DefaultRetentionPolicy di \<noteq> rpi_Name rpi
                         then (Some ErrRetentionPolicyConflict, data)
                         else (None, data)
                     | None \<Rightarrow>
                         (None, update_db database
                            (\<lambda>di. di\<lparr>di_RetentionPolicies := di_RetentionPolicies di @ [rpi],
                               di_DefaultRetentionPolicy :=
                                 (if makeDefault then rpi_Name rpi
                                  else di_DefaultRetentionPolicy di)\<rparr>) data))))"

definition DropRetentionPolicy :: "string \<Rightarrow> string \<Rightarrow> Data \<Rightarrow> result" where
  "DropRetentionPolicy database name data =
     (None, update_db database
        (\<lambda>di. di\<lparr>di_RetentionPolicies :=
           remove_first (\<lambda>rp. rpi_Name rp = name) (di_RetentionPolicies di)\<rparr>) data)"

text \<open>The guard on durations of \<open>UpdateRetentionPolicy\<close> and the field assignments.\<close>

definition durations_incompatible :: "RetentionPolicyUpdate \<Rightarrow> RetentionPolicyInfo \<Rightarrow> bool" where
  "durations_incompatible rpu rpi =
     (case rpu_Duration rpu of
        Some d \<Rightarrow>
          d > 0 \<and>
          (case rpu_ShardGroupDuration rpu of
             Some sgd \<Rightarrow> d < sgd
           | None \<Rightarrow> d < rpi_ShardGroupDuration rpi)
      | None \<Rightarrow>
          rpi_Duration rpi > 0 \<and>
          (case rpu_ShardGroupDuration rpu of
             Some sgd \<Rightarrow> rpi_Duration rpi < sgd
           | None \<Rightarrow> False))"

definition rpu_assign :: "RetentionPolicyUpdate \<Rightarrow> RetentionPolicyInfo \<Rightarrow> RetentionPolicyInfo" where
  "rpu_assign rpu rpi =
     (let r1 = (case rpu_Name rpu of Some n \<Rightarrow> rpi\<lparr>rpi_Name := n\<rparr> | None \<Rightarrow> rpi);
          r2 = (case rpu_Duration rpu of Some d \<Rightarrow> r1\<lparr>rpi_Duration := d\<rparr> | None \<Rightarrow> r1);
          r3 = (case rpu_ReplicaN rpu of Some n \<Rightarrow> r2\<lparr>rpi_ReplicaN := n\<rparr> | None \<Rightarrow> r2)
      in case rpu_ShardGroupDuration rpu of
           Some sgd \<Rightarrow> r3\<lparr>rpi_ShardGroupDuration := normalisedShardDuration sgd (rpi_Duration r3)\<rparr>
         | None \<Rightarrow> r3)"

definition UpdateRetentionPolicy ::
    "string \<Rightarrow> string \<Rightarrow> RetentionPolicyUpdate \<Rightarrow> bool \<Rightarrow> Data \<Rightarrow> result" where
  "UpdateRetentionPolicy database name rpu makeDefault data =
     (case Database data database of
        None \<Rightarrow> (Some (ErrDatabaseNotFound database), data)
      | Some di \<Rightarrow>
          (case di_RetentionPolicy di name of
             None \<Rightarrow> (Some (ErrRetentionPolicyNotFound name), data)
           | Some rpi \<Rightarrow>
               if (case rpu_Name rpu of Some n \<Rightarrow> n \<noteq> name \<and> di_RetentionPolicy di n \<noteq> None
                   | None \<Rightarrow> False)
               then (Some ErrRetentionPolicyNameExists, data)
               else if (case rpu_Duration rpu of
                          Some d \<Rightarrow> d < MinRetentionPolicyDuration \<and> d \<noteq> 0 | None \<Rightarrow> False)
               then (Some ErrRetentionPolicyDurationTooLow, data)
               else if durations_incompatible rpu rpi then (Some ErrIncompatibleDurations, data)
               else
                 (let rpi' = rpu_assign rpu rpi
                  in (None, update_db database
                        (\<lambda>di. di\<lparr>di_RetentionPolicies :=
                             update_first (\<lambda>rp. Some (rpi_Name rp) = di_RetentionPolicy_name di name)
                               (rpu_assign rpu) (di_RetentionPolicies di),
                           di_DefaultRetentionPolicy :=
                             (if di_DefaultRetentionPolicy di \<noteq> rpi_Name rpi' \<and> makeDefault
                              then rpi_Name rpi' else di_DefaultRetentionPolicy di)\<rparr>) data))))"

definition SetDefaultRetentionPolicy :: "string \<Rightarrow> string \<Rightarrow> Data \<Rightarrow> result" where
  "SetDefaultRetentionPolicy database name data =
     (case Database data database of
        None \<Rightarrow> (Some (ErrDatabaseNotFound database), data)
      | Some di \<Rightarrow>
          if di_RetentionPolicy di name = None
          then (Some (ErrRetentionPolicyNotFound name), data)
          else (None, update_db database (\<lambda>di. di\<lparr>di_DefaultRetentionPolicy := name\<rparr>) data))"

section \<open>Continuous queries\<close>

definition CreateContinuousQuery :: "string \<Rightarrow> string \<Rightarrow> string \<Rightarrow> Data \<Rightarrow> result" where
  "CreateContinuousQuery database name qry data =
     (case Database data database of
        None \<Rightarrow> (Some (ErrDatabaseNotFound database), data)
      | Some di \<Rightarrow>
          (case find (\<lambda>cq. cqi_Name cq = name) (di_ContinuousQueries di) of
             Some cq \<Rightarrow>
               if ToLower (cqi_Query cq) = ToLower qry then (None, data)
               else (Some ErrContinuousQueryExists, data)
           | None \<Rightarrow>
               (None, update_db database
                  (\<lambda>di. di\<lparr>di_ContinuousQueries :=
                     di_ContinuousQueries di @ [\<lparr>cqi_Name = name, cqi_Query = qry\<rparr>]\<rparr>) data)))"

definition DropContinuousQuery :: "string \<Rightarrow> string \<Rightarrow> Data \<Rightarrow> result" where
  "DropContinuousQuery database name data =
     (None, update_db database
        (\<lambda>di. di\<lparr>di_ContinuousQueries :=
           remove_first (\<lambda>cq. cqi_Name cq = name) (di_ContinuousQueries di)\<rparr>) data)"

section \<open>Subscriptions\<close>

text \<open>
  \<open>url.Parse\<close> and \<open>net.SplitHostPort\<close> are parameters: the scheme and host of a URL, or
  \<open>None\<close> for an error, and the host and port of an address.
\<close>

type_synonym url_parser = "string \<Rightarrow> (string \<times> string) option"

definition validateURL :: "url_parser \<Rightarrow> url_parser \<Rightarrow> string \<Rightarrow> meta_error option" where
  "validateURL parse splitHostPort input =
     (case parse input of
        None \<Rightarrow> Some (ErrInvalidSubscriptionURL input)
      | Some (scheme, host) \<Rightarrow>
          if scheme \<noteq> ''udp'' \<and> scheme \<noteq> ''http'' \<and> scheme \<noteq> ''https''
          then Some (ErrInvalidSubscriptionURL input)
          else (case splitHostPort host of
                  None \<Rightarrow> Some (ErrInvalidSubscriptionURL input)
                | Some (_, port) \<Rightarrow>
                    if port = '''' then Some (ErrInvalidSubscriptionURL input) else None))"

fun first_error :: "('a \<Rightarrow> 'e option) \<Rightarrow> 'a list \<Rightarrow> 'e option" where
  "first_error f [] = None"
| "first_error f (x # xs) = (case f x of Some e \<Rightarrow> Some e | None \<Rightarrow> first_error f xs)"

definition CreateSubscription ::
    "url_parser \<Rightarrow> url_parser \<Rightarrow> string \<Rightarrow> string \<Rightarrow> string \<Rightarrow> string \<Rightarrow> string list \<Rightarrow>
     Data \<Rightarrow> result" where
  "CreateSubscription parse splitHostPort database rp name mode destinations data =
     (case first_error (validateURL parse splitHostPort) destinations of
        Some e \<Rightarrow> (Some e, data)
      | None \<Rightarrow>
          (case RetentionPolicy data database rp of
             Inl e \<Rightarrow> (Some e, data)
           | Inr None \<Rightarrow> (Some (ErrRetentionPolicyNotFound rp), data)
           | Inr (Some rpi) \<Rightarrow>
               if list_ex (\<lambda>s. sub_Name s = name) (rpi_Subscriptions rpi)
               then (Some ErrSubscriptionExists, data)
               else (None, update_rp database rp
                      (\<lambda>rpi. rpi\<lparr>rpi_Subscriptions := rpi_Subscriptions rpi @
                         [\<lparr>sub_Name = name, sub_Mode = mode, sub_Destinations = destinations\<rparr>]\<rparr>)
                      data)))"

definition DropSubscription :: "string \<Rightarrow> string \<Rightarrow> string \<Rightarrow> Data \<Rightarrow> result" where
  "DropSubscription database rp name data =
     (case RetentionPolicy data database rp of
        Inl e \<Rightarrow> (Some e, data)
      | Inr None \<Rightarrow> (Some (ErrRetentionPolicyNotFound rp), data)
      | Inr (Some rpi) \<Rightarrow>
          if list_ex (\<lambda>s. sub_Name s = name) (rpi_Subscriptions rpi)
          then (None, update_rp database rp
                 (\<lambda>rpi. rpi\<lparr>rpi_Subscriptions :=
                    remove_first (\<lambda>s. sub_Name s = name) (rpi_Subscriptions rpi)\<rparr>) data)
          else (Some ErrSubscriptionNotFound, data))"

end
