(* ===== verification/MetaShards.thy ===== *)
theory MetaShards
  imports MetaDatabases
begin

text \<open>
  Shard groups and shards of \<open>Data\<close> (\<open>services/meta/data.go\<close>): creation with round-robin
  ownership, deletion, truncation, lookups, and the import of another metadata object.
\<close>

section \<open>Lookups\<close>

text \<open>The common preamble: find the policy, or the error to return.\<close>

definition find_rp :: "Data \<Rightarrow> string \<Rightarrow> string \<Rightarrow> meta_error + RetentionPolicyInfo" where
  "find_rp data database policy =
     (case RetentionPolicy data database policy of
        Inl e \<Rightarrow> Inl e
      | Inr None \<Rightarrow> Inl (ErrRetentionPolicyNotFound policy)
      | Inr (Some rpi) \<Rightarrow> Inr rpi)"

definition ShardGroups :: "Data \<Rightarrow> string \<Rightarrow> string \<Rightarrow> meta_error + ShardGroupInfo list" where
  "ShardGroups data database policy =
     map_sum id (\<lambda>rpi. filter (\<lambda>g. \<not> Deleted g) (rpi_ShardGroups rpi))
       (find_rp data database policy)"

definition ShardGroupsByTimeRange ::
    "Data \<Rightarrow> string \<Rightarrow> string \<Rightarrow> go_time \<Rightarrow> go_time \<Rightarrow> meta_error + ShardGroupInfo list" where
  "ShardGroupsByTimeRange data database policy tmin tmax =
     map_sum id (\<lambda>rpi. filter (\<lambda>g. \<not> (Deleted g \<or> \<not> Overlaps g tmin tmax)) (rpi_ShardGroups rpi))
       (find_rp data database policy)"

definition ShardGroupByTimestamp ::
    "Data \<Rightarrow> string \<Rightarrow> string \<Rightarrow> go_time \<Rightarrow> meta_error + ShardGroupInfo option" where
  "ShardGroupByTimestamp data database policy timestamp =
     map_sum id (\<lambda>rpi. rpi_ShardGroupByTimestamp rpi timestamp) (find_rp data database policy)"

section \<open>Creating a shard group\<close>

text \<open>At least one replica, no more replicas than nodes.\<close>

definition replica_count :: "int \<Rightarrow> nat \<Rightarrow> int" where
  "replica_count replicaN n =
     (if replicaN = 0 then 1 else if replicaN > int n then int n else replicaN)"

definition new_shards :: "u64 \<Rightarrow> nat \<Rightarrow> ShardInfo list" where
  "new_shards maxID n = map (\<lambda>i. \<lparr>si_ID = maxID + of_nat (Suc i), si_Owners = []\<rparr>) [0..<n]"

text \<open>Round robin: each shard takes the next \<open>r\<close> nodes of the list, cyclically.\<close>

fun assign_owners :: "NodeInfo list \<Rightarrow> nat \<Rightarrow> nat \<Rightarrow> ShardInfo list \<Rightarrow> ShardInfo list" where
  "assign_owners nodes r nodeIndex [] = []"
| "assign_owners nodes r nodeIndex (si # sis) =
     si\<lparr>si_Owners := si_Owners si @
        map (\<lambda>j. \<lparr>so_NodeID = ni_ID (nodes ! ((nodeIndex + j) mod length nodes))\<rparr>) [0..<r]\<rparr>
     # assign_owners nodes r (nodeIndex + r) sis"

definition new_shard_group ::
    "Data \<Rightarrow> RetentionPolicyInfo \<Rightarrow> go_time \<Rightarrow> nat \<Rightarrow> nat \<Rightarrow> ShardGroupInfo" where
  "new_shard_group data rpi timestamp replicaN shardN =
     (let start = Truncate timestamp (rpi_ShardGroupDuration rpi)
      in \<lparr>sgi_ID = MaxShardGroupID data + 1, sgi_StartTime = start,
          sgi_EndTime = start + rpi_ShardGroupDuration rpi, sgi_DeletedAt = 0,
          sgi_Shards = assign_owners (DataNodes data) replicaN
            (unat (Index data) mod length (DataNodes data)) (new_shards (MaxShardID data) shardN),
          sgi_TruncatedAt = 0\<rparr>)"

definition CreateShardGroup :: "string \<Rightarrow> string \<Rightarrow> go_time \<Rightarrow> Data \<Rightarrow> result" where
  "CreateShardGroup database policy timestamp data =
     (if length (DataNodes data) = 0 then (None, data)
      else case find_rp data database policy of
        Inl e \<Rightarrow> (Some e, data)
      | Inr rpi \<Rightarrow>
          if rpi_ShardGroupByTimestamp rpi timestamp \<noteq> None then (None, data)
          else
            (let replicaN = replica_count (rpi_ReplicaN rpi) (length (DataNodes data));
                 shardN = go_quot (int (length (DataNodes data))) replicaN;
                 data1 = data\<lparr>MaxShardGroupID := MaxShardGroupID data + 1\<rparr>
             in if shardN < 0 then (Some (Panic ''makeslice: len out of range''), data1)
                else
                  (let sgi = new_shard_group data rpi timestamp (nat replicaN) (nat shardN)
                   in (None, update_rp database policy
                         (\<lambda>rpi. rpi\<lparr>rpi_ShardGroups :=
                            sort_ShardGroupInfos (rpi_ShardGroups rpi @ [sgi])\<rparr>)
                         (data1\<lparr>MaxShardID := MaxShardID data + of_nat (nat shardN)\<rparr>)))))"

section \<open>Deleting shard groups and shards\<close>

definition DeleteShardGroup :: "go_time \<Rightarrow> string \<Rightarrow> string \<Rightarrow> u64 \<Rightarrow> Data \<Rightarrow> result" where
  "DeleteShardGroup now database policy gid data =
     (case find_rp data database policy of
        Inl e \<Rightarrow> (Some e, data)
      | Inr rpi \<Rightarrow>
          if list_ex (\<lambda>g. sgi_ID g = gid) (rpi_ShardGroups rpi)
          then (None, update_rp database policy
                 (\<lambda>rpi. rpi\<lparr>rpi_ShardGroups :=
                    update_first (\<lambda>g. sgi_ID g = gid) (\<lambda>g. g\<lparr>sgi_DeletedAt := now\<rparr>)
                      (rpi_ShardGroups rpi)\<rparr>) data)
          else (Some ErrShardGroupNotFound, data))"

definition has_shard :: "u64 \<Rightarrow> ShardGroupInfo \<Rightarrow> bool" where
  "has_shard sid g = list_ex (\<lambda>s. si_ID s = sid) (sgi_Shards g)"

definition drop_shard_group :: "go_time \<Rightarrow> u64 \<Rightarrow> ShardGroupInfo \<Rightarrow> ShardGroupInfo" where
  "drop_shard_group now sid g =
     (let g1 = g\<lparr>sgi_Shards := remove_first (\<lambda>s. si_ID s = sid) (sgi_Shards g)\<rparr>
      in if length (sgi_Shards g) = 1 then g1\<lparr>sgi_DeletedAt := now\<rparr> else g1)"

definition DropShard :: "go_time \<Rightarrow> u64 \<Rightarrow> Data \<Rightarrow> Data" where
  "DropShard now sid data =
     data\<lparr>Databases :=
       update_first (\<lambda>di. list_ex (has_shard sid) (groups_of_db di))
         (\<lambda>di. di\<lparr>di_RetentionPolicies :=
            update_first (\<lambda>rp. list_ex (has_shard sid) (rpi_ShardGroups rp))
              (\<lambda>rp. rp\<lparr>rpi_ShardGroups :=
                 update_first (has_shard sid) (drop_shard_group now sid) (rpi_ShardGroups rp)\<rparr>)
              (di_RetentionPolicies di)\<rparr>)
         (Databases data)\<rparr>"

definition truncate_group :: "go_time \<Rightarrow> ShardGroupInfo \<Rightarrow> ShardGroupInfo" where
  "truncate_group t sgi =
     (if \<not> t < sgi_EndTime sgi \<or> Deleted sgi \<or> (Truncated sgi \<and> sgi_TruncatedAt sgi < t) then sgi
      else if \<not> t > sgi_StartTime sgi then sgi\<lparr>sgi_TruncatedAt := sgi_StartTime sgi\<rparr>
      else sgi\<lparr>sgi_TruncatedAt := t\<rparr>)"

definition TruncateShardGroups :: "go_time \<Rightarrow> Data \<Rightarrow> Data" where
  "TruncateShardGroups t data =
     data\<lparr>Databases := map (\<lambda>di. di\<lparr>di_RetentionPolicies :=
        map (\<lambda>rp. rp\<lparr>rpi_ShardGroups := map (truncate_group t) (rpi_ShardGroups rp)\<rparr>)
          (di_RetentionPolicies di)\<rparr>) (Databases data)\<rparr>"

section \<open>Importing metadata\<close>

type_synonym id_map = "(u64 \<times> u64) list"

text \<open>
  The renumbering loops: \<open>data.MaxShardGroupID\<close>, \<open>data.MaxShardID\<close> and \<open>shardIDMap\<close> are
  threaded through the groups of the imported policies.
\<close>

fun renumber_shards :: "u64 \<Rightarrow> id_map \<Rightarrow> ShardInfo list \<Rightarrow> u64 \<times> id_map \<times> ShardInfo list" where
  "renumber_shards sid m [] = (sid, m, [])"
| "renumber_shards sid m (s # ss) =
     (let (sid', m', ss') = renumber_shards (sid + 1) (map_put (si_ID s) (sid + 1) m) ss
      in (sid', m', s\<lparr>si_ID := sid + 1, si_Owners := []\<rparr> # ss'))"

fun renumber_groups ::
    "u64 \<Rightarrow> u64 \<Rightarrow> id_map \<Rightarrow> ShardGroupInfo list \<Rightarrow> u64 \<times> u64 \<times> id_map \<times> ShardGroupInfo list" where
  "renumber_groups gid sid m [] = (gid, sid, m, [])"
| "renumber_groups gid sid m (g # gs) =
     (let (sid1, m1, shards) = renumber_shards sid m (sgi_Shards g);
          (gid', sid', m', gs') = renumber_groups (gid + 1) sid1 m1 gs
      in (gid', sid', m', g\<lparr>sgi_ID := gid + 1, sgi_Shards := shards\<rparr> # gs'))"

fun renumber_rps ::
    "u64 \<Rightarrow> u64 \<Rightarrow> id_map \<Rightarrow> RetentionPolicyInfo list \<Rightarrow>
     u64 \<times> u64 \<times> id_map \<times> RetentionPolicyInfo list" where
  "renumber_rps gid sid m [] = (gid, sid, m, [])"
| "renumber_rps gid sid m (rp # rps) =
     (let (gid1, sid1, m1, gs) = renumber_groups gid sid m (rpi_ShardGroups rp);
          (gid', sid', m', rps') = renumber_rps gid1 sid1 m1 rps
      in (gid', sid', m', rp\<lparr>rpi_ShardGroups := gs\<rparr> # rps'))"

text \<open>The policies to import and the new default policy, or the error.\<close>

definition import_policies ::
    "DatabaseInfo \<Rightarrow> string \<Rightarrow> string \<Rightarrow> string \<Rightarrow> meta_error + RetentionPolicyInfo list \<times> string" where
  "import_policies dbPtr backupDBName backupRPName restoreRPName =
     (if backupRPName \<noteq> '''' then
        (case di_RetentionPolicy dbPtr backupRPName of
           None \<Rightarrow> Inl (ErrImportNoRetentionPolicy backupDBName backupRPName)
         | Some rp \<Rightarrow>
             (let name = (if restoreRPName = '''' then backupRPName else restoreRPName)
              in Inr ([(RetentionPolicyInfo_clone rp)\<lparr>rpi_Name := name\<rparr>], name)))
      else Inr (map RetentionPolicyInfo_clone (di_RetentionPolicies dbPtr),
                di_DefaultRetentionPolicy dbPtr))"

definition importOneDB ::
    "Data \<Rightarrow> string \<Rightarrow> string \<Rightarrow> string \<Rightarrow> string \<Rightarrow> id_map \<Rightarrow> Data \<Rightarrow>
     (meta_error + string) \<times> id_map \<times> Data" where
  "importOneDB other backupDBName restoreDBName0 backupRPName restoreRPName m data =
     (case Database other backupDBName of
        None \<Rightarrow> (Inl (ErrImportNoDatabase backupDBName), m, data)
      | Some dbPtr \<Rightarrow>
          (let restoreDBName = (if restoreDBName0 = '''' then backupDBName else restoreDBName0)
           in if Database data restoreDBName \<noteq> None then (Inl ErrImportDatabaseExists, m, data)
              else case CreateDatabase restoreDBName data of
                (Some e, data1) \<Rightarrow> (Inl e, m, data1)
              | (None, data1) \<Rightarrow>
                  (case import_policies dbPtr backupDBName backupRPName restoreRPName of
                     Inl e \<Rightarrow> (Inl e, m, data1)
                   | Inr (rps, dflt) \<Rightarrow>
                       (let (gid, sid, m', rps') =
                              renumber_rps (MaxShardGroupID data1) (MaxShardID data1) m rps
                        in (Inr restoreDBName, m',
                            update_db restoreDBName
                              (\<lambda>di. di\<lparr>di_RetentionPolicies := rps', di_DefaultRetentionPolicy := dflt\<rparr>)
                              (data1\<lparr>MaxShardGroupID := gid, MaxShardID := sid\<rparr>))))))"

fun import_all ::
    "Data \<Rightarrow> DatabaseInfo list \<Rightarrow> string list \<Rightarrow> id_map \<Rightarrow> Data \<Rightarrow>
     (meta_error + id_map \<times> string list) \<times> Data" where
  "import_all other [] newDBs m data = (Inr (m, newDBs), data)"
| "import_all other (dbi # rest) newDBs m data =
     (if di_Name dbi = ''_internal'' then import_all other rest newDBs m data
      else case importOneDB other (di_Name dbi) '''' '''' '''' m data of
        (Inl e, _, data') \<Rightarrow> (Inl e, data')
      | (Inr dbName, m', data') \<Rightarrow> import_all other rest (newDBs @ [dbName]) m' data')"

definition ImportData ::
    "Data \<Rightarrow> string \<Rightarrow> string \<Rightarrow> string \<Rightarrow> string \<Rightarrow> Data \<Rightarrow>
     (meta_error + id_map \<times> string list) \<times> Data" where
  "ImportData other backupDBName restoreDBName backupRPName restoreRPName data =
     (if backupDBName \<noteq> '''' then
        (case importOneDB other backupDBName restoreDBName backupRPName restoreRPName [] data of
           (Inl e, _, data') \<Rightarrow> (Inl e, data')
         | (Inr dbName, m, data') \<Rightarrow> (Inr (m, [dbName]), data'))
      else import_all other (Databases other) [] [] data)"

end
