(* ===== verification/MetaShardProps.thy ===== *)
theory MetaShardProps
  imports MetaShards
begin

text \<open>
  Facts about the shard groups of the metadata: identifiers stay unique and below the
  allocation counters, a new group spreads its shards evenly over the data nodes and covers
  the timestamp it was created for, and truncation closes every group at the given time.
\<close>

section \<open>Identifiers\<close>

text \<open>A group as the identifiers it uses: its own and those of its shards.\<close>

definition gkey :: "ShardGroupInfo \<Rightarrow> u64 \<times> u64 list" where
  "gkey g = (sgi_ID g, map si_ID (sgi_Shards g))"

definition gkeys_rp :: "RetentionPolicyInfo \<Rightarrow> (u64 \<times> u64 list) list" where
  "gkeys_rp rp = map gkey (rpi_ShardGroups rp)"

definition gkeys_db :: "DatabaseInfo \<Rightarrow> (u64 \<times> u64 list) list" where
  "gkeys_db di = concat (map gkeys_rp (di_RetentionPolicies di))"

definition gkeys :: "Data \<Rightarrow> (u64 \<times> u64 list) list" where
  "gkeys d = concat (map gkeys_db (Databases d))"

text \<open>Every identifier of a multiset is used once and is at most the counter.\<close>

definition unique_upto :: "u64 \<Rightarrow> u64 multiset \<Rightarrow> bool" where
  "unique_upto m M \<longleftrightarrow> (\<forall>i. count M i \<le> 1) \<and> (\<forall>i \<in># M. i \<le> m)"

definition shard_ids :: "(u64 \<times> u64 list) list \<Rightarrow> u64 list" where
  "shard_ids ks = concat (map snd ks)"

definition shard_inv :: "Data \<Rightarrow> bool" where
  "shard_inv d \<longleftrightarrow>
     unique_upto (MaxShardGroupID d) (mset (map fst (gkeys d))) \<and>
     unique_upto (MaxShardID d) (mset (shard_ids (gkeys d)))"

lemma unique_upto_mset: "unique_upto m (mset xs) \<longleftrightarrow> distinct xs \<and> (\<forall>x \<in> set xs. x \<le> m)"
proof -
  have "count (mset xs) a = (if a \<in> set xs then 1 else 0) \<longleftrightarrow> count (mset xs) a \<le> 1" for a
    by (cases "a \<in> set xs") (auto simp: le_Suc_eq count_eq_zero_iff)
  then have "distinct xs \<longleftrightarrow> (\<forall>i. count (mset xs) i \<le> 1)"
    by (simp add: distinct_count_atmost_1)
  then show ?thesis by (simp add: unique_upto_def)
qed

lemma unique_upto_mono: "unique_upto m M \<Longrightarrow> M' \<subseteq># M \<Longrightarrow> unique_upto m M'"
  unfolding unique_upto_def by (meson le_trans mset_subset_eqD mset_subset_eq_count)

lemma unique_upto_add:
  assumes "unique_upto m M" "distinct bs" "\<And>b. b \<in> set bs \<Longrightarrow> m < b \<and> b \<le> m'" "m \<le> m'"
  shows "unique_upto m' (M + mset bs)"
proof -
  have "count M i + count (mset bs) i \<le> 1" for i
  proof (cases "i \<in> set bs")
    case True
    with assms(1,3) have "count M i = 0"
      by (meson count_inI leD unique_upto_def)
    moreover have "count (mset bs) i = 1"
      using assms(2) True by (simp add: distinct_count_atmost_1)
    ultimately show ?thesis by simp
  next
    case False
    then have "count (mset bs) i = 0" by (simp add: count_eq_zero_iff)
    with assms(1) show ?thesis unfolding unique_upto_def by (metis add.right_neutral)
  qed
  with assms(1,3,4) show ?thesis
    unfolding unique_upto_def by (auto intro: order_trans)
qed

lemma gkeys_groups: "gkeys d = map gkey (groups_of d)"
  by (simp add: gkeys_def gkeys_db_def [abs_def] gkeys_rp_def [abs_def] groups_of_def
      groups_of_db_def [abs_def] map_concat o_def)

text \<open>What the invariant says: every group ID and every shard ID is used once.\<close>

lemma shard_inv_iff:
  "shard_inv d \<longleftrightarrow>
     distinct (map sgi_ID (groups_of d)) \<and> (\<forall>g \<in> set (groups_of d). sgi_ID g \<le> MaxShardGroupID d) \<and>
     distinct (map si_ID (shards_of d)) \<and> (\<forall>s \<in> set (shards_of d). si_ID s \<le> MaxShardID d)"
proof -
  have g: "map fst (gkeys d) = map sgi_ID (groups_of d)"
    by (simp add: gkeys_groups gkey_def o_def)
  have s: "shard_ids (gkeys d) = map si_ID (shards_of d)"
    by (simp add: shard_ids_def shards_of_def gkeys_groups gkey_def map_concat o_def)
  show ?thesis unfolding shard_inv_def g s unique_upto_mset by auto
qed

lemma mset_concat_sum: "mset (concat xss) = \<Sum>\<^sub># (image_mset mset (mset xss))"
  by (induction xss) auto

lemma shard_ids_mono:
  assumes "mset ks' \<subseteq># mset ks"
  shows "mset (shard_ids ks') \<subseteq># mset (shard_ids ks)"
proof -
  obtain R where "mset ks = mset ks' + R" using assms by (auto simp: mset_subset_eq_exists_conv)
  then show ?thesis by (simp add: shard_ids_def mset_concat_sum)
qed

lemma shard_inv_mono:
  assumes "shard_inv d" "mset (gkeys d') \<subseteq># mset (gkeys d)"
    "MaxShardGroupID d' = MaxShardGroupID d" "MaxShardID d' = MaxShardID d"
  shows "shard_inv d'"
  using assms shard_ids_mono [OF assms(2)] image_mset_subseteq_mono [OF assms(2), of fst]
  by (auto simp: shard_inv_def intro: unique_upto_mono)

lemma shard_inv_add:
  assumes "shard_inv d" "mset (gkeys d') = add_mset (gid, sids) (mset (gkeys d))"
    and "gid = MaxShardGroupID d + 1" "MaxShardGroupID d' = gid" "MaxShardGroupID d < - 1"
    and "distinct sids" "\<And>b. b \<in> set sids \<Longrightarrow> MaxShardID d < b \<and> b \<le> MaxShardID d'"
      "MaxShardID d \<le> MaxShardID d'"
  shows "shard_inv d'"
proof -
  have "mset (map fst (gkeys d')) = mset (map fst (gkeys d)) + mset [gid]"
    using assms(2) by simp
  moreover have "mset (shard_ids (gkeys d')) = mset (shard_ids (gkeys d)) + mset sids"
    using assms(2) by (simp add: shard_ids_def mset_concat_sum)
  moreover have "MaxShardGroupID d < gid"
    using word_less_incr [OF assms(5)] assms(3) by simp
  ultimately show ?thesis
    using assms unique_upto_add [of "MaxShardGroupID d" _ "[gid]" gid]
      unique_upto_add [of "MaxShardID d" _ sids "MaxShardID d'"]
    by (auto simp: shard_inv_def)
qed


section \<open>Effect of the operations on identifiers\<close>

lemma gkeys_update_db:
  "(\<And>di. gkeys_db (f di) = gkeys_db di) \<Longrightarrow> gkeys (update_db n f d) = gkeys d"
  by (simp add: gkeys_def update_db_def concat_update_first_same)

lemma gkeys_update_db_le:
  assumes "\<And>di. mset (gkeys_db (f di)) \<subseteq># mset (gkeys_db di)"
  shows "mset (gkeys (update_db n f d)) \<subseteq># mset (gkeys d)"
  unfolding gkeys_def update_db_def using assms by (simp add: mset_concat_update_first_le)

lemma gkeys_update_rp:
  assumes "\<And>rp. gkeys_rp (f rp) = gkeys_rp rp"
  shows "gkeys (update_rp n p f d) = gkeys d"
  unfolding update_rp_def
  by (rule gkeys_update_db) (simp add: gkeys_db_def concat_update_first_same assms)

lemma find_rp_Inr:
  "find_rp d n p = Inr rpi \<longleftrightarrow>
     (\<exists>di. find (\<lambda>d. di_Name d = n) (Databases d) = Some di \<and>
           find (\<lambda>rp. rpi_Name rp = p) (di_RetentionPolicies di) = Some rpi)"
  by (auto simp: find_rp_def RetentionPolicy_def Database_def split: option.splits)

lemma gkeys_update_rp_add:
  assumes "find_rp d n p = Inr rpi" "mset (gkeys_rp (f rpi)) = add_mset k (mset (gkeys_rp rpi))"
  shows "mset (gkeys (update_rp n p f d)) = add_mset k (mset (gkeys d))"
proof -
  from assms(1) obtain di where di: "find (\<lambda>d. di_Name d = n) (Databases d) = Some di"
    "find (\<lambda>rp. rpi_Name rp = p) (di_RetentionPolicies di) = Some rpi"
    by (auto simp: find_rp_Inr)
  have "mset (concat (map gkeys_rp (update_first (\<lambda>rp. rpi_Name rp = p) f (di_RetentionPolicies di))))
      = mset (concat (map gkeys_rp (di_RetentionPolicies di))) + {#k#}"
    by (rule mset_concat_update_first [OF di(2)]) (simp add: assms(2))
  then show ?thesis
    unfolding update_rp_def update_db_def gkeys_def
    by (simp add: mset_concat_update_first [OF di(1), where M = "{#k#}"] gkeys_db_def)
qed

lemma update_rp_simps [simp]:
  "MaxShardGroupID (update_rp n p f d) = MaxShardGroupID d" "MaxShardID (update_rp n p f d) = MaxShardID d"
  "MaxShardGroupID (update_db n g d) = MaxShardGroupID d" "MaxShardID (update_db n g d) = MaxShardID d"
  "DataNodes (update_rp n p f d) = DataNodes d" "MetaNodes (update_rp n p f d) = MetaNodes d"
  "DataNodes (update_db n g d) = DataNodes d" "MetaNodes (update_db n g d) = MetaNodes d"
  "MaxNodeID (update_rp n p f d) = MaxNodeID d" "MaxNodeID (update_db n g d) = MaxNodeID d"
  "Users (update_rp n p f d) = Users d" "Users (update_db n g d) = Users d"
  "adminUserExists (update_rp n p f d) = adminUserExists d"
  "adminUserExists (update_db n g d) = adminUserExists d"
  by (simp_all add: update_rp_def update_db_def)

section \<open>The shards of a new group\<close>

lemma length_assign_owners [simp]: "length (assign_owners nodes r k sis) = length sis"
  by (induction sis arbitrary: k) auto

lemma map_si_ID_assign_owners [simp]: "map si_ID (assign_owners nodes r k sis) = map si_ID sis"
  by (induction sis arbitrary: k) auto

lemma owners_assign_owners:
  assumes "\<forall>s \<in> set sis. si_Owners s = []"
  shows "concat (map (\<lambda>s. map so_NodeID (si_Owners s)) (assign_owners nodes r k sis)) =
    map (\<lambda>m. ni_ID (nodes ! (m mod length nodes))) [k..<k + r * length sis]"
  using assms
proof (induction sis arbitrary: k)
  case (Cons si sis)
  have "map (\<lambda>j. ni_ID (nodes ! ((k + j) mod length nodes))) [0..<r]
      = map (\<lambda>m. ni_ID (nodes ! (m mod length nodes))) [k..<k + r]"
    by (rule nth_equalityI) auto
  moreover have "[k..<k + r * length (si # sis)] = [k..<k + r] @ [k + r..<k + r + r * length sis]"
    using upt_add_eq_append [of k "k + r" "r * length sis"] by (simp add: add.assoc)
  ultimately show ?case using Cons by (simp add: o_def)
qed simp

lemma length_owners_assign_owners:
  assumes "\<forall>s \<in> set sis. si_Owners s = []" "s \<in> set (assign_owners nodes r k sis)"
  shows "length (si_Owners s) = r"
  using assms by (induction sis arbitrary: k) auto

text \<open>A window of at most \<open>n\<close> consecutive positions of a cycle of length \<open>n\<close> is injective.\<close>

lemma inj_on_mod_window:
  fixes k n w :: nat
  assumes "w \<le> n"
  shows "inj_on (\<lambda>m. m mod n) {k..<k + w}"
proof (rule inj_onI)
  fix x y assume xy: "x \<in> {k..<k + w}" "y \<in> {k..<k + w}" "x mod n = y mod n"
  have "x mod n = y mod n \<Longrightarrow> x \<le> y \<Longrightarrow> x = y" if "x \<in> {k..<k + w}" "y \<in> {k..<k + w}" for x y
  proof -
    assume "x mod n = y mod n" "x \<le> y"
    then have "n dvd y - x" by (metis mod_eq_dvd_iff_nat)
    moreover have "y - x < n" using that assms by auto
    ultimately show "x = y" using \<open>x \<le> y\<close> nat_dvd_not_less by fastforce
  qed
  with xy show "x = y" by (metis nat_le_linear)
qed

lemma distinct_round_robin:
  assumes "distinct (map ni_ID nodes)" "w \<le> length nodes"
  shows "distinct (map (\<lambda>m. ni_ID (nodes ! (m mod length nodes))) [k..<k + w])"
proof -
  have "inj_on (\<lambda>m. ni_ID (nodes ! (m mod length nodes))) {k..<k + w}"
  proof (rule inj_onI)
    fix x y assume xy: "x \<in> {k..<k + w}" "y \<in> {k..<k + w}"
      and eq: "ni_ID (nodes ! (x mod length nodes)) = ni_ID (nodes ! (y mod length nodes))"
    then have "0 < length nodes" using assms(2) by auto
    then have "x mod length nodes = y mod length nodes"
      using eq assms(1) nth_eq_iff_index_eq [OF assms(1), of "x mod length nodes" "y mod length nodes"]
      by simp
    with inj_on_mod_window [OF assms(2), of k] xy show "x = y" by (auto dest: inj_onD)
  qed
  then show ?thesis by (simp add: distinct_map)
qed

lemma new_shards_props:
  "length (new_shards m n) = n" "\<forall>s \<in> set (new_shards m n). si_Owners s = []"
  "map si_ID (new_shards m n) = map (\<lambda>i. m + of_nat (Suc i)) [0..<n]"
  by (auto simp: new_shards_def)

lemma u64_add_of_nat:
  fixes m :: u64
  assumes "unat m + n < 2 ^ 64" "k \<le> n"
  shows "unat (m + of_nat k) = unat m + k"
  using assms by (simp add: unat_word_ariths unat_of_nat)

lemma new_shard_ids:
  assumes "unat m + n < 2 ^ 64"
  shows "distinct (map si_ID (new_shards m n))"
    and "b \<in> set (map si_ID (new_shards m n)) \<Longrightarrow> m < b \<and> b \<le> m + of_nat n"
    and "m \<le> m + of_nat n"
proof -
  note u = u64_add_of_nat [OF assms]
  have "inj_on (\<lambda>i. m + of_nat (Suc i) :: u64) {0..<n}"
  proof (rule inj_onI)
    fix x y assume xy: "x \<in> {0..<n}" "y \<in> {0..<n}" "m + of_nat (Suc x) = (m + of_nat (Suc y) :: u64)"
    then have "unat (m + of_nat (Suc x)) = unat (m + of_nat (Suc y) :: u64)" by argo
    with xy u [of "Suc x"] u [of "Suc y"] show "x = y" by auto
  qed
  then show "distinct (map si_ID (new_shards m n))" by (simp add: new_shards_props distinct_map)
  show "m < b \<and> b \<le> m + of_nat n" if "b \<in> set (map si_ID (new_shards m n))"
  proof -
    from that obtain i where i: "i < n" "b = m + of_nat (Suc i)"
      unfolding new_shards_props by auto
    have "unat b = unat m + Suc i" unfolding i(2) by (rule u) (use i(1) in simp)
    moreover have "unat (m + of_nat n) = unat m + n" using u [of n] by simp
    ultimately show ?thesis using i(1) by (simp add: word_less_nat_alt word_le_nat_alt)
  qed
  show "m \<le> m + of_nat n" using u [of n] by (simp add: word_le_nat_alt)
qed

section \<open>CreateShardGroup\<close>

lemma find_rp_update_rp:
  assumes "find_rp d n p = Inr rpi" "\<And>rp. rpi_Name (f rp) = rpi_Name rp"
  shows "find_rp (update_rp n p f d) n p = Inr (f rpi)"
  using assms
  by (auto simp: find_rp_Inr update_rp_def update_db_def find_update_first)

lemma find_rp_MaxIDs [simp]:
  "find_rp (d\<lparr>MaxShardID := a\<rparr>) n p = find_rp d n p"
  "find_rp (d\<lparr>MaxShardGroupID := b\<rparr>) n p = find_rp d n p"
  by (simp_all add: find_rp_def RetentionPolicy_def Database_def)

lemma replica_count_bounds:
  assumes "0 \<le> R" "0 < n"
  shows "1 \<le> replica_count R n" "replica_count R n \<le> int n"
  using assms by (auto simp: replica_count_def)

text \<open>The number of replicas and of shards of a new group, as natural numbers.\<close>

definition replicas_for :: "RetentionPolicyInfo \<Rightarrow> Data \<Rightarrow> nat" where
  "replicas_for rpi d = nat (replica_count (rpi_ReplicaN rpi) (length (DataNodes d)))"

definition shards_for :: "RetentionPolicyInfo \<Rightarrow> Data \<Rightarrow> nat" where
  "shards_for rpi d = length (DataNodes d) div replicas_for rpi d"

lemma replicas_for_bounds:
  assumes "DataNodes d \<noteq> []" "0 \<le> rpi_ReplicaN rpi"
  shows "1 \<le> replicas_for rpi d" "replicas_for rpi d \<le> length (DataNodes d)"
    "1 \<le> shards_for rpi d" "replicas_for rpi d * shards_for rpi d \<le> length (DataNodes d)"
proof -
  note b = replica_count_bounds [OF assms(2), of "length (DataNodes d)"]
  show r: "1 \<le> replicas_for rpi d" "replicas_for rpi d \<le> length (DataNodes d)"
    using b assms(1) by (auto simp: replicas_for_def)
  then show "1 \<le> shards_for rpi d"
    using div_greater_zero_iff [of "length (DataNodes d)" "replicas_for rpi d"]
    by (simp add: shards_for_def Suc_le_eq)
  show "replicas_for rpi d * shards_for rpi d \<le> length (DataNodes d)"
    by (simp add: shards_for_def)
qed

lemma CreateShardGroup_new:
  assumes "DataNodes d \<noteq> []" "find_rp d n p = Inr rpi" "rpi_ShardGroupByTimestamp rpi ts = None"
    "0 \<le> rpi_ReplicaN rpi"
  shows "CreateShardGroup n p ts d =
    (None, update_rp n p (\<lambda>rpi'. rpi'\<lparr>rpi_ShardGroups := sort_ShardGroupInfos (rpi_ShardGroups rpi' @
        [new_shard_group d rpi ts (replicas_for rpi d) (shards_for rpi d)])\<rparr>)
      (d\<lparr>MaxShardGroupID := MaxShardGroupID d + 1,
         MaxShardID := MaxShardID d + of_nat (shards_for rpi d)\<rparr>))"
proof -
  let ?r = "replica_count (rpi_ReplicaN rpi) (length (DataNodes d))"
  have r: "1 \<le> ?r" using replica_count_bounds [OF assms(4)] assms(1) by simp
  then have q: "go_quot (int (length (DataNodes d))) ?r = int (shards_for rpi d)"
    by (simp add: go_quot_pos shards_for_def replicas_for_def zdiv_int)
  show ?thesis
    using assms r by (simp add: CreateShardGroup_def Let_def q flip: replicas_for_def)
qed

lemma new_shard_group_accepts:
  assumes "0 < rpi_ShardGroupDuration rpi"
  shows "accepts (new_shard_group d rpi ts r n) ts"
  using Truncate_le [of ts "rpi_ShardGroupDuration rpi"] Truncate_bound [OF assms, of ts]
  by (simp add: accepts_def new_shard_group_def Contains_def Deleted_def Truncated_def IsZero_def Let_def)

lemma find_unique_accept:
  assumes "find P xs = None" "P x" "mset ys = mset (xs @ [x])"
  shows "find P ys = Some x"
proof -
  have none: "\<And>y. y \<in> set xs \<Longrightarrow> \<not> P y" using assms(1) by (auto simp: find_None_iff)
  have st: "set ys = insert x (set xs)" using assms(3) by (metis set_mset_mset mset_append
        set_append list.set(1,2) Un_insert_right sup_bot.right_neutral)
  then have "find P ys \<noteq> None" using assms(2) by (auto simp: find_None_iff)
  then obtain y where "find P ys = Some y" by blast
  moreover from this have "y = x" using find_SomeD st none by fastforce
  ultimately show ?thesis by simp
qed

lemma CreateShardGroup_covers_new:
  assumes "DataNodes d \<noteq> []" "find_rp d n p = Inr rpi" "rpi_ShardGroupByTimestamp rpi ts = None"
    "0 \<le> rpi_ReplicaN rpi" "0 < rpi_ShardGroupDuration rpi"
    and "CreateShardGroup n p ts d = (None, d')"
  shows "ShardGroupByTimestamp d' n p ts =
    Inr (Some (new_shard_group d rpi ts (replicas_for rpi d) (shards_for rpi d)))"
proof -
  let ?g = "new_shard_group d rpi ts (replicas_for rpi d) (shards_for rpi d)"
  have "find_rp d' n p = Inr (rpi\<lparr>rpi_ShardGroups := sort_ShardGroupInfos (rpi_ShardGroups rpi @ [?g])\<rparr>)"
    using CreateShardGroup_new [OF assms(1-4)] assms(2,6) by (auto simp: find_rp_update_rp)
  moreover have "find (\<lambda>g. accepts g ts) (sort_ShardGroupInfos (rpi_ShardGroups rpi @ [?g])) = Some ?g"
    using assms(3) new_shard_group_accepts [OF assms(5)] sg_sort.sort_mset
    by (intro find_unique_accept [where xs = "rpi_ShardGroups rpi"])
      (auto simp: rpi_ShardGroupByTimestamp_def)
  ultimately show ?thesis
    by (simp add: ShardGroupByTimestamp_def rpi_ShardGroupByTimestamp_def)
qed

lemma CreateShardGroup_existing:
  assumes "DataNodes d \<noteq> []" "find_rp d n p = Inr rpi" "rpi_ShardGroupByTimestamp rpi ts = Some g"
  shows "CreateShardGroup n p ts d = (None, d)"
  using assms by (simp add: CreateShardGroup_def)

text \<open>The cases of a call, with the state it leaves.\<close>

lemma CreateShardGroup_cases:
  assumes "CreateShardGroup n p ts d = (e, d')"
  obtains "d' = d"
  | rpi where "find_rp d n p = Inr rpi" "d' = d\<lparr>MaxShardGroupID := MaxShardGroupID d + 1\<rparr>"
      "rpi_ReplicaN rpi < 0" "e \<noteq> None"
  | rpi where "DataNodes d \<noteq> []" "find_rp d n p = Inr rpi" "0 \<le> rpi_ReplicaN rpi" "e = None"
      "rpi_ShardGroupByTimestamp rpi ts = None"
  | rpi where "DataNodes d \<noteq> []" "find_rp d n p = Inr rpi" "rpi_ReplicaN rpi < 0" "e = None"
      "d' = update_rp n p (\<lambda>rpi'. rpi'\<lparr>rpi_ShardGroups := sort_ShardGroupInfos (rpi_ShardGroups rpi' @
        [new_shard_group d rpi ts 0 0])\<rparr>) (d\<lparr>MaxShardGroupID := MaxShardGroupID d + 1\<rparr>)"
proof (cases "DataNodes d = []")
  case True
  with assms that(1) show ?thesis by (simp add: CreateShardGroup_def)
next
  case nodes: False
  show ?thesis
  proof (cases "find_rp d n p")
    case (Inl x)
    with assms nodes that(1) show ?thesis by (simp add: CreateShardGroup_def)
  next
    case (Inr rpi)
    show ?thesis
    proof (cases "rpi_ShardGroupByTimestamp rpi ts = None \<and> rpi_ReplicaN rpi < 0")
      case neg: True
      let ?n = "int (length (DataNodes d))"
      have r: "replica_count (rpi_ReplicaN rpi) (length (DataNodes d)) = rpi_ReplicaN rpi"
        using neg by (simp add: replica_count_def)
      have q: "go_quot ?n (rpi_ReplicaN rpi) \<le> 0"
        using neg by (simp add: go_quot_def mult_le_0_iff pos_imp_zdiv_nonneg_iff)
      show ?thesis
      proof (cases "go_quot ?n (rpi_ReplicaN rpi) < 0")
        case True
        with assms nodes Inr neg r that(2) [OF Inr] show ?thesis
          by (auto simp: CreateShardGroup_def Let_def)
      next
        case False
        with q have z: "go_quot ?n (rpi_ReplicaN rpi) = 0" by simp
        from assms nodes Inr neg r z that(4) [OF nodes Inr] show ?thesis
          by (auto simp: CreateShardGroup_def Let_def)
      qed
    next
      case False
      with assms nodes Inr that(1) that(3) [OF nodes Inr] CreateShardGroup_new [OF nodes Inr]
        CreateShardGroup_existing [OF nodes Inr] show ?thesis
        by (cases "rpi_ShardGroupByTimestamp rpi ts") (auto simp: not_less)
    qed
  qed
qed

end
