(* ===== verification/MetaUsers.thy ===== *)
theory MetaUsers
  imports MetaDatabases
begin

text \<open>
  Users and privileges of \<open>Data\<close> (\<open>services/meta/data.go\<close>).
\<close>

section \<open>Operations\<close>

definition data_user :: "Data \<Rightarrow> string \<Rightarrow> UserInfo option" where
  "data_user data username = find (\<lambda>u. ui_Name u = username) (Users data)"

definition hasAdminUser :: "Data \<Rightarrow> bool" where
  "hasAdminUser data = list_ex ui_Admin (Users data)"

definition AdminUserExists :: "Data \<Rightarrow> bool" where
  "AdminUserExists data = adminUserExists data"

definition CreateUser :: "string \<Rightarrow> string \<Rightarrow> bool \<Rightarrow> Data \<Rightarrow> result" where
  "CreateUser name hash admin data =
     (if name = '''' then (Some ErrUsernameRequired, data)
      else if data_user data name \<noteq> None then (Some ErrUserExists, data)
      else (None, data\<lparr>Users := Users data @
              [\<lparr>ui_Name = name, ui_Hash = hash, ui_Admin = admin, ui_Privileges = []\<rparr>],
            adminUserExists := (if admin then True else adminUserExists data)\<rparr>))"

definition DropUser :: "string \<Rightarrow> Data \<Rightarrow> result" where
  "DropUser name data =
     (case data_user data name of
        None \<Rightarrow> (Some ErrUserNotFound, data)
      | Some u \<Rightarrow>
          (let data1 = data\<lparr>Users := remove_first (\<lambda>u. ui_Name u = name) (Users data)\<rparr>
           in (None, if ui_Admin u then data1\<lparr>adminUserExists := hasAdminUser data1\<rparr> else data1)))"

definition update_user :: "string \<Rightarrow> (UserInfo \<Rightarrow> UserInfo) \<Rightarrow> Data \<Rightarrow> Data" where
  "update_user name f data = data\<lparr>Users := update_first (\<lambda>u. ui_Name u = name) f (Users data)\<rparr>"

definition UpdateUser :: "string \<Rightarrow> string \<Rightarrow> Data \<Rightarrow> result" where
  "UpdateUser name hash data =
     (if data_user data name = None then (Some ErrUserNotFound, data)
      else (None, update_user name (\<lambda>u. u\<lparr>ui_Hash := hash\<rparr>) data))"

definition SetPrivilege :: "string \<Rightarrow> string \<Rightarrow> Privilege \<Rightarrow> Data \<Rightarrow> result" where
  "SetPrivilege name database p data =
     (if data_user data name = None then (Some ErrUserNotFound, data)
      else if Database data database = None then (Some (ErrDatabaseNotFound database), data)
      else (None, update_user name
              (\<lambda>u. u\<lparr>ui_Privileges := map_put database p (ui_Privileges u)\<rparr>) data))"

definition SetAdminPrivilege :: "string \<Rightarrow> bool \<Rightarrow> Data \<Rightarrow> result" where
  "SetAdminPrivilege name admin data =
     (if data_user data name = None then (Some ErrUserNotFound, data)
      else
        (let data1 = update_user name (\<lambda>u. u\<lparr>ui_Admin := admin\<rparr>) data
         in (None, data1\<lparr>adminUserExists := hasAdminUser data1\<rparr>)))"

definition UserPrivileges :: "Data \<Rightarrow> string \<Rightarrow> meta_error + (string \<times> Privilege) list" where
  "UserPrivileges data name =
     (case data_user data name of None \<Rightarrow> Inl ErrUserNotFound | Some u \<Rightarrow> Inr (ui_Privileges u))"

definition UserPrivilege :: "Data \<Rightarrow> string \<Rightarrow> string \<Rightarrow> meta_error + Privilege" where
  "UserPrivilege data name database =
     (case data_user data name of
        None \<Rightarrow> Inl ErrUserNotFound
      | Some u \<Rightarrow>
          (case find (\<lambda>(db, p). db = database) (ui_Privileges u) of
             Some (_, p) \<Rightarrow> Inr p
           | None \<Rightarrow> Inr NoPrivileges))"

end
