(* ===== verification/MetaShardInv.thy ===== *)
theory MetaShardInv
  imports MetaShardProps MetaUsers
begin

text \<open>
  Every operation of \<open>Data\<close> keeps \<open>shard_inv\<close>: shard group IDs and shard IDs are never
  handed out twice, also when the metadata of another cluster is imported.
\<close>

section \<open>Operations that keep the identifiers\<close>

lemma shard_inv_gkeys:
  "shard_inv d \<Longrightarrow> gkeys d' = gkeys d \<Longrightarrow> MaxShardGroupID d' = MaxShardGroupID d \<Longrightarrow>
   MaxShardID d' = MaxShardID d \<Longrightarrow> shard_inv d'"
  by (rule shard_inv_mono) auto

lemma shard_inv_update_db:
  "shard_inv d \<Longrightarrow> (\<And>di. gkeys_db (f di) = gkeys_db di) \<Longrightarrow> shard_inv (update_db n f d)"
  by (erule shard_inv_gkeys) (simp_all add: gkeys_update_db)

lemma shard_inv_update_rp:
  "shard_inv d \<Longrightarrow> (\<And>rp. gkeys_rp (f rp) = gkeys_rp rp) \<Longrightarrow> shard_inv (update_rp n p f d)"
  by (erule shard_inv_gkeys) (simp_all add: gkeys_update_rp)

lemma gkeys_same_groups:
  "Databases d' = Databases d \<Longrightarrow> gkeys d' = gkeys d"
  by (simp add: gkeys_def)

lemma DeleteShardGroup_inv: "shard_inv d \<Longrightarrow> shard_inv (snd (DeleteShardGroup now n p gid d))"
  by (auto simp: DeleteShardGroup_def gkeys_rp_def gkey_def slice_simps
      intro!: shard_inv_update_rp split: sum.splits)

lemma TruncateShardGroups_inv: "shard_inv d \<Longrightarrow> shard_inv (TruncateShardGroups t d)"
proof (erule shard_inv_gkeys)
  have "gkey (truncate_group t g) = gkey g" for g
    by (simp add: truncate_group_def gkey_def)
  then show "gkeys (TruncateShardGroups t d) = gkeys d"
    by (simp add: gkeys_groups TruncateShardGroups_def groups_of_map)
qed (simp_all add: TruncateShardGroups_def)

lemma DropRetentionPolicy_inv: "shard_inv d \<Longrightarrow> shard_inv (snd (DropRetentionPolicy n p d))"
  unfolding DropRetentionPolicy_def snd_conv
  by (erule shard_inv_mono)
    (auto intro!: gkeys_update_db_le simp: gkeys_db_def mset_concat_remove_first_le)

lemma DropDatabase_inv: "shard_inv d \<Longrightarrow> shard_inv (snd (DropDatabase n d))"
  by (erule shard_inv_mono)
    (auto simp: DropDatabase_def gkeys_def mset_concat_remove_first_le)

lemma CreateDatabase_inv: "shard_inv d \<Longrightarrow> shard_inv (snd (CreateDatabase n d))"
  by (erule shard_inv_gkeys)
    (auto simp: CreateDatabase_def gkeys_def gkeys_db_def new_DatabaseInfo_def)

lemma map_si_ID_update_owners:
  "map si_ID (update_first P (\<lambda>s. s\<lparr>si_Owners := h s\<rparr>) xs) = map si_ID xs"
  by (simp add: slice_simps)

lemma reassign_ids: "map si_ID (snd (reassign rng os shards fr)) = map si_ID shards"
  by (induction os arbitrary: shards fr)
    (auto simp: map_si_ID_update_owners split: sum.splits prod.splits)

lemma gkey_delete_node_group: "gkey (snd (delete_node_group now rng nid sg)) = gkey sg"
  using reassign_ids [of rng _ "map (relinquish nid) (sgi_Shards sg)"]
  by (auto simp: delete_node_group_def Let_def gkey_def relinquish_def o_def split: prod.splits)
    (metis snd_conv)

lemma map_until_same:
  assumes "\<And>x. h (snd (f x)) = h x"
  shows "map h (snd (map_until f xs)) = map h xs"
proof (induction xs)
  case (Cons x xs)
  with assms [of x] show ?case
    by (cases "f x"; cases "fst (f x)") (auto simp: case_prod_beta)
qed simp

lemma gkeys_DeleteDataNode: "gkeys (snd (DeleteDataNode now rng nid d)) = gkeys d"
proof -
  let ?g = "delete_node_group now rng nid"
  let ?r = "\<lambda>rp. let (e, sgs) = map_until ?g (rpi_ShardGroups rp) in (e, rp\<lparr>rpi_ShardGroups := sgs\<rparr>)"
  let ?f = "\<lambda>d. let (e, rps) = map_until ?r (di_RetentionPolicies d) in (e, d\<lparr>di_RetentionPolicies := rps\<rparr>)"
  have r: "gkeys_rp (snd (?r rp)) = gkeys_rp rp" for rp
    using map_until_same [of gkey ?g "rpi_ShardGroups rp", OF gkey_delete_node_group]
    by (simp add: gkeys_rp_def Let_def case_prod_beta)
  have "gkeys_db (snd (?f di)) = gkeys_db di" for di
    using map_until_same [of gkeys_rp ?r "di_RetentionPolicies di", OF r]
    by (simp add: gkeys_db_def Let_def case_prod_beta)
  from map_until_same [of gkeys_db ?f "Databases d", OF this] show ?thesis
    by (simp add: DeleteDataNode_def gkeys_def Let_def case_prod_beta)
qed

lemma DeleteDataNode_shard_inv: "shard_inv d \<Longrightarrow> shard_inv (snd (DeleteDataNode now rng nid d))"
  by (erule shard_inv_gkeys [OF _ gkeys_DeleteDataNode])
    (auto simp: DeleteDataNode_def Let_def case_prod_beta)

lemma CreateRetentionPolicy_inv:
  assumes "shard_inv d" "\<And>rp. rp0 = Some rp \<Longrightarrow> rpi_ShardGroups rp = []"
  shows "shard_inv (snd (CreateRetentionPolicy n rp0 b d))"
  using assms
  by (auto simp: CreateRetentionPolicy_def Let_def gkeys_db_def gkeys_rp_def
      intro!: shard_inv_update_db split: option.splits)

lemma rpi_ShardGroups_rpu_assign [simp]: "rpi_ShardGroups (rpu_assign rpu rp) = rpi_ShardGroups rp"
  by (auto simp: rpu_assign_def Let_def split: option.splits)

lemma UpdateRetentionPolicy_inv:
  "shard_inv d \<Longrightarrow> shard_inv (snd (UpdateRetentionPolicy n p rpu b d))"
  by (auto simp: UpdateRetentionPolicy_def Let_def gkeys_db_def gkeys_rp_def concat_update_first_same
      intro!: shard_inv_update_db split: option.splits)

section \<open>Dropping a shard\<close>

lemma unique_upto_shards_mono:
  assumes "shard_inv d" "mset (map sgi_ID (groups_of d')) = mset (map sgi_ID (groups_of d))"
    "mset (map si_ID (shards_of d')) \<subseteq># mset (map si_ID (shards_of d))"
    "MaxShardGroupID d' = MaxShardGroupID d" "MaxShardID d' = MaxShardID d"
  shows "shard_inv d'"
proof -
  have g: "map fst (gkeys e) = map sgi_ID (groups_of e)"
    and s: "shard_ids (gkeys e) = map si_ID (shards_of e)" for e
    by (simp_all add: gkeys_groups gkey_def o_def shard_ids_def shards_of_def map_concat)
  show ?thesis
    using assms unique_upto_mono [OF _ assms(3)] by (simp add: shard_inv_def g s)
qed

lemma mset_remove_first: "mset (remove_first P xs) \<subseteq># mset xs"
  by (induction xs) (auto intro: subset_mset.order_trans)

text \<open>The shards left after \<open>DropShard\<close>.\<close>

abbreviation shards_of_groups :: "ShardGroupInfo list \<Rightarrow> ShardInfo list" where
  "shards_of_groups gs \<equiv> concat (map sgi_Shards gs)"

lemma remove_first_append:
  "remove_first P (xs @ ys) = (if list_ex P xs then remove_first P xs @ ys else xs @ remove_first P ys)"
  by (induction xs) auto

lemma remove_first_none: "\<not> list_ex P xs \<Longrightarrow> remove_first P xs = xs"
  by (induction xs) auto

lemma concat_update_first_remove:
  assumes "\<And>x. P x \<longleftrightarrow> list_ex Q (h x)" "\<And>x. P x \<Longrightarrow> h (f x) = remove_first Q (h x)"
  shows "concat (map h (update_first P f xs)) = remove_first Q (concat (map h xs))"
  using assms by (induction xs) (auto simp: remove_first_append)

lemma concat_map_concat: "concat (map f (concat xss)) = concat (map (\<lambda>xs. concat (map f xs)) xss)"
  by (induction xss) auto

lemma list_ex_concat: "list_ex P (concat xss) = list_ex (list_ex P) xss"
  by (induction xss) auto

lemma list_ex_map: "list_ex P (map f xs) = list_ex (\<lambda>x. P (f x)) xs"
  by (induction xs) auto

lemma sgi_Shards_drop [simp]:
  "sgi_Shards (drop_shard_group now sid g) = remove_first (\<lambda>s. si_ID s = sid) (sgi_Shards g)"
  by (simp add: drop_shard_group_def Let_def)

lemma shards_of_DropShard:
  "shards_of (DropShard now sid d) = remove_first (\<lambda>s. si_ID s = sid) (shards_of d)"
proof -
  let ?Q = "\<lambda>s. si_ID s = sid"
  have gs: "shards_of_groups (update_first (has_shard sid) (drop_shard_group now sid) gs) =
      remove_first ?Q (shards_of_groups gs)" for gs
    by (rule concat_update_first_remove) (simp_all add: has_shard_def)
  have ex: "list_ex (has_shard sid) gs \<longleftrightarrow> list_ex ?Q (shards_of_groups gs)" for gs
    by (simp add: list_ex_concat list_ex_map has_shard_def [abs_def])
  let ?rpf = "\<lambda>rp. rp\<lparr>rpi_ShardGroups := update_first (has_shard sid) (drop_shard_group now sid) (rpi_ShardGroups rp)\<rparr>"
  have rps: "concat (map (\<lambda>rp. shards_of_groups (rpi_ShardGroups rp))
        (update_first (\<lambda>rp. list_ex (has_shard sid) (rpi_ShardGroups rp)) ?rpf rps)) =
      remove_first ?Q (concat (map (\<lambda>rp. shards_of_groups (rpi_ShardGroups rp)) rps))" for rps
    by (rule concat_update_first_remove) (simp_all add: ex gs)
  have ex_db: "list_ex (has_shard sid) (groups_of_db di) \<longleftrightarrow>
      list_ex ?Q (concat (map (\<lambda>rp. shards_of_groups (rpi_ShardGroups rp)) (di_RetentionPolicies di)))" for di
    by (simp add: ex groups_of_db_def concat_map_concat o_def)
  have sh: "shards_of e = concat (map (\<lambda>di. concat (map (\<lambda>rp. shards_of_groups (rpi_ShardGroups rp))
      (di_RetentionPolicies di))) (Databases e))" for e
    by (simp add: shards_of_def groups_of_def groups_of_db_def concat_map_concat o_def)
  show ?thesis unfolding sh DropShard_def
    by (simp, rule concat_update_first_remove) (simp_all add: ex_db rps)
qed

lemma DropShard_inv: "shard_inv d \<Longrightarrow> shard_inv (DropShard now sid d)"
proof (erule unique_upto_shards_mono)
  have "sgi_ID (drop_shard_group now sid g) = sgi_ID g" for g
    by (simp add: drop_shard_group_def Let_def)
  then show "mset (map sgi_ID (groups_of (DropShard now sid d))) = mset (map sgi_ID (groups_of d))"
    by (simp add: DropShard_def groups_of_def groups_of_db_def map_concat o_def slice_simps)
  show "mset (map si_ID (shards_of (DropShard now sid d))) \<subseteq># mset (map si_ID (shards_of d))"
    using image_mset_subseteq_mono [OF mset_remove_first, of si_ID] by (simp add: shards_of_DropShard)
qed (simp_all add: DropShard_def)

section \<open>Creating shard groups\<close>

lemma gkeys_add_group:
  assumes "find_rp d n p = Inr rpi"
  shows "mset (gkeys (update_rp n p (\<lambda>rpi'. rpi'\<lparr>rpi_ShardGroups :=
      sort_ShardGroupInfos (rpi_ShardGroups rpi' @ [g])\<rparr>) d)) = add_mset (gkey g) (mset (gkeys d))"
  by (rule gkeys_update_rp_add [OF assms]) (simp add: gkeys_rp_def sg_sort.sort_mset)

lemma gkey_new_shard_group:
  "gkey (new_shard_group d rpi ts r n) = (MaxShardGroupID d + 1, map si_ID (new_shards (MaxShardID d) n))"
  by (simp add: gkey_def new_shard_group_def Let_def)

lemma shard_inv_max_group:
  assumes "shard_inv d" "MaxShardGroupID d < - 1"
  shows "shard_inv (d\<lparr>MaxShardGroupID := MaxShardGroupID d + 1\<rparr>)"
proof -
  have "MaxShardGroupID d \<le> MaxShardGroupID d + 1"
    using word_less_incr [OF assms(2), of "MaxShardGroupID d"] by simp
  with assms(1) show ?thesis
    by (auto simp: shard_inv_def unique_upto_def gkeys_def intro: order_trans)
qed

lemma gkeys_MaxIDs [simp]:
  "gkeys (d\<lparr>MaxShardGroupID := a, MaxShardID := b\<rparr>) = gkeys d"
  "gkeys (d\<lparr>MaxShardGroupID := a\<rparr>) = gkeys d"
  by (simp_all add: gkeys_def)

lemma CreateShardGroup_inv:
  assumes inv: "shard_inv d" and gmax: "MaxShardGroupID d < - 1"
    and smax: "unat (MaxShardID d) + length (DataNodes d) < 2 ^ 64"
  shows "shard_inv (snd (CreateShardGroup n p ts d))"
proof -
  obtain e d' where ed: "CreateShardGroup n p ts d = (e, d')" by fastforce
  then show ?thesis
  proof (cases rule: CreateShardGroup_cases)
    case 1
    with ed inv show ?thesis by simp
  next
    case (2 rpi)
    with ed shard_inv_max_group [OF inv gmax] show ?thesis by simp
  next
    case (3 rpi)
    note new = CreateShardGroup_new [OF 3(1,2,5,3)]
    have "shards_for rpi d \<le> length (DataNodes d)" by (simp add: shards_for_def)
    with smax have s: "unat (MaxShardID d) + shards_for rpi d < 2 ^ 64" by linarith
    show ?thesis unfolding new snd_conv
      by (rule shard_inv_add [OF inv, where gid = "MaxShardGroupID d + 1"
            and sids = "map si_ID (new_shards (MaxShardID d) (shards_for rpi d))"])
        (use 3(2) gmax new_shard_ids [OF s] in \<open>auto simp: gkeys_add_group gkey_new_shard_group\<close>)
  next
    case (4 rpi)
    show ?thesis unfolding ed snd_conv 4(5)
      by (rule shard_inv_add [OF inv, where gid = "MaxShardGroupID d + 1" and sids = "[]"])
        (use 4(2) gmax in \<open>auto simp: gkeys_add_group gkey_new_shard_group new_shards_def\<close>)
  qed
qed

section \<open>Importing metadata\<close>

text \<open>The \<open>n\<close> identifiers handed out after the counter value \<open>m\<close>.\<close>

definition seq_ids :: "u64 \<Rightarrow> nat \<Rightarrow> u64 list" where
  "seq_ids m n = map (\<lambda>i. m + of_nat (Suc i)) [0..<n]"

lemma seq_ids_new_shards: "seq_ids m n = map si_ID (new_shards m n)"
  by (simp add: seq_ids_def new_shards_props)

lemmas seq_ids_fresh = new_shard_ids [folded seq_ids_new_shards]

lemma seq_ids_0 [simp]: "seq_ids m 0 = []"
  by (simp add: seq_ids_def)

lemma seq_ids_add: "seq_ids m (a + b) = seq_ids m a @ seq_ids (m + of_nat a) b"
proof -
  have "map (\<lambda>i. m + of_nat (Suc i)) [a..<a + b] = map (\<lambda>i. m + of_nat a + of_nat (Suc i) :: u64) [0..<b]"
    by (rule nth_equalityI) (auto simp: add.assoc add.left_commute)
  moreover have "[0..<a + b] = [0..<a] @ [a..<a + b]" by (rule upt_add_eq_append) simp
  ultimately show ?thesis unfolding seq_ids_def by (metis map_append)
qed

lemma seq_ids_Suc: "seq_ids m (Suc n) = (m + 1) # seq_ids (m + 1) n"
  using seq_ids_add [of m 1 n] by (simp add: seq_ids_def [of m "Suc 0"])

lemma renumber_shards_ids:
  "renumber_shards sid m ss = (sid', m', ss') \<Longrightarrow>
   map si_ID ss' = seq_ids sid (length ss) \<and> sid' = sid + of_nat (length ss) \<and>
   (\<forall>s \<in> set ss'. si_Owners s = [])"
  by (induction ss arbitrary: sid m sid' m' ss')
    (fastforce simp: seq_ids_Suc Let_def split: prod.splits)+

lemma renumber_groups_ids:
  "renumber_groups gid sid m gs = (gid', sid', m', gs') \<Longrightarrow>
   map sgi_ID gs' = seq_ids gid (length gs) \<and> gid' = gid + of_nat (length gs) \<and>
   map si_ID (shards_of_groups gs') = seq_ids sid (length (shards_of_groups gs)) \<and>
   sid' = sid + of_nat (length (shards_of_groups gs))"
proof (induction gs arbitrary: gid sid m gid' sid' m' gs')
  case (Cons g gs)
  obtain sid1 m1 ss where r: "renumber_shards sid m (sgi_Shards g) = (sid1, m1, ss)"
    using prod_cases3 by blast
  obtain gs2 where gs2: "renumber_groups (gid + 1) sid1 m1 gs = (gid', sid', m', gs2)"
    "gs' = g\<lparr>sgi_ID := gid + 1, sgi_Shards := ss\<rparr> # gs2"
    using Cons.prems r by (auto split: prod.splits)
  from Cons.IH [OF gs2(1)] renumber_shards_ids [OF r] gs2(2) show ?case
    by (simp add: seq_ids_Suc seq_ids_add)
qed simp

abbreviation groups_of_rps :: "RetentionPolicyInfo list \<Rightarrow> ShardGroupInfo list" where
  "groups_of_rps rps \<equiv> concat (map rpi_ShardGroups rps)"

lemma renumber_rps_ids:
  "renumber_rps gid sid m rps = (gid', sid', m', rps') \<Longrightarrow>
   map sgi_ID (groups_of_rps rps') = seq_ids gid (length (groups_of_rps rps)) \<and>
   gid' = gid + of_nat (length (groups_of_rps rps)) \<and>
   map si_ID (shards_of_groups (groups_of_rps rps')) =
     seq_ids sid (length (shards_of_groups (groups_of_rps rps))) \<and>
   sid' = sid + of_nat (length (shards_of_groups (groups_of_rps rps)))"
proof (induction rps arbitrary: gid sid m gid' sid' m' rps')
  case (Cons rp rps)
  obtain gid1 sid1 m1 gs where r: "renumber_groups gid sid m (rpi_ShardGroups rp) = (gid1, sid1, m1, gs)"
    using prod_cases4 by blast
  obtain rps2 where rps2: "renumber_rps gid1 sid1 m1 rps = (gid', sid', m', rps2)"
    "rps' = rp\<lparr>rpi_ShardGroups := gs\<rparr> # rps2"
    using Cons.prems r by (auto split: prod.splits)
  from Cons.IH [OF rps2(1)] renumber_groups_ids [OF r] rps2(2) show ?case
    by (simp add: seq_ids_add)
qed simp

lemma shard_inv_adds:
  assumes inv: "shard_inv d" and ks: "mset (gkeys d') = mset (gkeys d) + mset ks"
    and g: "map fst ks = seq_ids (MaxShardGroupID d) a" "MaxShardGroupID d' = MaxShardGroupID d + of_nat a"
      "unat (MaxShardGroupID d) + a < 2 ^ 64"
    and s: "shard_ids ks = seq_ids (MaxShardID d) b" "MaxShardID d' = MaxShardID d + of_nat b"
      "unat (MaxShardID d) + b < 2 ^ 64"
  shows "shard_inv d'"
proof -
  have "mset (map fst (gkeys d')) = mset (map fst (gkeys d)) + mset (map fst ks)"
    using ks by simp
  moreover have "mset (shard_ids (gkeys d')) = mset (shard_ids (gkeys d)) + mset (shard_ids ks)"
    using ks by (simp add: shard_ids_def mset_concat_sum)
  ultimately show ?thesis
    using inv g s unique_upto_add [OF _ seq_ids_fresh [OF g(3)]]
      unique_upto_add [OF _ seq_ids_fresh [OF s(3)]]
    by (simp add: shard_inv_def)
qed

lemma length_concat_member: "x \<in> set xs \<Longrightarrow> length (f x) \<le> length (concat (map f xs))"
  by (induction xs) auto

lemma import_policies_size:
  assumes "import_policies di b brp rrp = Inr (rps, dflt)"
  shows "length (groups_of_rps rps) \<le> length (groups_of_db di)"
    "length (shards_of_groups (groups_of_rps rps)) \<le> length (shards_of_groups (groups_of_db di))"
proof -
  have "(\<exists>rp nm. rp \<in> set (di_RetentionPolicies di) \<and> rps = [rp\<lparr>rpi_Name := nm\<rparr>]) \<or>
      rps = di_RetentionPolicies di"
    using assms
    by (auto simp: import_policies_def Let_def di_RetentionPolicy_def
        split: if_splits option.splits dest!: find_SomeD)
  then show "length (groups_of_rps rps) \<le> length (groups_of_db di)"
    "length (shards_of_groups (groups_of_rps rps)) \<le> length (shards_of_groups (groups_of_db di))"
    using length_concat_member [of _ "di_RetentionPolicies di" rpi_ShardGroups]
      length_concat_member [of _ "di_RetentionPolicies di" "\<lambda>rp. shards_of_groups (rpi_ShardGroups rp)"]
    by (auto simp: groups_of_db_def concat_map_concat o_def)
qed

lemma gkeys_create_update:
  assumes "Database d n = None"
  shows "mset (gkeys (update_db n f (d\<lparr>Databases := Databases d @ [new_DatabaseInfo n],
      MaxShardGroupID := a, MaxShardID := b\<rparr>))) =
    mset (gkeys d) + mset (gkeys_db (f (new_DatabaseInfo n)))"
proof -
  have "find (\<lambda>di. di_Name di = n) (Databases d @ [new_DatabaseInfo n]) = Some (new_DatabaseInfo n)"
    using assms by (simp add: Database_def find_append new_DatabaseInfo_def)
  from mset_concat_update_first [OF this, of gkeys_db f "mset (gkeys_db (f (new_DatabaseInfo n)))"]
  show ?thesis
    by (simp add: gkeys_def update_db_def gkeys_db_def new_DatabaseInfo_def)
qed

lemma importOneDB_cases:
  assumes r: "importOneDB other b r brp rrp m d = (res, m', d')" and db: "Database other b = Some di"
  obtains nm where "d' = d \<or> d' = snd (CreateDatabase nm d)"
    | nm rps dflt gid sid rps' where "import_policies di b brp rrp = Inr (rps, dflt)"
      "Database d nm = None"
      "renumber_rps (MaxShardGroupID d) (MaxShardID d) m rps = (gid, sid, m', rps')"
      "d' = update_db nm (\<lambda>di. di\<lparr>di_RetentionPolicies := rps', di_DefaultRetentionPolicy := dflt\<rparr>)
         (d\<lparr>Databases := Databases d @ [new_DatabaseInfo nm], MaxShardGroupID := gid, MaxShardID := sid\<rparr>)"
proof -
  define nm where "nm = (if r = '''' then b else r)"
  show thesis
  proof (cases "Database d nm = None \<and> nm \<noteq> ''''")
    case False
    with r db have "d' = d"
      by (auto simp: importOneDB_def nm_def [symmetric] CreateDatabase_def split: if_splits)
    with that(1) show thesis by blast
  next
    case fresh: True
    then have c: "CreateDatabase nm d = (None, d\<lparr>Databases := Databases d @ [new_DatabaseInfo nm]\<rparr>)"
      by (simp add: CreateDatabase_def)
    show thesis
    proof (cases "import_policies di b brp rrp")
      case (Inl e)
      with r db fresh c have "d' = snd (CreateDatabase nm d)"
        by (simp add: importOneDB_def nm_def [symmetric])
      with that(1) show thesis by blast
    next
      case (Inr x)
      obtain rps dflt where x: "x = (rps, dflt)" by fastforce
      obtain gid sid m2 rps' where ren:
        "renumber_rps (MaxShardGroupID d) (MaxShardID d) m rps = (gid, sid, m2, rps')"
        using prod_cases4 by blast
      from r db fresh c Inr x ren show thesis
        by (intro that(2) [of rps dflt nm gid sid rps'])
          (auto simp: importOneDB_def nm_def [symmetric])
    qed
  qed
qed

lemma importOneDB_inv:
  assumes inv: "shard_inv d" and r: "importOneDB other b r brp rrp m d = (res, m', d')"
    and db: "Database other b = Some di"
    and g: "unat (MaxShardGroupID d) + length (groups_of_db di) < 2 ^ 64"
    and s: "unat (MaxShardID d) + length (shards_of_groups (groups_of_db di)) < 2 ^ 64"
  shows "shard_inv d'"
    and "unat (MaxShardGroupID d') \<le> unat (MaxShardGroupID d) + length (groups_of_db di)"
    and "unat (MaxShardID d') \<le> unat (MaxShardID d) + length (shards_of_groups (groups_of_db di))"
proof -
  from r db have "shard_inv d' \<and> unat (MaxShardGroupID d') \<le> unat (MaxShardGroupID d) + length (groups_of_db di) \<and>
    unat (MaxShardID d') \<le> unat (MaxShardID d) + length (shards_of_groups (groups_of_db di))"
  proof (cases rule: importOneDB_cases)
    case (1 nm)
    then show ?thesis using inv CreateDatabase_inv [OF inv, of nm] by (auto simp: CreateDatabase_def)
  next
    case (2 nm rps dflt gid sid rps')
    note ids = renumber_rps_ids [OF 2(3)]
    note sz = import_policies_size [OF 2(1)]
    let ?a = "length (groups_of_rps rps)" and ?k = "length (shards_of_groups (groups_of_rps rps))"
    have a: "unat (MaxShardGroupID d) + ?a < 2 ^ 64" and k: "unat (MaxShardID d) + ?k < 2 ^ 64"
      using g s sz by linarith+
    have "shard_inv d'"
      by (rule shard_inv_adds [OF inv, where ks = "map gkey (groups_of_rps rps')" and a = ?a and b = ?k])
        (use 2 ids a k in \<open>simp_all add: gkeys_create_update gkeys_db_def gkeys_rp_def [abs_def]
          map_concat o_def gkey_def shard_ids_def concat_map_concat\<close>)
    moreover have "unat (MaxShardGroupID d') = unat (MaxShardGroupID d) + ?a"
      "unat (MaxShardID d') = unat (MaxShardID d) + ?k"
      using 2(4) ids u64_add_of_nat [OF a] u64_add_of_nat [OF k] by simp_all
    ultimately show ?thesis using sz by simp
  qed
  then show "shard_inv d'"
    and "unat (MaxShardGroupID d') \<le> unat (MaxShardGroupID d) + length (groups_of_db di)"
    and "unat (MaxShardID d') \<le> unat (MaxShardID d) + length (shards_of_groups (groups_of_db di))"
    by simp_all
qed

lemma import_all_inv:
  assumes "shard_inv d" "\<And>di. di \<in> set dbs \<Longrightarrow> Database other (di_Name di) = Some di"
    "unat (MaxShardGroupID d) + length (concat (map groups_of_db dbs)) < 2 ^ 64"
    "unat (MaxShardID d) + length (shards_of_groups (concat (map groups_of_db dbs))) < 2 ^ 64"
  shows "shard_inv (snd (import_all other dbs newDBs m d))"
  using assms
proof (induction dbs arbitrary: newDBs m d)
  case (Cons di dbs)
  show ?case
  proof (cases "di_Name di = ''_internal''")
    case True
    with Cons show ?thesis by simp
  next
    case False
    obtain res m' d' where r: "importOneDB other (di_Name di) '''' '''' '''' m d = (res, m', d')"
      using prod_cases3 by blast
    have db: "Database other (di_Name di) = Some di" using Cons.prems(2) by simp
    note one = importOneDB_inv [OF Cons.prems(1) r db]
    have d': "shard_inv d'"
      "unat (MaxShardGroupID d') + length (concat (map groups_of_db dbs)) < 2 ^ 64"
      "unat (MaxShardID d') + length (shards_of_groups (concat (map groups_of_db dbs))) < 2 ^ 64"
      using one Cons.prems(3,4) by simp_all
    show ?thesis
    proof (cases res)
      case (Inr n)
      with False r d' Cons.IH [OF d'(1) _ d'(2,3)] Cons.prems(2) show ?thesis by simp
    qed (use False r d' in simp)
  qed
qed simp

lemma ImportData_inv:
  assumes inv: "shard_inv d" and names: "distinct (map di_Name (Databases other))"
    and g: "unat (MaxShardGroupID d) + length (groups_of other) < 2 ^ 64"
    and s: "unat (MaxShardID d) + length (shards_of other) < 2 ^ 64"
  shows "shard_inv (snd (ImportData other b r brp rrp d))"
proof (cases "b = ''''")
  case True
  with assms find_distinct [OF names] show ?thesis
    by (simp add: ImportData_def import_all_inv Database_def groups_of_def shards_of_def)
next
  case False
  obtain res m' d' where imp: "importOneDB other b r brp rrp [] d = (res, m', d')"
    using prod_cases3 by blast
  have "shard_inv d'"
  proof (cases "Database other b")
    case None
    with imp inv show ?thesis by (simp add: importOneDB_def)
  next
    case (Some di)
    then have "di \<in> set (Databases other)" by (auto simp: Database_def dest: find_SomeD)
    then have "length (groups_of_db di) \<le> length (groups_of other)"
      "length (shards_of_groups (groups_of_db di)) \<le> length (shards_of other)"
      using length_concat_member [of di "Databases other" groups_of_db]
        length_concat_member [of di "Databases other" "\<lambda>di. shards_of_groups (groups_of_db di)"]
      by (simp_all add: groups_of_def shards_of_def concat_map_concat o_def)
    with g s importOneDB_inv(1) [OF inv imp Some] show ?thesis by simp
  qed
  with False imp show ?thesis by (simp add: ImportData_def split: sum.splits)
qed

end
