(* ===== verification/MetaAccess.thy ===== *)
theory MetaAccess
  imports MetaShardInv
begin

text \<open>
  Invariants of databases, retention policies and users: names identify, durations are
  compatible, privileges mention existing databases only, and the cached
  \<open>adminUserExists\<close> flag tells whether an admin user exists.
\<close>

section \<open>Retention policies\<close>

definition policy_ok :: "RetentionPolicyInfo \<Rightarrow> bool" where
  "policy_ok rp \<longleftrightarrow>
     Hour \<le> rpi_ShardGroupDuration rp \<and>
     (0 < rpi_Duration rp \<longrightarrow> rpi_ShardGroupDuration rp \<le> rpi_Duration rp)"

definition policies_of :: "Data \<Rightarrow> RetentionPolicyInfo list" where
  "policies_of d = concat (map di_RetentionPolicies (Databases d))"

definition policies_all :: "(RetentionPolicyInfo \<Rightarrow> bool) \<Rightarrow> Data \<Rightarrow> bool" where
  "policies_all P d \<longleftrightarrow> (\<forall>rp \<in> set (policies_of d). P rp)"

abbreviation policies_ok :: "Data \<Rightarrow> bool" where
  "policies_ok \<equiv> policies_all policy_ok"

lemma policies_of_update_db:
  "rp \<in> set (policies_of (update_db n f d)) \<Longrightarrow>
   rp \<in> set (policies_of d) \<or> (\<exists>di. Database d n = Some di \<and> rp \<in> set (di_RetentionPolicies (f di)))"
  by (auto simp: policies_of_def update_db_def Database_def dest!: set_update_first_cases)

lemma policies_all_update_db:
  assumes "policies_all P d"
    and "\<And>di rp. Database d n = Some di \<Longrightarrow> rp \<in> set (di_RetentionPolicies (f di)) \<Longrightarrow> P rp"
  shows "policies_all P (update_db n f d)"
  using assms policies_of_update_db unfolding policies_all_def by blast

lemma policies_all_Database:
  "policies_all P d \<Longrightarrow> Database d n = Some di \<Longrightarrow> rp \<in> set (di_RetentionPolicies di) \<Longrightarrow> P rp"
  by (auto simp: policies_all_def policies_of_def Database_def dest!: find_SomeD)

lemma policies_all_update_rp:
  assumes "policies_all P d" "\<And>rp. P rp \<Longrightarrow> P (f rp)"
  shows "policies_all P (update_rp n p f d)"
  unfolding update_rp_def
  by (rule policies_all_update_db [OF assms(1)])
    (use assms policies_all_Database in \<open>fastforce dest!: set_update_first_cases dest: find_SomeD\<close>)

lemma shardGroupDuration_le: "Hour \<le> d \<Longrightarrow> shardGroupDuration d \<le> d"
  by (auto simp: shardGroupDuration_def go_time_defs)

text \<open>Normalising keeps a shard group duration below the policy's duration.\<close>

lemma normalisedShardDuration_le:
  "Hour \<le> d \<Longrightarrow> sgd \<le> d \<Longrightarrow> normalisedShardDuration sgd d \<le> d"
  using shardGroupDuration_le [of d]
  by (auto simp: normalisedShardDuration_def MinRetentionPolicyDuration_def shardGroupDuration_def
      go_time_defs)

lemma rpu_assign_fields [simp]:
  "rpi_Name (rpu_assign rpu rp) = (case rpu_Name rpu of Some n \<Rightarrow> n | None \<Rightarrow> rpi_Name rp)"
  "rpi_Duration (rpu_assign rpu rp) = (case rpu_Duration rpu of Some d \<Rightarrow> d | None \<Rightarrow> rpi_Duration rp)"
  "rpi_ReplicaN (rpu_assign rpu rp) = (case rpu_ReplicaN rpu of Some n \<Rightarrow> n | None \<Rightarrow> rpi_ReplicaN rp)"
  by (auto simp: rpu_assign_def Let_def split: option.splits)

lemma rpu_assign_subs: "rpi_Subscriptions (rpu_assign rpu rp) = rpi_Subscriptions rp"
  by (auto simp: rpu_assign_def Let_def split: option.splits)

lemma rpu_assign_sgd:
  "rpi_ShardGroupDuration (rpu_assign rpu rp) =
     (case rpu_ShardGroupDuration rpu of
        Some sgd \<Rightarrow> normalisedShardDuration sgd (rpi_Duration (rpu_assign rpu rp))
      | None \<Rightarrow> rpi_ShardGroupDuration rp)"
  by (auto simp: rpu_assign_def Let_def split: option.splits)

lemma rpu_assign_ok:
  assumes "policy_ok rp" "\<not> durations_incompatible rpu rp"
    "\<And>d. rpu_Duration rpu = Some d \<Longrightarrow> d = 0 \<or> Hour \<le> d"
  shows "policy_ok (rpu_assign rpu rp)"
proof -
  let ?r = "rpu_assign rpu rp"
  have "Hour \<le> rpi_ShardGroupDuration ?r"
    using assms(1) normalisedShardDuration_ge by (auto simp: rpu_assign_sgd policy_ok_def split: option.splits)
  moreover have "rpi_ShardGroupDuration ?r \<le> rpi_Duration ?r" if pos: "0 < rpi_Duration ?r"
  proof -
    have hour: "Hour \<le> rpi_Duration ?r"
      using assms pos by (fastforce simp: policy_ok_def split: option.splits)
    show ?thesis
    proof (cases "rpu_ShardGroupDuration rpu")
      case None
      with assms(1,2) pos show ?thesis
        by (auto simp: rpu_assign_sgd durations_incompatible_def policy_ok_def split: option.splits)
    next
      case (Some sgd)
      then have "sgd \<le> rpi_Duration ?r"
        using assms(2) pos by (auto simp: durations_incompatible_def split: option.splits)
      with Some hour show ?thesis by (simp add: rpu_assign_sgd normalisedShardDuration_le)
    qed
  qed
  ultimately show ?thesis by (simp add: policy_ok_def)
qed

lemma CreateRetentionPolicy_policies:
  "policies_ok d \<Longrightarrow> policies_ok (snd (CreateRetentionPolicy n rp0 b d))"
  using normalisedShardDuration_ge policies_all_Database [of policy_ok d n]
  by (auto simp: CreateRetentionPolicy_def Let_def policy_ok_def [of "rpi_ShardGroupDuration_update _ _"]
      intro!: policies_all_update_db split: option.splits)

text \<open>The policy an update assigns to is the one the lookup found.\<close>

lemma update_target:
  assumes "di_RetentionPolicy di name = Some rp"
  shows "find (\<lambda>rp. Some (rpi_Name rp) = di_RetentionPolicy_name di name) (di_RetentionPolicies di) = Some rp"
  using assms by (auto simp: di_RetentionPolicy_def split: option.splits)

lemma UpdateRetentionPolicy_policies:
  assumes "policies_ok d"
  shows "policies_ok (snd (UpdateRetentionPolicy n p rpu b d))"
proof -
  have "policy_ok rp'"
    if di: "Database d n = Some di" "di_RetentionPolicy di p = Some rp"
      and g: "\<not> durations_incompatible rpu rp" "\<And>d. rpu_Duration rpu = Some d \<Longrightarrow> d = 0 \<or> Hour \<le> d"
      and rp': "rp' \<in> set (update_first (\<lambda>rp. Some (rpi_Name rp) = di_RetentionPolicy_name di p)
         (rpu_assign rpu) (di_RetentionPolicies di))" for di rp rp'
  proof -
    have ok: "policy_ok r" if "r \<in> set (di_RetentionPolicies di)" for r
      using policies_all_Database [OF assms di(1) that] .
    from set_update_first_cases [OF rp'] show ?thesis
    proof
      assume "\<exists>x. find (\<lambda>rp. Some (rpi_Name rp) = di_RetentionPolicy_name di p) (di_RetentionPolicies di) = Some x \<and>
        rp' = rpu_assign rpu x"
      with update_target [OF di(2)] have "rp' = rpu_assign rpu rp" by simp
      moreover have "rp \<in> set (di_RetentionPolicies di)" using update_target [OF di(2)] by (auto dest: find_SomeD)
      ultimately show ?thesis using rpu_assign_ok [OF ok g] by simp
    qed (rule ok)
  qed
  then show ?thesis
    using assms
    by (auto simp: UpdateRetentionPolicy_def Let_def MinRetentionPolicyDuration_def not_less
        intro!: policies_all_update_db split: option.splits)
qed

section \<open>Names\<close>

definition db_names_ok :: "DatabaseInfo \<Rightarrow> bool" where
  "db_names_ok di \<longleftrightarrow>
     distinct (map rpi_Name (di_RetentionPolicies di)) \<and>
     (\<forall>rp \<in> set (di_RetentionPolicies di). rpi_Name rp \<noteq> '''' \<and>
        distinct (map sub_Name (rpi_Subscriptions rp))) \<and>
     distinct (map cqi_Name (di_ContinuousQueries di))"

definition names_ok :: "Data \<Rightarrow> bool" where
  "names_ok d \<longleftrightarrow>
     distinct (map di_Name (Databases d)) \<and> (\<forall>di \<in> set (Databases d). di_Name di \<noteq> '''') \<and>
     (\<forall>di \<in> set (Databases d). db_names_ok di)"

lemma names_ok_Database: "names_ok d \<Longrightarrow> Database d n = Some di \<Longrightarrow> db_names_ok di"
  by (auto simp: names_ok_def Database_def dest: find_SomeD)

lemma Databases_update_db [simp]:
  "Databases (update_db n f d) = update_first (\<lambda>di. di_Name di = n) f (Databases d)"
  by (simp add: update_db_def)

lemma names_ok_update_db:
  assumes inv: "names_ok d" and nm: "\<And>di. di_Name (f di) = di_Name di"
    and ok: "\<And>di. Database d n = Some di \<Longrightarrow> db_names_ok (f di)"
  shows "names_ok (update_db n f d)"
proof -
  have "di_Name x \<noteq> '''' \<and> db_names_ok x"
    if "x \<in> set (update_first (\<lambda>di. di_Name di = n) f (Databases d))" for x
    using set_update_first_cases [OF that] inv nm ok
    by (auto simp: names_ok_def Database_def dest: find_SomeD)
  with inv nm show ?thesis by (simp add: names_ok_def slice_simps)
qed

lemma db_names_ok_update_rp:
  assumes ok: "db_names_ok di" and f: "\<And>rp. P rp \<Longrightarrow> rpi_Name (f rp) = rpi_Name rp"
    "\<And>rp. distinct (map sub_Name (rpi_Subscriptions rp)) \<Longrightarrow> distinct (map sub_Name (rpi_Subscriptions (f rp)))"
  shows "db_names_ok (di\<lparr>di_RetentionPolicies := update_first P f (di_RetentionPolicies di)\<rparr>)"
proof -
  have "rpi_Name x \<noteq> '''' \<and> distinct (map sub_Name (rpi_Subscriptions x))"
    if "x \<in> set (update_first P f (di_RetentionPolicies di))" for x
    using set_update_first_cases [OF that] ok f by (auto simp: db_names_ok_def dest!: find_SomeD)
  with ok f show ?thesis by (simp add: db_names_ok_def slice_simps)
qed

lemma names_ok_update_rp:
  assumes "names_ok d" "\<And>rp. rpi_Name (f rp) = rpi_Name rp"
    "\<And>rp. distinct (map sub_Name (rpi_Subscriptions rp)) \<Longrightarrow> distinct (map sub_Name (rpi_Subscriptions (f rp)))"
  shows "names_ok (update_rp n p f d)"
  unfolding update_rp_def
  by (rule names_ok_update_db [OF assms(1)])
    (auto intro!: db_names_ok_update_rp assms dest: names_ok_Database [OF assms(1)])

lemma CreateDatabase_names: "names_ok d \<Longrightarrow> names_ok (snd (CreateDatabase n d))"
  by (auto simp: CreateDatabase_def names_ok_def db_names_ok_def new_DatabaseInfo_def Database_def
      find_None_iff)

lemma DropDatabase_names: "names_ok d \<Longrightarrow> names_ok (snd (DropDatabase n d))"
  using set_remove_first_subset
  by (fastforce simp: DropDatabase_def names_ok_def distinct_map_remove_first)

lemma CreateRetentionPolicy_cases:
  obtains "snd (CreateRetentionPolicy n rp0 b d) = d"
  | rp di where "rp0 = Some rp" "Database d n = Some di" "rpi_Name rp \<noteq> ''''" "1 \<le> rpi_ReplicaN rp"
      "\<forall>r \<in> set (di_RetentionPolicies di). rpi_Name r \<noteq> rpi_Name rp"
      "CreateRetentionPolicy n rp0 b d =
        (None, update_db n (\<lambda>di. di\<lparr>di_RetentionPolicies := di_RetentionPolicies di @
            [rp\<lparr>rpi_ShardGroupDuration :=
               normalisedShardDuration (rpi_ShardGroupDuration rp) (rpi_Duration rp)\<rparr>],
            di_DefaultRetentionPolicy := (if b then rpi_Name rp else di_DefaultRetentionPolicy di)\<rparr>) d)"
proof (cases "snd (CreateRetentionPolicy n rp0 b d) = d")
  case False
  then obtain rp di where r: "rp0 = Some rp" "rpi_Name rp \<noteq> ''''" "\<not> rpi_ReplicaN rp < 1"
      "Database d n = Some di" "di_RetentionPolicy di (rpi_Name rp) = None"
    by (auto simp: CreateRetentionPolicy_def Let_def split: option.splits if_splits)
  then have "\<forall>r \<in> set (di_RetentionPolicies di). rpi_Name r \<noteq> rpi_Name rp"
    by (auto simp: di_RetentionPolicy_def di_RetentionPolicy_name_def find_None_iff)
  with r False show ?thesis
    by (intro that(2) [of rp di]) (auto simp: CreateRetentionPolicy_def Let_def cong: if_cong)
qed (rule that(1))

lemma CreateRetentionPolicy_names:
  assumes inv: "names_ok d" and sub: "\<And>rp. rp0 = Some rp \<Longrightarrow> distinct (map sub_Name (rpi_Subscriptions rp))"
  shows "names_ok (snd (CreateRetentionPolicy n rp0 b d))"
proof (cases rule: CreateRetentionPolicy_cases [of n rp0 b d])
  case (2 rp di)
  show ?thesis unfolding 2(6) snd_conv
    by (rule names_ok_update_db [OF inv])
      (use 2(2,3,5) sub [OF 2(1)] names_ok_Database [OF inv 2(2)] in \<open>auto simp: db_names_ok_def\<close>)
qed (use inv in simp)

lemma DropRetentionPolicy_names: "names_ok d \<Longrightarrow> names_ok (snd (DropRetentionPolicy n p d))"
  using names_ok_Database [of d n] set_remove_first_subset
  by (fastforce simp: DropRetentionPolicy_def db_names_ok_def distinct_map_remove_first
      intro!: names_ok_update_db)

lemma SetDefaultRetentionPolicy_names: "names_ok d \<Longrightarrow> names_ok (snd (SetDefaultRetentionPolicy n p d))"
  using names_ok_Database [of d n]
  by (auto simp: SetDefaultRetentionPolicy_def db_names_ok_def intro!: names_ok_update_db
      split: option.splits)

lemma CreateContinuousQuery_names: "names_ok d \<Longrightarrow> names_ok (snd (CreateContinuousQuery n c q d))"
  using names_ok_Database [of d n]
  by (auto simp: CreateContinuousQuery_def db_names_ok_def find_None_iff intro!: names_ok_update_db
      split: option.splits)

lemma DropContinuousQuery_names: "names_ok d \<Longrightarrow> names_ok (snd (DropContinuousQuery n c d))"
  using names_ok_Database [of d n]
  by (auto simp: DropContinuousQuery_def db_names_ok_def distinct_map_remove_first
      intro!: names_ok_update_db)

lemma CreateShardGroup_names: "names_ok d \<Longrightarrow> names_ok (snd (CreateShardGroup n p ts d))"
  by (auto simp: CreateShardGroup_def Let_def intro!: names_ok_update_rp split: sum.splits)
    (auto simp: names_ok_def)

lemma DeleteShardGroup_names: "names_ok d \<Longrightarrow> names_ok (snd (DeleteShardGroup now n p gid d))"
  by (auto simp: DeleteShardGroup_def intro!: names_ok_update_rp split: sum.splits)

lemma UpdateRetentionPolicy_cases:
  obtains "snd (UpdateRetentionPolicy n p rpu b d) = d"
  | di rp where "Database d n = Some di" "di_RetentionPolicy di p = Some rp"
      "\<And>nm. rpu_Name rpu = Some nm \<Longrightarrow> nm = p \<or> di_RetentionPolicy di nm = None"
      "\<And>x. rpu_Duration rpu = Some x \<Longrightarrow> x = 0 \<or> Hour \<le> x" "\<not> durations_incompatible rpu rp"
      "snd (UpdateRetentionPolicy n p rpu b d) = update_db n
         (\<lambda>di. di\<lparr>di_RetentionPolicies :=
              update_first (\<lambda>rp. Some (rpi_Name rp) = di_RetentionPolicy_name di p)
                (rpu_assign rpu) (di_RetentionPolicies di),
            di_DefaultRetentionPolicy :=
              (if di_DefaultRetentionPolicy di \<noteq> rpi_Name (rpu_assign rpu rp) \<and> b
               then rpi_Name (rpu_assign rpu rp) else di_DefaultRetentionPolicy di)\<rparr>) d"
proof (cases "Database d n")
  case None
  then show ?thesis by (intro that(1)) (simp add: UpdateRetentionPolicy_def)
next
  case di: (Some di)
  show ?thesis
  proof (cases "di_RetentionPolicy di p")
    case None
    with di show ?thesis by (intro that(1)) (simp add: UpdateRetentionPolicy_def)
  next
    case (Some rp)
    let ?c = "(case rpu_Name rpu of Some n \<Rightarrow> n \<noteq> p \<and> di_RetentionPolicy di n \<noteq> None | None \<Rightarrow> False) \<or>
      (case rpu_Duration rpu of Some d \<Rightarrow> d < MinRetentionPolicyDuration \<and> d \<noteq> 0 | None \<Rightarrow> False) \<or>
      durations_incompatible rpu rp"
    show ?thesis
    proof (cases ?c)
      case True
      with di Some show ?thesis by (intro that(1)) (auto simp: UpdateRetentionPolicy_def)
    next
      case False
      show ?thesis
        by (rule that(2) [OF di Some])
          (use False di Some in \<open>auto simp: UpdateRetentionPolicy_def Let_def MinRetentionPolicyDuration_def\<close>)
    qed
  qed
qed

lemma find_rp_name:
  assumes "distinct (map rpi_Name rps)" "find (\<lambda>rp. Some (rpi_Name rp) = k) rps = Some rp"
    "rpi_Name (f rp) \<notin> rpi_Name ` set rps \<or> rpi_Name (f rp) = rpi_Name rp"
  shows "distinct (map rpi_Name (update_first (\<lambda>rp. Some (rpi_Name rp) = k) f rps))"
  using assms
proof (induction rps)
  case (Cons r rps)
  have "rpi_Name r \<notin> rpi_Name ` set (update_first (\<lambda>rp. Some (rpi_Name rp) = k) f rps)"
    if "Some (rpi_Name r) \<noteq> k"
  proof
    assume "rpi_Name r \<in> rpi_Name ` set (update_first (\<lambda>rp. Some (rpi_Name rp) = k) f rps)"
    then obtain y where y: "y \<in> set (update_first (\<lambda>rp. Some (rpi_Name rp) = k) f rps)"
      "rpi_Name y = rpi_Name r" by auto
    have r: "rpi_Name r \<notin> rpi_Name ` set rps" using Cons.prems(1) by simp
    have f: "find (\<lambda>rp. Some (rpi_Name rp) = k) rps = Some rp" using Cons.prems(2) that by auto
    then have "rp \<in> set rps" by (auto dest: find_SomeD)
    with r Cons.prems(3) have "rpi_Name (f rp) \<noteq> rpi_Name r" by (auto simp: image_iff)
    with set_update_first_cases [OF y(1)] y(2) r f show False by (metis imageI option.inject)
  qed
  note tail = this
  show ?case
  proof (cases "Some (rpi_Name r) = k")
    case True
    then have "rp = r" using Cons.prems(2) by simp
    with Cons.prems(1,3) have "rpi_Name (f r) \<notin> rpi_Name ` set rps" by auto
    with True Cons.prems(1) show ?thesis by simp
  next
    case False
    then have "distinct (map rpi_Name (update_first (\<lambda>rp. Some (rpi_Name rp) = k) f rps))"
      using Cons.prems by (intro Cons.IH) (simp_all, blast)
    with False tail show ?thesis by simp
  qed
qed simp

lemma UpdateRetentionPolicy_names:
  assumes inv: "names_ok d" and nm: "rpu_Name rpu \<noteq> Some ''''"
  shows "names_ok (snd (UpdateRetentionPolicy n p rpu b d))"
proof (cases rule: UpdateRetentionPolicy_cases [of n p rpu b d])
  case (2 di rp)
  let ?P = "\<lambda>rp. Some (rpi_Name rp) = di_RetentionPolicy_name di p"
  let ?rps = "update_first ?P (rpu_assign rpu) (di_RetentionPolicies di)"
  note tgt = update_target [OF 2(2)]
  have rp: "rp \<in> set (di_RetentionPolicies di)" "Some (rpi_Name rp) = di_RetentionPolicy_name di p"
    using find_SomeD [OF tgt] by auto
  have ok: "db_names_ok di" using names_ok_Database [OF inv 2(1)] .
  have "rpi_Name (rpu_assign rpu rp) \<notin> rpi_Name ` set (di_RetentionPolicies di) \<or>
      rpi_Name (rpu_assign rpu rp) = rpi_Name rp"
  proof (cases "rpu_Name rpu")
    case (Some m)
    with nm have "m \<noteq> ''''" by simp
    with 2(3) [OF Some] rp(2) Some show ?thesis
      by (auto simp: di_RetentionPolicy_def di_RetentionPolicy_name_def find_None_iff split: if_splits)
  qed simp
  then have "distinct (map rpi_Name ?rps)"
    using find_rp_name [OF _ tgt] ok by (simp add: db_names_ok_def)
  moreover have "rpi_Name x \<noteq> '''' \<and> distinct (map sub_Name (rpi_Subscriptions x))" if "x \<in> set ?rps" for x
    using set_update_first_cases [OF that] ok rp nm tgt
    by (auto simp: db_names_ok_def rpu_assign_subs split: option.splits)
  ultimately show ?thesis unfolding 2(6)
    by (intro names_ok_update_db [OF inv]) (use 2(1) ok in \<open>auto simp: db_names_ok_def\<close>)
qed (use inv in simp)

section \<open>Users\<close>

definition db_names :: "Data \<Rightarrow> string set" where
  "db_names d = di_Name ` set (Databases d)"

definition user_ok :: "string set \<Rightarrow> UserInfo \<Rightarrow> bool" where
  "user_ok dbs u \<longleftrightarrow>
     ui_Name u \<noteq> '''' \<and> distinct (map fst (ui_Privileges u)) \<and> fst ` set (ui_Privileges u) \<subseteq> dbs"

definition access_ok :: "Data \<Rightarrow> bool" where
  "access_ok d \<longleftrightarrow>
     distinct (map ui_Name (Users d)) \<and> adminUserExists d = hasAdminUser d \<and>
     (\<forall>u \<in> set (Users d). user_ok (db_names d) u)"

lemma user_ok_mono: "user_ok D u \<Longrightarrow> D \<subseteq> D' \<Longrightarrow> user_ok D' u"
  unfolding user_ok_def by blast

lemma access_ok_Databases:
  assumes "access_ok d" "db_names d \<subseteq> db_names d'" "Users d' = Users d" "adminUserExists d' = adminUserExists d"
  shows "access_ok d'"
  using assms user_ok_mono [OF _ assms(2)] unfolding access_ok_def hasAdminUser_def by simp

lemma db_names_update_db: "(\<And>di. di_Name (f di) = di_Name di) \<Longrightarrow> db_names (update_db n f d) = db_names d"
  using map_update_first [of "\<lambda>di. di_Name di = n" di_Name f "Databases d"]
  by (simp add: db_names_def flip: set_map)

lemma access_ok_update_db:
  "access_ok d \<Longrightarrow> (\<And>di. di_Name (f di) = di_Name di) \<Longrightarrow> access_ok (update_db n f d)"
  by (erule access_ok_Databases) (simp_all add: db_names_update_db)

lemma access_ok_update_rp: "access_ok d \<Longrightarrow> access_ok (update_rp n p f d)"
  unfolding update_rp_def by (erule access_ok_update_db) simp

lemma CreateDatabase_access: "access_ok d \<Longrightarrow> access_ok (snd (CreateDatabase n d))"
  by (erule access_ok_Databases) (auto simp: CreateDatabase_def db_names_def)

lemma DropDatabase_access:
  assumes "access_ok d" "names_ok d"
  shows "access_ok (snd (DropDatabase n d))"
proof (cases "Database d n = None")
  case False
  have "db_names (snd (DropDatabase n d)) = db_names d - {n}"
    using False assms(2) by (auto simp: DropDatabase_def db_names_def names_ok_def set_remove_first)
  moreover have "user_ok (db_names d) u \<Longrightarrow>
      user_ok (db_names d - {n}) (u\<lparr>ui_Privileges := map_del n (ui_Privileges u)\<rparr>)" for u
    by (auto simp: user_ok_def distinct_map_del keys_map_del)
  ultimately show ?thesis
    using False assms(1) by (auto simp: DropDatabase_def access_ok_def hasAdminUser_def o_def list_ex_iff)
qed (use assms in \<open>simp add: DropDatabase_def\<close>)

lemma Users_update_user [simp]:
  "Users (update_user n f d) = update_first (\<lambda>u. ui_Name u = n) f (Users d)"
  "Databases (update_user n f d) = Databases d" "adminUserExists (update_user n f d) = adminUserExists d"
  by (simp_all add: update_user_def)

lemma CreateUser_access: "access_ok d \<Longrightarrow> access_ok (snd (CreateUser n h a d))"
  by (auto simp: CreateUser_def access_ok_def data_user_def hasAdminUser_def db_names_def user_ok_def
      find_None_iff)

lemma list_ex_remove_first: "\<not> P x \<Longrightarrow> find Q xs = Some x \<Longrightarrow> list_ex P (remove_first Q xs) = list_ex P xs"
  by (induction xs) (auto split: if_splits)

lemma DropUser_access:
  assumes "access_ok d"
  shows "access_ok (snd (DropUser n d))"
proof (cases "data_user d n")
  case (Some u)
  let ?us = "remove_first (\<lambda>u. ui_Name u = n) (Users d)"
  have "adminUserExists d = list_ex ui_Admin ?us" if "\<not> ui_Admin u"
    using assms Some that by (simp add: access_ok_def hasAdminUser_def data_user_def list_ex_remove_first)
  with assms Some set_remove_first_subset [of _ "Users d"] show ?thesis
    by (auto simp: DropUser_def access_ok_def hasAdminUser_def db_names_def distinct_map_remove_first Let_def)
qed (use assms in \<open>simp add: DropUser_def\<close>)

lemma access_ok_update_user:
  assumes inv: "access_ok d" and nm: "\<And>u. ui_Name (f u) = ui_Name u"
    and p: "\<And>u. user_ok (db_names d) u \<Longrightarrow> user_ok (db_names d) (f u)"
    and a: "a = hasAdminUser (update_user n f d)"
  shows "access_ok ((update_user n f d)\<lparr>adminUserExists := a\<rparr>)"
proof -
  have "user_ok (db_names d) u"
    if "u \<in> set (update_first (\<lambda>u. ui_Name u = n) f (Users d))" for u
    using set_update_first_cases [OF that] inv p by (auto simp: access_ok_def dest!: find_SomeD)
  with inv nm a show ?thesis
    by (simp add: access_ok_def slice_simps hasAdminUser_def db_names_def)
qed

lemma list_ex_update_first: "(\<And>x. P (f x) = P x) \<Longrightarrow> list_ex P (update_first Q f xs) = list_ex P xs"
  by (induction xs) auto

lemma hasAdminUser_update_user:
  "(\<And>u. ui_Admin (f u) = ui_Admin u) \<Longrightarrow> hasAdminUser (update_user n f d) = hasAdminUser d"
  by (simp add: hasAdminUser_def list_ex_update_first)

lemma access_ok_update_user_same:
  assumes "access_ok d" "\<And>u. ui_Name (f u) = ui_Name u" "\<And>u. ui_Admin (f u) = ui_Admin u"
    and "\<And>u. user_ok (db_names d) u \<Longrightarrow> user_ok (db_names d) (f u)"
  shows "access_ok (update_user n f d)"
proof -
  have "adminUserExists d = hasAdminUser (update_user n f d)"
    using assms(1,3) by (simp add: access_ok_def hasAdminUser_update_user)
  moreover have "(update_user n f d)\<lparr>adminUserExists := adminUserExists d\<rparr> = update_user n f d"
    by (simp add: update_user_def)
  ultimately show ?thesis using access_ok_update_user [OF assms(1,2,4)] by metis
qed

lemma UpdateUser_access: "access_ok d \<Longrightarrow> access_ok (snd (UpdateUser n h d))"
  by (auto simp: UpdateUser_def user_ok_def intro!: access_ok_update_user_same)

lemma SetPrivilege_access:
  assumes "access_ok d"
  shows "access_ok (snd (SetPrivilege n db p d))"
proof (cases "data_user d n = None \<or> Database d db = None")
  case False
  then have "db \<in> db_names d" by (auto simp: db_names_def Database_def dest!: find_SomeD)
  then have "user_ok (db_names d) u \<Longrightarrow>
      user_ok (db_names d) (u\<lparr>ui_Privileges := map_put db p (ui_Privileges u)\<rparr>)" for u
    by (simp add: user_ok_def distinct_map_put keys_map_put)
  with False assms show ?thesis by (simp add: SetPrivilege_def access_ok_update_user_same)
qed (use assms in \<open>auto simp: SetPrivilege_def\<close>)

lemma SetAdminPrivilege_access: "access_ok d \<Longrightarrow> access_ok (snd (SetAdminPrivilege n a d))"
  by (auto simp: SetAdminPrivilege_def Let_def user_ok_def intro!: access_ok_update_user)

end
