(* ===== verification/MetaMarshal.thy ===== *)
theory MetaMarshal
  imports MetaAccess
begin

text \<open>
  The protobuf representation of the metadata (\<open>services/meta/data.go\<close>, the \<open>marshal\<close>
  and \<open>unmarshal\<close> methods, with the messages of \<open>services/meta/internal/meta.proto\<close>).
  A message is a record: a required field is plain, an optional one is an \<open>option\<close>, a
  repeated one is a list, and \<open>uint32\<close>, \<open>int32\<close>, \<open>int64\<close>, \<open>uint64\<close> are words of that
  width, signed ones read by \<open>sint\<close>.  \<open>proto.Marshal\<close> and \<open>proto.Unmarshal\<close> belong to a
  library and are parameters of the definitions that call them.
\<close>

type_synonym i64 = "64 word"
type_synonym i32 = "32 word"

section \<open>Messages\<close>

record pb_NodeInfo =
  pn_ID :: u64
  pn_Host :: string
  pn_TCPHost :: "string option"

record pb_ShardOwner =
  pso_NodeID :: u64

record pb_ShardInfo =
  psi_ID :: u64
  psi_OwnerIDs :: "u64 list"
  psi_Owners :: "pb_ShardOwner list"

record pb_ShardGroupInfo =
  psg_ID :: u64
  psg_StartTime :: i64
  psg_EndTime :: i64
  psg_DeletedAt :: i64
  psg_Shards :: "pb_ShardInfo list"
  psg_TruncatedAt :: "i64 option"

record pb_SubscriptionInfo =
  psub_Name :: string
  psub_Mode :: string
  psub_Destinations :: "string list"

record pb_RetentionPolicyInfo =
  prp_Name :: string
  prp_Duration :: i64
  prp_ShardGroupDuration :: i64
  prp_ReplicaN :: u32
  prp_ShardGroups :: "pb_ShardGroupInfo list"
  prp_Subscriptions :: "pb_SubscriptionInfo list"

record pb_RetentionPolicySpec =
  prs_Name :: "string option"
  prs_Duration :: "i64 option"
  prs_ShardGroupDuration :: "i64 option"
  prs_ReplicaN :: "u32 option"

record pb_ContinuousQueryInfo =
  pcq_Name :: string
  pcq_Query :: string

record pb_DatabaseInfo =
  pdb_Name :: string
  pdb_DefaultRetentionPolicy :: string
  pdb_RetentionPolicies :: "pb_RetentionPolicyInfo list"
  pdb_ContinuousQueries :: "pb_ContinuousQueryInfo list"

record pb_UserPrivilege =
  pup_Database :: string
  pup_Privilege :: i32

record pb_UserInfo =
  pu_Name :: string
  pu_Hash :: string
  pu_Admin :: bool
  pu_Privileges :: "pb_UserPrivilege list"

record pb_Data =
  pd_Term :: u64
  pd_Index :: u64
  pd_ClusterID :: u64
  pd_Nodes :: "pb_NodeInfo list"
  pd_Databases :: "pb_DatabaseInfo list"
  pd_Users :: "pb_UserInfo list"
  pd_MaxNodeID :: u64
  pd_MaxShardGroupID :: u64
  pd_MaxShardID :: u64
  pd_DataNodes :: "pb_NodeInfo list"
  pd_MetaNodes :: "pb_NodeInfo list"

section \<open>Times\<close>

definition MarshalTime :: "go_time \<Rightarrow> i64" where
  "MarshalTime t = (if IsZero t then 0 else word_of_int (UnixNano t))"

definition UnmarshalTime :: "i64 \<Rightarrow> go_time" where
  "UnmarshalTime v = (if v = 0 then 0 else time_Unix_nano (sint v))"

section \<open>marshal and unmarshal\<close>

definition NodeInfo_marshal :: "NodeInfo \<Rightarrow> pb_NodeInfo" where
  "NodeInfo_marshal ni = \<lparr>pn_ID = ni_ID ni, pn_Host = ni_Host ni, pn_TCPHost = Some (ni_TCPHost ni)\<rparr>"

definition NodeInfo_unmarshal :: "pb_NodeInfo \<Rightarrow> NodeInfo" where
  "NodeInfo_unmarshal pb =
     \<lparr>ni_ID = pn_ID pb, ni_Host = pn_Host pb,
      ni_TCPHost = (case pn_TCPHost pb of Some s \<Rightarrow> s | None \<Rightarrow> '''')\<rparr>"

definition ShardOwner_marshal :: "ShardOwner \<Rightarrow> pb_ShardOwner" where
  "ShardOwner_marshal so = \<lparr>pso_NodeID = so_NodeID so\<rparr>"

definition ShardOwner_unmarshal :: "pb_ShardOwner \<Rightarrow> ShardOwner" where
  "ShardOwner_unmarshal pb = \<lparr>so_NodeID = pso_NodeID pb\<rparr>"

definition ShardInfo_marshal :: "ShardInfo \<Rightarrow> pb_ShardInfo" where
  "ShardInfo_marshal si =
     \<lparr>psi_ID = si_ID si, psi_OwnerIDs = [], psi_Owners = map ShardOwner_marshal (si_Owners si)\<rparr>"

definition ShardInfo_unmarshal :: "pb_ShardInfo \<Rightarrow> ShardInfo" where
  "ShardInfo_unmarshal pb =
     \<lparr>si_ID = psi_ID pb,
      si_Owners =
        (if length (psi_OwnerIDs pb) > 0
         then map (\<lambda>x. ShardOwner_unmarshal \<lparr>pso_NodeID = x\<rparr>) (psi_OwnerIDs pb)
         else map ShardOwner_unmarshal (psi_Owners pb))\<rparr>"

definition ShardGroupInfo_marshal :: "ShardGroupInfo \<Rightarrow> pb_ShardGroupInfo" where
  "ShardGroupInfo_marshal sgi =
     \<lparr>psg_ID = sgi_ID sgi, psg_StartTime = MarshalTime (sgi_StartTime sgi),
      psg_EndTime = MarshalTime (sgi_EndTime sgi), psg_DeletedAt = MarshalTime (sgi_DeletedAt sgi),
      psg_Shards = map ShardInfo_marshal (sgi_Shards sgi),
      psg_TruncatedAt =
        (if \<not> IsZero (sgi_TruncatedAt sgi) then Some (MarshalTime (sgi_TruncatedAt sgi)) else None)\<rparr>"

definition ShardGroupInfo_unmarshal :: "pb_ShardGroupInfo \<Rightarrow> ShardGroupInfo" where
  "ShardGroupInfo_unmarshal pb =
     \<lparr>sgi_ID = psg_ID pb,
      sgi_StartTime =
        (if psg_StartTime pb = 0 then time_Unix_nano 0 else UnmarshalTime (psg_StartTime pb)),
      sgi_EndTime =
        (if psg_EndTime pb = 0 then time_Unix_nano 0 else UnmarshalTime (psg_EndTime pb)),
      sgi_DeletedAt = UnmarshalTime (psg_DeletedAt pb),
      sgi_Shards = map ShardInfo_unmarshal (psg_Shards pb),
      sgi_TruncatedAt = (case psg_TruncatedAt pb of Some v \<Rightarrow> UnmarshalTime v | None \<Rightarrow> 0)\<rparr>"

definition SubscriptionInfo_marshal :: "SubscriptionInfo \<Rightarrow> pb_SubscriptionInfo" where
  "SubscriptionInfo_marshal si =
     \<lparr>psub_Name = sub_Name si, psub_Mode = sub_Mode si, psub_Destinations = sub_Destinations si\<rparr>"

definition SubscriptionInfo_unmarshal :: "pb_SubscriptionInfo \<Rightarrow> SubscriptionInfo" where
  "SubscriptionInfo_unmarshal pb =
     \<lparr>sub_Name = psub_Name pb, sub_Mode = psub_Mode pb, sub_Destinations = psub_Destinations pb\<rparr>"

definition RetentionPolicyInfo_marshal :: "RetentionPolicyInfo \<Rightarrow> pb_RetentionPolicyInfo" where
  "RetentionPolicyInfo_marshal rpi =
     \<lparr>prp_Name = rpi_Name rpi, prp_Duration = word_of_int (rpi_Duration rpi),
      prp_ShardGroupDuration = word_of_int (rpi_ShardGroupDuration rpi),
      prp_ReplicaN = word_of_int (rpi_ReplicaN rpi),
      prp_ShardGroups = map ShardGroupInfo_marshal (rpi_ShardGroups rpi),
      prp_Subscriptions = map SubscriptionInfo_marshal (rpi_Subscriptions rpi)\<rparr>"

definition RetentionPolicyInfo_unmarshal :: "pb_RetentionPolicyInfo \<Rightarrow> RetentionPolicyInfo" where
  "RetentionPolicyInfo_unmarshal pb =
     \<lparr>rpi_Name = prp_Name pb, rpi_ReplicaN = uint (prp_ReplicaN pb),
      rpi_Duration = sint (prp_Duration pb),
      rpi_ShardGroupDuration = sint (prp_ShardGroupDuration pb),
      rpi_ShardGroups = map ShardGroupInfo_unmarshal (prp_ShardGroups pb),
      rpi_Subscriptions = map SubscriptionInfo_unmarshal (prp_Subscriptions pb)\<rparr>"

definition RetentionPolicySpec_marshal :: "RetentionPolicySpec \<Rightarrow> pb_RetentionPolicySpec" where
  "RetentionPolicySpec_marshal s =
     \<lparr>prs_Name = (if rps_Name s \<noteq> '''' then Some (rps_Name s) else None),
      prs_Duration = map_option word_of_int (rps_Duration s),
      prs_ShardGroupDuration =
        (if rps_ShardGroupDuration s > 0 then Some (word_of_int (rps_ShardGroupDuration s)) else None),
      prs_ReplicaN = map_option word_of_int (rps_ReplicaN s)\<rparr>"

text \<open>\<open>unmarshal\<close> into a zero \<open>RetentionPolicySpec\<close>.\<close>

definition RetentionPolicySpec_unmarshal :: "pb_RetentionPolicySpec \<Rightarrow> RetentionPolicySpec" where
  "RetentionPolicySpec_unmarshal pb =
     \<lparr>rps_Name = (case prs_Name pb of Some n \<Rightarrow> n | None \<Rightarrow> ''''),
      rps_ReplicaN = map_option uint (prs_ReplicaN pb),
      rps_Duration = map_option sint (prs_Duration pb),
      rps_ShardGroupDuration = (case prs_ShardGroupDuration pb of Some d \<Rightarrow> sint d | None \<Rightarrow> 0)\<rparr>"

definition ContinuousQueryInfo_marshal :: "ContinuousQueryInfo \<Rightarrow> pb_ContinuousQueryInfo" where
  "ContinuousQueryInfo_marshal cqi = \<lparr>pcq_Name = cqi_Name cqi, pcq_Query = cqi_Query cqi\<rparr>"

definition ContinuousQueryInfo_unmarshal :: "pb_ContinuousQueryInfo \<Rightarrow> ContinuousQueryInfo" where
  "ContinuousQueryInfo_unmarshal pb = \<lparr>cqi_Name = pcq_Name pb, cqi_Query = pcq_Query pb\<rparr>"

definition DatabaseInfo_marshal :: "DatabaseInfo \<Rightarrow> pb_DatabaseInfo" where
  "DatabaseInfo_marshal di =
     \<lparr>pdb_Name = di_Name di, pdb_DefaultRetentionPolicy = di_DefaultRetentionPolicy di,
      pdb_RetentionPolicies = map RetentionPolicyInfo_marshal (di_RetentionPolicies di),
      pdb_ContinuousQueries = map ContinuousQueryInfo_marshal (di_ContinuousQueries di)\<rparr>"

definition DatabaseInfo_unmarshal :: "pb_DatabaseInfo \<Rightarrow> DatabaseInfo" where
  "DatabaseInfo_unmarshal pb =
     \<lparr>di_Name = pdb_Name pb, di_DefaultRetentionPolicy = pdb_DefaultRetentionPolicy pb,
      di_RetentionPolicies = map RetentionPolicyInfo_unmarshal (pdb_RetentionPolicies pb),
      di_ContinuousQueries = map ContinuousQueryInfo_unmarshal (pdb_ContinuousQueries pb)\<rparr>"

text \<open>
  The privileges of a user are a Go map: \<open>rng\<close> is the order in which \<open>marshal\<close> sees its
  entries.
\<close>

type_synonym priv_order = "(string \<times> Privilege) list \<Rightarrow> (string \<times> Privilege) list"

definition UserInfo_marshal :: "priv_order \<Rightarrow> UserInfo \<Rightarrow> pb_UserInfo" where
  "UserInfo_marshal rng ui =
     \<lparr>pu_Name = ui_Name ui, pu_Hash = ui_Hash ui, pu_Admin = ui_Admin ui,
      pu_Privileges = map (\<lambda>(db, p). \<lparr>pup_Database = db, pup_Privilege = word_of_int p\<rparr>)
        (rng (ui_Privileges ui))\<rparr>"

definition UserInfo_unmarshal :: "pb_UserInfo \<Rightarrow> UserInfo" where
  "UserInfo_unmarshal pb =
     \<lparr>ui_Name = pu_Name pb, ui_Hash = pu_Hash pb, ui_Admin = pu_Admin pb,
      ui_Privileges = foldl (\<lambda>m p. map_put (pup_Database p) (sint (pup_Privilege p)) m) []
        (pu_Privileges pb)\<rparr>"

definition Data_marshal :: "priv_order \<Rightarrow> Data \<Rightarrow> pb_Data" where
  "Data_marshal rng data =
     \<lparr>pd_Term = Term data, pd_Index = Index data, pd_ClusterID = ClusterID data, pd_Nodes = [],
      pd_Databases = map DatabaseInfo_marshal (Databases data),
      pd_Users = map (UserInfo_marshal rng) (Users data),
      pd_MaxNodeID = MaxNodeID data, pd_MaxShardGroupID = MaxShardGroupID data,
      pd_MaxShardID = MaxShardID data,
      pd_DataNodes = map NodeInfo_marshal (DataNodes data),
      pd_MetaNodes = map NodeInfo_marshal (MetaNodes data)\<rparr>"

text \<open>
  \<open>unmarshal\<close> overwrites every field of the receiver but \<open>adminUserExists\<close>.
\<close>

definition Data_unmarshal :: "Data \<Rightarrow> pb_Data \<Rightarrow> Data" where
  "Data_unmarshal data pb =
     data\<lparr>Term := pd_Term pb, Index := pd_Index pb, ClusterID := pd_ClusterID pb,
       MaxNodeID := pd_MaxNodeID pb, MaxShardGroupID := pd_MaxShardGroupID pb,
       MaxShardID := pd_MaxShardID pb,
       DataNodes :=
         (if length (pd_Nodes pb) > 0 then map NodeInfo_unmarshal (pd_Nodes pb)
          else map NodeInfo_unmarshal (pd_DataNodes pb)),
       MetaNodes := map NodeInfo_unmarshal (pd_MetaNodes pb),
       Databases := map DatabaseInfo_unmarshal (pd_Databases pb),
       Users := map UserInfo_unmarshal (pd_Users pb)\<rparr>"

definition Data_MarshalBinary ::
    "(pb_Data \<Rightarrow> 'e + 'b) \<Rightarrow> priv_order \<Rightarrow> Data \<Rightarrow> 'e + 'b" where
  "Data_MarshalBinary proto_Marshal rng data = proto_Marshal (Data_marshal rng data)"

definition Data_UnmarshalBinary ::
    "('b \<Rightarrow> 'e + pb_Data) \<Rightarrow> 'b \<Rightarrow> Data \<Rightarrow> 'e option \<times> Data" where
  "Data_UnmarshalBinary proto_Unmarshal buf data =
     (case proto_Unmarshal buf of
        Inl e \<Rightarrow> (Some e, data)
      | Inr pb \<Rightarrow> (None, Data_unmarshal data pb))"

section \<open>Round trips\<close>

text \<open>
  The values the wire format represents: 64-bit durations and Unix times, an unsigned
  32-bit replication factor, 32-bit privileges; a deletion or truncation at the Unix epoch
  itself has no representation.
\<close>

definition in_i64 :: "int \<Rightarrow> bool" where
  "in_i64 x \<longleftrightarrow> - (2 ^ 63) \<le> x \<and> x < 2 ^ 63"

definition wire_time :: "go_time \<Rightarrow> bool" where
  "wire_time t \<longleftrightarrow> in_i64 (t - unix_epoch)"

definition wire_mark :: "go_time \<Rightarrow> bool" where
  "wire_mark t \<longleftrightarrow> t = 0 \<or> (wire_time t \<and> t \<noteq> unix_epoch)"

definition wire_group :: "ShardGroupInfo \<Rightarrow> bool" where
  "wire_group g \<longleftrightarrow> wire_time (sgi_StartTime g) \<and> wire_time (sgi_EndTime g) \<and>
     wire_mark (sgi_DeletedAt g) \<and> wire_mark (sgi_TruncatedAt g)"

definition wire_policy :: "RetentionPolicyInfo \<Rightarrow> bool" where
  "wire_policy rp \<longleftrightarrow> 0 \<le> rpi_ReplicaN rp \<and> rpi_ReplicaN rp < 2 ^ 32 \<and>
     in_i64 (rpi_Duration rp) \<and> in_i64 (rpi_ShardGroupDuration rp) \<and>
     list_all wire_group (rpi_ShardGroups rp)"

definition wire_user :: "UserInfo \<Rightarrow> bool" where
  "wire_user u \<longleftrightarrow> distinct (map fst (ui_Privileges u)) \<and>
     list_all (\<lambda>(db, p). - (2 ^ 31) \<le> p \<and> p < 2 ^ 31) (ui_Privileges u)"

definition wire_ok :: "Data \<Rightarrow> bool" where
  "wire_ok d \<longleftrightarrow> list_all (\<lambda>di. list_all wire_policy (di_RetentionPolicies di)) (Databases d) \<and>
     list_all wire_user (Users d)"

lemma sint_i64: "in_i64 x \<Longrightarrow> sint (word_of_int x :: i64) = x"
  by (simp add: in_i64_def sint_sbintrunc' signed_take_bit_int_eq_self)

lemma sint_i32: "- (2 ^ 31) \<le> x \<Longrightarrow> x < 2 ^ 31 \<Longrightarrow> sint (word_of_int x :: i32) = x"
  by (simp add: sint_sbintrunc' signed_take_bit_int_eq_self)

lemma uint_u32: "0 \<le> x \<Longrightarrow> x < 2 ^ 32 \<Longrightarrow> uint (word_of_int x :: u32) = x"
  by (simp add: uint_word_of_int)

lemma wire_time_nonzero: "wire_time t \<Longrightarrow> t \<noteq> 0"
  by (auto simp: wire_time_def in_i64_def unix_epoch_def go_time_defs)

lemma UnixNano_wire: "wire_time t \<Longrightarrow> UnixNano t = t - unix_epoch"
  unfolding UnixNano_def wire_time_def by (rule sint_i64)

lemma MarshalTime_wire:
  assumes "wire_time t"
  shows "sint (MarshalTime t) = t - unix_epoch" "MarshalTime t = 0 \<longleftrightarrow> t = unix_epoch"
proof -
  show s: "sint (MarshalTime t) = t - unix_epoch"
    unfolding MarshalTime_def IsZero_def UnixNano_wire [OF assms]
    using wire_time_nonzero [OF assms] sint_i64 [OF assms [unfolded wire_time_def]]
    by (simp only: if_False)
  show "MarshalTime t = 0 \<longleftrightarrow> t = unix_epoch"
    using s by (metis eq_iff_diff_eq_0 signed_0 signed_eq_0_iff)
qed

lemma StartTime_roundtrip:
  "wire_time t \<Longrightarrow>
   (if MarshalTime t = 0 then time_Unix_nano 0 else UnmarshalTime (MarshalTime t)) = t"
  by (simp add: MarshalTime_wire UnmarshalTime_def time_Unix_nano_def)

lemma UnmarshalTime_MarshalTime: "wire_mark t \<Longrightarrow> UnmarshalTime (MarshalTime t) = t"
  using MarshalTime_wire [of t]
  by (auto simp: wire_mark_def UnmarshalTime_def time_Unix_nano_def MarshalTime_def IsZero_def)

lemma map_roundtrip: "(\<And>x. x \<in> set xs \<Longrightarrow> g (f x) = x) \<Longrightarrow> map g (map f xs) = xs"
  by (simp add: map_idI)

lemma NodeInfo_roundtrip [simp]: "NodeInfo_unmarshal (NodeInfo_marshal n) = n"
  by (simp add: NodeInfo_unmarshal_def NodeInfo_marshal_def)

lemma ShardOwner_roundtrip [simp]: "ShardOwner_unmarshal (ShardOwner_marshal so) = so"
  by (simp add: ShardOwner_unmarshal_def ShardOwner_marshal_def)

lemma ShardInfo_roundtrip [simp]: "ShardInfo_unmarshal (ShardInfo_marshal si) = si"
  by (simp add: ShardInfo_unmarshal_def ShardInfo_marshal_def map_idI)

lemma SubscriptionInfo_roundtrip [simp]: "SubscriptionInfo_unmarshal (SubscriptionInfo_marshal si) = si"
  by (simp add: SubscriptionInfo_unmarshal_def SubscriptionInfo_marshal_def)

lemma ContinuousQueryInfo_roundtrip [simp]:
  "ContinuousQueryInfo_unmarshal (ContinuousQueryInfo_marshal c) = c"
  by (simp add: ContinuousQueryInfo_unmarshal_def ContinuousQueryInfo_marshal_def)

lemma ShardGroupInfo_roundtrip:
  assumes "wire_group g"
  shows "ShardGroupInfo_unmarshal (ShardGroupInfo_marshal g) = g"
proof -
  have "wire_mark (sgi_TruncatedAt g)" using assms by (simp add: wire_group_def)
  then have "(case (if \<not> IsZero (sgi_TruncatedAt g) then Some (MarshalTime (sgi_TruncatedAt g)) else None) of
      Some v \<Rightarrow> UnmarshalTime v | None \<Rightarrow> 0) = sgi_TruncatedAt g"
    by (simp add: UnmarshalTime_MarshalTime IsZero_def)
  with assms StartTime_roundtrip [of "sgi_StartTime g"] StartTime_roundtrip [of "sgi_EndTime g"] show ?thesis
    by (simp add: ShardGroupInfo_unmarshal_def ShardGroupInfo_marshal_def wire_group_def
        UnmarshalTime_MarshalTime map_idI cong: if_cong split del: if_split)
qed

lemma RetentionPolicyInfo_roundtrip:
  assumes "wire_policy rp"
  shows "RetentionPolicyInfo_unmarshal (RetentionPolicyInfo_marshal rp) = rp"
proof -
  have "map ShardGroupInfo_unmarshal (map ShardGroupInfo_marshal (rpi_ShardGroups rp)) = rpi_ShardGroups rp"
    using assms by (intro map_roundtrip ShardGroupInfo_roundtrip) (auto simp: wire_policy_def list_all_iff)
  then show ?thesis
    using assms
    by (simp add: RetentionPolicyInfo_unmarshal_def RetentionPolicyInfo_marshal_def wire_policy_def
        sint_i64 uint_u32 o_def map_idI)
qed

lemma DatabaseInfo_roundtrip:
  assumes "list_all wire_policy (di_RetentionPolicies di)"
  shows "DatabaseInfo_unmarshal (DatabaseInfo_marshal di) = di"
proof -
  have "map RetentionPolicyInfo_unmarshal (map RetentionPolicyInfo_marshal (di_RetentionPolicies di))
      = di_RetentionPolicies di"
    using assms by (intro map_roundtrip RetentionPolicyInfo_roundtrip) (auto simp: list_all_iff)
  then show ?thesis
    by (simp add: DatabaseInfo_unmarshal_def DatabaseInfo_marshal_def o_def map_idI)
qed

text \<open>Two users that differ in the order of their privileges only.\<close>

definition same_user :: "UserInfo \<Rightarrow> UserInfo \<Rightarrow> bool" where
  "same_user u v \<longleftrightarrow> ui_Name u = ui_Name v \<and> ui_Hash u = ui_Hash v \<and> ui_Admin u = ui_Admin v \<and>
     map_of (ui_Privileges u) = map_of (ui_Privileges v) \<and> distinct (map fst (ui_Privileges u))"

lemma map_of_foldl_put:
  "map_of (foldl (\<lambda>m p. map_put (k p) (v p) m) acc ps) =
   map_of acc ++ map_of (rev (map (\<lambda>p. (k p, v p)) ps))"
  by (induction ps arbitrary: acc) (auto simp: map_add_def fun_eq_iff split: option.splits)

lemma distinct_foldl_put:
  "distinct (map fst acc) \<Longrightarrow> distinct (map fst (foldl (\<lambda>m p. map_put (k p) (v p) m) acc ps))"
  by (induction ps arbitrary: acc) (auto simp: distinct_map_put)

lemma map_of_perm:
  assumes "distinct (map fst xs)" "mset ys = mset xs"
  shows "map_of ys = map_of xs"
proof -
  have "distinct (map fst ys)" using assms by (metis mset_eq_imp_distinct_iff mset_map)
  moreover have "set ys = set xs" using assms(2) by (metis set_mset_mset)
  ultimately show ?thesis using assms(1) map_of_inject_set by blast
qed

lemma UserInfo_roundtrip:
  assumes w: "wire_user u" and rng: "mset (rng (ui_Privileges u)) = mset (ui_Privileges u)"
  shows "same_user (UserInfo_unmarshal (UserInfo_marshal rng u)) u"
proof -
  let ?ps = "rng (ui_Privileges u)"
  have "map (\<lambda>p. (pup_Database p, sint (pup_Privilege p)))
      (map (\<lambda>(db, p). \<lparr>pup_Database = db, pup_Privilege = word_of_int p\<rparr>) ?ps) = ?ps"
  proof (rule map_roundtrip)
    fix x assume "x \<in> set ?ps"
    then have "x \<in> set (ui_Privileges u)" using rng by (metis set_mset_mset)
    with w show "(\<lambda>p. (pup_Database p, sint (pup_Privilege p)))
        (case x of (db, p) \<Rightarrow> \<lparr>pup_Database = db, pup_Privilege = word_of_int p\<rparr>) = x"
      by (auto simp: wire_user_def list_all_iff sint_i32)
  qed
  moreover have "map_of (rev ?ps) = map_of (ui_Privileges u)"
    using w rng by (intro map_of_perm) (auto simp: wire_user_def)
  ultimately have "map_of (ui_Privileges (UserInfo_unmarshal (UserInfo_marshal rng u))) = map_of (ui_Privileges u)"
    by (simp add: UserInfo_unmarshal_def UserInfo_marshal_def map_of_foldl_put)
  then show ?thesis
    by (simp add: same_user_def UserInfo_unmarshal_def UserInfo_marshal_def distinct_foldl_put)
qed

text \<open>The metadata read back from its protobuf form, and all that is lost on the way.\<close>

lemma Data_roundtrip:
  assumes w: "wire_ok d" and rng: "\<And>ps. mset (rng ps) = mset ps"
  defines "d' \<equiv> Data_unmarshal zero_Data (Data_marshal rng d)"
  shows "list_all2 same_user (Users d') (Users d)"
    and "d' = d\<lparr>Users := Users d', adminUserExists := False\<rparr>"
proof -
  show "list_all2 same_user (Users d') (Users d)"
    using w UserInfo_roundtrip [where rng = rng, OF _ rng]
    by (auto simp: d'_def Data_unmarshal_def Data_marshal_def wire_ok_def list_all_iff
        list.rel_map list_all2_same)
  have "map DatabaseInfo_unmarshal (map DatabaseInfo_marshal (Databases d)) = Databases d"
    using w by (intro map_roundtrip DatabaseInfo_roundtrip) (auto simp: wire_ok_def list_all_iff)
  then show "d' = d\<lparr>Users := Users d', adminUserExists := False\<rparr>"
    by (simp add: d'_def Data_unmarshal_def Data_marshal_def zero_Data_def o_def map_idI)
qed

lemma RetentionPolicySpec_roundtrip:
  assumes "\<And>d. rps_Duration s = Some d \<Longrightarrow> in_i64 d" "\<And>n. rps_ReplicaN s = Some n \<Longrightarrow> 0 \<le> n \<and> n < 2 ^ 32"
    "0 \<le> rps_ShardGroupDuration s" "in_i64 (rps_ShardGroupDuration s)"
  shows "RetentionPolicySpec_unmarshal (RetentionPolicySpec_marshal s) = s"
proof -
  have "map_option uint (map_option word_of_int (rps_ReplicaN s) :: u32 option) = rps_ReplicaN s"
    using assms(2) by (cases "rps_ReplicaN s") (auto simp: uint_u32)
  moreover have "map_option sint (map_option word_of_int (rps_Duration s) :: i64 option) = rps_Duration s"
    using assms(1) by (cases "rps_Duration s") (auto simp: sint_i64)
  ultimately show ?thesis
    using assms(3,4)
    by (simp add: RetentionPolicySpec_unmarshal_def RetentionPolicySpec_marshal_def sint_i64)
qed

end
