(* ===== verification/MetaFSM.thy ===== *)
theory MetaFSM
  imports MetaMarshal
begin

text \<open>
  The replicated state machine of the meta service (\<open>services/meta/store_fsm.go\<close>, with
  the parts of \<open>store.go\<close> and \<open>raft_state.go\<close> it uses): the commands of the raft log,
  the handler of each, \<open>Apply\<close>, snapshot and restore.
\<close>

section \<open>Commands\<close>

text \<open>
  One constructor per value of \<open>Command.Type\<close> in \<open>meta.proto\<close>, with the fields of its
  extension message in the order of their numbers.
\<close>

datatype (plugins only: code) command =
    CreateNodeCommand string u64
  | DeleteNodeCommand u64 bool
  | CreateDatabaseCommand string "pb_RetentionPolicyInfo option"
  | DropDatabaseCommand string
  | CreateRetentionPolicyCommand string pb_RetentionPolicyInfo
  | DropRetentionPolicyCommand string string
  | SetDefaultRetentionPolicyCommand string string
  | UpdateRetentionPolicyCommand string string "string option" "i64 option" "u32 option"
  | CreateShardGroupCommand string string i64
  | DeleteShardGroupCommand string string u64
  | CreateContinuousQueryCommand string string string
  | DropContinuousQueryCommand string string
  | CreateUserCommand string string bool
  | DropUserCommand string
  | UpdateUserCommand string string
  | SetPrivilegeCommand string string i32
  | SetDataCommand pb_Data
  | SetAdminPrivilegeCommand string bool
  | UpdateNodeCommand u64 string
  | CreateSubscriptionCommand string string string string "string list"
  | DropSubscriptionCommand string string string
  | RemovePeerCommand "u64 option" string
  | CreateMetaNodeCommand string string u64
  | CreateDataNodeCommand string string
  | UpdateDataNodeCommand u64 string string
  | DeleteMetaNodeCommand u64
  | DeleteDataNodeCommand u64
  | SetMetaNodeCommand string string u64
  | DropShardCommand u64

text \<open>A raft log entry; \<open>log_Data\<close> is \<open>None\<close> when \<open>proto.Unmarshal\<close> rejects its bytes.\<close>

record raft_log =
  log_Term :: u64
  log_Index :: u64
  log_Data :: "command option"

text \<open>
  What a handler reads besides the metadata: the clock, the iteration order of
  \<open>nodeOwnerFreqs\<close>, the configuration, the URL library, and the raft library.
\<close>

record apply_env =
  env_now :: go_time
  env_rng :: "freqs \<Rightarrow> freqs"
  env_RetentionAutoCreate :: bool
  env_url_Parse :: url_parser
  env_SplitHostPort :: url_parser
  env_peers :: "meta_error + string list"
  env_isLeader :: bool
  env_servers :: "meta_error + (string \<times> string) list"
  env_RemoveServer :: "string \<Rightarrow> meta_error option"

section \<open>Raft membership\<close>

definition ErrNotLeader :: meta_error where
  "ErrNotLeader = ErrRaft ''node is not the leader''"

text \<open>The error of \<open>removeVoter\<close> and the server IDs it asks raft to remove;
  \<open>env_RemoveServer\<close> gives the error as \<open>removeVoter\<close> wraps it.\<close>

definition removeVoter :: "apply_env \<Rightarrow> string \<Rightarrow> meta_error option \<times> string list" where
  "removeVoter env addr =
     (if \<not> env_isLeader env then (Some ErrNotLeader, [])
      else case env_servers env of
        Inl e \<Rightarrow> (Some e, [])
      | Inr servers \<Rightarrow>
          (case find (\<lambda>(srvID, srvAddr). srvAddr = addr) servers of
             None \<Rightarrow> (None, [])
           | Some (srvID, _) \<Rightarrow> (env_RemoveServer env srvID, [srvID])))"

definition leave :: "apply_env \<Rightarrow> NodeInfo \<Rightarrow> meta_error option \<times> string list" where
  "leave env n = removeVoter env (ni_TCPHost n)"

section \<open>Handlers\<close>

text \<open>
  The shape most handlers share: run an operation on a clone, return its error, or install
  the clone.
\<close>

definition on_clone :: "Data \<Rightarrow> (Data \<Rightarrow> result) \<Rightarrow> result" where
  "on_clone data f =
     (case f (Clone data) of
        (Some e, _) \<Rightarrow> (Some e, data)
      | (None, other) \<Rightarrow> (None, other))"

text \<open>\<open>if err := ...; err != nil { return err }\<close> followed by the rest of the handler.\<close>

definition and_then :: "result \<Rightarrow> (Data \<Rightarrow> result) \<Rightarrow> result" where
  "and_then r f = (case r of (Some e, d) \<Rightarrow> (Some e, d) | (None, d) \<Rightarrow> f d)"

definition set_ClusterID :: "u64 \<Rightarrow> Data \<Rightarrow> Data" where
  "set_ClusterID rand d = (if ClusterID d = 0 then d\<lparr>ClusterID := rand\<rparr> else d)"

definition applyRemovePeerCommand :: "apply_env \<Rightarrow> string \<Rightarrow> string list" where
  "applyRemovePeerCommand env addr =
     (if env_isLeader env then snd (removeVoter env addr) else [])"

definition applyCreateNodeCommand :: "string \<Rightarrow> u64 \<Rightarrow> string list \<Rightarrow> Data \<Rightarrow> result" where
  "applyCreateNodeCommand host rand peers data =
     on_clone data (\<lambda>other.
       and_then
         (if list_ex (\<lambda>p. host = p) peers then CreateMetaNode host host other else (None, other))
         (\<lambda>other.
            and_then
              (if length (MetaNodes other) = 1
               then setDataNode (ni_ID (MetaNodes other ! 0)) host host other
               else CreateDataNode host host other)
              (\<lambda>other. (None, set_ClusterID rand other))))"

definition applyUpdateNodeCommand :: "Data \<Rightarrow> result" where
  "applyUpdateNodeCommand data = (None, data)"

definition applyDeleteNodeCommand :: "Data \<Rightarrow> result" where
  "applyDeleteNodeCommand data = (None, data)"

definition pb_policy :: "pb_RetentionPolicyInfo \<Rightarrow> RetentionPolicyInfo" where
  "pb_policy pb =
     \<lparr>rpi_Name = prp_Name pb, rpi_ReplicaN = uint (prp_ReplicaN pb),
      rpi_Duration = sint (prp_Duration pb),
      rpi_ShardGroupDuration = sint (prp_ShardGroupDuration pb),
      rpi_ShardGroups = [], rpi_Subscriptions = []\<rparr>"

definition autoCreateRetentionPolicyName :: string where
  "autoCreateRetentionPolicyName = ''autogen''"

definition autoCreateRetentionPolicyPeriod :: duration where
  "autoCreateRetentionPolicyPeriod = 0"

definition maxAutoCreatedRetentionPolicyReplicaN :: int where
  "maxAutoCreatedRetentionPolicyReplicaN = 1"

definition auto_replicaN :: "Data \<Rightarrow> int" where
  "auto_replicaN other =
     (let replicaN = int (length (DataNodes other))
      in if replicaN > maxAutoCreatedRetentionPolicyReplicaN then maxAutoCreatedRetentionPolicyReplicaN
         else if replicaN < 1 then 1 else replicaN)"

definition applyCreateDatabaseCommand ::
    "bool \<Rightarrow> string \<Rightarrow> pb_RetentionPolicyInfo option \<Rightarrow> Data \<Rightarrow> result" where
  "applyCreateDatabaseCommand autoCreate name rp data =
     on_clone data (\<lambda>other.
       and_then (CreateDatabase name other) (\<lambda>other.
         case rp of
           Some rpi \<Rightarrow>
             and_then
               (case CreateRetentionPolicy name (Some (pb_policy rpi)) False other of
                  (Some e, d) \<Rightarrow>
                    (Some (if e = ErrRetentionPolicyExists then ErrRetentionPolicyConflict else e), d)
                | (None, d) \<Rightarrow> (None, d))
               (\<lambda>other. SetDefaultRetentionPolicy name (prp_Name rpi) other)
         | None \<Rightarrow>
             if autoCreate then
               and_then
                 (CreateRetentionPolicy name
                    (Some ((NewRetentionPolicyInfo autoCreateRetentionPolicyName)
                       \<lparr>rpi_ReplicaN := auto_replicaN other,
                        rpi_Duration := autoCreateRetentionPolicyPeriod\<rparr>))
                    False other)
                 (\<lambda>other. SetDefaultRetentionPolicy name autoCreateRetentionPolicyName other)
             else (None, other)))"

definition applyDropDatabaseCommand :: "string \<Rightarrow> Data \<Rightarrow> result" where
  "applyDropDatabaseCommand name data = on_clone data (DropDatabase name)"

definition applyCreateRetentionPolicyCommand :: "string \<Rightarrow> pb_RetentionPolicyInfo \<Rightarrow> Data \<Rightarrow> result" where
  "applyCreateRetentionPolicyCommand database pb data =
     on_clone data (CreateRetentionPolicy database (Some (pb_policy pb)) False)"

definition applyDropRetentionPolicyCommand :: "string \<Rightarrow> string \<Rightarrow> Data \<Rightarrow> result" where
  "applyDropRetentionPolicyCommand database name data = on_clone data (DropRetentionPolicy database name)"

definition applySetDefaultRetentionPolicyCommand :: "string \<Rightarrow> string \<Rightarrow> Data \<Rightarrow> result" where
  "applySetDefaultRetentionPolicyCommand database name data =
     on_clone data (SetDefaultRetentionPolicy database name)"

definition applyUpdateRetentionPolicyCommand ::
    "string \<Rightarrow> string \<Rightarrow> string option \<Rightarrow> i64 option \<Rightarrow> u32 option \<Rightarrow> Data \<Rightarrow> result" where
  "applyUpdateRetentionPolicyCommand database name newName dur replicaN data =
     on_clone data (UpdateRetentionPolicy database name
       \<lparr>rpu_Name = newName, rpu_Duration = map_option sint dur,
        rpu_ReplicaN = map_option uint replicaN, rpu_ShardGroupDuration = None\<rparr> False)"

definition applyCreateShardGroupCommand :: "string \<Rightarrow> string \<Rightarrow> i64 \<Rightarrow> Data \<Rightarrow> result" where
  "applyCreateShardGroupCommand database policy timestamp data =
     on_clone data (CreateShardGroup database policy (time_Unix_nano (sint timestamp)))"

definition applyDeleteShardGroupCommand :: "go_time \<Rightarrow> string \<Rightarrow> string \<Rightarrow> u64 \<Rightarrow> Data \<Rightarrow> result" where
  "applyDeleteShardGroupCommand now database policy gid data =
     on_clone data (DeleteShardGroup now database policy gid)"

definition applyCreateContinuousQueryCommand :: "string \<Rightarrow> string \<Rightarrow> string \<Rightarrow> Data \<Rightarrow> result" where
  "applyCreateContinuousQueryCommand database name qry data =
     on_clone data (CreateContinuousQuery database name qry)"

definition applyDropContinuousQueryCommand :: "string \<Rightarrow> string \<Rightarrow> Data \<Rightarrow> result" where
  "applyDropContinuousQueryCommand database name data = on_clone data (DropContinuousQuery database name)"

definition applyCreateSubscriptionCommand ::
    "url_parser \<Rightarrow> url_parser \<Rightarrow> string \<Rightarrow> string \<Rightarrow> string \<Rightarrow> string \<Rightarrow> string list \<Rightarrow> Data \<Rightarrow> result" where
  "applyCreateSubscriptionCommand parse splitHostPort name database rp mode dests data =
     on_clone data (CreateSubscription parse splitHostPort database rp name mode dests)"

definition applyDropSubscriptionCommand :: "string \<Rightarrow> string \<Rightarrow> string \<Rightarrow> Data \<Rightarrow> result" where
  "applyDropSubscriptionCommand name database rp data = on_clone data (DropSubscription database rp name)"

definition applyCreateUserCommand :: "string \<Rightarrow> string \<Rightarrow> bool \<Rightarrow> Data \<Rightarrow> result" where
  "applyCreateUserCommand name hash admin data = on_clone data (CreateUser name hash admin)"

definition applyDropUserCommand :: "string \<Rightarrow> Data \<Rightarrow> result" where
  "applyDropUserCommand name data = on_clone data (DropUser name)"

definition applyUpdateUserCommand :: "string \<Rightarrow> string \<Rightarrow> Data \<Rightarrow> result" where
  "applyUpdateUserCommand name hash data = on_clone data (UpdateUser name hash)"

definition applySetPrivilegeCommand :: "string \<Rightarrow> string \<Rightarrow> i32 \<Rightarrow> Data \<Rightarrow> result" where
  "applySetPrivilegeCommand username database p data =
     on_clone data (SetPrivilege username database (sint p))"

definition applySetAdminPrivilegeCommand :: "string \<Rightarrow> bool \<Rightarrow> Data \<Rightarrow> result" where
  "applySetAdminPrivilegeCommand username admin data = on_clone data (SetAdminPrivilege username admin)"

definition applySetDataCommand :: "pb_Data \<Rightarrow> Data \<Rightarrow> result" where
  "applySetDataCommand pb data = (None, Data_unmarshal zero_Data pb)"

definition applyCreateMetaNodeCommand :: "string \<Rightarrow> string \<Rightarrow> u64 \<Rightarrow> Data \<Rightarrow> result" where
  "applyCreateMetaNodeCommand httpAddr tcpAddr rand data =
     (None, set_ClusterID rand (snd (CreateMetaNode httpAddr tcpAddr (Clone data))))"

definition applySetMetaNodeCommand :: "string \<Rightarrow> string \<Rightarrow> u64 \<Rightarrow> Data \<Rightarrow> result" where
  "applySetMetaNodeCommand httpAddr tcpAddr rand data =
     (None, set_ClusterID rand (snd (SetMetaNode httpAddr tcpAddr (Clone data))))"

definition applyDeleteMetaNodeCommand :: "apply_env \<Rightarrow> u64 \<Rightarrow> Data \<Rightarrow> result \<times> string list" where
  "applyDeleteMetaNodeCommand env nid data =
     (case MetaNode (Clone data) nid of
        None \<Rightarrow> ((Some ErrNodeNotFound, data), [])
      | Some node \<Rightarrow>
          (let (err, calls) = leave env node
           in if err \<noteq> None \<and> err \<noteq> Some ErrNotLeader then ((err, data), calls)
              else (on_clone data (DeleteMetaNode nid), calls)))"

definition applyCreateDataNodeCommand :: "string \<Rightarrow> string \<Rightarrow> Data \<Rightarrow> result" where
  "applyCreateDataNodeCommand httpAddr tcpAddr data = on_clone data (CreateDataNode httpAddr tcpAddr)"

definition applyDeleteDataNodeCommand ::
    "go_time \<Rightarrow> (freqs \<Rightarrow> freqs) \<Rightarrow> u64 \<Rightarrow> Data \<Rightarrow> result" where
  "applyDeleteDataNodeCommand now rng nid data = on_clone data (DeleteDataNode now rng nid)"

section \<open>Apply\<close>

text \<open>
  The dispatch of \<open>Apply\<close>, with the servers raft is asked to remove.  Commands outside the
  switch reach its default branch, which panics.
\<close>

primrec apply_command :: "apply_env \<Rightarrow> command \<Rightarrow> Data \<Rightarrow> result \<times> string list" where
  "apply_command env (RemovePeerCommand i addr) d = ((None, d), applyRemovePeerCommand env addr)"
| "apply_command env (CreateNodeCommand host rand) d =
     (case env_peers env of
        Inl e \<Rightarrow> ((Some e, d), [])
      | Inr peers \<Rightarrow> (applyCreateNodeCommand host rand peers d, []))"
| "apply_command env (DeleteNodeCommand nid force) d = (applyDeleteNodeCommand d, [])"
| "apply_command env (CreateDatabaseCommand n rp) d =
     (applyCreateDatabaseCommand (env_RetentionAutoCreate env) n rp d, [])"
| "apply_command env (DropDatabaseCommand n) d = (applyDropDatabaseCommand n d, [])"
| "apply_command env (CreateRetentionPolicyCommand n rp) d = (applyCreateRetentionPolicyCommand n rp d, [])"
| "apply_command env (DropRetentionPolicyCommand n p) d = (applyDropRetentionPolicyCommand n p d, [])"
| "apply_command env (SetDefaultRetentionPolicyCommand n p) d =
     (applySetDefaultRetentionPolicyCommand n p d, [])"
| "apply_command env (UpdateRetentionPolicyCommand n p nn dur rn) d =
     (applyUpdateRetentionPolicyCommand n p nn dur rn d, [])"
| "apply_command env (CreateShardGroupCommand n p ts) d = (applyCreateShardGroupCommand n p ts d, [])"
| "apply_command env (DeleteShardGroupCommand n p gid) d =
     (applyDeleteShardGroupCommand (env_now env) n p gid d, [])"
| "apply_command env (CreateContinuousQueryCommand n c q) d = (applyCreateContinuousQueryCommand n c q d, [])"
| "apply_command env (DropContinuousQueryCommand n c) d = (applyDropContinuousQueryCommand n c d, [])"
| "apply_command env (CreateSubscriptionCommand s n p mode dests) d =
     (applyCreateSubscriptionCommand (env_url_Parse env) (env_SplitHostPort env) s n p mode dests d, [])"
| "apply_command env (DropSubscriptionCommand s n p) d = (applyDropSubscriptionCommand s n p d, [])"
| "apply_command env (CreateUserCommand u h a) d = (applyCreateUserCommand u h a d, [])"
| "apply_command env (DropUserCommand u) d = (applyDropUserCommand u d, [])"
| "apply_command env (UpdateUserCommand u h) d = (applyUpdateUserCommand u h d, [])"
| "apply_command env (SetPrivilegeCommand u n p) d = (applySetPrivilegeCommand u n p d, [])"
| "apply_command env (SetAdminPrivilegeCommand u a) d = (applySetAdminPrivilegeCommand u a d, [])"
| "apply_command env (SetDataCommand pb) d = (applySetDataCommand pb d, [])"
| "apply_command env (UpdateNodeCommand nid host) d = (applyUpdateNodeCommand d, [])"
| "apply_command env (CreateMetaNodeCommand h t rand) d = (applyCreateMetaNodeCommand h t rand d, [])"
| "apply_command env (DeleteMetaNodeCommand nid) d = applyDeleteMetaNodeCommand env nid d"
| "apply_command env (SetMetaNodeCommand h t rand) d = (applySetMetaNodeCommand h t rand d, [])"
| "apply_command env (CreateDataNodeCommand h t) d = (applyCreateDataNodeCommand h t d, [])"
| "apply_command env (DeleteDataNodeCommand nid) d =
     (applyDeleteDataNodeCommand (env_now env) (env_rng env) nid d, [])"
| "apply_command env (UpdateDataNodeCommand nid h t) d = ((Some (Panic ''cannot apply command''), d), [])"
| "apply_command env (DropShardCommand sid) d = ((Some (Panic ''cannot apply command''), d), [])"

text \<open>
  The store as the state machine changes it: the metadata, how often \<open>dataChanged\<close> was
  closed and renewed, and the servers raft was asked to remove.
\<close>

record store =
  st_data :: Data
  st_changed :: nat
  st_removed :: "string list"

definition newStore :: store where
  "newStore = \<lparr>st_data = zero_Data\<lparr>Index := 1\<rparr>, st_changed = 0, st_removed = []\<rparr>"

definition is_panic :: "meta_error option \<Rightarrow> bool" where
  "is_panic e = (case e of Some (Panic _) \<Rightarrow> True | _ \<Rightarrow> False)"

definition Apply :: "apply_env \<Rightarrow> raft_log \<Rightarrow> store \<Rightarrow> meta_error option \<times> store" where
  "Apply env l s =
     (case log_Data l of
        None \<Rightarrow> (Some (Panic ''cannot marshal command''), s)
      | Some cmd \<Rightarrow>
          (let ((err, d), removed) = apply_command env cmd (st_data s)
           in if is_panic err then (err, s)
              else (err, \<lparr>st_data = d\<lparr>Term := log_Term l, Index := log_Index l\<rparr>,
                     st_changed = st_changed s + 1, st_removed = st_removed s @ removed\<rparr>)))"

section \<open>Snapshots\<close>

definition Snapshot :: "store \<Rightarrow> Data" where
  "Snapshot s = st_data s"

text \<open>\<open>Persist\<close>: the bytes written to the sink, or the error (of encoding, writing or
  closing) after which it is cancelled.\<close>

definition Persist :: "(pb_Data \<Rightarrow> 'e + 'b) \<Rightarrow> ('b \<Rightarrow> 'e option) \<Rightarrow> priv_order \<Rightarrow> Data \<Rightarrow> 'e + 'b" where
  "Persist proto_Marshal sink_Write rng data =
     (case Data_MarshalBinary proto_Marshal rng data of
        Inl e \<Rightarrow> Inl e
      | Inr p \<Rightarrow> (case sink_Write p of Some e \<Rightarrow> Inl e | None \<Rightarrow> Inr p))"

definition Restore :: "('b \<Rightarrow> 'e + pb_Data) \<Rightarrow> 'b \<Rightarrow> store \<Rightarrow> 'e option \<times> store" where
  "Restore proto_Unmarshal b s =
     (case Data_UnmarshalBinary proto_Unmarshal b zero_Data of
        (Some e, _) \<Rightarrow> (Some e, s)
      | (None, data) \<Rightarrow> (None, s\<lparr>st_data := data\<rparr>))"

section \<open>Queries of the store\<close>

definition store_snapshot :: "store \<Rightarrow> Data" where
  "store_snapshot s = Clone (st_data s)"

text \<open>Whether the channel \<open>afterIndex\<close> returns is already closed.\<close>

definition afterIndex_ready :: "store \<Rightarrow> u64 \<Rightarrow> bool" where
  "afterIndex_ready s index = (index < Index (st_data s))"

definition leaderHTTP :: "string \<Rightarrow> store \<Rightarrow> string" where
  "leaderHTTP leader s =
     (case find (\<lambda>n. ni_TCPHost n = leader) (MetaNodes (st_data s)) of Some n \<Rightarrow> ni_Host n | None \<Rightarrow> '''')"

definition otherMetaServersHTTP :: "string \<Rightarrow> store \<Rightarrow> string list" where
  "otherMetaServersHTTP raftAddr s =
     map ni_Host (filter (\<lambda>n. ni_TCPHost n \<noteq> raftAddr) (MetaNodes (st_data s)))"

definition metaServersHTTP :: "store \<Rightarrow> string list" where
  "metaServersHTTP s = map ni_Host (MetaNodes (st_data s))"

definition metaNodeByAddr :: "store \<Rightarrow> string \<Rightarrow> NodeInfo option" where
  "metaNodeByAddr s host = find (\<lambda>n. host = ni_Host n) (MetaNodes (st_data s))"

definition dataServers :: "store \<Rightarrow> string list" where
  "dataServers s = map ni_TCPHost (DataNodes (st_data s))"

definition store_index :: "store \<Rightarrow> u64" where
  "store_index s = Index (st_data s)"

end
