(* ===== verification/MetaHandler.thy ===== *)
theory MetaHandler
  imports MetaFSM
begin

text \<open>
  The server side of the meta service: commands submitted to raft (\<open>raft_state.go\<close>,
  \<open>store.go\<close>), the changes of the set of meta nodes, the HTTP handlers that a client of the
  cluster talks to, and the leases (\<open>handler.go\<close>).
\<close>

section \<open>Commands through raft\<close>

text \<open>
  The raft library as a meta node sees it: whether the store is open, what becomes of a
  submitted command (an error, or the term and index of the committed entry), the address of
  the leader, the answer to \<open>AddVoter\<close>, and what \<open>Apply\<close> reads.
\<close>

record raft_env =
  re_open :: bool
  re_Apply :: "command \<Rightarrow> meta_error + u64 \<times> u64"
  re_Leader :: string
  re_AddVoter :: "string \<Rightarrow> meta_error option"
  re_env :: apply_env

definition raftState_apply :: "raft_env \<Rightarrow> command \<Rightarrow> store \<Rightarrow> meta_error option \<times> store" where
  "raftState_apply re cmd s =
     (case re_Apply re cmd of
        Inl e \<Rightarrow> (Some e, s)
      | Inr (t, i) \<Rightarrow> Apply (re_env re) \<lparr>log_Term = t, log_Index = i, log_Data = Some cmd\<rparr> s)"

definition store_not_open :: meta_error where
  "store_not_open = ErrOther ''store not open''"

definition store_apply :: "raft_env \<Rightarrow> command \<Rightarrow> store \<Rightarrow> meta_error option \<times> store" where
  "store_apply re cmd s =
     (if \<not> re_open re then (Some store_not_open, s) else raftState_apply re cmd s)"

definition createMetaNode :: "raft_env \<Rightarrow> u64 \<Rightarrow> string \<Rightarrow> string \<Rightarrow> store \<Rightarrow> meta_error option \<times> store" where
  "createMetaNode re rand addr raftAddr s = store_apply re (CreateMetaNodeCommand addr raftAddr rand) s"

definition removeMetaNode :: "raft_env \<Rightarrow> u64 \<Rightarrow> store \<Rightarrow> meta_error option \<times> store" where
  "removeMetaNode re nid s = store_apply re (DeleteMetaNodeCommand nid) s"

definition setMetaNode :: "raft_env \<Rightarrow> u64 \<Rightarrow> string \<Rightarrow> string \<Rightarrow> store \<Rightarrow> meta_error option \<times> store" where
  "setMetaNode re rand addr raftAddr s = store_apply re (SetMetaNodeCommand addr raftAddr rand) s"

text \<open>The error of \<open>addVoter\<close> and the addresses it asks raft to add.\<close>

definition addVoter :: "raft_env \<Rightarrow> string \<Rightarrow> meta_error option \<times> string list" where
  "addVoter re addr =
     (case env_servers (re_env re) of
        Inl e \<Rightarrow> (Some e, [])
      | Inr servers \<Rightarrow>
          if list_ex (\<lambda>(srvID, srvAddr). srvAddr = addr) servers then (None, [])
          else (re_AddVoter re addr, [addr]))"

definition joinMeta ::
    "raft_env \<Rightarrow> u64 \<Rightarrow> NodeInfo \<Rightarrow> store \<Rightarrow> (meta_error + NodeInfo) \<times> store \<times> string list" where
  "joinMeta re rand n s =
     (if \<not> re_open re then (Inl store_not_open, s, [])
      else case addVoter re (ni_TCPHost n) of
        (Some e, added) \<Rightarrow> (Inl e, s, added)
      | (None, added) \<Rightarrow>
          (case createMetaNode re rand (ni_Host n) (ni_TCPHost n) s of
             (Some e, s') \<Rightarrow> (Inl e, s', added)
           | (None, s') \<Rightarrow>
               (case find (\<lambda>node. ni_TCPHost node = ni_TCPHost n \<and> ni_Host node = ni_Host n)
                       (MetaNodes (st_data s')) of
                  Some node \<Rightarrow> (Inr node, s', added)
                | None \<Rightarrow> (Inl ErrNodeNotFound, s', added))))"

definition removeMeta :: "raft_env \<Rightarrow> string \<Rightarrow> store \<Rightarrow> (meta_error + NodeInfo) \<times> store \<times> string list" where
  "removeMeta re host s =
     (case metaNodeByAddr s host of
        None \<Rightarrow> (Inl (ErrOther ''failed to find the node''), s, [])
      | Some n \<Rightarrow>
          if (if re_open re then leaderHTTP (re_Leader re) s else '''') = host
          then (Inl (ErrOther ''Can't remove leader node''), s, [])
          else if \<not> re_open re then (Inl store_not_open, s, [])
          else case removeVoter (re_env re) (ni_TCPHost n) of
            (Some e, removed) \<Rightarrow> (Inl e, s, removed)
          | (None, removed) \<Rightarrow>
              (case removeMetaNode re (ni_ID n) s of
                 (Some e, s') \<Rightarrow> (Inl e, s', removed)
               | (None, s') \<Rightarrow>
                   if list_ex (\<lambda>node. ni_TCPHost node = ni_TCPHost n \<and> ni_Host node = ni_Host n)
                        (MetaNodes (st_data s'))
                   then (Inl ErrNodeUnableToDropNode, s', removed)
                   else (Inr n, s', removed)))"

section \<open>HTTP handlers\<close>

text \<open>
  What a handler answers: a bare status, a redirect, or a body with status 200.
  \<open>Crash\<close> means that the process panics, so the client gets no answer.
\<close>

datatype 'a http_answer =
    HTTPStatus nat
  | HTTPRedirect string
  | HTTPBody 'a
  | Crash

datatype 'a request_body =
    Unreadable
  | Undecodable
  | Body 'a

record Response =
  rs_OK :: bool
  rs_Error :: string
  rs_Index :: u64

definition scheme :: "bool \<Rightarrow> string" where
  "scheme https = (if https then ''https://'' else ''http://'')"

text \<open>The redirect to the leader, or status 503 without one.\<close>

definition to_leader :: "bool \<Rightarrow> raft_env \<Rightarrow> store \<Rightarrow> string \<Rightarrow> 'a http_answer" where
  "to_leader https re s path =
     (let l = leaderHTTP (re_Leader re) s
      in if l = '''' then HTTPStatus 503 else HTTPRedirect (scheme https @ l @ path))"

text \<open>
  \<open>msg\<close> is \<open>err.Error()\<close>.  \<open>closed\<close> is \<open>h.isClosed()\<close>; the body is the command, if
  \<open>validateCommand\<close> can decode it.
\<close>

definition serveExec ::
    "bool \<Rightarrow> bool \<Rightarrow> (meta_error \<Rightarrow> string) \<Rightarrow> raft_env \<Rightarrow> command request_body \<Rightarrow> store \<Rightarrow>
     Response http_answer \<times> store" where
  "serveExec closed https msg re body s =
     (if closed then (HTTPStatus 503, s)
      else case body of
        Unreadable \<Rightarrow> (HTTPStatus 500, s)
      | Undecodable \<Rightarrow> (HTTPStatus 400, s)
      | Body cmd \<Rightarrow>
          (case store_apply re cmd s of
             (Some err, s') \<Rightarrow>
               if is_panic (Some err) then (Crash, s')
               else if err = ErrNotLeader then (to_leader https re s' ''/execute'', s')
               else (HTTPBody \<lparr>rs_OK = False, rs_Error = msg err, rs_Index = 0\<rparr>, s')
           | (None, s') \<Rightarrow>
               (HTTPBody \<lparr>rs_OK = False, rs_Error = '''', rs_Index = store_index s'\<rparr>, s')))"

definition serveAddMeta ::
    "bool \<Rightarrow> bool \<Rightarrow> raft_env \<Rightarrow> u64 \<Rightarrow> NodeInfo request_body \<Rightarrow> store \<Rightarrow>
     NodeInfo http_answer \<times> store" where
  "serveAddMeta closed https re rand body s =
     (if closed then (HTTPStatus 503, s)
      else case body of
        Unreadable \<Rightarrow> (HTTPStatus 500, s)
      | Undecodable \<Rightarrow> (HTTPStatus 500, s)
      | Body n \<Rightarrow>
          (case joinMeta re rand n s of
             (Inl err, s', _) \<Rightarrow>
               if is_panic (Some err) then (Crash, s')
               else if err = ErrNotLeader then (to_leader https re s' ''/add-meta'', s')
               else (HTTPStatus 500, s')
           | (Inr node, s', _) \<Rightarrow> (HTTPBody node, s')))"

definition serveRemoveMeta ::
    "bool \<Rightarrow> bool \<Rightarrow> raft_env \<Rightarrow> NodeInfo request_body \<Rightarrow> store \<Rightarrow> NodeInfo http_answer \<times> store" where
  "serveRemoveMeta closed https re body s =
     (if closed then (HTTPStatus 503, s)
      else case body of
        Unreadable \<Rightarrow> (HTTPStatus 500, s)
      | Undecodable \<Rightarrow> (HTTPStatus 500, s)
      | Body n \<Rightarrow>
          (case removeMeta re (ni_Host n) s of
             (Inl err, s', _) \<Rightarrow>
               if is_panic (Some err) then (Crash, s')
               else if err = ErrNotLeader then (to_leader https re s' ''/remove-meta'', s')
               else (HTTPStatus 500, s')
           | (Inr node, s', _) \<Rightarrow> (HTTPBody node, s')))"

text \<open>
  The long poll.  What ends the wait: new data, the client going away (no answer), or the
  server closing.  A malformed index sets status 400 and the handler goes on with index 0.
\<close>

datatype poll_event =
    PollData
  | PollGone
  | PollClosing

definition serveSnapshot ::
    "bool \<Rightarrow> (pb_Data \<Rightarrow> 'e + 'b) \<Rightarrow> priv_order \<Rightarrow> u64 option \<Rightarrow> poll_event \<Rightarrow> store \<Rightarrow> 'b http_answer option" where
  "serveSnapshot closed proto_Marshal rng index ev s =
     (if closed then Some (HTTPStatus 500)
      else
        let bad = (index = None) in
        case ev of
          PollGone \<Rightarrow> None
        | PollClosing \<Rightarrow> Some (HTTPStatus (if bad then 400 else 500))
        | PollData \<Rightarrow>
            (case Data_MarshalBinary proto_Marshal rng (store_snapshot s) of
               Inl e \<Rightarrow> Some (HTTPStatus (if bad then 400 else 500))
             | Inr b \<Rightarrow> Some (if bad then HTTPStatus 400 else HTTPBody b)))"

text \<open>\<open>PollData\<close> needs the channel of \<open>afterIndex\<close>: data beyond \<open>index\<close> is there already, or
  the store changed \<open>changed\<close> times since the request came in.\<close>

definition poll_ready :: "u64 option \<Rightarrow> nat \<Rightarrow> store \<Rightarrow> bool" where
  "poll_ready index changed s =
     (afterIndex_ready s (case index of Some i \<Rightarrow> i | None \<Rightarrow> 0) \<or> changed > 0)"

text \<open>The pings of the other meta servers, \<open>None\<close> for an unreadable answer.\<close>

definition servePing ::
    "bool \<Rightarrow> string \<Rightarrow> string \<Rightarrow> (string \<Rightarrow> string option) \<Rightarrow> store \<Rightarrow> string http_answer" where
  "servePing all leader raftAddr ping s =
     (if \<not> all then HTTPBody leader
      else if list_all (\<lambda>n. ping n = Some leader) (otherMetaServersHTTP raftAddr s) then HTTPBody leader
      else HTTPStatus 500)"

section \<open>Leases\<close>

record Lease =
  le_Name :: string
  le_Expiration :: go_time
  le_Owner :: u64

record Leases =
  ls_m :: "(string \<times> Lease) list"
  ls_d :: duration

definition NewLeases :: "duration \<Rightarrow> Leases" where
  "NewLeases d = \<lparr>ls_m = [], ls_d = d\<rparr>"

text \<open>Whether the node got the lease, the lease, and the new table.\<close>

definition Acquire :: "go_time \<Rightarrow> string \<Rightarrow> u64 \<Rightarrow> Leases \<Rightarrow> (meta_error option \<times> Lease) \<times> Leases" where
  "Acquire now name nodeID leases =
     (case map_of (ls_m leases) name of
        Some l \<Rightarrow>
          if now > le_Expiration l \<or> le_Owner l = nodeID then
            (let l' = l\<lparr>le_Expiration := now + ls_d leases, le_Owner := nodeID\<rparr>
             in ((None, l'), leases\<lparr>ls_m := map_put name l' (ls_m leases)\<rparr>))
          else ((Some (ErrOther ''another node has the lease''), l), leases)
      | None \<Rightarrow>
          (let l = \<lparr>le_Name = name, le_Expiration = now + ls_d leases, le_Owner = nodeID\<rparr>
           in ((None, l), leases\<lparr>ls_m := map_put name l (ls_m leases)\<rparr>)))"

text \<open>The query parameters as \<open>serveLease\<close> reads them; \<open>self\<close> is the node's own HTTP address and
  \<open>query\<close> the encoded query.  The answer carries the lease and whether the status is 409.\<close>

definition serveLease ::
    "bool \<Rightarrow> string \<Rightarrow> raft_env \<Rightarrow> (string \<Rightarrow> u64 option) \<Rightarrow> go_time \<Rightarrow> string \<Rightarrow> string \<Rightarrow> string \<Rightarrow> store \<Rightarrow>
     Leases \<Rightarrow> (bool \<times> Lease) http_answer \<times> Leases" where
  "serveLease https self re ParseUint now name nodeIDStr query s leases =
     (if name = '''' then (HTTPStatus 400, leases)
      else if nodeIDStr = '''' then (HTTPStatus 400, leases)
      else if leaderHTTP (re_Leader re) s \<noteq> self then (to_leader https re s (''/lease?'' @ query), leases)
      else case ParseUint nodeIDStr of
        None \<Rightarrow> (HTTPStatus 400, leases)
      | Some nodeID \<Rightarrow>
          (case Acquire now name nodeID leases of
             ((err, l), leases') \<Rightarrow> (HTTPBody (err \<noteq> None, l), leases')))"

end
