(* ===== verification/PointsWriter.thy ===== *)
theory PointsWriter
  imports MetaShardInv
begin

text \<open>
  The write path of the coordinator (\<open>coordinator/points_writer.go\<close>): points are mapped
  to shards through shard groups of the meta service, each shard is written on all its
  owners at once, and the answers are counted against a consistency level.  The meta client,
  the local store, the remote writer and hinted handoff are the interfaces the code calls;
  goroutines appear as the results they send and the order in which they arrive.
\<close>

section \<open>Consistency levels and errors\<close>

datatype ConsistencyLevel =
    ConsistencyLevelAny
  | ConsistencyLevelOne
  | ConsistencyLevelQuorum
  | ConsistencyLevelAll

text \<open>Errors of the local store and of the remote writers, by their text when foreign.\<close>

datatype store_error =
    ErrShardNotFound
  | ErrShardDeletion
  | StoreError string

datatype write_error =
    ErrTimeout
  | ErrPartialWrite
  | ErrWriteFailed
  | ErrInvalidConsistencyLevel
  | ErrTSDB store_error
  | WriteFailed store_error
  | PartialWriteError string nat
  | NilShardGroup
  | MetaError meta_error
  | ShardPanic meta_error

definition ParseConsistencyLevel :: "string \<Rightarrow> write_error + ConsistencyLevel" where
  "ParseConsistencyLevel level =
     (let l = ToLower level in
      if l = ''any'' then Inr ConsistencyLevelAny
      else if l = ''one'' then Inr ConsistencyLevelOne
      else if l = ''quorum'' then Inr ConsistencyLevelQuorum
      else if l = ''all'' then Inr ConsistencyLevelAll
      else Inl ErrInvalidConsistencyLevel)"

definition error_text :: "store_error \<Rightarrow> string" where
  "error_text e =
     (case e of
        ErrShardNotFound \<Rightarrow> ''shard not found''
      | ErrShardDeletion \<Rightarrow> ''shard is being deleted''
      | StoreError s \<Rightarrow> s)"

text \<open>\<open>strings.Contains\<close>\<close>

fun str_contains :: "string \<Rightarrow> string \<Rightarrow> bool" where
  "str_contains [] sub = (sub = [])"
| "str_contains (c # cs) sub = (take (length sub) (c # cs) = sub \<or> str_contains cs sub)"

definition IsRetryable :: "store_error option \<Rightarrow> bool" where
  "IsRetryable err =
     (case err of
        None \<Rightarrow> True
      | Some e \<Rightarrow> \<not> str_contains (error_text e) ''field type conflict'')"

section \<open>Points and shard mappings\<close>

text \<open>A \<open>models.Point\<close> as the write path sees it: its time, its series hash, its content.\<close>

record point =
  pt_Time :: go_time
  pt_HashID :: u64
  pt_Data :: string

text \<open>
  An entry of \<open>ShardMapping.Points\<close> is a slice with its capacity: \<open>MapPoint\<close> replaces a
  slice whose capacity is below \<open>n\<close>.  \<open>append\<close> grows a full slice.
\<close>

record ShardMapping =
  sm_n :: nat
  sm_Points :: "(u64 \<times> nat \<times> point list) list"
  sm_Shards :: "(u64 \<times> ShardInfo) list"
  sm_Dropped :: "point list"

definition NewShardMapping :: "nat \<Rightarrow> ShardMapping" where
  "NewShardMapping n = \<lparr>sm_n = n, sm_Points = [], sm_Shards = [], sm_Dropped = []\<rparr>"

definition MapPoint :: "ShardInfo \<Rightarrow> point \<Rightarrow> ShardMapping \<Rightarrow> ShardMapping" where
  "MapPoint shardInfo p s =
     (let sid = si_ID shardInfo;
          (cap, pts) = (case map_of (sm_Points s) sid of Some e \<Rightarrow> e | None \<Rightarrow> (0, []));
          (cap1, pts1) = (if cap < sm_n s then (sm_n s, []) else (cap, pts));
          pts2 = pts1 @ [p]
      in s\<lparr>sm_Points := map_put sid (if length pts2 \<le> cap1 then cap1 else 2 * length pts2, pts2) (sm_Points s),
           sm_Shards := map_put sid shardInfo (sm_Shards s)\<rparr>)"

section \<open>Lists of shard groups\<close>

definition ShardGroupAt :: "ShardGroupInfo list \<Rightarrow> go_time \<Rightarrow> ShardGroupInfo option" where
  "ShardGroupAt l t =
     (let idx = sort_Search (length l) (\<lambda>i. sgi_EndTime (l ! i) > t)
      in if idx = length l \<or> t < sgi_StartTime (l ! idx) then None else Some (l ! idx))"

definition Covers :: "ShardGroupInfo list \<Rightarrow> go_time \<Rightarrow> bool" where
  "Covers l t = (if length l = 0 then False else ShardGroupAt l t \<noteq> None)"

definition sgList_Append :: "ShardGroupInfo list \<Rightarrow> ShardGroupInfo \<Rightarrow> ShardGroupInfo list" where
  "sgList_Append l sgi = sort_ShardGroupInfos (l @ [sgi])"

section \<open>MapShards\<close>

text \<open>The methods of \<open>MetaClient\<close> the writer calls; \<open>'s\<close> is the state behind them.\<close>

record 's MetaClient =
  mc_Database :: "'s \<Rightarrow> string \<Rightarrow> DatabaseInfo option"
  mc_RetentionPolicy :: "'s \<Rightarrow> string \<Rightarrow> string \<Rightarrow> meta_error + RetentionPolicyInfo option"
  mc_CreateShardGroup ::
    "string \<Rightarrow> string \<Rightarrow> 's \<Rightarrow> go_time \<Rightarrow> (meta_error + ShardGroupInfo option) \<times> 's"

definition MinNanoTime :: int where
  "MinNanoTime = - (2 ^ 63) + 2"

definition scope_min :: "go_time \<Rightarrow> RetentionPolicyInfo \<Rightarrow> go_time" where
  "scope_min now rp =
     (if rpi_Duration rp > 0 then now - rpi_Duration rp else time_Unix_nano MinNanoTime)"

text \<open>The first loop: collect the shard groups the points need.\<close>

fun collect_groups ::
    "('s \<Rightarrow> go_time \<Rightarrow> (meta_error + ShardGroupInfo option) \<times> 's) \<Rightarrow> go_time \<Rightarrow>
     ShardGroupInfo list \<Rightarrow> point list \<Rightarrow> 's \<Rightarrow> (write_error + ShardGroupInfo list) \<times> 's" where
  "collect_groups create tmin l [] s = (Inr l, s)"
| "collect_groups create tmin l (p # ps) s =
     (if pt_Time p < tmin \<or> Covers l (pt_Time p) then collect_groups create tmin l ps s
      else case create s (pt_Time p) of
        (Inl e, s') \<Rightarrow> (Inl (MetaError e), s')
      | (Inr None, s') \<Rightarrow> (Inl NilShardGroup, s')
      | (Inr (Some sg), s') \<Rightarrow> collect_groups create tmin (sgList_Append l sg) ps s')"

text \<open>The second loop: map every point to its shard or drop it.\<close>

fun map_points ::
    "ShardGroupInfo list \<Rightarrow> point list \<Rightarrow> ShardMapping \<Rightarrow> write_error + ShardMapping" where
  "map_points l [] m = Inr m"
| "map_points l (p # ps) m =
     (case ShardGroupAt l (pt_Time p) of
        None \<Rightarrow> map_points l ps (m\<lparr>sm_Dropped := sm_Dropped m @ [p]\<rparr>)
      | Some sg \<Rightarrow>
          (case ShardFor sg (pt_HashID p) of
             Inl e \<Rightarrow> Inl (ShardPanic e)
           | Inr sh \<Rightarrow> map_points l ps (MapPoint sh p m)))"

definition MapShards ::
    "('s, 'z) MetaClient_scheme \<Rightarrow> go_time \<Rightarrow> string \<Rightarrow> string \<Rightarrow> point list \<Rightarrow> 's \<Rightarrow>
     (write_error + ShardMapping) \<times> 's" where
  "MapShards mc now database policy points s =
     (case mc_RetentionPolicy mc s database policy of
        Inl e \<Rightarrow> (Inl (MetaError e), s)
      | Inr None \<Rightarrow> (Inl (MetaError (ErrRetentionPolicyNotFound policy)), s)
      | Inr (Some rp) \<Rightarrow>
          (case collect_groups (mc_CreateShardGroup mc database policy) (scope_min now rp) [] points s of
             (Inl e, s') \<Rightarrow> (Inl e, s')
           | (Inr l, s') \<Rightarrow> (map_points l points (NewShardMapping (length points)), s')))"

section \<open>Writing one shard\<close>

text \<open>
  The stores behind the writer.  \<open>be_WriteToShard\<close> has the number of the attempt as its first
  argument, since the second one follows the creation of the shard.
\<close>

record backend =
  be_NodeID :: u64
  be_WriteToShard :: "nat \<Rightarrow> u64 \<Rightarrow> point list \<Rightarrow> store_error option"
  be_CreateShard :: "string \<Rightarrow> string \<Rightarrow> u64 \<Rightarrow> store_error option"
  be_ShardWriter :: "u64 \<Rightarrow> u64 \<Rightarrow> point list \<Rightarrow> store_error option"
  be_HintedHandoff :: "u64 \<Rightarrow> u64 \<Rightarrow> point list \<Rightarrow> store_error option"

record WriteStatistics =
  ws_WriteReq :: nat
  ws_PointWriteReq :: nat
  ws_PointWriteReqLocal :: nat
  ws_PointWriteReqRemote :: nat
  ws_WriteOK :: nat
  ws_WritePartial :: nat
  ws_WriteDropped :: nat
  ws_WriteTimeout :: nat
  ws_WriteErr :: nat
  ws_WritePointReqHH :: nat
  ws_SubWriteOK :: nat
  ws_SubWriteDrop :: nat

definition zero_stats :: WriteStatistics where
  "zero_stats = \<lparr>ws_WriteReq = 0, ws_PointWriteReq = 0, ws_PointWriteReqLocal = 0, ws_PointWriteReqRemote = 0,
     ws_WriteOK = 0, ws_WritePartial = 0, ws_WriteDropped = 0, ws_WriteTimeout = 0, ws_WriteErr = 0,
     ws_WritePointReqHH = 0, ws_SubWriteOK = 0, ws_SubWriteDrop = 0\<rparr>"

text \<open>What one goroutine of \<open>writeToShard\<close> sends: the result for its owner.\<close>

definition write_local ::
    "backend \<Rightarrow> string \<Rightarrow> string \<Rightarrow> u64 \<Rightarrow> point list \<Rightarrow> store_error option" where
  "write_local be database policy sid points =
     (let err = be_WriteToShard be 0 sid points
      in if err = Some ErrShardNotFound then
           (case be_CreateShard be database policy sid of
              Some e \<Rightarrow> Some e
            | None \<Rightarrow> be_WriteToShard be 1 sid points)
         else err)"

definition write_remote ::
    "backend \<Rightarrow> ConsistencyLevel \<Rightarrow> u64 \<Rightarrow> u64 \<Rightarrow> point list \<Rightarrow> store_error option" where
  "write_remote be consistency sid nid points =
     (let err = be_ShardWriter be sid nid points
      in if err \<noteq> None \<and> IsRetryable err then
           (case be_HintedHandoff be sid nid points of
              Some hherr \<Rightarrow> Some hherr
            | None \<Rightarrow> if consistency = ConsistencyLevelAny then None else err)
         else err)"

definition owner_write ::
    "backend \<Rightarrow> ConsistencyLevel \<Rightarrow> string \<Rightarrow> string \<Rightarrow> u64 \<Rightarrow> point list \<Rightarrow> ShardOwner \<Rightarrow>
     store_error option" where
  "owner_write be consistency database policy sid points ow =
     (if be_NodeID be = so_NodeID ow then write_local be database policy sid points
      else write_remote be consistency sid (so_NodeID ow) points)"

text \<open>The counters a goroutine moves.\<close>

definition owner_stats ::
    "backend \<Rightarrow> u64 \<Rightarrow> point list \<Rightarrow> ShardOwner \<Rightarrow> WriteStatistics \<Rightarrow> WriteStatistics" where
  "owner_stats be sid points ow st =
     (if be_NodeID be = so_NodeID ow
      then st\<lparr>ws_PointWriteReqLocal := ws_PointWriteReqLocal st + length points\<rparr>
      else
        (let st1 = st\<lparr>ws_PointWriteReqRemote := ws_PointWriteReqRemote st + length points\<rparr>;
             err = be_ShardWriter be sid (so_NodeID ow) points
         in if err \<noteq> None \<and> IsRetryable err
            then st1\<lparr>ws_WritePointReqHH := ws_WritePointReqHH st1 + length points\<rparr> else st1))"

definition required_writes :: "ConsistencyLevel \<Rightarrow> nat \<Rightarrow> nat" where
  "required_writes consistency n =
     (case consistency of
        ConsistencyLevelAny \<Rightarrow> 1
      | ConsistencyLevelOne \<Rightarrow> 1
      | ConsistencyLevelQuorum \<Rightarrow> n div 2 + 1
      | ConsistencyLevelAll \<Rightarrow> n)"

text \<open>What the \<open>select\<close> of the collecting loop receives.\<close>

datatype wr_event =
    WClosing
  | WTimeout
  | WResult ShardOwner "store_error option"

fun await_results ::
    "nat \<Rightarrow> nat \<Rightarrow> store_error option \<Rightarrow> wr_event list \<Rightarrow> WriteStatistics \<Rightarrow>
     write_error option \<times> WriteStatistics" where
  "await_results required wrote werr [] st =
     (if wrote > 0 then (Some ErrPartialWrite, st\<lparr>ws_WritePartial := ws_WritePartial st + 1\<rparr>)
      else (case werr of Some e \<Rightarrow> (Some (WriteFailed e), st) | None \<Rightarrow> (Some ErrWriteFailed, st)))"
| "await_results required wrote werr (WClosing # evs) st = (Some ErrWriteFailed, st)"
| "await_results required wrote werr (WTimeout # evs) st =
     (Some ErrTimeout, st\<lparr>ws_WriteTimeout := ws_WriteTimeout st + 1\<rparr>)"
| "await_results required wrote werr (WResult ow (Some e) # evs) st =
     await_results required wrote (if werr = None then Some e else werr) evs
       (st\<lparr>ws_WriteErr := ws_WriteErr st + 1\<rparr>)"
| "await_results required wrote werr (WResult ow None # evs) st =
     (if wrote + 1 \<ge> required then (None, st\<lparr>ws_WriteOK := ws_WriteOK st + 1\<rparr>)
      else await_results required (wrote + 1) werr evs st)"

definition writeToShard ::
    "backend \<Rightarrow> ShardInfo \<Rightarrow> string \<Rightarrow> string \<Rightarrow> ConsistencyLevel \<Rightarrow> point list \<Rightarrow> wr_event list \<Rightarrow>
     WriteStatistics \<Rightarrow> write_error option \<times> WriteStatistics" where
  "writeToShard be shard database policy consistency points evs st =
     (let st0 = st\<lparr>ws_PointWriteReqLocal := ws_PointWriteReqLocal st + length points\<rparr>;
          st1 = foldl (\<lambda>st ow. owner_stats be (si_ID shard) points ow st) st0 (si_Owners shard)
      in await_results (required_writes consistency (length (si_Owners shard))) 0 None evs st1)"

text \<open>
  The event sequences a run can see: the owners' results in some order, either all of them
  or a part that is cut off by \<open>closing\<close> or by the timer.
\<close>

definition owner_results ::
    "backend \<Rightarrow> ConsistencyLevel \<Rightarrow> string \<Rightarrow> string \<Rightarrow> u64 \<Rightarrow> point list \<Rightarrow> ShardOwner list \<Rightarrow> wr_event list" where
  "owner_results be consistency database policy sid points ows =
     map (\<lambda>ow. WResult ow (owner_write be consistency database policy sid points ow)) ows"

definition wr_schedule :: "wr_event list \<Rightarrow> wr_event list \<Rightarrow> bool" where
  "wr_schedule results evs \<longleftrightarrow>
     mset evs = mset results \<or>
     (evs \<noteq> [] \<and> last evs \<in> {WClosing, WTimeout} \<and> mset (butlast evs) \<subset># mset results)"

section \<open>Writing points\<close>

text \<open>
  \<open>WritePointsPrivileged\<close> after the mapping: \<open>outer\<close> is the sequence of events its own loop
  receives, \<open>OShard sid\<close> being the result of the goroutine for shard \<open>sid\<close>.  The counters
  of the shard goroutines are those of \<open>writeToShard\<close> and are not added up here.
\<close>

datatype ow_event =
    OClosing
  | OTimeout
  | OShard u64

fun await_shards ::
    "(u64 \<Rightarrow> write_error option) \<Rightarrow> write_error option \<Rightarrow> ow_event list \<Rightarrow> WriteStatistics \<Rightarrow>
     write_error option \<times> WriteStatistics" where
  "await_shards res err [] st = (err, st)"
| "await_shards res err (OClosing # evs) st = (Some ErrWriteFailed, st)"
| "await_shards res err (OTimeout # evs) st = (Some ErrTimeout, st\<lparr>ws_WriteTimeout := ws_WriteTimeout st + 1\<rparr>)"
| "await_shards res err (OShard sid # evs) st =
     (case res sid of Some e \<Rightarrow> (Some e, st) | None \<Rightarrow> await_shards res err evs st)"

text \<open>
  The result one of its goroutines sends.  The error of a shard that is being deleted becomes
  a partial write when \<open>writeToShard\<close> returns that error itself.
\<close>

definition shard_result ::
    "backend \<Rightarrow> string \<Rightarrow> string \<Rightarrow> ConsistencyLevel \<Rightarrow> ShardMapping \<Rightarrow> (u64 \<Rightarrow> wr_event list) \<Rightarrow> u64 \<Rightarrow>
     write_error option" where
  "shard_result be database policy consistency m evs sid =
     (case (map_of (sm_Shards m) sid, map_of (sm_Points m) sid) of
        (Some shard, Some (_, points)) \<Rightarrow>
          (let err = fst (writeToShard be shard database policy consistency points (evs sid) zero_stats)
           in if err = Some (ErrTSDB ErrShardDeletion)
              then Some (PartialWriteError
                     (''shard '' @ show_nat (unat (si_ID shard)) @ '' is pending deletion'') (length points))
              else err)
      | _ \<Rightarrow> None)"

text \<open>Each subscriber's channel takes the request or, when it is not ready, is skipped.\<close>

definition send_subscribers :: "bool list \<Rightarrow> WriteStatistics \<Rightarrow> WriteStatistics" where
  "send_subscribers ready st =
     st\<lparr>ws_SubWriteOK := ws_SubWriteOK st + length (filter (\<lambda>r. r) ready),
        ws_SubWriteDrop := ws_SubWriteDrop st + length (filter (\<lambda>r. \<not> r) ready)\<rparr>"

definition WritePointsPrivileged ::
    "('s, 'z) MetaClient_scheme \<Rightarrow> backend \<Rightarrow> go_time \<Rightarrow> string \<Rightarrow> string \<Rightarrow> ConsistencyLevel \<Rightarrow>
     point list \<Rightarrow> (u64 \<Rightarrow> wr_event list) \<Rightarrow> bool list \<Rightarrow> ow_event list \<Rightarrow> WriteStatistics \<Rightarrow> 's \<Rightarrow>
     write_error option \<times> WriteStatistics \<times> 's" where
  "WritePointsPrivileged mc be now database policy0 consistency points evs ready outer st s =
     (let st1 = st\<lparr>ws_WriteReq := ws_WriteReq st + 1,
                   ws_PointWriteReq := ws_PointWriteReq st + length points\<rparr>
      in if policy0 = '''' \<and> mc_Database mc s database = None
         then (Some (MetaError (ErrDatabaseNotFound database)), st1, s)
         else
           (let policy = (if policy0 = ''''
                 then di_DefaultRetentionPolicy (the (mc_Database mc s database)) else policy0)
            in case MapShards mc now database policy points s of
                 (Inl e, s') \<Rightarrow> (Some e, st1, s')
               | (Inr m, s') \<Rightarrow>
                   (let st2 = st1\<lparr>ws_WriteDropped := ws_WriteDropped st1 + length (sm_Dropped m)\<rparr>;
                        err = (if length (sm_Dropped m) > 0
                               then Some (PartialWriteError ''points beyond retention policy''
                                            (length (sm_Dropped m)))
                               else None);
                        (e, st3) = await_shards (shard_result be database policy consistency m evs)
                                     err outer (send_subscribers ready st2)
                    in (e, st3, s'))))"

text \<open>The outer loop receives one result per mapped shard, unless it is cut off.\<close>

definition ow_schedule :: "u64 list \<Rightarrow> ow_event list \<Rightarrow> bool" where
  "ow_schedule sids outer \<longleftrightarrow>
     mset outer = mset (map OShard sids) \<or>
     (outer \<noteq> [] \<and> last outer \<in> {OClosing, OTimeout} \<and> mset (butlast outer) \<subset># mset (map OShard sids))"

end
