(* ===== verification/MetaClient.thy ===== *)
theory MetaClient
  imports MetaHandler PointsWriter
begin

text \<open>
  The client that every data node uses to talk to the meta service
  (\<open>services/meta/client.go\<close>): its cache of the metadata, the loop that submits a command
  until a server takes it, the wait for the command's index to reach the cache, and the
  methods built on them.
\<close>

section \<open>State\<close>

record authUser =
  au_bhash :: string
  au_salt :: "byte list"
  au_hash :: "byte list"

text \<open>\<open>cl_node\<close> is the list of peers in the node file, \<open>None\<close> when the client has no node;
  \<open>cl_changed\<close> counts how often \<open>changed\<close> was closed and renewed.\<close>

record Client =
  cl_tls :: bool
  cl_nodeID :: u64
  cl_metaServers :: "string list"
  cl_node :: "string list option"
  cl_changed :: nat
  cl_cacheData :: Data
  cl_authCache :: "(string \<times> authUser) list"

definition NewClient :: "u64 \<Rightarrow> string list option \<Rightarrow> Client" where
  "NewClient rand n = \<lparr>cl_tls = False, cl_nodeID = 0, cl_metaServers = [], cl_node = n, cl_changed = 0,
     cl_cacheData = zero_Data\<lparr>ClusterID := rand, Index := 1\<rparr>, cl_authCache = []\<rparr>"

definition SetMetaServers :: "string list \<Rightarrow> Client \<Rightarrow> Client" where
  "SetMetaServers a c = c\<lparr>cl_metaServers := a\<rparr>"

definition SetTLS :: "bool \<Rightarrow> Client \<Rightarrow> Client" where
  "SetTLS v c = c\<lparr>cl_tls := v\<rparr>"

section \<open>Taking over a snapshot\<close>

definition updateAuthCache :: "Client \<Rightarrow> Client" where
  "updateAuthCache c =
     c\<lparr>cl_authCache := foldl (\<lambda>newCache u.
         (case map_of (cl_authCache c) (ui_Name u) of
            Some cached \<Rightarrow>
              if au_bhash cached = ui_Hash u then map_put (ui_Name u) cached newCache else newCache
          | None \<Rightarrow> newCache)) [] (Users (cl_cacheData c))\<rparr>"

text \<open>\<open>save\<close> tells whether \<open>node.Save()\<close> succeeds; the list of servers changes either way.\<close>

definition updateMetaPeers :: "bool \<Rightarrow> Client \<Rightarrow> Client" where
  "updateMetaPeers save c =
     (case cl_node c of
        None \<Rightarrow> c
      | Some oldPeers \<Rightarrow>
          (let peers = map ni_Host (MetaNodes (cl_cacheData c))
           in if oldPeers \<noteq> peers
              then c\<lparr>cl_metaServers := peers, cl_node := Some (if save then peers else oldPeers)\<rparr>
              else c))"

text \<open>One round of \<open>pollForUpdates\<close>, with the snapshot it received.\<close>

definition poll_update :: "bool \<Rightarrow> Data \<Rightarrow> Client \<Rightarrow> Client" where
  "poll_update save data c =
     (let idx = Index (cl_cacheData c);
          c1 = updateMetaPeers save (updateAuthCache (c\<lparr>cl_cacheData := data\<rparr>))
      in if idx < Index data then c1\<lparr>cl_changed := cl_changed c1 + 1\<rparr> else c1)"

text \<open>
  \<open>waitForIndex\<close>, with the snapshots the polling goroutine receives meanwhile.  \<open>None\<close>: these
  are not enough and the caller still waits.
\<close>

fun waitForIndex :: "bool \<Rightarrow> u64 \<Rightarrow> Data list \<Rightarrow> Client \<Rightarrow> Client option" where
  "waitForIndex save idx snaps c =
     (if Index (cl_cacheData c) \<ge> idx then Some c
      else case snaps of
        [] \<Rightarrow> None
      | data # rest \<Rightarrow> waitForIndex save idx rest (poll_update save data c))"

declare waitForIndex.simps [simp del]

section \<open>Submitting a command\<close>

text \<open>
  The cluster behind the client, with a state \<open>'w\<close>: the exchange with the server at a URL, the
  snapshots that arrive while the client waits for an index, whether the client was closed,
  and whether the node file can be written.  \<open>NoAnswer\<close> is a failed \<open>http.Post\<close>; an answer
  has its status, its \<open>Location\<close> header and its decoded body.
\<close>

datatype exec_answer =
    NoAnswer string
  | Answer nat string "Response option"

record 'w service =
  sv_post :: "string \<Rightarrow> command \<Rightarrow> 'w \<Rightarrow> exec_answer \<times> 'w"
  sv_snapshots :: "u64 \<Rightarrow> 'w \<Rightarrow> Data list"
  sv_closing :: "'w \<Rightarrow> bool"
  sv_save :: bool

definition exec :: "exec_answer \<Rightarrow> meta_error + u64" where
  "exec a =
     (case a of
        NoAnswer e \<Rightarrow> Inl (ErrOther e)
      | Answer status loc res \<Rightarrow>
          if status = 307 then Inl (errRedirect loc)
          else if status \<noteq> 200 then Inl (ErrOther ''meta service returned'')
          else case res of
            None \<Rightarrow> Inl (ErrOther ''unmarshal'')
          | Some r \<Rightarrow> if rs_Error r \<noteq> '''' then Inl (errCommand (rs_Error r)) else Inr (rs_Index r))"

definition maxRetries :: nat where
  "maxRetries = 10"

text \<open>The URL of an attempt: a redirect, or the next server of the list (from the start after
  the last one).  An empty list is an index out of range.\<close>

definition exec_url :: "Client \<Rightarrow> string \<Rightarrow> nat \<Rightarrow> (string \<times> nat) option" where
  "exec_url c redirectServer currentServer =
     (if redirectServer \<noteq> '''' then Some (redirectServer, currentServer)
      else
        let cur = (if currentServer \<ge> length (cl_metaServers c) then 0 else currentServer)
        in if cur < length (cl_metaServers c)
           then Some ((if cl_tls c then ''https'' else ''http'') @ ''://'' @ (cl_metaServers c ! cur) @ ''/execute'', cur)
           else None)"

definition redirect_of :: "meta_error \<Rightarrow> string option" where
  "redirect_of e = (case e of errRedirect h \<Rightarrow> Some h | _ \<Rightarrow> None)"

definition is_command_error :: "meta_error \<Rightarrow> bool" where
  "is_command_error e = (case e of errCommand _ \<Rightarrow> True | _ \<Rightarrow> False)"

function retry_exec ::
    "('w, 'z) service_scheme \<Rightarrow> command \<Rightarrow> nat \<Rightarrow> nat \<Rightarrow> string \<Rightarrow> Client \<Rightarrow> 'w \<Rightarrow>
     meta_error option \<times> Client \<times> 'w" where
  "retry_exec sv cmd tries currentServer redirectServer c w =
     (if sv_closing sv w then (None, c, w)
      else case exec_url c redirectServer currentServer of
        None \<Rightarrow> (Some (Panic ''index out of range''), c, w)
      | Some (url, cur) \<Rightarrow>
          (case sv_post sv url cmd w of
             (answer, w') \<Rightarrow>
               (case exec answer of
                  Inr index \<Rightarrow>
                    (case waitForIndex (sv_save sv) index (sv_snapshots sv index w') c of
                       Some c' \<Rightarrow> (None, c', w')
                     | None \<Rightarrow> (Some Blocked, c, w'))
                | Inl err \<Rightarrow>
                    if tries + 1 > maxRetries then (Some err, c, w')
                    else if redirect_of err \<noteq> None
                    then retry_exec sv cmd (tries + 1) (cur + 1) (the (redirect_of err)) c w'
                    else if is_command_error err then (Some err, c, w')
                    else retry_exec sv cmd (tries + 1) (cur + 1) '''' c w')))"
  by pat_completeness auto
termination
  by (relation "measure (\<lambda>(sv, cmd, tries, _). maxRetries - tries)") (auto simp: maxRetries_def)

declare retry_exec.simps [simp del]

definition retryUntilExec ::
    "('w, 'z) service_scheme \<Rightarrow> command \<Rightarrow> Client \<Rightarrow> 'w \<Rightarrow> meta_error option \<times> Client \<times> 'w" where
  "retryUntilExec sv cmd c w = retry_exec sv cmd 0 0 '''' c w"

section \<open>Reading the cache\<close>

definition client_DataNode :: "Client \<Rightarrow> u64 \<Rightarrow> meta_error + NodeInfo" where
  "client_DataNode c nid =
     (case find (\<lambda>n. ni_ID n = nid) (DataNodes (cl_cacheData c)) of
        Some n \<Rightarrow> Inr n | None \<Rightarrow> Inl ErrNodeNotFound)"

definition DataNodeByHTTPHost :: "Client \<Rightarrow> string \<Rightarrow> meta_error + NodeInfo" where
  "DataNodeByHTTPHost c httpAddr =
     (case find (\<lambda>n. ni_Host n = httpAddr) (DataNodes (cl_cacheData c)) of
        Some n \<Rightarrow> Inr n | None \<Rightarrow> Inl ErrNodeNotFound)"

definition DataNodeByTCPHost :: "Client \<Rightarrow> string \<Rightarrow> meta_error + NodeInfo" where
  "DataNodeByTCPHost c tcpAddr =
     (case find (\<lambda>n. ni_TCPHost n = tcpAddr) (DataNodes (cl_cacheData c)) of
        Some n \<Rightarrow> Inr n | None \<Rightarrow> Inl ErrNodeNotFound)"

definition MetaNodeByAddr :: "Client \<Rightarrow> string \<Rightarrow> NodeInfo option" where
  "MetaNodeByAddr c addr = find (\<lambda>n. ni_Host n = addr) (MetaNodes (cl_cacheData c))"

definition client_Database :: "Client \<Rightarrow> string \<Rightarrow> DatabaseInfo option" where
  "client_Database c name = find (\<lambda>d. di_Name d = name) (Databases (cl_cacheData c))"

definition client_RetentionPolicy :: "Client \<Rightarrow> string \<Rightarrow> string \<Rightarrow> meta_error + RetentionPolicyInfo option" where
  "client_RetentionPolicy c database name =
     (case client_Database c database of
        None \<Rightarrow> Inl (ErrDatabaseNotFound database)
      | Some db \<Rightarrow> Inr (di_RetentionPolicy db name))"

definition client_User :: "Client \<Rightarrow> string \<Rightarrow> meta_error + UserInfo" where
  "client_User c name =
     (case find (\<lambda>u. ui_Name u = name) (Users (cl_cacheData c)) of
        Some u \<Rightarrow> Inr u | None \<Rightarrow> Inl ErrUserNotFound)"

definition client_AdminUserExists :: "Client \<Rightarrow> bool" where
  "client_AdminUserExists c = list_ex ui_Admin (Users (cl_cacheData c))"

definition UserCount :: "Client \<Rightarrow> nat" where
  "UserCount c = length (Users (cl_cacheData c))"

definition ShardIDs :: "Client \<Rightarrow> u64 list" where
  "ShardIDs c =
     insertion_sort (\<lambda>x y. x < y)
       (concat (map (\<lambda>dbi. concat (map (\<lambda>rpi. concat (map (\<lambda>sgi. map si_ID (sgi_Shards sgi))
          (rpi_ShardGroups rpi))) (di_RetentionPolicies dbi))) (Databases (cl_cacheData c))))"

definition client_ShardGroupsByTimeRange ::
    "Client \<Rightarrow> string \<Rightarrow> string \<Rightarrow> go_time \<Rightarrow> go_time \<Rightarrow> meta_error + ShardGroupInfo list" where
  "client_ShardGroupsByTimeRange c database policy tmin tmax =
     (case RetentionPolicy (cl_cacheData c) database policy of
        Inl e \<Rightarrow> Inl e
      | Inr None \<Rightarrow> Inl (ErrRetentionPolicyNotFound policy)
      | Inr (Some rpi) \<Rightarrow> Inr (filter (\<lambda>g. \<not> (Deleted g \<or> \<not> Overlaps g tmin tmax)) (rpi_ShardGroups rpi)))"

text \<open>\<open>ShardOwner\<close>: the first live group with the shard, with its database and policy.\<close>

definition client_ShardOwner :: "Client \<Rightarrow> u64 \<Rightarrow> (string \<times> string \<times> ShardGroupInfo) option" where
  "client_ShardOwner c shardID =
     find (\<lambda>(_, _, g). \<not> Deleted g \<and> list_ex (\<lambda>sh. si_ID sh = shardID) (sgi_Shards g))
       (concat (map (\<lambda>dbi. concat (map (\<lambda>rpi. map (\<lambda>g. (di_Name dbi, rpi_Name rpi, g)) (rpi_ShardGroups rpi))
          (di_RetentionPolicies dbi))) (Databases (cl_cacheData c))))"

end
