(* ===== verification/MetaClientOps.thy ===== *)
theory MetaClientOps
  imports MetaClient
begin

text \<open>
  The methods of the meta client that change the metadata: commands sent to the cluster,
  changes committed to the local cache only, and the authentication of users with its cache
  of salted hashes.
\<close>

section \<open>Commands\<close>

text \<open>A method that runs a command and then reads its result from the cache.\<close>

definition exec_then ::
    "('w, 'z) service_scheme \<Rightarrow> command \<Rightarrow> (Client \<Rightarrow> meta_error + 'a) \<Rightarrow> Client \<Rightarrow> 'w \<Rightarrow>
     (meta_error + 'a) \<times> Client \<times> 'w" where
  "exec_then sv cmd k c w =
     (case retryUntilExec sv cmd c w of
        (Some e, c', w') \<Rightarrow> (Inl e, c', w')
      | (None, c', w') \<Rightarrow> (k c', c', w'))"

definition client_CreateDataNode ::
    "('w, 'z) service_scheme \<Rightarrow> string \<Rightarrow> string \<Rightarrow> Client \<Rightarrow> 'w \<Rightarrow> (meta_error + NodeInfo) \<times> Client \<times> 'w" where
  "client_CreateDataNode sv httpAddr tcpAddr c w =
     (case exec_then sv (CreateDataNodeCommand httpAddr tcpAddr) (\<lambda>c. DataNodeByTCPHost c tcpAddr) c w of
        (Inr n, c', w') \<Rightarrow> (Inr n, c'\<lparr>cl_nodeID := ni_ID n\<rparr>, w')
      | r \<Rightarrow> r)"

definition client_DeleteDataNode ::
    "('w, 'z) service_scheme \<Rightarrow> u64 \<Rightarrow> Client \<Rightarrow> 'w \<Rightarrow> meta_error option \<times> Client \<times> 'w" where
  "client_DeleteDataNode sv nid c w = retryUntilExec sv (DeleteDataNodeCommand nid) c w"

definition client_CreateMetaNode ::
    "('w, 'z) service_scheme \<Rightarrow> u64 \<Rightarrow> string \<Rightarrow> string \<Rightarrow> Client \<Rightarrow> 'w \<Rightarrow>
     (meta_error + NodeInfo) \<times> Client \<times> 'w" where
  "client_CreateMetaNode sv rand httpAddr tcpAddr c w =
     (case exec_then sv (CreateMetaNodeCommand httpAddr tcpAddr rand)
             (\<lambda>c. case MetaNodeByAddr c httpAddr of
                    None \<Rightarrow> Inl (ErrOther ''new meta node not found'') | Some n \<Rightarrow> Inr n) c w of
        (Inr n, c', w') \<Rightarrow> (Inr n, c'\<lparr>cl_nodeID := ni_ID n\<rparr>, w')
      | r \<Rightarrow> r)"

definition client_DeleteMetaNode ::
    "('w, 'z) service_scheme \<Rightarrow> u64 \<Rightarrow> Client \<Rightarrow> 'w \<Rightarrow> meta_error option \<times> Client \<times> 'w" where
  "client_DeleteMetaNode sv nid c w = retryUntilExec sv (DeleteMetaNodeCommand nid) c w"

definition client_CreateDatabase ::
    "('w, 'z) service_scheme \<Rightarrow> string \<Rightarrow> Client \<Rightarrow> 'w \<Rightarrow> (meta_error + DatabaseInfo option) \<times> Client \<times> 'w" where
  "client_CreateDatabase sv name c w =
     (case client_Database c name of
        Some db \<Rightarrow> (Inr (Some db), c, w)
      | None \<Rightarrow> exec_then sv (CreateDatabaseCommand name None) (\<lambda>c. Inr (client_Database c name)) c w)"

definition duration_too_low :: "duration \<Rightarrow> bool" where
  "duration_too_low d = (d < MinRetentionPolicyDuration \<and> d \<noteq> 0)"

definition client_CreateDatabaseWithRetentionPolicy ::
    "('w, 'z) service_scheme \<Rightarrow> string \<Rightarrow> RetentionPolicyInfo \<Rightarrow> Client \<Rightarrow> 'w \<Rightarrow>
     (meta_error + DatabaseInfo option) \<times> Client \<times> 'w" where
  "client_CreateDatabaseWithRetentionPolicy sv name rpi c w =
     (let run = exec_then sv (CreateDatabaseCommand name (Some (RetentionPolicyInfo_marshal rpi)))
                  (\<lambda>c. Inr (client_Database c name)) c w
      in if duration_too_low (rpi_Duration rpi) then (Inl ErrRetentionPolicyDurationTooLow, c, w)
         else case client_Database c name of
           None \<Rightarrow> run
         | Some db \<Rightarrow>
             (case di_RetentionPolicy db (rpi_Name rpi) of
                None \<Rightarrow> run
              | Some rp \<Rightarrow>
                  if rpi_ReplicaN rp \<noteq> rpi_ReplicaN rpi \<or> rpi_Duration rp \<noteq> rpi_Duration rpi
                  then (Inl ErrRetentionPolicyConflict, c, w)
                  else (Inr (Some db), c, w)))"

definition client_DropDatabase ::
    "('w, 'z) service_scheme \<Rightarrow> string \<Rightarrow> Client \<Rightarrow> 'w \<Rightarrow> meta_error option \<times> Client \<times> 'w" where
  "client_DropDatabase sv name c w = retryUntilExec sv (DropDatabaseCommand name) c w"

definition client_CreateRetentionPolicy ::
    "('w, 'z) service_scheme \<Rightarrow> string \<Rightarrow> RetentionPolicyInfo \<Rightarrow> Client \<Rightarrow> 'w \<Rightarrow>
     (meta_error + RetentionPolicyInfo option) \<times> Client \<times> 'w" where
  "client_CreateRetentionPolicy sv database rpi c w =
     (case client_RetentionPolicy c database (rpi_Name rpi) of
        Inr (Some rp) \<Rightarrow> (Inr (Some rp), c, w)
      | _ \<Rightarrow>
          if duration_too_low (rpi_Duration rpi) then (Inl ErrRetentionPolicyDurationTooLow, c, w)
          else exec_then sv (CreateRetentionPolicyCommand database (RetentionPolicyInfo_marshal rpi))
                 (\<lambda>c. client_RetentionPolicy c database (rpi_Name rpi)) c w)"

definition client_DropRetentionPolicy ::
    "('w, 'z) service_scheme \<Rightarrow> string \<Rightarrow> string \<Rightarrow> Client \<Rightarrow> 'w \<Rightarrow> meta_error option \<times> Client \<times> 'w" where
  "client_DropRetentionPolicy sv database name c w =
     retryUntilExec sv (DropRetentionPolicyCommand database name) c w"

definition client_SetDefaultRetentionPolicy ::
    "('w, 'z) service_scheme \<Rightarrow> string \<Rightarrow> string \<Rightarrow> Client \<Rightarrow> 'w \<Rightarrow> meta_error option \<times> Client \<times> 'w" where
  "client_SetDefaultRetentionPolicy sv database name c w =
     retryUntilExec sv (SetDefaultRetentionPolicyCommand database name) c w"

definition update_policy_command :: "string \<Rightarrow> string \<Rightarrow> RetentionPolicyUpdate \<Rightarrow> command" where
  "update_policy_command database name rpu =
     UpdateRetentionPolicyCommand database name (rpu_Name rpu)
       (map_option word_of_int (rpu_Duration rpu)) (map_option word_of_int (rpu_ReplicaN rpu))"

definition client_UpdateRetentionPolicy ::
    "('w, 'z) service_scheme \<Rightarrow> string \<Rightarrow> string \<Rightarrow> RetentionPolicyUpdate \<Rightarrow> Client \<Rightarrow> 'w \<Rightarrow>
     meta_error option \<times> Client \<times> 'w" where
  "client_UpdateRetentionPolicy sv database name rpu c w =
     retryUntilExec sv (update_policy_command database name rpu) c w"

text \<open>\<open>bcrypt.CompareHashAndPassword\<close> and \<open>bcrypt.GenerateFromPassword\<close>.\<close>

type_synonym bcrypt_compare = "string \<Rightarrow> string \<Rightarrow> bool"
type_synonym bcrypt_generate = "string \<Rightarrow> meta_error + string"

definition client_CreateUser ::
    "('w, 'z) service_scheme \<Rightarrow> bcrypt_compare \<Rightarrow> bcrypt_generate \<Rightarrow> string \<Rightarrow> string \<Rightarrow> bool \<Rightarrow> Client \<Rightarrow> 'w \<Rightarrow>
     (meta_error + UserInfo) \<times> Client \<times> 'w" where
  "client_CreateUser sv cmp gen name password admin c w =
     (case data_user (cl_cacheData c) name of
        Some u \<Rightarrow>
          if \<not> cmp (ui_Hash u) password \<or> ui_Admin u \<noteq> admin then (Inl ErrUserExists, c, w) else (Inr u, c, w)
      | None \<Rightarrow>
          (case gen password of
             Inl e \<Rightarrow> (Inl e, c, w)
           | Inr hash \<Rightarrow> exec_then sv (CreateUserCommand name hash admin) (\<lambda>c. client_User c name) c w))"

definition client_UpdateUser ::
    "('w, 'z) service_scheme \<Rightarrow> bcrypt_generate \<Rightarrow> string \<Rightarrow> string \<Rightarrow> Client \<Rightarrow> 'w \<Rightarrow>
     meta_error option \<times> Client \<times> 'w" where
  "client_UpdateUser sv gen name password c w =
     (case gen password of
        Inl e \<Rightarrow> (Some e, c, w)
      | Inr hash \<Rightarrow> retryUntilExec sv (UpdateUserCommand name hash) c w)"

definition client_DropUser ::
    "('w, 'z) service_scheme \<Rightarrow> string \<Rightarrow> Client \<Rightarrow> 'w \<Rightarrow> meta_error option \<times> Client \<times> 'w" where
  "client_DropUser sv name c w = retryUntilExec sv (DropUserCommand name) c w"

definition client_SetPrivilege ::
    "('w, 'z) service_scheme \<Rightarrow> string \<Rightarrow> string \<Rightarrow> Privilege \<Rightarrow> Client \<Rightarrow> 'w \<Rightarrow> meta_error option \<times> Client \<times> 'w" where
  "client_SetPrivilege sv username database p c w =
     retryUntilExec sv (SetPrivilegeCommand username database (word_of_int p)) c w"

definition client_SetAdminPrivilege ::
    "('w, 'z) service_scheme \<Rightarrow> string \<Rightarrow> bool \<Rightarrow> Client \<Rightarrow> 'w \<Rightarrow> meta_error option \<times> Client \<times> 'w" where
  "client_SetAdminPrivilege sv username admin c w =
     retryUntilExec sv (SetAdminPrivilegeCommand username admin) c w"

definition client_CreateContinuousQuery ::
    "('w, 'z) service_scheme \<Rightarrow> string \<Rightarrow> string \<Rightarrow> string \<Rightarrow> Client \<Rightarrow> 'w \<Rightarrow> meta_error option \<times> Client \<times> 'w" where
  "client_CreateContinuousQuery sv database name query c w =
     retryUntilExec sv (CreateContinuousQueryCommand database name query) c w"

definition client_DropContinuousQuery ::
    "('w, 'z) service_scheme \<Rightarrow> string \<Rightarrow> string \<Rightarrow> Client \<Rightarrow> 'w \<Rightarrow> meta_error option \<times> Client \<times> 'w" where
  "client_DropContinuousQuery sv database name c w =
     retryUntilExec sv (DropContinuousQueryCommand database name) c w"

definition client_CreateSubscription ::
    "('w, 'z) service_scheme \<Rightarrow> string \<Rightarrow> string \<Rightarrow> string \<Rightarrow> string \<Rightarrow> string list \<Rightarrow> Client \<Rightarrow> 'w \<Rightarrow>
     meta_error option \<times> Client \<times> 'w" where
  "client_CreateSubscription sv database rp name mode destinations c w =
     retryUntilExec sv (CreateSubscriptionCommand name database rp mode destinations) c w"

definition client_DropSubscription ::
    "('w, 'z) service_scheme \<Rightarrow> string \<Rightarrow> string \<Rightarrow> string \<Rightarrow> Client \<Rightarrow> 'w \<Rightarrow> meta_error option \<times> Client \<times> 'w" where
  "client_DropSubscription sv database rp name c w =
     retryUntilExec sv (DropSubscriptionCommand name database rp) c w"

definition client_SetData ::
    "('w, 'z) service_scheme \<Rightarrow> priv_order \<Rightarrow> Data \<Rightarrow> Client \<Rightarrow> 'w \<Rightarrow> meta_error option \<times> Client \<times> 'w" where
  "client_SetData sv rng data c w = retryUntilExec sv (SetDataCommand (Data_marshal rng data)) c w"

section \<open>Shard groups\<close>

definition client_CreateShardGroup ::
    "('w, 'z) service_scheme \<Rightarrow> string \<Rightarrow> string \<Rightarrow> go_time \<Rightarrow> Client \<Rightarrow> 'w \<Rightarrow>
     (meta_error + ShardGroupInfo option) \<times> Client \<times> 'w" where
  "client_CreateShardGroup sv database policy timestamp c w =
     (case ShardGroupByTimestamp (cl_cacheData c) database policy timestamp of
        Inr (Some sg) \<Rightarrow> (Inr (Some sg), c, w)
      | _ \<Rightarrow>
          exec_then sv (CreateShardGroupCommand database policy (word_of_int (UnixNano timestamp)))
            (\<lambda>c. case client_RetentionPolicy c database policy of
                   Inl e \<Rightarrow> Inl e
                 | Inr None \<Rightarrow> Inl (ErrOther ''retention policy deleted after shard group created'')
                 | Inr (Some rpi) \<Rightarrow> Inr (rpi_ShardGroupByTimestamp rpi timestamp)) c w)"

definition client_DeleteShardGroup ::
    "('w, 'z) service_scheme \<Rightarrow> string \<Rightarrow> string \<Rightarrow> u64 \<Rightarrow> Client \<Rightarrow> 'w \<Rightarrow> meta_error option \<times> Client \<times> 'w" where
  "client_DeleteShardGroup sv database policy gid c w =
     retryUntilExec sv (DeleteShardGroupCommand database policy gid) c w"

text \<open>The policies of one database; a group that is not there after its creation is
  dereferenced by the log message.\<close>

fun precreate_policies ::
    "('w, 'z) service_scheme \<Rightarrow> go_time \<Rightarrow> go_time \<Rightarrow> string \<Rightarrow> RetentionPolicyInfo list \<Rightarrow> Client \<Rightarrow> 'w \<Rightarrow>
     meta_error option \<times> Client \<times> 'w" where
  "precreate_policies sv from to db [] c w = (None, c, w)"
| "precreate_policies sv from to db (rp # rps) c w =
     (if rpi_ShardGroups rp = [] then precreate_policies sv from to db rps c w
      else
        let g = last (rpi_ShardGroups rp) in
        if \<not> Deleted g \<and> sgi_EndTime g < to \<and> sgi_EndTime g > from then
          (case client_CreateShardGroup sv db (rpi_Name rp) (sgi_EndTime g + Nanosecond) c w of
             (Inr None, c', w') \<Rightarrow> (Some (Panic ''nil pointer dereference''), c', w')
           | (_, c', w') \<Rightarrow> precreate_policies sv from to db rps c' w')
        else precreate_policies sv from to db rps c w)"

definition PrecreateShardGroups ::
    "('w, 'z) service_scheme \<Rightarrow> go_time \<Rightarrow> go_time \<Rightarrow> Client \<Rightarrow> 'w \<Rightarrow> meta_error option \<times> Client \<times> 'w" where
  "PrecreateShardGroups sv from to c w =
     (case Databases (cl_cacheData c) of
        [] \<Rightarrow> (None, c, w)
      | di # _ \<Rightarrow> precreate_policies sv from to (di_Name di) (di_RetentionPolicies di) c w)"

section \<open>Local commits\<close>

text \<open>\<open>snap\<close> is \<open>snapshot(c.node.Path, data)\<close>.\<close>

definition commit :: "(Data \<Rightarrow> meta_error option) \<Rightarrow> Data \<Rightarrow> Client \<Rightarrow> meta_error option \<times> Client" where
  "commit snap data c =
     (let data1 = data\<lparr>Index := Index data + 1\<rparr>;
          err = (if cl_node c \<noteq> None then snap data1 else None)
      in case err of
           Some e \<Rightarrow> (Some e, c)
         | None \<Rightarrow> (None, c\<lparr>cl_cacheData := data1, cl_changed := cl_changed c + 1\<rparr>))"

definition client_DropShard :: "(Data \<Rightarrow> meta_error option) \<Rightarrow> go_time \<Rightarrow> u64 \<Rightarrow> Client \<Rightarrow> meta_error option \<times> Client" where
  "client_DropShard snap now sid c = commit snap (DropShard now sid (Clone (cl_cacheData c))) c"

definition client_TruncateShardGroups ::
    "(Data \<Rightarrow> meta_error option) \<Rightarrow> go_time \<Rightarrow> Client \<Rightarrow> meta_error option \<times> Client" where
  "client_TruncateShardGroups snap t c = commit snap (TruncateShardGroups t (Clone (cl_cacheData c))) c"

definition ShardGroupDeletedExpiration :: duration where
  "ShardGroupDeletedExpiration = - 2 * 7 * 24 * Hour"

definition prune_keeps :: "go_time \<Rightarrow> ShardGroupInfo \<Rightarrow> bool" where
  "prune_keeps expiration sgi \<longleftrightarrow> IsZero (sgi_DeletedAt sgi) \<or> \<not> expiration > sgi_DeletedAt sgi"

definition PruneShardGroups :: "(Data \<Rightarrow> meta_error option) \<Rightarrow> go_time \<Rightarrow> Client \<Rightarrow> meta_error option \<times> Client" where
  "PruneShardGroups snap now c =
     (let expiration = now + ShardGroupDeletedExpiration;
          data = Clone (cl_cacheData c);
          changed = list_ex (\<lambda>d. list_ex (\<lambda>rp. list_ex (\<lambda>g. \<not> prune_keeps expiration g) (rpi_ShardGroups rp))
                      (di_RetentionPolicies d)) (Databases data);
          data' = data\<lparr>Databases := map (\<lambda>d. d\<lparr>di_RetentionPolicies :=
                     map (\<lambda>rp. rp\<lparr>rpi_ShardGroups := filter (prune_keeps expiration) (rpi_ShardGroups rp)\<rparr>)
                       (di_RetentionPolicies d)\<rparr>) (Databases data)\<rparr>
      in if changed then commit snap data' c else (None, c))"

section \<open>Authentication\<close>

text \<open>\<open>sha256\<close> is the hash of a byte sequence; \<open>crand\<close> is what \<open>io.ReadFull\<close> reads as a salt.\<close>

definition hashWithSalt :: "(byte list \<Rightarrow> byte list) \<Rightarrow> byte list \<Rightarrow> string \<Rightarrow> byte list" where
  "hashWithSalt sha256 salt password = sha256 (salt @ map of_char password)"

definition saltedHash ::
    "(byte list \<Rightarrow> byte list) \<Rightarrow> meta_error + byte list \<Rightarrow> string \<Rightarrow> meta_error + byte list \<times> byte list" where
  "saltedHash sha256 crand password =
     (case crand of Inl e \<Rightarrow> Inl e | Inr salt \<Rightarrow> Inr (salt, hashWithSalt sha256 salt password))"

definition Authenticate ::
    "bcrypt_compare \<Rightarrow> (byte list \<Rightarrow> byte list) \<Rightarrow> meta_error + byte list \<Rightarrow> string \<Rightarrow> string \<Rightarrow> Client \<Rightarrow>
     (meta_error + UserInfo) \<times> Client" where
  "Authenticate cmp sha256 crand username password c =
     (case data_user (cl_cacheData c) username of
        None \<Rightarrow> (Inl ErrUserNotFound, c)
      | Some userInfo \<Rightarrow>
          if (case map_of (cl_authCache c) username of
                Some au \<Rightarrow> hashWithSalt sha256 (au_salt au) password = au_hash au
              | None \<Rightarrow> False)
          then (Inr userInfo, c)
          else if \<not> cmp (ui_Hash userInfo) password then (Inl ErrAuthenticate, c)
          else case saltedHash sha256 crand password of
            Inl e \<Rightarrow> (Inl e, c)
          | Inr (salt, hashed) \<Rightarrow>
              (Inr userInfo, c\<lparr>cl_authCache :=
                 map_put username \<lparr>au_bhash = ui_Hash userInfo, au_salt = salt, au_hash = hashed\<rparr> (cl_authCache c)\<rparr>))"

section \<open>Leases\<close>

text \<open>The answer to a lease request: none, or a status with the lease of its body, if it can be
  decoded.\<close>

datatype lease_answer =
    LeaseNoAnswer string
  | LeaseAnswer nat "Lease option"

definition acquireLease :: "lease_answer \<Rightarrow> meta_error + Lease \<times> meta_error option" where
  "acquireLease a =
     (case a of
        LeaseNoAnswer e \<Rightarrow> Inl (ErrOther e)
      | LeaseAnswer st l \<Rightarrow>
          if st = 200 \<or> st = 409 then
            (case l of
               None \<Rightarrow> Inl (ErrOther ''unmarshal'')
             | Some l \<Rightarrow> Inr (l, if st = 409 then Some (ErrOther ''another node owns the lease'') else None))
          else if st = 503 then Inl ErrServiceUnavailable
          else if st = 400 then Inl (ErrOther ''meta service'')
          else if st = 500 then Inl (ErrOther ''meta service internal error'')
          else Inl (ErrOther ''unrecognized meta service error''))"

text \<open>At most ten requests, one after each answer 503; \<open>answers n\<close> answers the \<open>n\<close>th.\<close>

function acquire_loop :: "(nat \<Rightarrow> lease_answer) \<Rightarrow> nat \<Rightarrow> (meta_error + Lease \<times> meta_error option) \<Rightarrow>
    nat \<times> (meta_error + Lease \<times> meta_error option)" where
  "acquire_loop answers n r =
     (if n < 11 then
        (let r = acquireLease (answers n)
         in if r = Inl ErrServiceUnavailable then acquire_loop answers (n + 1) r else (n, r))
      else (10, r))"
  by pat_completeness auto
termination by (relation "measure (\<lambda>(_, n, _). 11 - n)") auto

declare acquire_loop.simps [simp del]

definition AcquireLease :: "(nat \<Rightarrow> lease_answer) \<Rightarrow> nat \<times> (meta_error + Lease \<times> meta_error option)" where
  "AcquireLease answers = acquire_loop answers 1 (Inl ErrServiceUnavailable)"

end
