(* ===== verification/MetaClientProps.thy ===== *)
theory MetaClientProps
  imports MetaClientOps
begin

text \<open>
  Lemmas on the client: what the submission loop keeps, how often it tries, what its success
  means, and the invariant of the authentication cache.
\<close>

section \<open>The submission loop\<close>

lemma waitForIndex_keeps:
  assumes "waitForIndex save idx snaps c = Some c'" "P (cl_cacheData c)" "\<forall>d \<in> set snaps. P d"
  shows "P (cl_cacheData c')"
  using assms
proof (induction snaps arbitrary: c)
  case (Cons d snaps)
  have "cl_cacheData (poll_update save d c) = d"
    by (auto simp: poll_update_def Let_def updateMetaPeers_def updateAuthCache_def split: option.splits)
  with Cons show ?case by (auto simp: waitForIndex.simps [of _ _ "d # snaps"] split: if_splits)
qed (auto simp: waitForIndex.simps split: if_splits)

lemma waitForIndex_reached: "waitForIndex save idx snaps c = Some c' \<Longrightarrow> idx \<le> Index (cl_cacheData c')"
  by (induction snaps arbitrary: c) (auto simp: waitForIndex.simps [of _ _ "_ # _"] waitForIndex.simps [of _ _ "[]"]
      split: if_splits)

text \<open>One round of the loop.\<close>

lemma retry_exec_cases:
  assumes "retry_exec sv cmd tries cur red c w = (e, c', w')"
  obtains (closed) "sv_closing sv w" "e = None" "c' = c" "w' = w"
  | (panic) "exec_url c red cur = None" "e = Some (Panic ''index out of range'')" "c' = c" "w' = w"
  | (acknowledged) url cur' a index where "\<not> sv_closing sv w" "exec_url c red cur = Some (url, cur')"
      "sv_post sv url cmd w = (a, w')" "exec a = Inr index"
      "waitForIndex (sv_save sv) index (sv_snapshots sv index w') c = Some c'" "e = None"
  | (waiting) url cur' a index where "exec_url c red cur = Some (url, cur')" "sv_post sv url cmd w = (a, w')"
      "exec a = Inr index" "e = Some Blocked" "c' = c"
  | (failed) url cur' a err where "exec_url c red cur = Some (url, cur')" "sv_post sv url cmd w = (a, w')"
      "exec a = Inl err" "e = Some err" "c' = c" "tries + 1 > maxRetries \<or> is_command_error err"
  | (again) url cur' a err red' w1 where "\<not> sv_closing sv w" "exec_url c red cur = Some (url, cur')"
      "sv_post sv url cmd w = (a, w1)" "exec a = Inl err" "tries + 1 \<le> maxRetries" "\<not> is_command_error err"
      "retry_exec sv cmd (tries + 1) (cur' + 1) red' c w1 = (e, c', w')"
proof -
  note r = assms [unfolded retry_exec.simps [of sv cmd tries]]
  consider "sv_closing sv w" | "\<not> sv_closing sv w" "exec_url c red cur = None"
    | url cur' where "\<not> sv_closing sv w" "exec_url c red cur = Some (url, cur')" by fastforce
  then show ?thesis
  proof cases
    case 1
    show ?thesis by (rule closed) (use r 1 in simp_all)
  next
    case 2
    show ?thesis by (rule panic) (use r 2 in simp_all)
  next
    case 3
    obtain a w1 where p: "sv_post sv url cmd w = (a, w1)" by fastforce
    show ?thesis
    proof (cases "exec a")
      case (Inr index)
      show ?thesis
      proof (cases "waitForIndex (sv_save sv) index (sv_snapshots sv index w1) c")
        case None
        show ?thesis by (rule waiting [OF 3(2)]) (use r 3 p Inr None in simp_all)
      next
        case (Some c1)
        show ?thesis by (rule acknowledged [OF 3]) (use r 3 p Inr Some in simp_all)
      qed
    next
      case (Inl err)
      have cmd_err: "redirect_of err = None" if "is_command_error err"
        using that by (simp add: is_command_error_def redirect_of_def split: meta_error.splits)
      show ?thesis
      proof (cases "tries + 1 > maxRetries \<or> is_command_error err")
        case True
        show ?thesis by (rule failed [OF 3(2)]) (use r 3 p Inl True cmd_err in \<open>auto split: if_splits\<close>)
      next
        case False
        show ?thesis
          by (rule again [OF 3, of a w1 err "if redirect_of err \<noteq> None then the (redirect_of err) else ''''"])
            (use r 3 p Inl False in \<open>auto split: if_splits\<close>)
      qed
    qed
  qed
qed

text \<open>
  A property \<open>I\<close> of the cluster that every exchange keeps and that gives \<open>P\<close> for every
  snapshot is kept by the loop, with \<open>P\<close> for the cache.
\<close>

lemma retry_exec_keeps:
  assumes post: "\<And>url w. I w \<Longrightarrow> I (snd (sv_post sv url cmd w))"
    and snaps: "\<And>i w d. I w \<Longrightarrow> d \<in> set (sv_snapshots sv i w) \<Longrightarrow> P d"
    and run: "retry_exec sv cmd tries cur red c w = (e, c', w')" "I w" "P (cl_cacheData c)"
  shows "I w' \<and> P (cl_cacheData c')"
  using run
proof (induction "maxRetries - tries" arbitrary: tries cur red w rule: less_induct)
  case less
  from less.prems(1) show ?case
  proof (cases rule: retry_exec_cases)
    case (acknowledged url cur' a index)
    then have "I w'" using post [OF less.prems(2), of url] by simp
    with acknowledged(5) waitForIndex_keeps [where P = P] less.prems(3) snaps show ?thesis by blast
  next
    case (again url cur' a err red' w1)
    then have "I w1" using post [OF less.prems(2), of url] by simp
    with again less.hyps [of "tries + 1"] less.prems(3) show ?thesis by auto
  next
    case (waiting url cur' a index)
    with post [OF less.prems(2), of url] less.prems(3) show ?thesis by simp
  next
    case (failed url cur' a err)
    with post [OF less.prems(2), of url] less.prems(3) show ?thesis by simp
  qed (use less.prems in auto)
qed

text \<open>
  When the loop reports success on a client that is open, some server acknowledged the
  command and the cache has reached the index of the acknowledgement.
\<close>

lemma retry_exec_success:
  assumes "retry_exec sv cmd tries cur red c w = (None, c', w')" "\<And>w. \<not> sv_closing sv w"
  shows "\<exists>url w1 a index. sv_post sv url cmd w1 = (a, w') \<and> exec a = Inr index \<and>
    index \<le> Index (cl_cacheData c')"
  using assms(1)
proof (induction "maxRetries - tries" arbitrary: tries cur red w rule: less_induct)
  case less
  from less.prems show ?case
  proof (cases rule: retry_exec_cases)
    case (acknowledged url cur' a index)
    with waitForIndex_reached show ?thesis by blast
  next
    case (again url cur' a err red' w1)
    with less.hyps [of "tries + 1"] show ?thesis by auto
  qed (use assms(2) in auto)
qed

text \<open>The number of exchanges: a service that counts them sees at most eleven.\<close>

definition counting :: "('w, 'z) service_scheme \<Rightarrow> ('w \<times> nat) service" where
  "counting sv =
     \<lparr>sv_post = (\<lambda>url cmd (w, n). let (a, w') = sv_post sv url cmd w in (a, w', n + 1)),
      sv_snapshots = (\<lambda>i (w, n). sv_snapshots sv i w), sv_closing = (\<lambda>(w, n). sv_closing sv w),
      sv_save = sv_save sv\<rparr>"

lemma retry_exec_bound:
  assumes "retry_exec (counting sv) cmd tries cur red c (w, n) = (e, c', w', n')" "tries \<le> maxRetries"
  shows "n' \<le> n + (maxRetries + 1 - tries)"
  using assms
proof (induction "maxRetries - tries" arbitrary: tries cur red w n rule: less_induct)
  case less
  from less.prems(1) show ?case
  proof (cases rule: retry_exec_cases)
    case (again url cur' a err red' w1)
    obtain w2 n2 where w1: "w1 = (w2, n2)" by (cases w1)
    with again(3) have "n2 = n + 1" by (auto simp: counting_def split: prod.splits)
    moreover have "n' \<le> n2 + (maxRetries + 1 - (tries + 1))"
      using again w1 by (intro less.hyps) auto
    ultimately show ?thesis using again(5) by linarith
  qed (use less.prems in \<open>auto simp: counting_def split: prod.splits\<close>)
qed

end
