(* ===== verification/PointsWriterProps.thy ===== *)
theory PointsWriterProps
  imports PointsWriter
begin

text \<open>
  Facts about the write path: which shard group a timestamp is found in, what \<open>MapShards\<close>
  does with every point when the meta service hands out aligned shard groups, and how the
  answers of the owners add up to the result of a write.
\<close>

section \<open>Finding a shard group by time\<close>

text \<open>A shard group that covers one window of the policy's shard group duration.\<close>

definition aligned :: "duration \<Rightarrow> ShardGroupInfo \<Rightarrow> bool" where
  "aligned dur g \<longleftrightarrow> dur dvd sgi_StartTime g \<and> sgi_EndTime g = sgi_StartTime g + dur \<and> \<not> Truncated g"

definition sg_ordered :: "ShardGroupInfo list \<Rightarrow> bool" where
  "sg_ordered l \<longleftrightarrow> sorted_wrt (\<lambda>x y. \<not> ShardGroupInfos_Less y x) l"

lemma sg_ordered_sort: "sg_ordered (sort_ShardGroupInfos l)"
  unfolding sg_ordered_def by (rule sg_sort.sort_ordered)

lemma sg_ordered_EndTime:
  assumes "sg_ordered l" "\<forall>g \<in> set l. \<not> Truncated g" "a \<le> b" "b < length l"
  shows "sgi_EndTime (l ! a) \<le> sgi_EndTime (l ! b)"
proof (cases "a = b")
  case False
  then have "\<not> ShardGroupInfos_Less (l ! b) (l ! a)"
    using assms by (auto simp: sg_ordered_def sorted_wrt_iff_nth_less)
  moreover have "\<not> Truncated (l ! a)" "\<not> Truncated (l ! b)" using assms by auto
  ultimately show ?thesis by (auto simp: ShardGroupInfos_Less_def Let_def split: if_splits)
qed simp

text \<open>Where the binary search stops.\<close>

lemma sg_search:
  fixes t :: go_time
  assumes "sg_ordered l" "\<forall>g \<in> set l. \<not> Truncated g"
  defines "r \<equiv> sort_Search (length l) (\<lambda>i. sgi_EndTime (l ! i) > t)"
  shows "r \<le> length l" "k < r \<Longrightarrow> sgi_EndTime (l ! k) \<le> t"
    "r \<le> k \<Longrightarrow> k < length l \<Longrightarrow> t < sgi_EndTime (l ! k)"
proof -
  have mono: "t < sgi_EndTime (l ! b)" if "a \<le> b" "b < length l" "t < sgi_EndTime (l ! a)" for a b
    using sg_ordered_EndTime [OF assms(1,2) that(1,2)] that(3) by simp
  note spec = sort_Search_spec [of "length l" "\<lambda>i. sgi_EndTime (l ! i) > t", folded r_def]
  show "r \<le> length l" by (rule spec(1)) (rule mono)
  show "sgi_EndTime (l ! k) \<le> t" if "k < r"
  proof -
    have "\<not> t < sgi_EndTime (l ! k)" by (rule spec(2)) (use mono that in blast)+
    then show ?thesis by simp
  qed
  show "t < sgi_EndTime (l ! k)" if "r \<le> k" "k < length l"
    by (rule spec(3)) (use mono that in blast)+
qed

lemma ShardGroupAt_Some:
  assumes "sg_ordered l" "\<forall>g \<in> set l. \<not> Truncated g" "ShardGroupAt l t = Some g"
  shows "g \<in> set l \<and> Contains g t"
proof -
  define r where "r = sort_Search (length l) (\<lambda>i. sgi_EndTime (l ! i) > t)"
  note r = sg_search [OF assms(1,2), where t = t, folded r_def]
  have g: "r \<noteq> length l" "\<not> t < sgi_StartTime (l ! r)" "g = l ! r"
    using assms(3) by (auto simp: ShardGroupAt_def Let_def simp flip: r_def split: if_splits)
  with r(1) have "r < length l" by simp
  with g r(3) [of r] show ?thesis by (simp add: Contains_def)
qed

text \<open>Two aligned windows whose ends lie within less than one duration of each other are equal.\<close>

lemma aligned_unique:
  assumes "aligned dur a" "aligned dur b" "0 < dur"
    "sgi_EndTime a \<le> sgi_EndTime b" "sgi_EndTime b - dur < sgi_EndTime a"
  shows "sgi_StartTime a = sgi_StartTime b"
proof -
  have "dur dvd sgi_StartTime b - sgi_StartTime a" using assms by (auto simp: aligned_def)
  moreover have "0 \<le> sgi_StartTime b - sgi_StartTime a" "sgi_StartTime b - sgi_StartTime a < dur"
    using assms by (auto simp: aligned_def)
  ultimately show ?thesis using zdvd_imp_le [of dur "sgi_StartTime b - sgi_StartTime a"] by fastforce
qed

lemma ShardGroupAt_found:
  assumes ord: "sg_ordered l" and al: "\<forall>g \<in> set l. aligned dur g" and dur: "0 < dur"
    and g: "g \<in> set l" "Contains g t"
  shows "ShardGroupAt l t \<noteq> None"
proof -
  define r where "r = sort_Search (length l) (\<lambda>i. sgi_EndTime (l ! i) > t)"
  have tr: "\<forall>g \<in> set l. \<not> Truncated g" using al by (simp add: aligned_def)
  note r = sg_search [OF ord tr, where t = t, folded r_def]
  obtain i where i: "i < length l" "l ! i = g" using g(1) by (auto simp: in_set_conv_nth)
  have ri: "r \<le> i" using r(2) [of i] g(2) i by (force simp: Contains_def)
  then have rl: "r < length l" using i by simp
  have "sgi_StartTime (l ! r) = sgi_StartTime g"
  proof (rule aligned_unique [of dur])
    show "sgi_EndTime (l ! r) \<le> sgi_EndTime g" using sg_ordered_EndTime [OF ord tr ri i(1)] i(2) by simp
    have "t < sgi_EndTime (l ! r)" using r(3) [of r] rl by blast
    moreover have "sgi_EndTime g - dur \<le> t" using g al by (auto simp: Contains_def aligned_def)
    ultimately show "sgi_EndTime g - dur < sgi_EndTime (l ! r)" by simp
  qed (use al g(1) rl dur in auto)
  then have "\<not> t < sgi_StartTime (l ! r)" using g(2) by (simp add: Contains_def)
  with rl show ?thesis by (simp add: ShardGroupAt_def Let_def flip: r_def)
qed

section \<open>MapPoint keeps every point\<close>

definition mapped :: "ShardMapping \<Rightarrow> point list" where
  "mapped m = concat (map (\<lambda>(k, cap, pts). pts) (sm_Points m))"

definition mapping_ok :: "ShardMapping \<Rightarrow> bool" where
  "mapping_ok m \<longleftrightarrow> distinct (map fst (sm_Points m)) \<and> (\<forall>(k, cap, pts) \<in> set (sm_Points m). sm_n m \<le> cap) \<and>
     map fst (sm_Shards m) = map fst (sm_Points m) \<and> (\<forall>(k, sh) \<in> set (sm_Shards m). si_ID sh = k)"

lemma map_put_new: "k \<notin> fst ` set m \<Longrightarrow> map_put k v m = m @ [(k, v)]"
  by (induction m) auto

lemma map_fst_map_put:
  "map fst (map_put k v m) = (if k \<in> fst ` set m then map fst m else map fst m @ [k])"
  by (induction k v m rule: map_put.induct) auto

lemma set_map_put: "set (map_put k v m) \<subseteq> insert (k, v) (set m)"
  by (induction k v m rule: map_put.induct) auto

lemma mset_mapped_put:
  assumes "distinct (map fst m)" "map_of m k = Some (c, pts)"
  shows "mset (concat (map (\<lambda>(k, cap, pts). pts) (map_put k (c', pts @ [p]) m))) =
    add_mset p (mset (concat (map (\<lambda>(k, cap, pts). pts) m)))"
  using assms by (induction m) (auto split: if_splits)

lemma MapPoint_mapped:
  assumes "mapping_ok m"
  shows "mset (mapped (MapPoint sh p m)) = add_mset p (mset (mapped m))"
proof (cases "map_of (sm_Points m) (si_ID sh)")
  case None
  then have "si_ID sh \<notin> fst ` set (sm_Points m)" by (simp add: map_of_eq_None_iff)
  with None have "\<exists>c. sm_Points (MapPoint sh p m) = sm_Points m @ [(si_ID sh, c, [p])]"
    by (auto simp: MapPoint_def Let_def map_put_new split: prod.splits if_splits)
  then show ?thesis by (auto simp: mapped_def)
next
  case (Some e)
  obtain cap pts where e: "e = (cap, pts)" by fastforce
  have "sm_n m \<le> cap" using assms map_of_SomeD [OF Some] e by (auto simp: mapping_ok_def)
  then have "sm_Points (MapPoint sh p m) = map_put (si_ID sh)
      (if length (pts @ [p]) \<le> cap then cap else 2 * length (pts @ [p]), pts @ [p]) (sm_Points m)"
    using Some e by (simp add: MapPoint_def Let_def)
  with mset_mapped_put [of "sm_Points m" "si_ID sh" cap pts] assms Some e show ?thesis
    by (simp only: mapped_def mapping_ok_def)
qed

lemma MapPoint_fields [simp]:
  "sm_Dropped (MapPoint sh p m) = sm_Dropped m" "sm_n (MapPoint sh p m) = sm_n m"
  "sm_Shards (MapPoint sh p m) = map_put (si_ID sh) sh (sm_Shards m)"
  by (simp_all add: MapPoint_def Let_def split: prod.splits)

lemma MapPoint_ok:
  assumes "mapping_ok m"
  shows "mapping_ok (MapPoint sh p m)"
proof -
  have keys: "fst ` set (sm_Shards m) = fst ` set (sm_Points m)"
    using assms by (metis mapping_ok_def list.set_map)
  obtain cap pts where new: "sm_Points (MapPoint sh p m) = map_put (si_ID sh) (cap, pts) (sm_Points m)"
      "sm_n m \<le> cap"
    by (force simp: MapPoint_def Let_def split: option.splits prod.splits if_splits)
  then have "\<forall>(k, cap, pts) \<in> set (sm_Points (MapPoint sh p m)). sm_n m \<le> cap"
    using assms set_map_put [of "si_ID sh" "(cap, pts)" "sm_Points m"] by (fastforce simp: mapping_ok_def)
  moreover have "\<forall>(k, s) \<in> set (map_put (si_ID sh) sh (sm_Shards m)). si_ID s = k"
    using assms set_map_put [of "si_ID sh" sh "sm_Shards m"] by (fastforce simp: mapping_ok_def)
  ultimately show ?thesis
    using assms keys new(1)
    by (simp add: mapping_ok_def map_fst_map_put distinct_map_put MapPoint_fields)
qed

lemma mapped_Dropped [simp]: "mapped (m\<lparr>sm_Dropped := ps\<rparr>) = mapped m"
  "mapping_ok (m\<lparr>sm_Dropped := ps\<rparr>) = mapping_ok m"
  by (simp_all add: mapped_def mapping_ok_def)

lemma map_points_all:
  assumes "map_points l ps m = Inr m'" "mapping_ok m"
  shows "mapping_ok m' \<and> mset (mapped m') + mset (sm_Dropped m') = mset (mapped m) + mset (sm_Dropped m) + mset ps"
  using assms
proof (induction l ps m rule: map_points.induct)
  case (2 l p ps m)
  then show ?case
    by (cases "ShardGroupAt l (pt_Time p)")
      (auto simp: MapPoint_ok MapPoint_mapped split: sum.splits)
qed simp

lemma map_points_Dropped:
  assumes "map_points l ps m = Inr m'"
  shows "sm_Dropped m' = sm_Dropped m @ filter (\<lambda>p. ShardGroupAt l (pt_Time p) = None) ps"
  using assms by (induction l ps m rule: map_points.induct) (auto split: option.splits sum.splits)

text \<open>Where a mapped point went: the shard its series hashes to, in the group found for its time.\<close>

definition placed :: "ShardGroupInfo list \<Rightarrow> ShardMapping \<Rightarrow> bool" where
  "placed l m \<longleftrightarrow> (\<forall>(sid, cap, pts) \<in> set (sm_Points m). \<forall>p \<in> set pts.
     \<exists>g sh. ShardGroupAt l (pt_Time p) = Some g \<and> ShardFor g (pt_HashID p) = Inr sh \<and> si_ID sh = sid)"

lemma MapPoint_placed:
  assumes "placed l m" "ShardGroupAt l (pt_Time p) = Some g" "ShardFor g (pt_HashID p) = Inr sh"
  shows "placed l (MapPoint sh p m)"
proof -
  define e where "e = (case map_of (sm_Points m) (si_ID sh) of Some e \<Rightarrow> e | None \<Rightarrow> (0, []))"
  obtain cap0 pts0 where e: "e = (cap0, pts0)" by fastforce
  define pts where "pts = (if cap0 < sm_n m then [] else pts0)"
  have sub: "set pts \<subseteq> set (snd e)" by (simp add: pts_def e)
  have "\<exists>cap. sm_Points (MapPoint sh p m) = map_put (si_ID sh) (cap, pts @ [p]) (sm_Points m)"
    unfolding MapPoint_def Let_def e_def [symmetric] e pts_def by auto
  then obtain cap where new: "sm_Points (MapPoint sh p m) = map_put (si_ID sh) (cap, pts @ [p]) (sm_Points m)" ..
  have "\<exists>g sh'. ShardGroupAt l (pt_Time q) = Some g \<and> ShardFor g (pt_HashID q) = Inr sh' \<and> si_ID sh' = si_ID sh"
    if "q \<in> set pts" for q
    using that sub assms(1) by (fastforce simp: e_def placed_def split: option.splits dest: map_of_SomeD)
  with assms(2,3) have "\<forall>q \<in> set (pts @ [p]). \<exists>g sh'. ShardGroupAt l (pt_Time q) = Some g \<and>
      ShardFor g (pt_HashID q) = Inr sh' \<and> si_ID sh' = si_ID sh"
    by auto
  with assms(1) set_map_put [of "si_ID sh" "(cap, pts @ [p])" "sm_Points m"] show ?thesis
    unfolding placed_def new by blast
qed

lemma map_points_placed:
  assumes "map_points l ps m = Inr m'" "placed l m"
  shows "placed l m'"
  using assms
proof (induction l ps m rule: map_points.induct)
  case (2 l p ps m)
  then show ?case
    by (cases "ShardGroupAt l (pt_Time p)") (auto simp: MapPoint_placed placed_def [of l "sm_Dropped_update _ _"]
        placed_def [of l m] split: sum.splits)
qed simp

section \<open>Mapping points with a meta service\<close>

text \<open>
  The contract of \<open>MetaClient.CreateShardGroup\<close> the mapping relies on: in states that satisfy
  \<open>inv\<close>, a shard group it returns for a representable timestamp is the untruncated window of
  length \<open>dur\<close> that contains it, and it has shards.
\<close>

locale shard_group_service =
  fixes create :: "'s \<Rightarrow> go_time \<Rightarrow> (meta_error + ShardGroupInfo option) \<times> 's"
    and inv :: "'s \<Rightarrow> bool" and dur :: duration
  assumes dur_pos: "inv s \<Longrightarrow> 0 < dur"
    and create_inv: "inv s \<Longrightarrow> create s t = (r, s') \<Longrightarrow> inv s'"
    and create_aligned: "inv s \<Longrightarrow> - (2 ^ 63) \<le> t - unix_epoch \<Longrightarrow> t - unix_epoch < 2 ^ 63 \<Longrightarrow>
      create s t = (Inr (Some g), s') \<Longrightarrow> aligned dur g \<and> Contains g t \<and> sgi_Shards g \<noteq> []"
begin

abbreviation good :: "ShardGroupInfo list \<Rightarrow> bool" where
  "good l \<equiv> sg_ordered l \<and> (\<forall>g \<in> set l. aligned dur g \<and> sgi_Shards g \<noteq> [])"

lemma good_untruncated: "good l \<Longrightarrow> \<forall>g \<in> set l. \<not> Truncated g"
  by (auto simp: aligned_def)

lemma collect_groups_good:
  assumes "collect_groups create tmin l ps s = (Inr l', s')" "inv s" "good l"
    "\<forall>p \<in> set ps. - (2 ^ 63) \<le> pt_Time p - unix_epoch \<and> pt_Time p - unix_epoch < 2 ^ 63"
  shows "good l' \<and> set l \<subseteq> set l' \<and>
    (\<forall>p \<in> set ps. tmin \<le> pt_Time p \<longrightarrow> (\<exists>g \<in> set l'. Contains g (pt_Time p)))"
  using assms
proof (induction ps arbitrary: l s)
  case (Cons p ps)
  note untr = good_untruncated [OF Cons.prems(3)]
  show ?case
  proof (cases "pt_Time p < tmin \<or> Covers l (pt_Time p)")
    case True
    with Cons.prems have "good l' \<and> set l \<subseteq> set l' \<and>
        (\<forall>p \<in> set ps. tmin \<le> pt_Time p \<longrightarrow> (\<exists>g \<in> set l'. Contains g (pt_Time p)))"
      by (intro Cons.IH) auto
    moreover have "\<exists>g \<in> set l. Contains g (pt_Time p)" if "Covers l (pt_Time p)"
      using that ShardGroupAt_Some [of l "pt_Time p", OF _ untr] Cons.prems(3)
      by (auto simp: Covers_def split: if_splits)
    ultimately show ?thesis using True by fastforce
  next
    case False
    then obtain g s1 where c: "create s (pt_Time p) = (Inr (Some g), s1)"
        "collect_groups create tmin (sgList_Append l g) ps s1 = (Inr l', s')"
      using Cons.prems(1) by (auto split: prod.splits sum.splits option.splits)
    have g: "aligned dur g" "Contains g (pt_Time p)" "sgi_Shards g \<noteq> []"
      using create_aligned [OF Cons.prems(2) _ _ c(1)] Cons.prems(4) by auto
    have "set (sgList_Append l g) = insert g (set l)" by (simp add: sgList_Append_def sg_sort.sort_set)
    moreover from this have "good (sgList_Append l g)"
      using g Cons.prems(3) sg_ordered_sort by (auto simp: sgList_Append_def)
    moreover from this have "good l' \<and> set (sgList_Append l g) \<subseteq> set l' \<and>
        (\<forall>p \<in> set ps. tmin \<le> pt_Time p \<longrightarrow> (\<exists>g \<in> set l'. Contains g (pt_Time p)))"
      using Cons.prems(4) by (intro Cons.IH [OF c(2) create_inv [OF Cons.prems(2) c(1)]]) simp_all
    ultimately show ?thesis using g(2) by (simp only: list.set insert_iff subset_insert_iff) blast
  qed
qed auto

text \<open>
  Every point within the scope of the policy is mapped to a shard of a group that contains
  its time; the dropped points are out of scope; no point is lost or duplicated.
\<close>

lemma MapShards_complete:
  assumes map: "MapShards mc now database policy points s = (Inr m, s')"
    and mc: "mc_CreateShardGroup mc database policy = create" "mc_RetentionPolicy mc s database policy = Inr (Some rp)"
    and s: "inv s"
    and t: "\<forall>p \<in> set points. - (2 ^ 63) \<le> pt_Time p - unix_epoch \<and> pt_Time p - unix_epoch < 2 ^ 63"
  shows "mset (mapped m) + mset (sm_Dropped m) = mset points \<and>
    (\<forall>p \<in> set (sm_Dropped m). pt_Time p < scope_min now rp) \<and>
    (\<forall>(sid, cap, pts) \<in> set (sm_Points m). \<forall>p \<in> set pts.
       \<exists>g sh. Contains g (pt_Time p) \<and> sh \<in> set (sgi_Shards g) \<and> si_ID sh = sid)"
proof -
  obtain l where l: "collect_groups create (scope_min now rp) [] points s = (Inr l, s')"
      "map_points l points (NewShardMapping (length points)) = Inr m"
    using map mc by (auto simp: MapShards_def split: prod.splits sum.splits)
  have good: "good l"
    and cov: "\<forall>p \<in> set points. scope_min now rp \<le> pt_Time p \<longrightarrow> (\<exists>g \<in> set l. Contains g (pt_Time p))"
    using collect_groups_good [OF l(1) s _ t] by (auto simp: sg_ordered_def)
  have new: "mapping_ok (NewShardMapping n)" "mapped (NewShardMapping n) = []" "placed l (NewShardMapping n)"
    "sm_Dropped (NewShardMapping n) = []" for n
    by (simp_all add: mapping_ok_def mapped_def NewShardMapping_def placed_def)
  have "mset (mapped m) + mset (sm_Dropped m) = mset points"
    using map_points_all [OF l(2) new(1)] new by simp
  moreover have "pt_Time p < scope_min now rp" if "p \<in> set (sm_Dropped m)" for p
    using that map_points_Dropped [OF l(2)] new cov ShardGroupAt_found [of l dur _ "pt_Time p"] good dur_pos [OF s]
    by (fastforce simp: not_less [symmetric])
  moreover have "\<forall>(sid, cap, pts) \<in> set (sm_Points m). \<forall>p \<in> set pts.
       \<exists>g sh. Contains g (pt_Time p) \<and> sh \<in> set (sgi_Shards g) \<and> si_ID sh = sid"
  proof -
    have "\<exists>g sh. Contains g (pt_Time p) \<and> sh \<in> set (sgi_Shards g) \<and> si_ID sh = sid"
      if g: "ShardGroupAt l (pt_Time p) = Some g" "ShardFor g (pt_HashID p) = Inr sh" "si_ID sh = sid" for p g sh sid
    proof -
      have "g \<in> set l \<and> Contains g (pt_Time p)"
        using ShardGroupAt_Some [OF _ good_untruncated [OF good] g(1)] good by blast
      moreover from this have "sh \<in> set (sgi_Shards g)"
        using g(2) good by (auto simp: ShardFor_def Let_def split: if_splits)
      ultimately show ?thesis using g(3) by blast
    qed
    with map_points_placed [OF l(2) new(3)] show ?thesis unfolding placed_def by blast
  qed
  ultimately show ?thesis by blast
qed

end

section \<open>A shard group service that answers\<close>

text \<open>A service that creates a group whenever it is asked, as long as it has room for it.\<close>

locale live_shard_group_service = shard_group_service +
  fixes room :: "'s \<Rightarrow> nat"
  assumes create_total: "inv s \<Longrightarrow> - (2 ^ 63) \<le> t - unix_epoch \<Longrightarrow> t - unix_epoch < 2 ^ 63 \<Longrightarrow> 0 < room s \<Longrightarrow>
      \<exists>g s'. create s t = (Inr (Some g), s') \<and> room s \<le> room s' + 1"
begin

lemma collect_groups_total:
  assumes "inv s" "length ps \<le> room s"
    "\<forall>p \<in> set ps. - (2 ^ 63) \<le> pt_Time p - unix_epoch \<and> pt_Time p - unix_epoch < 2 ^ 63"
  shows "\<exists>l' s'. collect_groups create tmin l ps s = (Inr l', s')"
  using assms
proof (induction ps arbitrary: l s)
  case (Cons p ps)
  show ?case
  proof (cases "pt_Time p < tmin \<or> Covers l (pt_Time p)")
    case True
    with Cons show ?thesis by simp
  next
    case False
    obtain g s' where c: "create s (pt_Time p) = (Inr (Some g), s')" "room s \<le> room s' + 1"
      using create_total [of s "pt_Time p"] Cons.prems by auto
    have "\<exists>l' s''. collect_groups create tmin (sgList_Append l g) ps s' = (Inr l', s'')"
      using Cons.prems c create_inv [OF _ c(1)] by (intro Cons.IH) auto
    with False c(1) show ?thesis by simp
  qed
qed simp

lemma map_points_total:
  assumes "good l"
  shows "\<exists>m'. map_points l ps m = Inr m'"
proof (induction ps arbitrary: m)
  case (Cons p ps)
  show ?case
  proof (cases "ShardGroupAt l (pt_Time p)")
    case (Some g)
    then have "g \<in> set l" using ShardGroupAt_Some [OF _ good_untruncated [OF assms]] assms by blast
    then have "sgi_Shards g \<noteq> []" using assms by blast
    then obtain sh where "ShardFor g (pt_HashID p) = Inr sh" by (auto simp: ShardFor_def Let_def)
    with Some Cons show ?thesis by simp
  qed (use Cons in simp)
qed simp

lemma MapShards_total:
  assumes mc: "mc_CreateShardGroup mc database policy = create" "mc_RetentionPolicy mc s database policy = Inr (Some rp)"
    and s: "inv s" "length points \<le> room s"
    and t: "\<forall>p \<in> set points. - (2 ^ 63) \<le> pt_Time p - unix_epoch \<and> pt_Time p - unix_epoch < 2 ^ 63"
  shows "\<exists>m s'. MapShards mc now database policy points s = (Inr m, s')"
proof -
  obtain l s' where l: "collect_groups create (scope_min now rp) [] points s = (Inr l, s')"
    using collect_groups_total [OF s t] by blast
  have "good l" using collect_groups_good [OF l s(1) _ t] by (auto simp: sg_ordered_def)
  from map_points_total [OF this] obtain m where "map_points l points (NewShardMapping (length points)) = Inr m"
    by blast
  with l mc show ?thesis by (simp add: MapShards_def)
qed

end

section \<open>Counting answers\<close>

fun is_success :: "wr_event \<Rightarrow> bool" where
  "is_success (WResult ow None) = True"
| "is_success _ = False"

definition successes :: "wr_event list \<Rightarrow> nat" where
  "successes evs = length (filter is_success evs)"

fun is_result :: "wr_event \<Rightarrow> bool" where
  "is_result (WResult ow e) = True"
| "is_result _ = False"

lemma await_results_sound:
  "fst (await_results required wrote werr evs st) = None \<Longrightarrow> required \<le> wrote + successes evs"
  by (induction required wrote werr evs st rule: await_results.induct)
    (auto simp: successes_def split: option.splits if_splits)

text \<open>When all owners answer, the result depends on the number of successes alone.\<close>

lemma await_results_complete:
  assumes "list_all is_result evs" "wrote < required"
  shows "fst (await_results required wrote werr evs st) =
    (if required \<le> wrote + successes evs then None
     else if 0 < wrote + successes evs then Some ErrPartialWrite
     else fst (await_results required 0 werr evs st))"
  using assms
  by (induction required wrote werr evs st rule: await_results.induct)
    (auto simp: successes_def split: option.splits)

text \<open>When no owner succeeds, the first error is reported.\<close>

lemma await_results_all_failed:
  assumes "list_all is_result evs" "successes evs = 0"
  shows "fst (await_results required 0 werr evs st) =
    (case werr of
       Some e \<Rightarrow> Some (WriteFailed e)
     | None \<Rightarrow> (case evs of WResult ow (Some e) # _ \<Rightarrow> Some (WriteFailed e) | _ \<Rightarrow> Some ErrWriteFailed))"
  using assms
  by (induction required "0 :: nat" werr evs st rule: await_results.induct)
    (auto simp: successes_def split: option.splits)

lemma await_results_failed:
  assumes "list_all is_result evs" "evs \<noteq> []" "0 < required" "successes evs = 0"
  shows "\<exists>ow e. WResult ow (Some e) \<in> set evs \<and> fst (await_results required 0 None evs st) = Some (WriteFailed e)"
proof -
  from assms(1,2,4) obtain ow e rest where "evs = WResult ow (Some e) # rest"
    by (cases evs; cases "hd evs"; cases "case hd evs of WResult ow r \<Rightarrow> r | _ \<Rightarrow> None")
      (auto simp: successes_def)
  with await_results_all_failed [OF assms(1,4), of required None st] show ?thesis by auto
qed

lemma successes_mset: "successes evs = size (filter_mset is_success (mset evs))"
  by (simp add: successes_def flip: mset_filter)

lemma successes_owner_results:
  "successes (owner_results be c db rp sid pts ows) =
   length (filter (\<lambda>ow. owner_write be c db rp sid pts ow = None) ows)"
proof -
  have "is_success (WResult ow e) \<longleftrightarrow> e = None" for ow e by (cases e) auto
  then show ?thesis by (simp add: successes_def owner_results_def filter_map o_def)
qed

lemma successes_schedule:
  assumes "wr_schedule results evs"
  shows "successes evs \<le> successes results"
proof (cases "mset evs = mset results")
  case True
  then show ?thesis by (simp add: successes_mset)
next
  case False
  then have e: "evs \<noteq> []" "last evs \<in> {WClosing, WTimeout}" "mset (butlast evs) \<subset># mset results"
    using assms by (auto simp: wr_schedule_def)
  have "successes evs = successes (butlast evs)"
    using e(1,2) by (cases evs rule: rev_cases) (auto simp: successes_def)
  also have "\<dots> \<le> successes results"
    unfolding successes_mset using e(3) by (intro size_mset_mono multiset_filter_mono) simp
  finally show ?thesis .
qed

end
