(* ===== verification/ClusterService.thy ===== *)
theory ClusterService
  imports MetaClientProps PointsWriterProps
begin

text \<open>
  The client, the HTTP handler and the store put together: a client whose commands go to the
  handler of the leader and whose cache is fed with snapshots of the leader's store.  This
  composition provides the shard groups the points writer relies on.
\<close>

section \<open>A client and the leader\<close>

definition http_answer :: "Response http_answer \<Rightarrow> exec_answer" where
  "http_answer a =
     (case a of
        HTTPBody r \<Rightarrow> Answer 200 '''' (Some r)
      | HTTPStatus st \<Rightarrow> Answer st '''' None
      | HTTPRedirect l \<Rightarrow> Answer 307 l None
      | Crash \<Rightarrow> NoAnswer ''EOF'')"

text \<open>Raft may behave differently at every command, so its environment depends on the store.\<close>

definition leader_service :: "(meta_error \<Rightarrow> string) \<Rightarrow> (store \<Rightarrow> raft_env) \<Rightarrow> store service" where
  "leader_service msg re =
     \<lparr>sv_post = (\<lambda>url cmd s. map_prod http_answer id (serveExec False False msg (re s) (Body cmd) s)),
      sv_snapshots = (\<lambda>i s. [store_snapshot s]), sv_closing = (\<lambda>s. False), sv_save = True\<rparr>"

text \<open>
  Raft accepts every command, at an index beyond the one the store has, at most \<open>2 ^ 32\<close>
  further.
\<close>

definition raft_works :: "(store \<Rightarrow> raft_env) \<Rightarrow> bool" where
  "raft_works re \<longleftrightarrow> (\<forall>s cmd. re_open (re s) \<and>
     (\<exists>t i. re_Apply (re s) cmd = Inr (t, i) \<and>
        (unat (Index (st_data s)) + 2 ^ 32 < 2 ^ 64 \<longrightarrow>
           Index (st_data s) < i \<and> unat i \<le> unat (Index (st_data s)) + 2 ^ 32)))"

text \<open>The client is connected and its cache is what the store has.\<close>

definition in_sync :: "Client \<Rightarrow> store \<Rightarrow> bool" where
  "in_sync c s \<longleftrightarrow> cl_cacheData c = st_data s \<and> cl_metaServers c \<noteq> [] \<and> MetaNodes (st_data s) \<noteq> []"

text \<open>How many commands the store can take before its index may wrap; none while the cluster
  does not work.\<close>

definition room :: "(store \<Rightarrow> raft_env) \<Rightarrow> Client \<times> store \<Rightarrow> nat" where
  "room re cs = (if raft_works re \<and> in_sync (fst cs) (snd cs)
     then (2 ^ 64 - 1 - unat (Index (st_data (snd cs)))) div 2 ^ 32 else 0)"

lemma room_pos:
  "0 < room re (c, s) \<longleftrightarrow> raft_works re \<and> in_sync c s \<and> unat (Index (st_data s)) + 2 ^ 32 < 2 ^ 64"
  using unsigned_less [of "Index (st_data s)", where ?'a = nat]
  by (simp add: room_def div_greater_zero_iff) linarith

lemma room_step:
  assumes "unat (Index (st_data s')) \<le> unat (Index (st_data s)) + 2 ^ 32" "in_sync c' s'"
  shows "room re (c, s) \<le> room re (c', s') + 1"
proof -
  let ?i = "unat (Index (st_data s))" and ?i' = "unat (Index (st_data s'))"
  have "2 ^ 64 - 1 - ?i \<le> (2 ^ 64 - 1 - ?i') + 2 ^ 32" using assms(1) by linarith
  then have "(2 ^ 64 - 1 - ?i) div 2 ^ 32 \<le> ((2 ^ 64 - 1 - ?i') + 2 ^ 32) div 2 ^ 32"
    by (rule div_le_mono)
  then have "(2 ^ 64 - 1 - ?i) div 2 ^ 32 \<le> (2 ^ 64 - 1 - ?i') div 2 ^ 32 + 1"
    using div_add_self2 [of "2 ^ 32" "2 ^ 64 - 1 - ?i'"] by simp
  then show ?thesis using assms(2) by (simp add: room_def)
qed

lemma poll_update_fields [simp]:
  "cl_cacheData (poll_update save d c) = d" "cl_tls (poll_update save d c) = cl_tls c"
  "cl_nodeID (poll_update save d c) = cl_nodeID c"
  by (auto simp: poll_update_def Let_def updateMetaPeers_def updateAuthCache_def split: option.splits)

lemma poll_update_servers:
  "cl_metaServers c \<noteq> [] \<Longrightarrow> MetaNodes d \<noteq> [] \<Longrightarrow> cl_metaServers (poll_update save d c) \<noteq> []"
  by (auto simp: poll_update_def Let_def updateMetaPeers_def updateAuthCache_def split: option.splits)

lemma exec_url_nonempty: "cl_metaServers c \<noteq> [] \<Longrightarrow> \<exists>url cur. exec_url c r n = Some (url, cur)"
  by (auto simp: exec_url_def Let_def)

text \<open>A command that the state machine accepts is executed at once and reaches the cache.\<close>

lemma leader_exec:
  assumes room: "0 < room re (c, s)"
    and app: "apply_command (re_env (re s)) cmd (st_data s) = ((None, d'), removed)"
    and nodes: "MetaNodes d' \<noteq> []"
  obtains c' s' t i where "retryUntilExec (leader_service msg re) cmd c s = (None, c', s')" "in_sync c' s'"
    "st_data s' = d'\<lparr>Term := t, Index := i\<rparr>" "room re (c, s) \<le> room re (c', s') + 1"
proof -
  have sync: "in_sync c s" using room by (simp add: room_pos)
  obtain t i where ti: "re_Apply (re s) cmd = Inr (t, i)" "Index (st_data s) < i"
      "unat i \<le> unat (Index (st_data s)) + 2 ^ 32" and op: "re_open (re s)"
    using room unfolding raft_works_def room_pos by blast
  define s' where "s' = \<lparr>st_data = d'\<lparr>Term := t, Index := i\<rparr>, st_changed = st_changed s + 1,
    st_removed = st_removed s @ removed\<rparr>"
  define c' where "c' = poll_update True (st_data s') c"
  have ap: "store_apply (re s) cmd s = (None, s')"
    using app ti(1) op by (simp add: store_apply_def raftState_apply_def Apply_def is_panic_def s'_def)
  have post: "sv_post (leader_service msg re) url cmd s =
      (Answer 200 '''' (Some \<lparr>rs_OK = False, rs_Error = '''', rs_Index = i\<rparr>), s')" for url
    using ap by (simp add: leader_service_def serveExec_def http_answer_def store_index_def s'_def)
  have wait: "waitForIndex True i [store_snapshot s'] c = Some c'"
    using ti(2) sync
    by (simp add: waitForIndex.simps [of True i _ c] in_sync_def store_snapshot_def c'_def s'_def
        waitForIndex.simps [of True i "[]"])
  obtain url cur where "exec_url c '''' 0 = Some (url, cur)"
    using exec_url_nonempty sync unfolding in_sync_def by blast
  then have run: "retryUntilExec (leader_service msg re) cmd c s = (None, c', s')"
    using post wait
    by (simp add: retryUntilExec_def retry_exec.simps [of _ _ 0] exec_def leader_service_def)
  have sync': "in_sync c' s'"
    using sync nodes by (simp add: in_sync_def c'_def s'_def poll_update_servers)
  with ti(3) have "room re (c, s) \<le> room re (c', s') + 1" by (intro room_step) (simp_all add: s'_def)
  moreover have "st_data s' = d'\<lparr>Term := t, Index := i\<rparr>" by (simp add: s'_def)
  ultimately show ?thesis using that [OF run sync'] by blast
qed

section \<open>Shard groups from the cluster\<close>

text \<open>A policy whose groups all cover one window of its shard group duration and have shards.\<close>

definition tiled :: "string \<Rightarrow> string \<Rightarrow> duration \<Rightarrow> Data \<Rightarrow> bool" where
  "tiled db rp dur d \<longleftrightarrow> DataNodes d \<noteq> [] \<and> 0 < dur \<and> rp \<noteq> '''' \<and>
     (\<exists>rpi. find_rp d db rp = Inr rpi \<and> rpi_ShardGroupDuration rpi = dur \<and> 0 \<le> rpi_ReplicaN rpi \<and>
       (\<forall>g \<in> set (rpi_ShardGroups rpi). aligned dur g \<and> sgi_Shards g \<noteq> []))"

lemma new_shard_group_aligned:
  assumes "0 < rpi_ShardGroupDuration rpi"
  shows "aligned (rpi_ShardGroupDuration rpi) (new_shard_group d rpi t r n)"
  using Truncate_dvd [OF assms, of t] by (simp add: aligned_def new_shard_group_def Let_def Truncated_def IsZero_def)

lemma new_shard_group_shards: "1 \<le> n \<Longrightarrow> sgi_Shards (new_shard_group d rpi t r n) \<noteq> []"
  using length_assign_owners [of "DataNodes d" r _ "new_shards (MaxShardID d) n"]
  by (auto simp: new_shard_group_def Let_def new_shards_def simp flip: length_greater_0_conv simp del: length_greater_0_conv)

lemma tiled_CreateShardGroup:
  assumes "tiled db rp dur d"
  obtains d' where "CreateShardGroup db rp t d = (None, d')" "tiled db rp dur d'" "MetaNodes d' = MetaNodes d"
    "\<exists>g. ShardGroupByTimestamp d' db rp t = Inr (Some g)"
proof -
  from assms obtain rpi where rpi: "DataNodes d \<noteq> []" "find_rp d db rp = Inr rpi" "0 \<le> rpi_ReplicaN rpi"
      "rpi_ShardGroupDuration rpi = dur" "0 < dur" "rp \<noteq> ''''"
      "\<forall>g \<in> set (rpi_ShardGroups rpi). aligned dur g \<and> sgi_Shards g \<noteq> []"
    unfolding tiled_def by blast
  show ?thesis
  proof (cases "rpi_ShardGroupByTimestamp rpi t")
    case None
    let ?g = "new_shard_group d rpi t (replicas_for rpi d) (shards_for rpi d)"
    let ?d' = "update_rp db rp (\<lambda>rpi'. rpi'\<lparr>rpi_ShardGroups := sort_ShardGroupInfos (rpi_ShardGroups rpi' @ [?g])\<rparr>)
      (d\<lparr>MaxShardGroupID := MaxShardGroupID d + 1, MaxShardID := MaxShardID d + of_nat (shards_for rpi d)\<rparr>)"
    have c: "CreateShardGroup db rp t d = (None, ?d')" using CreateShardGroup_new [OF rpi(1,2) None rpi(3)] .
    have f: "find_rp ?d' db rp = Inr (rpi\<lparr>rpi_ShardGroups := sort_ShardGroupInfos (rpi_ShardGroups rpi @ [?g])\<rparr>)"
      using rpi(2) by (simp add: find_rp_update_rp)
    have "aligned dur ?g \<and> sgi_Shards ?g \<noteq> []"
      using new_shard_group_aligned [of rpi] new_shard_group_shards replicas_for_bounds(3) [OF rpi(1,3)] rpi(4,5)
      by auto
    with f rpi sg_sort.sort_mset have "tiled db rp dur ?d'"
      unfolding tiled_def by (auto simp: mset_eq_setD [OF sg_sort.sort_mset])
    with c CreateShardGroup_covers_new [OF rpi(1,2) None rpi(3) _ c] rpi(4,5) that show ?thesis by auto
  next
    case (Some g)
    with CreateShardGroup_existing [OF rpi(1,2) Some] assms rpi(2) that [of d] show ?thesis
      by (simp add: ShardGroupByTimestamp_def)
  qed
qed

text \<open>The client's two lookups agree on a policy that is named.\<close>

lemma client_RetentionPolicy_find_rp:
  assumes "rp \<noteq> ''''" "find_rp (cl_cacheData c) db rp = Inr rpi"
  shows "client_RetentionPolicy c db rp = Inr (Some rpi)"
  using assms
  by (auto simp: client_RetentionPolicy_def client_Database_def find_rp_Inr di_RetentionPolicy_def
      di_RetentionPolicy_name_def)

definition client_create ::
    "(meta_error \<Rightarrow> string) \<Rightarrow> (store \<Rightarrow> raft_env) \<Rightarrow> string \<Rightarrow> string \<Rightarrow> Client \<times> store \<Rightarrow> go_time \<Rightarrow>
     (meta_error + ShardGroupInfo option) \<times> Client \<times> store" where
  "client_create msg re db rp cs t = client_CreateShardGroup (leader_service msg re) db rp t (fst cs) (snd cs)"

text \<open>The store and the cache of the client, which may lag behind.\<close>

definition tiled_cluster :: "string \<Rightarrow> string \<Rightarrow> duration \<Rightarrow> Client \<times> store \<Rightarrow> bool" where
  "tiled_cluster db rp dur cs \<longleftrightarrow>
     tiled db rp dur (cl_cacheData (fst cs)) \<and> tiled db rp dur (st_data (snd cs))"

lemma tiled_Term_Index [simp]: "tiled db rp dur (d\<lparr>Term := t, Index := i\<rparr>) = tiled db rp dur d"
  by (simp add: tiled_def find_rp_def RetentionPolicy_def Database_def)

lemma tiled_post:
  assumes "tiled db rp dur (st_data s)"
  shows "tiled db rp dur (st_data (snd (sv_post (leader_service msg re) url (CreateShardGroupCommand db rp ts) s)))"
proof -
  obtain d' where "CreateShardGroup db rp (time_Unix_nano (sint ts)) (st_data s) = (None, d')" "tiled db rp dur d'"
    using tiled_CreateShardGroup [OF assms] by blast
  then have "tiled db rp dur (st_data (snd (Apply env \<lparr>log_Term = t, log_Index = i,
      log_Data = Some (CreateShardGroupCommand db rp ts)\<rparr> s)))" for env t i
    by (simp add: Apply_def applyCreateShardGroupCommand_def on_clone_def is_panic_def)
  then show ?thesis using assms
    by (auto simp: leader_service_def serveExec_def store_apply_def raftState_apply_def
        split: sum.splits prod.splits option.splits; metis snd_conv)
qed

lemma snapshots_leader: "sv_snapshots (leader_service msg re) i s = [st_data s]"
  by (simp add: leader_service_def store_snapshot_def)

text \<open>Whatever raft does, the groups of the policy stay aligned, in the store and in the cache.\<close>

lemma client_create_keeps:
  assumes "tiled_cluster db rp dur cs" "client_create msg re db rp cs t = (r, cs')"
  shows "tiled_cluster db rp dur cs'"
proof -
  let ?cmd = "CreateShardGroupCommand db rp (word_of_int (UnixNano t))"
  have run: "tiled db rp dur (st_data s') \<and> tiled db rp dur (cl_cacheData c')"
    if "retryUntilExec (leader_service msg re) ?cmd (fst cs) (snd cs) = (e, c', s')" for e c' s'
    using that assms(1) unfolding retryUntilExec_def tiled_cluster_def
    by (intro retry_exec_keeps [where I = "\<lambda>s. tiled db rp dur (st_data s)" and P = "tiled db rp dur"])
      (auto intro: tiled_post simp: snapshots_leader)
  from assms(2) consider "cs' = cs" | e where "retryUntilExec (leader_service msg re) ?cmd (fst cs) (snd cs) = (e, cs')"
    by (auto simp: client_create_def client_CreateShardGroup_def exec_then_def
        split: prod.splits sum.splits option.splits)
  then show ?thesis using assms(1) run by cases (auto simp: tiled_cluster_def prod_eq_iff)
qed

lemma client_create_some:
  assumes "tiled_cluster db rp dur cs" "client_create msg re db rp cs t = (Inr (Some g), cs')"
  shows "aligned dur g \<and> Contains g t \<and> sgi_Shards g \<noteq> []"
proof -
  have sel: "aligned dur g \<and> Contains g t \<and> sgi_Shards g \<noteq> []"
    if "tiled db rp dur d" "find_rp d db rp = Inr rpi" "rpi_ShardGroupByTimestamp rpi t = Some g" for d rpi
    using that by (auto simp: tiled_def rpi_ShardGroupByTimestamp_def accepts_def dest!: find_SomeD)
  note inv' = client_create_keeps [OF assms]
  from assms(2) consider
      "ShardGroupByTimestamp (cl_cacheData (fst cs)) db rp t = Inr (Some g)"
    | rpi where "client_RetentionPolicy (fst cs') db rp = Inr (Some rpi)" "rpi_ShardGroupByTimestamp rpi t = Some g"
    by (auto simp: client_create_def client_CreateShardGroup_def exec_then_def
        split: prod.splits sum.splits option.splits)
  then show ?thesis
  proof cases
    case 1
    with assms(1) sel [of "cl_cacheData (fst cs)"] show ?thesis
      by (auto simp: tiled_cluster_def ShardGroupByTimestamp_def map_sum_def split: sum.splits)
  next
    case 2
    from inv' have t: "tiled db rp dur (cl_cacheData (fst cs'))" by (simp add: tiled_cluster_def)
    then obtain rpi' where f: "find_rp (cl_cacheData (fst cs')) db rp = Inr rpi'" "rp \<noteq> ''''" by (auto simp: tiled_def)
    then have "rpi = rpi'" using 2(1) client_RetentionPolicy_find_rp [OF f(2,1)] by simp
    with sel [OF t f(1)] 2(2) show ?thesis by simp
  qed
qed

lemma sint_word_of_int_range:
  "- (2 ^ 63) \<le> n \<Longrightarrow> n < 2 ^ 63 \<Longrightarrow> sint (word_of_int n :: 64 word) = n"
  by (simp add: sint_sbintrunc' signed_take_bit_int_eq_self)

text \<open>While the cluster works, every call gives a group.\<close>

lemma client_create_total:
  assumes inv: "tiled_cluster db rp dur cs" and t: "- (2 ^ 63) \<le> t - unix_epoch" "t - unix_epoch < 2 ^ 63"
    and room: "0 < room re cs"
  shows "\<exists>g cs'. client_create msg re db rp cs t = (Inr (Some g), cs') \<and> room re cs \<le> room re cs' + 1"
proof -
  obtain c s where cs: "cs = (c, s)" by (cases cs)
  have sync: "in_sync c s" using room by (simp add: cs room_pos)
  show ?thesis
  proof (cases "\<exists>g. ShardGroupByTimestamp (cl_cacheData c) db rp t = Inr (Some g)")
    case False
    have "UnixNano t = t - unix_epoch"
      using UnixNano_time_Unix_nano [OF t] by (simp add: time_Unix_nano_def)
    then have ts: "time_Unix_nano (sint (word_of_int (UnixNano t) :: 64 word)) = t"
      using sint_word_of_int_range [OF t] by (simp add: time_Unix_nano_def)
    obtain d' where d': "CreateShardGroup db rp t (st_data s) = (None, d')" "tiled db rp dur d'"
        "MetaNodes d' = MetaNodes (st_data s)" "\<exists>g. ShardGroupByTimestamp d' db rp t = Inr (Some g)"
      using tiled_CreateShardGroup [of db rp dur "st_data s" t] inv unfolding tiled_cluster_def cs snd_conv by blast
    have app: "apply_command (re_env (re s)) (CreateShardGroupCommand db rp (word_of_int (UnixNano t))) (st_data s)
        = ((None, d'), [])"
      by (simp add: applyCreateShardGroupCommand_def on_clone_def ts d'(1))
    have mn: "MetaNodes d' \<noteq> []" using d'(3) sync by (simp add: in_sync_def)
    obtain c' s' tm ix where e: "retryUntilExec (leader_service msg re)
          (CreateShardGroupCommand db rp (word_of_int (UnixNano t))) c s = (None, c', s')" "in_sync c' s'"
        "st_data s' = d'\<lparr>Term := tm, Index := ix\<rparr>" "room re (c, s) \<le> room re (c', s') + 1"
      using leader_exec [OF room [unfolded cs] app mn] by metis
    have fr: "find_rp (st_data s') db rp = find_rp d' db rp"
      by (simp add: e(3) find_rp_def RetentionPolicy_def Database_def)
    obtain rpi g where g: "find_rp d' db rp = Inr rpi" "rpi_ShardGroupByTimestamp rpi t = Some g"
      using d'(4) by (auto simp: ShardGroupByTimestamp_def map_sum_def split: sum.splits)
    have "client_RetentionPolicy c' db rp = Inr (Some rpi)"
      using client_RetentionPolicy_find_rp e(2) fr g(1) d'(2) by (simp add: in_sync_def tiled_def)
    with False e(1) g(2) have "client_create msg re db rp cs t = (Inr (Some g), (c', s'))"
      by (auto simp: client_create_def client_CreateShardGroup_def exec_then_def cs split: sum.splits option.splits)
    with e(4) show ?thesis by (auto simp: cs)
  qed (auto simp: client_create_def client_CreateShardGroup_def cs)
qed

interpretation cluster_groups: live_shard_group_service "client_create msg re db rp" "tiled_cluster db rp dur" dur "room re"
  for msg re db rp dur
proof unfold_locales
  show "0 < dur" if "tiled_cluster db rp dur s" for s
    using that by (simp add: tiled_cluster_def tiled_def)
  show "tiled_cluster db rp dur s'" if "tiled_cluster db rp dur s" "client_create msg re db rp s t = (r, s')" for s t r s'
    using client_create_keeps [OF that] .
  show "aligned dur g \<and> Contains g t \<and> sgi_Shards g \<noteq> []"
    if "tiled_cluster db rp dur s" "client_create msg re db rp s t = (Inr (Some g), s')" for s t g s'
    using client_create_some [OF that] .
  show "\<exists>g s'. client_create msg re db rp s t = (Inr (Some g), s') \<and> room re s \<le> room re s' + 1"
    if "tiled_cluster db rp dur s" "- (2 ^ 63) \<le> t - unix_epoch" "t - unix_epoch < 2 ^ 63" "0 < room re s" for s t
    using client_create_total [OF that] .
qed

section \<open>The points writer's view of the client\<close>

definition client_MetaClient :: "(meta_error \<Rightarrow> string) \<Rightarrow> (store \<Rightarrow> raft_env) \<Rightarrow> (Client \<times> store) MetaClient" where
  "client_MetaClient msg re =
     \<lparr>mc_Database = (\<lambda>cs. client_Database (fst cs)),
      mc_RetentionPolicy = (\<lambda>cs. client_RetentionPolicy (fst cs)),
      mc_CreateShardGroup = client_create msg re\<rparr>"

end
