(* ===== verification/MetaInv.thy ===== *)
theory MetaInv
  imports MetaFSM
begin

text \<open>
  The invariant of the metadata that every command of the state machine keeps, assembled
  from the invariants of the components, and the one on shard ownership that holds while
  nodes are managed by \<open>CreateDataNode\<close>, \<open>CreateMetaNode\<close> and their removals.
\<close>

section \<open>The invariant of the metadata\<close>

abbreviation replicas_ok :: "Data \<Rightarrow> bool" where
  "replicas_ok \<equiv> policies_all (\<lambda>rp. 0 \<le> rpi_ReplicaN rp)"

definition meta_inv :: "Data \<Rightarrow> bool" where
  "meta_inv d \<longleftrightarrow> shard_inv d \<and> policies_ok d \<and> replicas_ok d \<and> names_ok d \<and> access_ok d"

lemma meta_inv_cong:
  assumes "meta_inv d" "Databases d' = Databases d" "Users d' = Users d"
    "adminUserExists d' = adminUserExists d" "MaxShardGroupID d' = MaxShardGroupID d"
    "MaxShardID d' = MaxShardID d"
  shows "meta_inv d'"
  using assms
  by (simp add: meta_inv_def shard_inv_def gkeys_def policies_all_def policies_of_def names_ok_def
      access_ok_def hasAdminUser_def db_names_def)

lemma meta_inv_init: "meta_inv (zero_Data\<lparr>Index := 1\<rparr>)"
  by (simp add: meta_inv_def shard_inv_def gkeys_def policies_all_def policies_of_def names_ok_def
      access_ok_def hasAdminUser_def unique_upto_def shard_ids_def zero_Data_def)

text \<open>Group updates through a policy pointer leave everything but the groups alone.\<close>

lemma policies_all_groups:
  assumes "policies_all P d" "\<And>rp gs. P (rp\<lparr>rpi_ShardGroups := gs\<rparr>) = P rp"
  shows "policies_all P (update_rp n p (\<lambda>rp. rp\<lparr>rpi_ShardGroups := h rp\<rparr>) d)"
  using assms by (intro policies_all_update_rp) auto

lemma policy_ok_groups [simp]: "policy_ok (rp\<lparr>rpi_ShardGroups := gs\<rparr>) = policy_ok rp"
  by (simp add: policy_ok_def)

lemma CreateShardGroup_policies_all:
  assumes "policies_all P d" "\<And>rp gs. P (rp\<lparr>rpi_ShardGroups := gs\<rparr>) = P rp"
  shows "policies_all P (snd (CreateShardGroup n p ts d))"
proof -
  have "policies_all P (d\<lparr>MaxShardGroupID := a, MaxShardID := b\<rparr>)"
    "policies_all P (d\<lparr>MaxShardGroupID := a\<rparr>)" for a b
    using assms(1) by (simp_all add: policies_all_def policies_of_def)
  with assms show ?thesis
    by (auto simp: CreateShardGroup_def Let_def intro!: policies_all_groups split: sum.splits)
qed

lemma access_ok_MaxIDs [simp]:
  "access_ok (d\<lparr>MaxShardGroupID := a, MaxShardID := b\<rparr>) = access_ok d"
  "access_ok (d\<lparr>MaxShardGroupID := a\<rparr>) = access_ok d"
  by (simp_all add: access_ok_def hasAdminUser_def db_names_def)

lemma CreateShardGroup_access: "access_ok d \<Longrightarrow> access_ok (snd (CreateShardGroup n p ts d))"
  by (auto simp: CreateShardGroup_def Let_def intro!: access_ok_update_rp split: sum.splits)

text \<open>The room the allocation counters have: no allocation of the next command wraps.\<close>

definition fits :: "Data \<Rightarrow> bool" where
  "fits d \<longleftrightarrow> unat (MaxNodeID d) < 2 ^ 62 \<and> MaxShardGroupID d < - 1 \<and>
     unat (MaxShardID d) + length (DataNodes d) < 2 ^ 64"

lemma CreateShardGroup_meta:
  "fits d \<Longrightarrow> meta_inv d \<Longrightarrow> meta_inv (snd (CreateShardGroup n p ts d))"
  by (simp add: meta_inv_def fits_def CreateShardGroup_inv CreateShardGroup_policies_all
      CreateShardGroup_names CreateShardGroup_access)

lemma DeleteShardGroup_meta: "meta_inv d \<Longrightarrow> meta_inv (snd (DeleteShardGroup now n p gid d))"
proof -
  assume inv: "meta_inv d"
  have "policies_all P (snd (DeleteShardGroup now n p gid d))"
    if "policies_all P d" "\<And>rp gs. P (rp\<lparr>rpi_ShardGroups := gs\<rparr>) = P rp" for P
    using that by (auto simp: DeleteShardGroup_def intro!: policies_all_groups split: sum.splits)
  moreover have "access_ok (snd (DeleteShardGroup now n p gid d))"
    using inv by (auto simp: DeleteShardGroup_def meta_inv_def intro!: access_ok_update_rp split: sum.splits)
  ultimately show ?thesis
    using inv by (simp add: meta_inv_def DeleteShardGroup_inv DeleteShardGroup_names)
qed

lemma CreateDatabase_meta: "meta_inv d \<Longrightarrow> meta_inv (snd (CreateDatabase n d))"
proof -
  assume inv: "meta_inv d"
  have "policies_all P (snd (CreateDatabase n d)) = policies_all P d" for P
    by (simp add: CreateDatabase_def policies_all_def policies_of_def new_DatabaseInfo_def)
  with inv show ?thesis
    by (simp add: meta_inv_def CreateDatabase_inv CreateDatabase_names CreateDatabase_access)
qed

lemma DropDatabase_meta: "meta_inv d \<Longrightarrow> meta_inv (snd (DropDatabase n d))"
proof -
  assume inv: "meta_inv d"
  have "policies_all P (snd (DropDatabase n d))" if "policies_all P d" for P
    using that set_remove_first_subset [of _ "Databases d"]
    by (fastforce simp: DropDatabase_def policies_all_def policies_of_def)
  with inv show ?thesis
    by (simp add: meta_inv_def DropDatabase_inv DropDatabase_names DropDatabase_access)
qed

lemma CreateRetentionPolicy_meta:
  assumes inv: "meta_inv d" and rp: "rpi_ShardGroups rp = []" "rpi_Subscriptions rp = []"
  shows "meta_inv (snd (CreateRetentionPolicy n (Some rp) b d))"
proof -
  have "replicas_ok (snd (CreateRetentionPolicy n (Some rp) b d)) \<and>
      access_ok (snd (CreateRetentionPolicy n (Some rp) b d))"
  proof (cases rule: CreateRetentionPolicy_cases [of n "Some rp" b d])
    case (2 rp' di)
    have "replicas_ok (snd (CreateRetentionPolicy n (Some rp) b d))"
      unfolding 2(6) snd_conv
      by (rule policies_all_update_db)
        (use inv 2(1,2,4) policies_all_Database [of "\<lambda>rp. 0 \<le> rpi_ReplicaN rp" d n] in
          \<open>auto simp: meta_inv_def\<close>)
    moreover have "access_ok (snd (CreateRetentionPolicy n (Some rp) b d))"
      unfolding 2(6) snd_conv using inv by (intro access_ok_update_db) (auto simp: meta_inv_def)
    ultimately show ?thesis by simp
  qed (use inv in \<open>simp add: meta_inv_def\<close>)
  moreover have "shard_inv (snd (CreateRetentionPolicy n (Some rp) b d))"
    "names_ok (snd (CreateRetentionPolicy n (Some rp) b d))"
    using inv rp by (auto simp: meta_inv_def intro: CreateRetentionPolicy_inv CreateRetentionPolicy_names)
  ultimately show ?thesis
    using inv by (simp add: meta_inv_def CreateRetentionPolicy_policies)
qed

lemma DropRetentionPolicy_meta: "meta_inv d \<Longrightarrow> meta_inv (snd (DropRetentionPolicy n p d))"
proof -
  assume inv: "meta_inv d"
  have "policies_all P (snd (DropRetentionPolicy n p d))" if P: "policies_all P d" for P
    using set_remove_first_subset policies_all_Database [OF P]
    by (fastforce simp: DropRetentionPolicy_def intro!: policies_all_update_db P)
  moreover have "access_ok (snd (DropRetentionPolicy n p d))"
    using inv by (auto simp: DropRetentionPolicy_def meta_inv_def intro!: access_ok_update_db)
  ultimately show ?thesis
    using inv by (simp add: meta_inv_def DropRetentionPolicy_inv DropRetentionPolicy_names)
qed

text \<open>Updates of a database that keep its policies and its name.\<close>

lemma meta_inv_update_db:
  assumes "meta_inv d" "names_ok (update_db n f d)"
    and "\<And>di. di_RetentionPolicies (f di) = di_RetentionPolicies di" "\<And>di. di_Name (f di) = di_Name di"
  shows "meta_inv (update_db n f d)"
proof -
  have "policies_all P (update_db n f d)" if P: "policies_all P d" for P
    using policies_all_Database [OF P, of n] assms(3) by (auto intro!: policies_all_update_db [OF P])
  moreover have "shard_inv (update_db n f d)" "access_ok (update_db n f d)"
    using assms by (auto simp: meta_inv_def gkeys_db_def intro!: shard_inv_update_db access_ok_update_db)
  ultimately show ?thesis using assms(1,2) by (simp add: meta_inv_def)
qed

lemma SetDefaultRetentionPolicy_meta: "meta_inv d \<Longrightarrow> meta_inv (snd (SetDefaultRetentionPolicy n p d))"
  using SetDefaultRetentionPolicy_names [of d n p]
  by (auto simp: SetDefaultRetentionPolicy_def meta_inv_def [of d] split: option.splits if_splits
      intro!: meta_inv_update_db)

lemma CreateContinuousQuery_meta: "meta_inv d \<Longrightarrow> meta_inv (snd (CreateContinuousQuery n c q d))"
  using CreateContinuousQuery_names [of d n c q]
  by (auto simp: CreateContinuousQuery_def meta_inv_def [of d] split: option.splits if_splits
      intro!: meta_inv_update_db)

lemma DropContinuousQuery_meta: "meta_inv d \<Longrightarrow> meta_inv (snd (DropContinuousQuery n c d))"
  using DropContinuousQuery_names [of d n c]
  by (auto simp: DropContinuousQuery_def meta_inv_def [of d] intro!: meta_inv_update_db)

lemma UpdateRetentionPolicy_meta:
  assumes inv: "meta_inv d" and nm: "rpu_Name rpu \<noteq> Some ''''"
    and rn: "\<And>k. rpu_ReplicaN rpu = Some k \<Longrightarrow> 0 \<le> k"
  shows "meta_inv (snd (UpdateRetentionPolicy n p rpu b d))"
proof -
  have "replicas_ok (snd (UpdateRetentionPolicy n p rpu b d)) \<and>
      access_ok (snd (UpdateRetentionPolicy n p rpu b d))"
  proof (cases rule: UpdateRetentionPolicy_cases [of n p rpu b d])
    case (2 di rp)
    have "0 \<le> rpi_ReplicaN x" if "x \<in> set (di_RetentionPolicies di)" for x
      using inv policies_all_Database [OF _ 2(1) that] by (auto simp: meta_inv_def)
    then have "replicas_ok (snd (UpdateRetentionPolicy n p rpu b d))"
      unfolding 2(6) using inv 2(1) rn
      by (intro policies_all_update_db)
        (auto simp: meta_inv_def dest!: set_update_first_cases find_SomeD split: option.splits)
    moreover have "access_ok (snd (UpdateRetentionPolicy n p rpu b d))"
      unfolding 2(6) using inv by (intro access_ok_update_db) (auto simp: meta_inv_def)
    ultimately show ?thesis by simp
  qed (use inv in \<open>simp add: meta_inv_def\<close>)
  with inv nm show ?thesis
    by (simp add: meta_inv_def UpdateRetentionPolicy_inv UpdateRetentionPolicy_policies
        UpdateRetentionPolicy_names)
qed

text \<open>Updates of a policy's subscriptions.\<close>

lemma meta_inv_update_subs:
  assumes "meta_inv d" "names_ok (update_rp n p (\<lambda>rp. rp\<lparr>rpi_Subscriptions := h rp\<rparr>) d)"
  shows "meta_inv (update_rp n p (\<lambda>rp. rp\<lparr>rpi_Subscriptions := h rp\<rparr>) d)"
  using assms
  by (auto simp: meta_inv_def gkeys_rp_def policy_ok_def [abs_def]
      intro!: policies_all_update_rp shard_inv_update_rp access_ok_update_rp)

lemma CreateSubscription_meta:
  assumes inv: "meta_inv d"
  shows "meta_inv (snd (CreateSubscription prs sph n p s m ds d))"
proof (cases "snd (CreateSubscription prs sph n p s m ds d) = d")
  case False
  let ?f = "\<lambda>rpi. rpi\<lparr>rpi_Subscriptions := rpi_Subscriptions rpi @
      [\<lparr>sub_Name = s, sub_Mode = m, sub_Destinations = ds\<rparr>]\<rparr>"
  obtain rpi where rpi: "RetentionPolicy d n p = Inr (Some rpi)"
      "\<not> list_ex (\<lambda>x. sub_Name x = s) (rpi_Subscriptions rpi)"
      "snd (CreateSubscription prs sph n p s m ds d) = update_rp n p ?f d"
    using False by (auto simp: CreateSubscription_def split: option.splits sum.splits if_splits)
  then obtain di where di: "Database d n = Some di"
      "find (\<lambda>rp. rpi_Name rp = p) (di_RetentionPolicies di) = Some rpi"
    by (auto simp: RetentionPolicy_def split: option.splits)
  have ok: "db_names_ok di" using inv names_ok_Database [OF _ di(1)] by (simp add: meta_inv_def)
  have "distinct (map sub_Name (rpi_Subscriptions x)) \<and> rpi_Name x \<noteq> ''''"
    if "x \<in> set (update_first (\<lambda>rp. rpi_Name rp = p) ?f (di_RetentionPolicies di))" for x
    using set_update_first_cases [OF that] ok di(2) rpi(2)
    by (auto simp: db_names_ok_def list_ex_iff dest!: find_SomeD)
  then have "db_names_ok (di\<lparr>di_RetentionPolicies :=
      update_first (\<lambda>rp. rpi_Name rp = p) ?f (di_RetentionPolicies di)\<rparr>)"
    using ok by (simp add: db_names_ok_def slice_simps)
  then have "names_ok (update_rp n p ?f d)"
    unfolding update_rp_def using inv di(1) by (intro names_ok_update_db) (auto simp: meta_inv_def)
  with inv show ?thesis unfolding rpi(3) by (rule meta_inv_update_subs)
qed (use inv in simp)

lemma DropSubscription_meta:
  assumes inv: "meta_inv d"
  shows "meta_inv (snd (DropSubscription n p s d))"
proof -
  have "names_ok (update_rp n p (\<lambda>rpi. rpi\<lparr>rpi_Subscriptions :=
      remove_first (\<lambda>x. sub_Name x = s) (rpi_Subscriptions rpi)\<rparr>) d)"
    using inv by (intro names_ok_update_rp) (auto simp: meta_inv_def distinct_map_remove_first)
  with inv meta_inv_update_subs [OF inv] show ?thesis
    by (auto simp: DropSubscription_def split: sum.splits option.splits)
qed

text \<open>Operations on users keep the databases.\<close>

lemma meta_inv_users:
  assumes "meta_inv d" "access_ok d \<Longrightarrow> access_ok d'" "Databases d' = Databases d"
    "MaxShardGroupID d' = MaxShardGroupID d" "MaxShardID d' = MaxShardID d"
  shows "meta_inv d'"
  using assms
  by (simp add: meta_inv_def shard_inv_def gkeys_def policies_all_def policies_of_def names_ok_def)

lemma CreateUser_meta: "meta_inv d \<Longrightarrow> meta_inv (snd (CreateUser u h a d))"
  by (erule meta_inv_users, erule CreateUser_access) (auto simp: CreateUser_def)

lemma DropUser_meta: "meta_inv d \<Longrightarrow> meta_inv (snd (DropUser u d))"
  by (erule meta_inv_users, erule DropUser_access) (auto simp: DropUser_def Let_def split: option.splits)

lemma update_user_MaxIDs [simp]:
  "MaxShardGroupID (update_user u f d) = MaxShardGroupID d" "MaxShardID (update_user u f d) = MaxShardID d"
  by (simp_all add: update_user_def)

lemma UpdateUser_meta: "meta_inv d \<Longrightarrow> meta_inv (snd (UpdateUser u h d))"
  by (erule meta_inv_users, erule UpdateUser_access) (auto simp: UpdateUser_def)

lemma SetPrivilege_meta: "meta_inv d \<Longrightarrow> meta_inv (snd (SetPrivilege u n p d))"
  by (erule meta_inv_users, erule SetPrivilege_access) (auto simp: SetPrivilege_def)

lemma SetAdminPrivilege_meta: "meta_inv d \<Longrightarrow> meta_inv (snd (SetAdminPrivilege u a d))"
  by (erule meta_inv_users, erule SetAdminPrivilege_access) (auto simp: SetAdminPrivilege_def Let_def)

end
