(* ===== verification/MetaOwners.thy ===== *)
theory MetaOwners
  imports MetaInv
begin

text \<open>
  Shard ownership.  While nodes are managed by \<open>CreateDataNode\<close>, \<open>CreateMetaNode\<close>,
  \<open>DeleteDataNode\<close> and \<open>DeleteMetaNode\<close>, every shard is owned by distinct allocated nodes
  and no shard of a live group is without an owner.
\<close>

section \<open>The ownership invariant\<close>

definition owners_wf :: "u64 set \<Rightarrow> ShardInfo \<Rightarrow> bool" where
  "owners_wf W s \<longleftrightarrow> distinct (map so_NodeID (si_Owners s)) \<and> so_NodeID ` set (si_Owners s) \<subseteq> W"

definition group_owned :: "u64 \<Rightarrow> ShardGroupInfo \<Rightarrow> bool" where
  "group_owned m g \<longleftrightarrow> (\<forall>s \<in> set (sgi_Shards g). owners_wf {w. w \<le> m} s) \<and>
     (Deleted g \<or> (\<forall>s \<in> set (sgi_Shards g). si_Owners s \<noteq> []))"

definition owner_inv :: "Data \<Rightarrow> bool" where
  "owner_inv d \<longleftrightarrow> (\<forall>g \<in> set (groups_of d). group_owned (MaxNodeID d) g)"

definition cluster_inv :: "Data \<Rightarrow> bool" where
  "cluster_inv d \<longleftrightarrow> meta_inv d \<and> node_inv d \<and> owner_inv d"

lemma owners_wf_mono: "owners_wf W s \<Longrightarrow> W \<subseteq> W' \<Longrightarrow> owners_wf W' s"
  by (auto simp: owners_wf_def)

lemma group_owned_mono: "group_owned m g \<Longrightarrow> m \<le> m' \<Longrightarrow> group_owned m' g"
  unfolding group_owned_def by (auto intro: owners_wf_mono order_trans)

lemma owner_inv_subset:
  assumes "owner_inv d" "set (groups_of d') \<subseteq> set (groups_of d)" "MaxNodeID d \<le> MaxNodeID d'"
  shows "owner_inv d'"
  using assms group_owned_mono unfolding owner_inv_def by blast

section \<open>Reassignment keeps owners distinct\<close>

lemma owners_wf_update_first:
  assumes "\<forall>s \<in> set shards. owners_wf W s" "w \<in> W"
    and "\<forall>s \<in> set shards. si_ID s = i \<longrightarrow> si_Owners s = []"
  shows "\<forall>s \<in> set (update_first (\<lambda>s. si_ID s = i) (\<lambda>s. s\<lparr>si_Owners := si_Owners s @ [\<lparr>so_NodeID = w\<rparr>]\<rparr>) shards).
    owners_wf W s"
  using assms by (auto simp: owners_wf_def dest!: set_update_first_cases find_SomeD)

lemma reassign_wf:
  assumes perm: "\<And>m. set (rng m) = set m"
    and "fr \<noteq> []" "\<forall>kv \<in> set fr. 0 \<le> fst kv" "word_of_int ` fst ` set fr \<subseteq> W"
    and "distinct (map si_ID orphans)"
    and "\<forall>orph \<in> set orphans. \<forall>s \<in> set shards. si_ID s = si_ID orph \<longrightarrow> si_Owners s = []"
    and "\<forall>s \<in> set shards. owners_wf W s"
  shows "\<forall>s \<in> set (snd (reassign rng orphans shards fr)). owners_wf W s"
  using assms(2-)
proof (induction orphans arbitrary: shards fr)
  case (Cons orph rest)
  obtain k f where k: "(k, f) \<in> set fr"
    and own: "newShardOwner rng orph fr = Inr (word_of_int k, freq_incr k fr)"
    using newShardOwner_ok [of rng fr, OF perm Cons.prems(1,2)] by metis
  let ?sh1 = "update_first (\<lambda>s. si_ID s = si_ID orph)
      (\<lambda>s. s\<lparr>si_Owners := si_Owners s @ [\<lparr>so_NodeID = word_of_int k\<rparr>]\<rparr>) shards"
  have kf: "fst ` set (freq_incr k fr) = fst ` set fr" using k by (force simp: keys_freq_incr)
  have kW: "word_of_int k \<in> W" using k Cons.prems(3) by force
  have "\<forall>s \<in> set (snd (reassign rng rest ?sh1 (freq_incr k fr))). owners_wf W s"
  proof (rule Cons.IH)
    show "freq_incr k fr \<noteq> []" using kf Cons.prems(1) by (metis image_is_empty set_empty)
    show "\<forall>kv \<in> set (freq_incr k fr). 0 \<le> fst kv"
      using Cons.prems(2) kf by (metis (no_types, opaque_lifting) image_iff)
    show "word_of_int ` fst ` set (freq_incr k fr) \<subseteq> W" using kf Cons.prems(3) by simp
    show "distinct (map si_ID rest)" using Cons.prems(4) by simp
    show "\<forall>o' \<in> set rest. \<forall>s \<in> set ?sh1. si_ID s = si_ID o' \<longrightarrow> si_Owners s = []"
    proof (intro ballI impI)
      fix o' s assume o': "o' \<in> set rest" and s: "s \<in> set ?sh1" "si_ID s = si_ID o'"
      have "si_ID o' \<noteq> si_ID orph" using Cons.prems(4) o' by (auto simp: image_iff)
      with set_update_first_cases [OF s(1)] s(2) have "s \<in> set shards" by (auto dest: find_SomeD)
      with o' s(2) Cons.prems(5) show "si_Owners s = []" by simp
    qed
    show "\<forall>s \<in> set ?sh1. owners_wf W s"
      using Cons.prems(5,6) kW by (intro owners_wf_update_first) simp_all
  qed
  with own show ?case by simp
qed simp

lemma group_owned_ok:
  assumes "group_owned m g" "distinct (map si_ID (sgi_Shards g))" "unat m < 2 ^ 62"
  shows "group_ok g"
proof -
  have "0 \<le> sint w" if "w \<le> m" for w :: u64
  proof -
    have "unat w < 2 ^ 62" using that assms(3) by (simp add: word_le_nat_alt)
    then have "uint w < 2 ^ 62" by (metis nat_less_numeral_power_cancel_iff unat_eq_nat_uint)
    then have "signed_take_bit 63 (uint w) = uint w"
      by (intro signed_take_bit_int_eq_self) (auto intro: order_trans [of _ 0])
    then show ?thesis by (simp add: sint_uint)
  qed
  with assms show ?thesis by (auto simp: group_ok_def group_owned_def owners_wf_def)
qed

lemma remove_first_rev_wf:
  assumes "owners_wf W s"
  shows "owners_wf W (relinquish nid s)"
proof -
  have "distinct (map so_NodeID (rev (si_Owners s)))"
    using assms by (simp add: owners_wf_def rev_map [symmetric])
  from distinct_map_remove_first [OF this, of "\<lambda>ow. so_NodeID ow = nid"]
    set_remove_first_subset [of "\<lambda>ow. so_NodeID ow = nid" "rev (si_Owners s)"] assms show ?thesis
    by (auto simp: owners_wf_def relinquish_def rev_map [symmetric])
qed

lemma delete_node_group_wf:
  assumes own: "group_owned m g" and dist: "distinct (map si_ID (sgi_Shards g))" and m: "unat m < 2 ^ 62"
    and now: "now \<noteq> 0" and perm: "\<And>m. set (rng m) = set m"
  shows "group_owned m (snd (delete_node_group now rng nid g))"
proof -
  have ok: "group_ok g" using group_owned_ok [OF own dist m] .
  let ?shards = "map (relinquish nid) (sgi_Shards g)"
  let ?orphans = "filter (\<lambda>s. length (si_Owners s) = 0) ?shards"
  let ?fr = "filter (\<lambda>(k, _). k \<noteq> sint nid) (owner_freqs (sgi_Shards g))"
  have wf: "\<forall>s \<in> set ?shards. owners_wf {w. w \<le> m} s"
    using own remove_first_rev_wf by (auto simp: group_owned_def)
  have "\<forall>s \<in> set (sgi_Shards (snd (delete_node_group now rng nid g))). owners_wf {w. w \<le> m} s"
  proof (cases "length (sgi_Shards g) = 0 \<or> length ?orphans = length (sgi_Shards g)")
    case True
    then have "sgi_Shards (snd (delete_node_group now rng nid g)) = ?shards"
      unfolding delete_node_group_def Let_def by (simp only: if_True) simp
    with wf show ?thesis by simp
  next
    case False
    then have "\<exists>s \<in> set (sgi_Shards g). si_Owners (relinquish nid s) \<noteq> []"
      using filter_eq_length_iff [of "\<lambda>s. length (si_Owners s) = 0" ?shards] by auto
    then have ne: "?fr \<noteq> []"
      using candidates_nonempty [OF ok] candidate_freqs(1) [OF ok, of nid] by force
    have W: "word_of_int ` fst ` set ?fr \<subseteq> {w. w \<le> m}"
      using own unfolding candidate_freqs(1) [OF ok]
      by (auto simp: candidates_def group_owned_def owners_wf_def)
    have ids: "distinct (map si_ID ?shards)" using dist by (simp add: relinquish_def o_def)
    then have dorph: "distinct (map si_ID ?orphans)" by (rule distinct_map_filter)
    have "s = orph" if "orph \<in> set ?orphans" "s \<in> set ?shards" "si_ID s = si_ID orph" for s orph
    proof -
      have "orph \<in> set ?shards" using that(1) by (meson filter_is_subset subsetD)
      with find_distinct [OF ids] that(2,3) show ?thesis by (metis option.inject)
    qed
    then have "\<forall>orph \<in> set ?orphans. \<forall>s \<in> set ?shards. si_ID s = si_ID orph \<longrightarrow> si_Owners s = []"
      by fastforce
    from reassign_wf [OF perm ne candidate_freqs(2) [OF ok] W dorph this wf]
    have "\<forall>s \<in> set (snd (reassign rng ?orphans ?shards ?fr)). owners_wf {w. w \<le> m} s" .
    moreover have "sgi_Shards (snd (delete_node_group now rng nid g)) = snd (reassign rng ?orphans ?shards ?fr)"
      using False unfolding delete_node_group_def Let_def by (simp only: if_False) (simp add: case_prod_beta)
    ultimately show ?thesis by simp
  qed
  moreover have "Deleted (snd (delete_node_group now rng nid g)) \<or>
      (\<forall>s \<in> set (sgi_Shards (snd (delete_node_group now rng nid g))). si_Owners s \<noteq> [])"
    using delete_node_group_spec [OF ok now perm, of nid] by (auto simp: node_removed_def)
  ultimately show ?thesis by (simp add: group_owned_def)
qed

section \<open>Operations on nodes\<close>

lemma map_until_mem:
  "y \<in> set (snd (map_until f xs)) \<Longrightarrow> y \<in> set xs \<or> (\<exists>x \<in> set xs. y = snd (f x))"
  using map_until_rel [of f xs "fst (map_until f xs)" "snd (map_until f xs)"]
  by (auto dest!: list_all2_mem2)

lemma groups_DeleteDataNode:
  assumes "g' \<in> set (groups_of (snd (DeleteDataNode now rng nid d)))"
  shows "\<exists>g \<in> set (groups_of d). g' = g \<or> g' = snd (delete_node_group now rng nid g)"
proof (cases "fst (DeleteDataNode now rng nid d) = Some ErrNodeNotFound \<and> snd (DeleteDataNode now rng nid d) = d")
  case False
  let ?r = "\<lambda>rp. let (e, sgs) = map_until (delete_node_group now rng nid) (rpi_ShardGroups rp)
      in (e, rp\<lparr>rpi_ShardGroups := sgs\<rparr>)"
  let ?f = "\<lambda>d. let (e, rps) = map_until ?r (di_RetentionPolicies d) in (e, d\<lparr>di_RetentionPolicies := rps\<rparr>)"
  have "Databases (snd (DeleteDataNode now rng nid d)) = snd (map_until ?f (Databases d))"
    using False by (auto simp: DeleteDataNode_def Let_def case_prod_beta)
  with assms obtain di rp where di: "di \<in> set (snd (map_until ?f (Databases d)))"
      "rp \<in> set (di_RetentionPolicies di)" "g' \<in> set (rpi_ShardGroups rp)"
    by (auto simp: groups_of_def groups_of_db_def)
  obtain di0 where di0: "di0 \<in> set (Databases d)" "di = di0 \<or> di = snd (?f di0)"
    using map_until_mem [OF di(1)] by blast
  then obtain rp0 where rp0: "rp0 \<in> set (di_RetentionPolicies di0)" "rp = rp0 \<or> rp = snd (?r rp0)"
    using di(2) map_until_mem [of rp ?r "di_RetentionPolicies di0"]
    by (auto simp: Let_def case_prod_beta)
  then obtain g where "g \<in> set (rpi_ShardGroups rp0)" "g' = g \<or> g' = snd (delete_node_group now rng nid g)"
    using di(3) map_until_mem [of g' "delete_node_group now rng nid" "rpi_ShardGroups rp0"]
    by (auto simp: Let_def case_prod_beta)
  with groups_of_mem [OF di0(1) rp0(1)] show ?thesis by blast
qed (use assms in auto)

lemma distinct_map_concat: "distinct (map f (concat xss)) \<Longrightarrow> xs \<in> set xss \<Longrightarrow> distinct (map f xs)"
  by (induction xss) auto

lemma shard_inv_group: "shard_inv d \<Longrightarrow> g \<in> set (groups_of d) \<Longrightarrow> distinct (map si_ID (sgi_Shards g))"
  unfolding shard_inv_iff shards_of_def by (rule distinct_map_concat [of si_ID "map sgi_Shards (groups_of d)"]) auto

lemma MaxNodeID_DeleteDataNode [simp]:
  "MaxNodeID (snd (DeleteDataNode now rng nid d)) = MaxNodeID d"
  "MetaNodes (snd (DeleteDataNode now rng nid d)) = MetaNodes d"
  "MaxShardGroupID (snd (DeleteDataNode now rng nid d)) = MaxShardGroupID d"
  "MaxShardID (snd (DeleteDataNode now rng nid d)) = MaxShardID d"
  "Users (snd (DeleteDataNode now rng nid d)) = Users d"
  "adminUserExists (snd (DeleteDataNode now rng nid d)) = adminUserExists d"
  by (auto simp: DeleteDataNode_def Let_def case_prod_beta)

lemma DataNodes_DeleteDataNode:
  "DataNodes (snd (DeleteDataNode now rng nid d)) = filter (\<lambda>n. ni_ID n \<noteq> nid) (DataNodes d)"
  by (auto simp: DeleteDataNode_def Let_def case_prod_beta filter_eq_length_iff)

lemma DeleteDataNode_owner:
  assumes inv: "shard_inv d" "owner_inv d" and m: "unat (MaxNodeID d) < 2 ^ 62"
    and env: "now \<noteq> 0" "\<And>m. set (rng m) = set m"
  shows "owner_inv (snd (DeleteDataNode now rng nid d))"
proof -
  have "group_owned (MaxNodeID d) g'" if mem: "g' \<in> set (groups_of (snd (DeleteDataNode now rng nid d)))" for g'
  proof -
    obtain g where g: "g \<in> set (groups_of d)" "g' = g \<or> g' = snd (delete_node_group now rng nid g)"
      using groups_DeleteDataNode [OF mem] by blast
    have "group_owned (MaxNodeID d) g" using inv(2) g(1) by (simp add: owner_inv_def)
    with g delete_node_group_wf [OF this shard_inv_group [OF inv(1) g(1)] m env] show ?thesis by auto
  qed
  then show ?thesis by (simp add: owner_inv_def)
qed

text \<open>The databases without their shard groups, which the removal of a node leaves alone.\<close>

definition strip_db :: "DatabaseInfo \<Rightarrow> DatabaseInfo" where
  "strip_db di = di\<lparr>di_RetentionPolicies :=
     map (\<lambda>rp. rp\<lparr>rpi_ShardGroups := []\<rparr>) (di_RetentionPolicies di)\<rparr>"

lemma DeleteDataNode_strip:
  "map strip_db (Databases (snd (DeleteDataNode now rng nid d))) = map strip_db (Databases d)"
proof -
  let ?s = "\<lambda>rp. rp\<lparr>rpi_ShardGroups := []\<rparr>"
  let ?r = "\<lambda>rp. let (e, sgs) = map_until (delete_node_group now rng nid) (rpi_ShardGroups rp)
      in (e, rp\<lparr>rpi_ShardGroups := sgs\<rparr>)"
  let ?f = "\<lambda>d. let (e, rps) = map_until ?r (di_RetentionPolicies d) in (e, d\<lparr>di_RetentionPolicies := rps\<rparr>)"
  have "?s (snd (?r rp)) = ?s rp" for rp by (simp add: Let_def case_prod_beta)
  then have "strip_db (snd (?f di)) = strip_db di" for di
    using map_until_same [of ?s ?r "di_RetentionPolicies di"]
    by (simp add: strip_db_def Let_def case_prod_beta)
  then show ?thesis
    using map_until_same [of strip_db ?f "Databases d"]
    by (simp add: DeleteDataNode_def Let_def case_prod_beta)
qed

lemma strip_names: "names_ok (d\<lparr>Databases := map strip_db (Databases d)\<rparr>) = names_ok d"
  by (simp add: names_ok_def strip_db_def db_names_ok_def o_def)

lemma strip_policies:
  "(\<And>rp. P (rp\<lparr>rpi_ShardGroups := []\<rparr>) = P rp) \<Longrightarrow>
   policies_all P (d\<lparr>Databases := map strip_db (Databases d)\<rparr>) = policies_all P d"
  by (simp add: policies_all_def policies_of_def strip_db_def o_def)

lemma strip_access: "access_ok (d\<lparr>Databases := map strip_db (Databases d)\<rparr>) = access_ok d"
  by (simp add: access_ok_def db_names_def hasAdminUser_def strip_db_def image_image)

lemma DeleteDataNode_meta: "meta_inv d \<Longrightarrow> meta_inv (snd (DeleteDataNode now rng nid d))"
proof -
  assume inv: "meta_inv d"
  let ?d' = "snd (DeleteDataNode now rng nid d)"
  let ?st = "\<lambda>d. d\<lparr>Databases := map strip_db (Databases d)\<rparr>"
  have "names_ok (?st ?d') = names_ok (?st d)" "access_ok (?st ?d') = access_ok (?st d)"
    by (simp_all add: DeleteDataNode_strip names_ok_def access_ok_def hasAdminUser_def db_names_def)
  moreover have "policies_all P ?d' = policies_all P d" if "\<And>rp. P (rp\<lparr>rpi_ShardGroups := []\<rparr>) = P rp" for P
    using strip_policies [of P ?d', OF that] strip_policies [of P d, OF that] DeleteDataNode_strip [of now rng nid d]
    by (simp add: policies_all_def policies_of_def)
  ultimately show ?thesis
    using inv DeleteDataNode_shard_inv [of d now rng nid] by (simp add: meta_inv_def strip_names strip_access)
qed

lemma DeleteDataNode_node_inv: "node_inv d \<Longrightarrow> node_inv (snd (DeleteDataNode now rng nid d))"
  by (erule node_inv_subset [where Q = "\<lambda>_. True"]) (simp_all add: DataNodes_DeleteDataNode)

section \<open>A new group\<close>

lemma distinct_concat_member: "distinct (concat xss) \<Longrightarrow> xs \<in> set xss \<Longrightarrow> distinct xs"
  by (induction xss) auto

text \<open>
  Round robin: each of the shards has \<open>r\<close> owners, and the owners of all the shards together
  are distinct data nodes.
\<close>

lemma new_shard_group_owners:
  assumes inv: "distinct (map ni_ID (DataNodes d))" and nodes: "DataNodes d \<noteq> []"
    and r: "r * n \<le> length (DataNodes d)"
  shows "\<forall>s \<in> set (sgi_Shards (new_shard_group d rpi ts r n)). length (si_Owners s) = r"
    and "distinct (concat (map (\<lambda>s. map so_NodeID (si_Owners s)) (sgi_Shards (new_shard_group d rpi ts r n))))"
    and "\<forall>s \<in> set (sgi_Shards (new_shard_group d rpi ts r n)).
      so_NodeID ` set (si_Owners s) \<subseteq> ni_ID ` set (DataNodes d)"
proof -
  let ?k = "unat (Index d) mod length (DataNodes d)"
  let ?sh = "sgi_Shards (new_shard_group d rpi ts r n)"
  note own = new_shards_props(2) [of "MaxShardID d" n]
  have sh: "?sh = assign_owners (DataNodes d) r ?k (new_shards (MaxShardID d) n)"
    by (simp add: new_shard_group_def Let_def)
  show "\<forall>s \<in> set ?sh. length (si_Owners s) = r"
    using length_owners_assign_owners [OF own] by (simp add: sh)
  have all: "concat (map (\<lambda>s. map so_NodeID (si_Owners s)) ?sh) =
      map (\<lambda>m. ni_ID (DataNodes d ! (m mod length (DataNodes d)))) [?k..<?k + r * n]"
    using owners_assign_owners [OF own] by (simp add: sh new_shards_props(1))
  then show "distinct (concat (map (\<lambda>s. map so_NodeID (si_Owners s)) ?sh))"
    using distinct_round_robin [OF inv r] by simp
  have "set (concat (map (\<lambda>s. map so_NodeID (si_Owners s)) ?sh)) \<subseteq> ni_ID ` set (DataNodes d)"
    using nodes unfolding all by auto
  then show "\<forall>s \<in> set ?sh. so_NodeID ` set (si_Owners s) \<subseteq> ni_ID ` set (DataNodes d)" by auto
qed

lemma new_shard_group_owned:
  assumes inv: "node_inv d" and nodes: "DataNodes d \<noteq> []" and rn: "0 \<le> rpi_ReplicaN rpi"
  shows "group_owned (MaxNodeID d) (new_shard_group d rpi ts (replicas_for rpi d) (shards_for rpi d))"
proof -
  let ?g = "new_shard_group d rpi ts (replicas_for rpi d) (shards_for rpi d)"
  note b = replicas_for_bounds [OF nodes rn]
  have ids: "distinct (map ni_ID (DataNodes d))" using inv by (simp add: node_inv_def)
  note own = new_shard_group_owners [OF ids nodes b(4), of rpi ts]
  have "distinct (map so_NodeID (si_Owners s))" if "s \<in> set (sgi_Shards ?g)" for s
    using distinct_concat_member [OF own(2)] that by auto
  moreover have "so_NodeID ` set (si_Owners s) \<subseteq> {w. w \<le> MaxNodeID d}" if "s \<in> set (sgi_Shards ?g)" for s
    using own(3) that inv by (fastforce simp: node_inv_def)
  moreover have "si_Owners s \<noteq> []" if "s \<in> set (sgi_Shards ?g)" for s
    using own(1) that b(1) by fastforce
  ultimately show ?thesis by (auto simp: group_owned_def owners_wf_def)
qed

lemma groups_update_db:
  assumes "\<And>di. set (groups_of_db (f di)) \<subseteq> X \<union> set (groups_of_db di)"
  shows "set (groups_of (update_db n f d)) \<subseteq> X \<union> set (groups_of d)"
  using assms by (fastforce simp: groups_of_def dest!: set_update_first_cases find_SomeD)

lemma groups_update_rp:
  assumes "\<And>rp. set (rpi_ShardGroups (f rp)) \<subseteq> X \<union> set (rpi_ShardGroups rp)"
  shows "set (groups_of (update_rp n p f d)) \<subseteq> X \<union> set (groups_of d)"
  unfolding update_rp_def
  by (rule groups_update_db)
    (use assms in \<open>fastforce simp: groups_of_db_def dest!: set_update_first_cases find_SomeD\<close>)

lemma CreateShardGroup_owner:
  assumes inv: "cluster_inv d"
  shows "owner_inv (snd (CreateShardGroup n p ts d))"
proof -
  obtain e d' where ed: "CreateShardGroup n p ts d = (e, d')" by fastforce
  have own: "owner_inv d" and rok: "replicas_ok d" and node: "node_inv d"
    using inv by (auto simp: cluster_inv_def meta_inv_def)
  have rn: "0 \<le> rpi_ReplicaN rpi" if "find_rp d n p = Inr rpi" for rpi
  proof -
    from that obtain di where "Database d n = Some di" "rpi \<in> set (di_RetentionPolicies di)"
      by (auto simp: find_rp_Inr Database_def dest: find_SomeD)
    with policies_all_Database [OF rok] show ?thesis by blast
  qed
  from ed show ?thesis
  proof (cases rule: CreateShardGroup_cases)
    case (3 rpi)
    let ?g = "new_shard_group d rpi ts (replicas_for rpi d) (shards_for rpi d)"
    note new = CreateShardGroup_new [OF 3(1,2,5,3)]
    have "set (groups_of (snd (CreateShardGroup n p ts d))) \<subseteq> {?g} \<union> set (groups_of d)"
      unfolding new snd_conv
      by (rule order_trans [OF groups_update_rp [where X = "{?g}"]]) (auto simp: sg_sort.sort_set groups_of_def)
    moreover have "MaxNodeID (snd (CreateShardGroup n p ts d)) = MaxNodeID d" unfolding new by simp
    ultimately show ?thesis
      using own new_shard_group_owned [OF node 3(1,3)] by (auto simp: owner_inv_def)
  qed (use ed own rn in \<open>auto\<close>)
qed

end
