(* ===== verification/MetaFSMProps.thy ===== *)
theory MetaFSMProps
  imports MetaOwners
begin

text \<open>
  Invariants of the replicated state machine.  \<open>data_invariant\<close> is the contract between an
  invariant and the operations of \<open>Data\<close>; from it follows that every command of the log,
  applied in any environment, keeps the invariant.  It is interpreted for the invariant of
  the metadata and for the one on shard ownership.
\<close>

section \<open>Commands\<close>

text \<open>
  Commands that install foreign metadata or rename a policy to the empty string are not
  covered by any invariant; \<open>legacy\<close> commands change node addresses outside
  \<open>CreateDataNode\<close> and \<open>CreateMetaNode\<close>.
\<close>

fun plain_command :: "command \<Rightarrow> bool" where
  "plain_command (SetDataCommand pb) = False"
| "plain_command (UpdateRetentionPolicyCommand n p nn dur rn) = (nn \<noteq> Some '''')"
| "plain_command c = True"

fun legacy_command :: "command \<Rightarrow> bool" where
  "legacy_command (CreateNodeCommand h r) = True"
| "legacy_command (SetMetaNodeCommand h t r) = True"
| "legacy_command c = False"

definition env_ok :: "apply_env \<Rightarrow> bool" where
  "env_ok env \<longleftrightarrow> env_now env \<noteq> 0 \<and> (\<forall>m. set (env_rng env m) = set m)"

section \<open>The contract of an invariant\<close>

locale data_invariant =
  fixes I :: "Data \<Rightarrow> bool" and legacy :: bool
  assumes stamp: "I d \<Longrightarrow> I (d\<lparr>Term := t, Index := i\<rparr>)" "I d \<Longrightarrow> I (d\<lparr>ClusterID := c\<rparr>)"
    and CreateDatabase: "I d \<Longrightarrow> I (snd (CreateDatabase n d))"
    and DropDatabase: "I d \<Longrightarrow> I (snd (DropDatabase n d))"
    and CreateRetentionPolicy: "I d \<Longrightarrow> rpi_ShardGroups rp = [] \<Longrightarrow> rpi_Subscriptions rp = [] \<Longrightarrow>
      I (snd (CreateRetentionPolicy n (Some rp) b d))"
    and DropRetentionPolicy: "I d \<Longrightarrow> I (snd (DropRetentionPolicy n p d))"
    and SetDefaultRetentionPolicy: "I d \<Longrightarrow> I (snd (SetDefaultRetentionPolicy n p d))"
    and UpdateRetentionPolicy: "I d \<Longrightarrow> rpu_Name rpu \<noteq> Some '''' \<Longrightarrow>
      (\<And>k. rpu_ReplicaN rpu = Some k \<Longrightarrow> 0 \<le> k) \<Longrightarrow> I (snd (UpdateRetentionPolicy n p rpu b d))"
    and CreateShardGroup: "fits d \<Longrightarrow> I d \<Longrightarrow> I (snd (CreateShardGroup n p ts d))"
    and DeleteShardGroup: "now \<noteq> 0 \<Longrightarrow> I d \<Longrightarrow> I (snd (DeleteShardGroup now n p gid d))"
    and CreateContinuousQuery: "I d \<Longrightarrow> I (snd (CreateContinuousQuery n cq q d))"
    and DropContinuousQuery: "I d \<Longrightarrow> I (snd (DropContinuousQuery n cq d))"
    and CreateSubscription: "I d \<Longrightarrow> I (snd (CreateSubscription prs sph n p s m ds d))"
    and DropSubscription: "I d \<Longrightarrow> I (snd (DropSubscription n p s d))"
    and CreateUser: "I d \<Longrightarrow> I (snd (CreateUser u h a d))"
    and DropUser: "I d \<Longrightarrow> I (snd (DropUser u d))"
    and UpdateUser: "I d \<Longrightarrow> I (snd (UpdateUser u h d))"
    and SetPrivilege: "I d \<Longrightarrow> I (snd (SetPrivilege u n pr d))"
    and SetAdminPrivilege: "I d \<Longrightarrow> I (snd (SetAdminPrivilege u a d))"
    and CreateDataNode: "legacy \<or> fits d \<Longrightarrow> I d \<Longrightarrow> I (snd (CreateDataNode host tcp d))"
    and CreateMetaNode: "legacy \<or> fits d \<Longrightarrow> I d \<Longrightarrow> I (snd (CreateMetaNode host tcp d))"
    and setDataNode: "legacy \<Longrightarrow> I d \<Longrightarrow> I (snd (setDataNode nid host tcp d))"
    and SetMetaNode: "legacy \<Longrightarrow> I d \<Longrightarrow> I (snd (SetMetaNode host tcp d))"
    and DeleteDataNode: "fits d \<Longrightarrow> now \<noteq> 0 \<Longrightarrow> (\<And>m. set (rng m) = set m) \<Longrightarrow> I d \<Longrightarrow>
      I (snd (DeleteDataNode now rng nid d))"
    and DeleteMetaNode: "I d \<Longrightarrow> I (snd (DeleteMetaNode nid d))"
begin

lemma on_clone_keeps: "I d \<Longrightarrow> I (snd (f d)) \<Longrightarrow> I (snd (on_clone d f))"
  by (auto simp: on_clone_def split: prod.splits option.splits)

lemma and_then_keeps: "I (snd r) \<Longrightarrow> (\<And>d. I d \<Longrightarrow> I (snd (f d))) \<Longrightarrow> I (snd (and_then r f))"
  by (auto simp: and_then_def split: prod.splits option.splits)

lemma set_ClusterID_keeps: "I d \<Longrightarrow> I (set_ClusterID c d)"
  by (simp add: set_ClusterID_def stamp)

lemma applyCreateDatabaseCommand_keeps: "I d \<Longrightarrow> I (snd (applyCreateDatabaseCommand a n rp d))"
proof -
  assume d: "I d"
  have rp: "I (snd (case CreateRetentionPolicy n (Some (pb_policy rpi)) False d of
      (Some e, d) \<Rightarrow> (Some (if e = ErrRetentionPolicyExists then ErrRetentionPolicyConflict else e), d)
    | (None, d) \<Rightarrow> (None, d)))" if "I d" for d rpi
    using CreateRetentionPolicy [OF that, of "pb_policy rpi" n False]
    by (auto simp: pb_policy_def split: prod.splits option.splits)
  have auto: "I (snd (CreateRetentionPolicy n (Some ((NewRetentionPolicyInfo m)
      \<lparr>rpi_ReplicaN := k, rpi_Duration := l\<rparr>)) False d))" if "I d" for d m k l
    using that by (simp add: CreateRetentionPolicy NewRetentionPolicyInfo_def)
  show ?thesis
    unfolding applyCreateDatabaseCommand_def
    by (auto intro!: on_clone_keeps and_then_keeps CreateDatabase rp auto SetDefaultRetentionPolicy d
        split: option.split)
qed

lemma applyCreateNodeCommand_keeps:
  "legacy \<Longrightarrow> I d \<Longrightarrow> I (snd (applyCreateNodeCommand host rand peers d))"
  unfolding applyCreateNodeCommand_def
  by (auto intro!: on_clone_keeps and_then_keeps CreateMetaNode CreateDataNode setDataNode set_ClusterID_keeps)

text \<open>Every command keeps the invariant.\<close>

lemma apply_command_keeps:
  assumes "I d" "fits d" "env_ok env" "plain_command c" "legacy_command c \<Longrightarrow> legacy"
  shows "I (snd (fst (apply_command env c d)))"
proof (cases c)
  case (CreateNodeCommand h r)
  with assms show ?thesis by (auto simp: applyCreateNodeCommand_keeps split: sum.split)
next
  case (DeleteMetaNodeCommand nid)
  with assms(1) show ?thesis
    by (auto simp: applyDeleteMetaNodeCommand_def Let_def case_prod_beta
        intro!: on_clone_keeps DeleteMetaNode split: option.split)
next
  case (UpdateRetentionPolicyCommand n p nn dur rn)
  with assms(1,4) show ?thesis
    by (auto simp: applyUpdateRetentionPolicyCommand_def intro!: on_clone_keeps UpdateRetentionPolicy)
qed (use assms in \<open>auto simp: applyDeleteNodeCommand_def applyUpdateNodeCommand_def
    applyCreateDatabaseCommand_keeps applyDropDatabaseCommand_def applyCreateRetentionPolicyCommand_def
    applyDropRetentionPolicyCommand_def applySetDefaultRetentionPolicyCommand_def
    applyCreateShardGroupCommand_def applyDeleteShardGroupCommand_def
    applyCreateContinuousQueryCommand_def applyDropContinuousQueryCommand_def
    applyCreateSubscriptionCommand_def applyDropSubscriptionCommand_def applyCreateUserCommand_def
    applyDropUserCommand_def applyUpdateUserCommand_def applySetPrivilegeCommand_def
    applySetAdminPrivilegeCommand_def applyCreateMetaNodeCommand_def applySetMetaNodeCommand_def
    applyCreateDataNodeCommand_def applyDeleteDataNodeCommand_def pb_policy_def env_ok_def
    intro!: on_clone_keeps set_ClusterID_keeps CreateDatabase DropDatabase CreateRetentionPolicy
      DropRetentionPolicy SetDefaultRetentionPolicy CreateShardGroup DeleteShardGroup
      CreateContinuousQuery DropContinuousQuery CreateSubscription DropSubscription CreateUser DropUser
      UpdateUser SetPrivilege SetAdminPrivilege CreateMetaNode SetMetaNode CreateDataNode DeleteDataNode\<close>)

lemma Apply_keeps:
  assumes "I (st_data s)" "fits (st_data s)" "env_ok env"
    "\<And>c. log_Data l = Some c \<Longrightarrow> plain_command c \<and> (legacy_command c \<longrightarrow> legacy)"
  shows "I (st_data (snd (Apply env l s)))"
proof (cases "log_Data l")
  case (Some c)
  with apply_command_keeps [OF assms(1-3), of c] assms(4) have "I (snd (fst (apply_command env c (st_data s))))"
    by blast
  with Some assms(1) show ?thesis by (simp add: Apply_def case_prod_beta Let_def stamp)
qed (use assms(1) in \<open>simp add: Apply_def\<close>)

end

section \<open>The metadata\<close>

lemma CreateMetaNode_meta: "meta_inv d \<Longrightarrow> meta_inv (snd (CreateMetaNode h t d))"
  by (erule meta_inv_cong) (auto simp: CreateMetaNode_def Let_def case_prod_beta)

lemmas meta_laws = CreateDatabase_meta DropDatabase_meta CreateRetentionPolicy_meta
  DropRetentionPolicy_meta SetDefaultRetentionPolicy_meta UpdateRetentionPolicy_meta
  CreateShardGroup_meta DeleteShardGroup_meta CreateContinuousQuery_meta DropContinuousQuery_meta
  CreateSubscription_meta DropSubscription_meta CreateUser_meta DropUser_meta UpdateUser_meta
  SetPrivilege_meta SetAdminPrivilege_meta DeleteDataNode_meta CreateMetaNode_meta

interpretation meta: data_invariant meta_inv True
proof unfold_locales
  show "meta_inv (d\<lparr>Term := t, Index := i\<rparr>)" "meta_inv (d\<lparr>ClusterID := c\<rparr>)"
    "meta_inv (snd (CreateDataNode host tcp d))" "meta_inv (snd (setDataNode nid host tcp d))"
    "meta_inv (snd (SetMetaNode host tcp d))" "meta_inv (snd (DeleteMetaNode nid d))"
    if "meta_inv d" for d t i c host tcp nid
    using CreateMetaNode_meta [OF that]
    by (auto intro!: meta_inv_cong [OF that] simp: CreateDataNode_def setDataNode_def SetMetaNode_def
        DeleteMetaNode_def Let_def case_prod_beta split: list.split)
qed (simp_all add: meta_laws)

section \<open>Shard ownership\<close>

text \<open>Operations that touch neither nodes nor, but for removals, shard groups.\<close>

lemma cluster_inv_groups:
  assumes "cluster_inv d" "meta_inv d \<Longrightarrow> meta_inv d'" "set (groups_of d') \<subseteq> set (groups_of d)"
    "DataNodes d' = DataNodes d" "MetaNodes d' = MetaNodes d" "MaxNodeID d' = MaxNodeID d"
  shows "cluster_inv d'"
  using assms owner_inv_subset [of d d'] by (simp add: cluster_inv_def node_inv_def)

lemma groups_of_same: "Databases d' = Databases d \<Longrightarrow> set (groups_of d') \<subseteq> set (groups_of d)"
  by (simp add: groups_of_def)

lemma groups_CreateDatabase: "set (groups_of (snd (CreateDatabase n d))) \<subseteq> set (groups_of d)"
  by (auto simp: CreateDatabase_def groups_of_def groups_of_db_def new_DatabaseInfo_def)

lemma groups_DropDatabase: "set (groups_of (snd (DropDatabase n d))) \<subseteq> set (groups_of d)"
  by (auto simp: DropDatabase_def groups_of_def dest!: set_remove_first_subset [THEN subsetD])

lemma groups_CreateRetentionPolicy:
  "rpi_ShardGroups rp = [] \<Longrightarrow> set (groups_of (snd (CreateRetentionPolicy n (Some rp) b d))) \<subseteq> set (groups_of d)"
  by (rule CreateRetentionPolicy_cases [of n "Some rp" b d])
    (auto dest!: groups_update_db [where X = "{}", simplified, THEN subsetD, rotated] simp: groups_of_db_def)

lemma groups_update_same:
  "(\<And>di. set (groups_of_db (f di)) \<subseteq> set (groups_of_db di)) \<Longrightarrow>
   set (groups_of (update_db n f d)) \<subseteq> set (groups_of d)"
  using groups_update_db [where X = "{}"] by simp

lemma groups_update_rp_same:
  "(\<And>rp. set (rpi_ShardGroups (f rp)) \<subseteq> set (rpi_ShardGroups rp)) \<Longrightarrow>
   set (groups_of (update_rp n p f d)) \<subseteq> set (groups_of d)"
  using groups_update_rp [where X = "{}"] by simp

lemma groups_DropRetentionPolicy: "set (groups_of (snd (DropRetentionPolicy n p d))) \<subseteq> set (groups_of d)"
  unfolding DropRetentionPolicy_def snd_conv
  by (rule groups_update_same) (use set_remove_first_subset in \<open>fastforce simp: groups_of_db_def\<close>)

lemma groups_UpdateRetentionPolicy: "set (groups_of (snd (UpdateRetentionPolicy n p rpu b d))) \<subseteq> set (groups_of d)"
proof (cases rule: UpdateRetentionPolicy_cases [of n p rpu b d])
  case (2 di rp)
  show ?thesis unfolding 2(6)
    by (rule groups_update_same)
      (fastforce simp: groups_of_db_def dest!: set_update_first_cases find_SomeD)
qed simp

lemma DeleteShardGroup_owner:
  assumes "owner_inv d" "now \<noteq> 0"
  shows "owner_inv (snd (DeleteShardGroup now n p gid d))"
proof -
  let ?X = "{g\<lparr>sgi_DeletedAt := now\<rparr> | g. g \<in> set (groups_of d)}"
  have "set (groups_of (snd (DeleteShardGroup now n p gid d))) \<subseteq> ?X \<union> set (groups_of d)"
  proof (cases "find_rp d n p")
    case (Inr rpi)
    show ?thesis
    proof (cases "list_ex (\<lambda>g. sgi_ID g = gid) (rpi_ShardGroups rpi)")
      case True
      let ?f = "\<lambda>rp. rp\<lparr>rpi_ShardGroups := update_first (\<lambda>g. sgi_ID g = gid)
          (\<lambda>g. g\<lparr>sgi_DeletedAt := now\<rparr>) (rpi_ShardGroups rp)\<rparr>"
      have "g' \<in> ?X \<union> set (groups_of d)" if g': "g' \<in> set (groups_of (update_rp n p ?f d))" for g'
      proof -
        from g' obtain di rp where "di \<in> set (update_first (\<lambda>di. di_Name di = n)
            (\<lambda>di. di\<lparr>di_RetentionPolicies := update_first (\<lambda>rp. rpi_Name rp = p) ?f (di_RetentionPolicies di)\<rparr>)
            (Databases d))" "rp \<in> set (di_RetentionPolicies di)" "g' \<in> set (rpi_ShardGroups rp)"
          by (auto simp: groups_of_def groups_of_db_def update_rp_def)
        then obtain di0 rp0 where "di0 \<in> set (Databases d)" "rp0 \<in> set (di_RetentionPolicies di0)"
            "rp = rp0 \<or> rp = ?f rp0"
          by (fastforce dest!: set_update_first_cases find_SomeD)
        with \<open>g' \<in> set (rpi_ShardGroups rp)\<close> show ?thesis
          using groups_of_mem [of di0 d rp0] by (fastforce dest!: set_update_first_cases find_SomeD)
      qed
      with Inr True show ?thesis by (auto simp: DeleteShardGroup_def)
    qed (use Inr in \<open>auto simp: DeleteShardGroup_def\<close>)
  qed (auto simp: DeleteShardGroup_def)
  moreover have "group_owned (MaxNodeID d) (g\<lparr>sgi_DeletedAt := now\<rparr>)" if "g \<in> set (groups_of d)" for g
    using assms that by (auto simp: owner_inv_def group_owned_def Deleted_def IsZero_def)
  moreover have "MaxNodeID (snd (DeleteShardGroup now n p gid d)) = MaxNodeID d"
    by (auto simp: DeleteShardGroup_def split: sum.split)
  ultimately show ?thesis using assms(1) by (auto simp: owner_inv_def)
qed

lemma nodes_CreateShardGroup [simp]:
  "DataNodes (snd (CreateShardGroup n p ts d)) = DataNodes d"
  "MetaNodes (snd (CreateShardGroup n p ts d)) = MetaNodes d"
  "MaxNodeID (snd (CreateShardGroup n p ts d)) = MaxNodeID d"
  by (auto simp: CreateShardGroup_def Let_def split: sum.split)

lemma nodes_DeleteShardGroup [simp]:
  "DataNodes (snd (DeleteShardGroup now n p gid d)) = DataNodes d"
  "MetaNodes (snd (DeleteShardGroup now n p gid d)) = MetaNodes d"
  "MaxNodeID (snd (DeleteShardGroup now n p gid d)) = MaxNodeID d"
  by (auto simp: DeleteShardGroup_def split: sum.split)

lemma cluster_CreateShardGroup:
  "fits d \<Longrightarrow> cluster_inv d \<Longrightarrow> cluster_inv (snd (CreateShardGroup n p ts d))"
  using CreateShardGroup_owner [of d n p ts]
  by (simp add: cluster_inv_def CreateShardGroup_meta node_inv_def)

lemma cluster_DeleteShardGroup:
  "now \<noteq> 0 \<Longrightarrow> cluster_inv d \<Longrightarrow> cluster_inv (snd (DeleteShardGroup now n p gid d))"
  by (simp add: cluster_inv_def DeleteShardGroup_meta DeleteShardGroup_owner node_inv_def)

lemma fits_MaxNodeID: "fits d \<Longrightarrow> MaxNodeID d < - 1"
proof -
  have "unat (- 1 :: u64) = 18446744073709551615"
    by (simp add: unsigned_minus_1_eq_mask mask_eq_exp_minus_1)
  moreover assume "fits d"
  ultimately show ?thesis by (simp add: fits_def word_less_nat_alt)
qed

lemma node_id_for_max: "m \<le> m + 1 \<Longrightarrow> m \<le> snd (node_id_for ns t m)"
  by (simp add: node_id_for_def Let_def)

lemma owner_inv_nodes:
  "owner_inv d \<Longrightarrow> Databases d' = Databases d \<Longrightarrow> MaxNodeID d \<le> MaxNodeID d' \<Longrightarrow> owner_inv d'"
  by (erule owner_inv_subset) (simp_all add: groups_of_def)

lemma cluster_CreateDataNode:
  assumes fits: "fits d" and inv: "cluster_inv d"
  shows "cluster_inv (snd (CreateDataNode h t d))"
proof (cases "fst (CreateDataNode h t d)")
  case None
  then have "node_inv (snd (CreateDataNode h t d))"
    using CreateDataNode_inv [OF _ fits_MaxNodeID [OF fits]] inv by (metis cluster_inv_def prod.collapse)
  moreover have "owner_inv (snd (CreateDataNode h t d))"
    by (rule owner_inv_nodes [of d])
      (use inv node_id_for_max [OF MaxNodeID_incr(1) [OF fits_MaxNodeID [OF fits]]] in \<open>simp_all add: CreateDataNode_def cluster_inv_def case_prod_beta\<close>)
  moreover have "meta_inv (snd (CreateDataNode h t d))"
    using inv meta.CreateDataNode by (simp add: cluster_inv_def)
  ultimately show ?thesis by (simp add: cluster_inv_def)
qed (use inv in \<open>auto simp: CreateDataNode_def Let_def case_prod_beta\<close>)

lemma cluster_CreateMetaNode:
  assumes fits: "fits d" and inv: "cluster_inv d"
  shows "cluster_inv (snd (CreateMetaNode h t d))"
proof (cases "fst (CreateMetaNode h t d)")
  case None
  then have "node_inv (snd (CreateMetaNode h t d))"
    using CreateMetaNode_inv [OF _ fits_MaxNodeID [OF fits]] inv by (metis cluster_inv_def prod.collapse)
  moreover have "owner_inv (snd (CreateMetaNode h t d))"
    by (rule owner_inv_nodes [of d])
      (use inv node_id_for_max [OF MaxNodeID_incr(1) [OF fits_MaxNodeID [OF fits]]] in \<open>simp_all add: CreateMetaNode_def cluster_inv_def case_prod_beta\<close>)
  moreover have "meta_inv (snd (CreateMetaNode h t d))"
    using inv CreateMetaNode_meta by (simp add: cluster_inv_def)
  ultimately show ?thesis by (simp add: cluster_inv_def)
qed (use inv in \<open>auto simp: CreateMetaNode_def Let_def case_prod_beta\<close>)

lemma cluster_DeleteDataNode:
  "fits d \<Longrightarrow> now \<noteq> 0 \<Longrightarrow> (\<And>m. set (rng m) = set m) \<Longrightarrow> cluster_inv d \<Longrightarrow>
   cluster_inv (snd (DeleteDataNode now rng nid d))"
  using DeleteDataNode_owner [of d now rng nid] DeleteDataNode_meta [of d now rng nid]
  by (auto simp: cluster_inv_def DeleteDataNode_node_inv meta_inv_def fits_def)

lemma cluster_DeleteMetaNode: "cluster_inv d \<Longrightarrow> cluster_inv (snd (DeleteMetaNode nid d))"
proof -
  assume inv: "cluster_inv d"
  then have "node_inv (snd (DeleteMetaNode nid d))"
    by (cases "fst (DeleteMetaNode nid d) = None")
      (auto simp: DeleteMetaNode_def cluster_inv_def Let_def
        intro: node_inv_subset [where P = "\<lambda>_. True" and Q = "\<lambda>n. ni_ID n \<noteq> nid"])
  moreover have "owner_inv (snd (DeleteMetaNode nid d))"
    by (rule owner_inv_nodes [of d]) (use inv in \<open>simp_all add: DeleteMetaNode_def Let_def cluster_inv_def\<close>)
  ultimately show ?thesis using inv meta.DeleteMetaNode by (simp add: cluster_inv_def)
qed

lemma update_user_nodes [simp]:
  "DataNodes (update_user u f d) = DataNodes d" "MetaNodes (update_user u f d) = MetaNodes d"
  "MaxNodeID (update_user u f d) = MaxNodeID d"
  by (simp_all add: update_user_def)

lemma cluster_users:
  assumes "cluster_inv d"
  shows "cluster_inv (snd (CreateUser u h a d))" "cluster_inv (snd (DropUser u d))"
    "cluster_inv (snd (UpdateUser u h d))" "cluster_inv (snd (SetPrivilege u n p d))"
    "cluster_inv (snd (SetAdminPrivilege u a d))"
proof -
  show "cluster_inv (snd (CreateUser u h a d))"
    by (rule cluster_inv_groups [OF assms CreateUser_meta groups_of_same]) (auto simp: CreateUser_def)
  show "cluster_inv (snd (DropUser u d))"
    by (rule cluster_inv_groups [OF assms DropUser_meta groups_of_same])
      (auto simp: DropUser_def Let_def split: option.split)
  show "cluster_inv (snd (UpdateUser u h d))"
    by (rule cluster_inv_groups [OF assms UpdateUser_meta groups_of_same]) (auto simp: UpdateUser_def)
  show "cluster_inv (snd (SetPrivilege u n p d))"
    by (rule cluster_inv_groups [OF assms SetPrivilege_meta groups_of_same]) (auto simp: SetPrivilege_def)
  show "cluster_inv (snd (SetAdminPrivilege u a d))"
    by (rule cluster_inv_groups [OF assms SetAdminPrivilege_meta groups_of_same])
      (auto simp: SetAdminPrivilege_def Let_def)
qed

lemma cluster_databases:
  assumes "cluster_inv d"
  shows "cluster_inv (snd (CreateDatabase n d))" "cluster_inv (snd (DropDatabase n d))"
    "cluster_inv (snd (DropRetentionPolicy n p d))" "cluster_inv (snd (SetDefaultRetentionPolicy n p d))"
    "cluster_inv (snd (CreateContinuousQuery n c q d))" "cluster_inv (snd (DropContinuousQuery n c d))"
    "cluster_inv (snd (CreateSubscription prs sph n p s m ds d))" "cluster_inv (snd (DropSubscription n p s d))"
proof -
  show "cluster_inv (snd (CreateDatabase n d))"
    by (rule cluster_inv_groups [OF assms CreateDatabase_meta groups_CreateDatabase])
      (auto simp: CreateDatabase_def)
  show "cluster_inv (snd (DropDatabase n d))"
    by (rule cluster_inv_groups [OF assms DropDatabase_meta groups_DropDatabase]) (auto simp: DropDatabase_def)
  show "cluster_inv (snd (DropRetentionPolicy n p d))"
    by (rule cluster_inv_groups [OF assms DropRetentionPolicy_meta groups_DropRetentionPolicy])
      (auto simp: DropRetentionPolicy_def)
  show "cluster_inv (snd (SetDefaultRetentionPolicy n p d))"
    by (rule cluster_inv_groups [OF assms SetDefaultRetentionPolicy_meta])
      (auto simp: SetDefaultRetentionPolicy_def groups_of_db_def split: option.splits
        dest!: groups_update_same [THEN subsetD, rotated])
  show "cluster_inv (snd (CreateContinuousQuery n c q d))"
    by (rule cluster_inv_groups [OF assms CreateContinuousQuery_meta])
      (auto simp: CreateContinuousQuery_def groups_of_db_def split: option.splits
        dest!: groups_update_same [THEN subsetD, rotated])
  show "cluster_inv (snd (DropContinuousQuery n c d))"
    by (rule cluster_inv_groups [OF assms DropContinuousQuery_meta])
      (auto simp: DropContinuousQuery_def groups_of_db_def dest!: groups_update_same [THEN subsetD, rotated])
  show "cluster_inv (snd (CreateSubscription prs sph n p s m ds d))"
    by (rule cluster_inv_groups [OF assms CreateSubscription_meta])
      (auto simp: CreateSubscription_def split: option.splits sum.splits
        dest!: groups_update_rp_same [THEN subsetD, rotated])
  show "cluster_inv (snd (DropSubscription n p s d))"
    by (rule cluster_inv_groups [OF assms DropSubscription_meta])
      (auto simp: DropSubscription_def split: option.splits sum.splits
        dest!: groups_update_rp_same [THEN subsetD, rotated])
qed

lemma cluster_CreateRetentionPolicy:
  assumes "cluster_inv d" "rpi_ShardGroups rp = []" "rpi_Subscriptions rp = []"
  shows "cluster_inv (snd (CreateRetentionPolicy n (Some rp) b d))"
  using assms
  by (intro cluster_inv_groups [OF assms(1) CreateRetentionPolicy_meta groups_CreateRetentionPolicy])
    (auto simp: CreateRetentionPolicy_def Let_def split: option.split)

lemma cluster_UpdateRetentionPolicy:
  assumes "cluster_inv d" "rpu_Name rpu \<noteq> Some ''''" "\<And>k. rpu_ReplicaN rpu = Some k \<Longrightarrow> 0 \<le> k"
  shows "cluster_inv (snd (UpdateRetentionPolicy n p rpu b d))"
  using assms
  by (intro cluster_inv_groups [OF assms(1) UpdateRetentionPolicy_meta groups_UpdateRetentionPolicy])
    (auto simp: UpdateRetentionPolicy_def Let_def split: option.split)

interpretation cluster: data_invariant cluster_inv False
proof unfold_locales
  show "cluster_inv (d\<lparr>Term := t, Index := i\<rparr>)" "cluster_inv (d\<lparr>ClusterID := c\<rparr>)"
    if "cluster_inv d" for d t i c
    by (rule cluster_inv_groups [OF that]; simp add: meta.stamp groups_of_def)+
qed (simp_all add: cluster_databases cluster_users cluster_CreateRetentionPolicy cluster_UpdateRetentionPolicy
    cluster_CreateShardGroup cluster_DeleteShardGroup cluster_CreateDataNode cluster_CreateMetaNode
    cluster_DeleteDataNode cluster_DeleteMetaNode)

end
