(* ===== verification/MetaReach.thy ===== *)
theory MetaReach
  imports MetaFSMProps
begin

text \<open>
  The states of the meta store that a raft log can reach.  The allocation counters grow by
  a bounded amount per command, so no log of fewer than \<open>2 ^ 32\<close> entries makes them wrap,
  and the invariants hold in every state such a log reaches.
\<close>

section \<open>Growth of the counters\<close>

definition bounded :: "nat \<Rightarrow> Data \<Rightarrow> bool" where
  "bounded n d \<longleftrightarrow> unat (MaxNodeID d) \<le> 2 * n \<and> length (DataNodes d) \<le> n \<and>
     unat (MaxShardGroupID d) \<le> n \<and> unat (MaxShardID d) \<le> n * n"

definition counters :: "Data \<Rightarrow> u64 \<times> NodeInfo list \<times> u64 \<times> u64" where
  "counters d = (MaxNodeID d, DataNodes d, MaxShardGroupID d, MaxShardID d)"

lemma bounded_counters: "bounded n d \<Longrightarrow> counters d' = counters d \<Longrightarrow> bounded n d'"
  by (simp add: bounded_def counters_def)

lemma bounded_Suc: "bounded n d \<Longrightarrow> bounded (Suc n) d"
  by (auto simp: bounded_def intro: order_trans)

lemma counters_update [simp]:
  "counters (update_db n f d) = counters d" "counters (update_rp n p g d) = counters d"
  "counters (update_user u h d) = counters d" "counters (d\<lparr>Users := us\<rparr>) = counters d"
  "counters (d\<lparr>adminUserExists := a\<rparr>) = counters d" "counters (d\<lparr>Databases := dbs\<rparr>) = counters d"
  "counters (d\<lparr>ClusterID := c\<rparr>) = counters d" "counters (d\<lparr>Index := i\<rparr>) = counters d"
  "counters (d\<lparr>Term := t\<rparr>) = counters d" "counters (d\<lparr>MetaNodes := ms\<rparr>) = counters d"
  by (simp_all add: counters_def update_user_def)

lemma counters_ops [simp]:
  "counters (snd (CreateDatabase n d)) = counters d" "counters (snd (DropDatabase n d)) = counters d"
  "counters (snd (DropRetentionPolicy n p d)) = counters d"
  "counters (snd (SetDefaultRetentionPolicy n p d)) = counters d"
  "counters (snd (DeleteShardGroup now n p gid d)) = counters d"
  "counters (snd (CreateContinuousQuery n cq q d)) = counters d"
  "counters (snd (DropContinuousQuery n cq d)) = counters d"
  "counters (snd (CreateSubscription prs sph n p s m ds d)) = counters d"
  "counters (snd (DropSubscription n p s d)) = counters d"
  "counters (snd (CreateUser u h a d)) = counters d" "counters (snd (DropUser u d)) = counters d"
  "counters (snd (UpdateUser u h d)) = counters d" "counters (snd (SetPrivilege u n pr d)) = counters d"
  "counters (snd (SetAdminPrivilege u a d)) = counters d" "counters (snd (DeleteMetaNode nid d)) = counters d"
  by (auto simp: CreateDatabase_def DropDatabase_def DropRetentionPolicy_def SetDefaultRetentionPolicy_def
      DeleteShardGroup_def CreateContinuousQuery_def DropContinuousQuery_def CreateSubscription_def
      DropSubscription_def CreateUser_def DropUser_def UpdateUser_def SetPrivilege_def
      SetAdminPrivilege_def DeleteMetaNode_def Let_def split: option.splits sum.splits)

lemma counters_CreateRetentionPolicy [simp]: "counters (snd (CreateRetentionPolicy n rp b d)) = counters d"
  by (rule CreateRetentionPolicy_cases [of n rp b d]) auto

lemma counters_UpdateRetentionPolicy [simp]: "counters (snd (UpdateRetentionPolicy n p rpu b d)) = counters d"
  by (rule UpdateRetentionPolicy_cases [of n p rpu b d]) auto

lemma unat_add_le: "unat (x + y) \<le> unat x + unat (y :: u64)"
  by (simp add: unat_word_ariths)

lemma unat_of_nat_le: "unat (of_nat k :: u64) \<le> k"
  by (simp add: unat_of_nat)

lemma node_id_for_unat: "unat (snd (node_id_for ns t m)) \<le> unat m + 1"
  using unat_add_le [of m 1] by (simp add: node_id_for_def Let_def)

text \<open>The two node operations, with the nodes and the IDs they add.\<close>

lemma CreateMetaNode_counters:
  "unat (MaxNodeID (snd (CreateMetaNode h t d))) \<le> unat (MaxNodeID d) + 1"
  "DataNodes (snd (CreateMetaNode h t d)) = DataNodes d"
  "MaxShardGroupID (snd (CreateMetaNode h t d)) = MaxShardGroupID d"
  "MaxShardID (snd (CreateMetaNode h t d)) = MaxShardID d"
  using node_id_for_unat by (simp_all add: CreateMetaNode_def case_prod_beta)

lemma CreateDataNode_counters:
  "unat (MaxNodeID (snd (CreateDataNode h t d))) \<le> unat (MaxNodeID d) + 1"
  "length (DataNodes (snd (CreateDataNode h t d))) \<le> length (DataNodes d) + 1"
  "MaxShardGroupID (snd (CreateDataNode h t d)) = MaxShardGroupID d"
  "MaxShardID (snd (CreateDataNode h t d)) = MaxShardID d"
  using node_id_for_unat by (simp_all add: CreateDataNode_def case_prod_beta)

lemma setDataNode_counters:
  "MaxNodeID (snd (setDataNode i h t d)) = MaxNodeID d"
  "length (DataNodes (snd (setDataNode i h t d))) \<le> length (DataNodes d) + 1"
  "MaxShardGroupID (snd (setDataNode i h t d)) = MaxShardGroupID d"
  "MaxShardID (snd (setDataNode i h t d)) = MaxShardID d"
  by (simp_all add: setDataNode_def)

lemma CreateShardGroup_counters:
  assumes "replicas_ok d"
  shows "unat (MaxShardGroupID (snd (CreateShardGroup n p ts d))) \<le> unat (MaxShardGroupID d) + 1"
    "unat (MaxShardID (snd (CreateShardGroup n p ts d))) \<le> unat (MaxShardID d) + length (DataNodes d)"
proof -
  obtain e d' where ed: "CreateShardGroup n p ts d = (e, d')" by fastforce
  have "unat (MaxShardGroupID d') \<le> unat (MaxShardGroupID d) + 1 \<and>
      unat (MaxShardID d') \<le> unat (MaxShardID d) + length (DataNodes d)"
    using ed
  proof (cases rule: CreateShardGroup_cases)
    case (3 rpi)
    have "shards_for rpi d \<le> length (DataNodes d)" by (simp add: shards_for_def)
    then have "unat (MaxShardID d + of_nat (shards_for rpi d)) \<le> unat (MaxShardID d) + length (DataNodes d)"
      using unat_add_le [of "MaxShardID d" "of_nat (shards_for rpi d)"] unat_of_nat_le [of "shards_for rpi d"]
      by linarith
    with ed CreateShardGroup_new [OF 3(1,2,5,3)] unat_add_le [of "MaxShardGroupID d" 1] show ?thesis by auto
  qed (use unat_add_le [of "MaxShardGroupID d" 1] in auto)
  with ed show "unat (MaxShardGroupID (snd (CreateShardGroup n p ts d))) \<le> unat (MaxShardGroupID d) + 1"
    "unat (MaxShardID (snd (CreateShardGroup n p ts d))) \<le> unat (MaxShardID d) + length (DataNodes d)"
    by simp_all
qed

text \<open>One command moves the bound by one.\<close>

lemma bounded_on_clone: "bounded m d \<Longrightarrow> bounded m (snd (f d)) \<Longrightarrow> bounded m (snd (on_clone d f))"
  by (auto simp: on_clone_def split: prod.splits option.splits)

lemma counters_on_clone: "counters (snd (f d)) = counters d \<Longrightarrow> counters (snd (on_clone d f)) = counters d"
  by (auto simp: on_clone_def split: prod.splits option.splits)

lemma counters_and_then:
  "counters (snd r) = c \<Longrightarrow> (\<And>d. counters d = c \<Longrightarrow> counters (snd (f d)) = c) \<Longrightarrow>
   counters (snd (and_then r f)) = c"
  by (auto simp: and_then_def split: prod.splits option.splits)

lemma counters_applyCreateDatabase: "counters (snd (applyCreateDatabaseCommand a n rp d)) = counters d"
proof -
  have rp: "counters (snd (case CreateRetentionPolicy n rp False d of
      (Some e, d) \<Rightarrow> (Some (if e = ErrRetentionPolicyExists then ErrRetentionPolicyConflict else e), d)
    | (None, d) \<Rightarrow> (None, d))) = counters d" for d rp
  proof -
    obtain e d' where c: "CreateRetentionPolicy n rp False d = (e, d')" by fastforce
    then have "counters d' = counters d" by (metis counters_CreateRetentionPolicy snd_conv)
    with c show ?thesis by (simp split: option.split)
  qed
  show ?thesis
    unfolding applyCreateDatabaseCommand_def
    by (rule counters_on_clone) (auto intro!: counters_and_then simp: rp split: option.split)
qed

lemma bounded_applyCreateNode:
  assumes b: "bounded n d"
  shows "bounded (Suc n) (snd (applyCreateNodeCommand h r peers d))"
proof -
  define r1 where "r1 = (if list_ex (\<lambda>p. h = p) peers then CreateMetaNode h h d else (None, d))"
  have r1: "unat (MaxNodeID (snd r1)) \<le> unat (MaxNodeID d) + 1" "DataNodes (snd r1) = DataNodes d"
    "MaxShardGroupID (snd r1) = MaxShardGroupID d" "MaxShardID (snd r1) = MaxShardID d"
    using CreateMetaNode_counters [of h h d] by (auto simp: r1_def)
  define r2 where "r2 = (if length (MetaNodes (snd r1)) = 1
      then setDataNode (ni_ID (MetaNodes (snd r1) ! 0)) h h (snd r1) else CreateDataNode h h (snd r1))"
  have "bounded (Suc n) (snd r2)"
    using b r1 CreateDataNode_counters [of h h "snd r1"]
      setDataNode_counters [of "ni_ID (MetaNodes (snd r1) ! 0)" h h "snd r1"]
    by (auto simp: bounded_def r2_def)
  moreover have "counters (set_ClusterID r d) = counters d" for d by (simp add: set_ClusterID_def)
  ultimately have "bounded (Suc n) (set_ClusterID r (snd r2))" by (rule bounded_counters)
  moreover have "snd (applyCreateNodeCommand h r peers d) = d \<or>
      snd (applyCreateNodeCommand h r peers d) = set_ClusterID r (snd r2)"
    unfolding applyCreateNodeCommand_def Clone_id on_clone_def and_then_def r1_def [symmetric]
    by (cases r1; cases "fst r1"; cases r2; cases "fst r2") (auto simp: r2_def)
  ultimately show ?thesis using bounded_Suc [OF b] by auto
qed

lemma bounded_apply:
  assumes b: "bounded n d" and inv: "meta_inv d" and c: "plain_command c"
  shows "bounded (Suc n) (snd (fst (apply_command env c d)))"
proof -
  have same: "bounded (Suc n) d'" if "counters d' = counters d" for d'
    using bounded_Suc [OF bounded_counters [OF b that]] .
  have sz: "unat (MaxShardID d) + length (DataNodes d) \<le> Suc n * Suc n"
    "unat (MaxShardID d) \<le> Suc n * Suc n"
    using b by (auto simp: bounded_def)
  show ?thesis
  proof (cases c)
    case (CreateNodeCommand h r)
    with same bounded_applyCreateNode [OF b] show ?thesis by (simp split: sum.split)
  next
    case (CreateMetaNodeCommand h t r)
    with b sz CreateMetaNode_counters [of h t d] show ?thesis
      by (auto simp: bounded_def applyCreateMetaNodeCommand_def set_ClusterID_def)
  next
    case (SetMetaNodeCommand h t r)
    with b sz CreateMetaNode_counters [of h t d] show ?thesis
      by (auto simp: bounded_def applySetMetaNodeCommand_def set_ClusterID_def SetMetaNode_def split: list.split)
  next
    case (CreateDataNodeCommand h t)
    have "bounded (Suc n) (snd (CreateDataNode h t d))"
      using b sz CreateDataNode_counters [of h t d] by (simp add: bounded_def)
    with CreateDataNodeCommand same show ?thesis
      by (simp add: applyCreateDataNodeCommand_def bounded_on_clone)
  next
    case (DeleteDataNodeCommand nid)
    have "bounded (Suc n) (snd (DeleteDataNode (env_now env) (env_rng env) nid d))"
      using b sz le_trans [OF length_filter_le, of "DataNodes d" "Suc n"]
      by (auto simp: bounded_def DataNodes_DeleteDataNode)
    with DeleteDataNodeCommand same show ?thesis
      by (simp add: applyDeleteDataNodeCommand_def bounded_on_clone)
  next
    case (CreateShardGroupCommand db p ts)
    have "replicas_ok d" using inv by (simp add: meta_inv_def)
    from CreateShardGroup_counters [OF this, of db p "time_Unix_nano (sint ts)"] b sz
    have "bounded (Suc n) (snd (CreateShardGroup db p (time_Unix_nano (sint ts)) d))"
      by (simp add: bounded_def)
    with CreateShardGroupCommand same show ?thesis
      by (simp add: applyCreateShardGroupCommand_def bounded_on_clone)
  next
    case (DeleteMetaNodeCommand nid)
    with same show ?thesis
      by (simp add: applyDeleteMetaNodeCommand_def counters_on_clone Let_def case_prod_beta split: option.split)
  next
    case (SetDataCommand pb)
    with c show ?thesis by simp
  qed (use same in \<open>simp_all add: applyDeleteNodeCommand_def applyUpdateNodeCommand_def
    counters_applyCreateDatabase applyDropDatabaseCommand_def applyCreateRetentionPolicyCommand_def
    applyDropRetentionPolicyCommand_def applySetDefaultRetentionPolicyCommand_def
    applyUpdateRetentionPolicyCommand_def applyDeleteShardGroupCommand_def
    applyCreateContinuousQueryCommand_def applyDropContinuousQueryCommand_def
    applyCreateSubscriptionCommand_def applyDropSubscriptionCommand_def applyCreateUserCommand_def
    applyDropUserCommand_def applyUpdateUserCommand_def applySetPrivilegeCommand_def
    applySetAdminPrivilegeCommand_def counters_on_clone\<close>)
qed

lemma bounded_fits:
  assumes "bounded n d" "n < 2 ^ 32"
  shows "fits d"
proof -
  have "n * n + n < 2 ^ 64"
  proof -
    have "n * n \<le> (2 ^ 32 - 1) * (2 ^ 32 - 1)" using assms(2) by (intro mult_le_mono) auto
    then show ?thesis using assms(2) by simp
  qed
  moreover have "unat (- 1 :: u64) = 18446744073709551615"
    by (simp add: unsigned_minus_1_eq_mask mask_eq_exp_minus_1)
  ultimately show ?thesis
    using assms by (auto simp: bounded_def fits_def word_less_nat_alt)
qed

section \<open>Reachable states\<close>

text \<open>
  \<open>reach ok n s\<close>: some log of \<open>n\<close> entries, whose commands satisfy \<open>ok\<close>, takes a new store
  to \<open>s\<close>; the environment may differ at every entry.
\<close>

inductive reach :: "(command \<Rightarrow> bool) \<Rightarrow> nat \<Rightarrow> store \<Rightarrow> bool" for ok where
  reach_new: "reach ok 0 newStore"
| reach_Apply: "reach ok n s \<Longrightarrow> env_ok env \<Longrightarrow> (\<forall>c. log_Data l = Some c \<longrightarrow> ok c) \<Longrightarrow>
    reach ok (Suc n) (snd (Apply env l s))"

inductive_cases reach_zeroE: "reach ok 0 s"

lemma reach_mono: "reach ok n s \<Longrightarrow> (\<And>c. ok c \<Longrightarrow> ok' c) \<Longrightarrow> reach ok' n s"
  by (induction rule: reach.induct) (auto intro: reach.intros)

lemma Apply_bounded:
  assumes "bounded n (st_data s)" "meta_inv (st_data s)" "\<forall>c. log_Data l = Some c \<longrightarrow> plain_command c"
  shows "bounded (Suc n) (st_data (snd (Apply env l s)))"
proof (cases "log_Data l")
  case (Some c)
  with bounded_apply [OF assms(1,2), of c env] assms(3)
  have b: "bounded (Suc n) (snd (fst (apply_command env c (st_data s))))" by blast
  have "counters (d\<lparr>Term := t, Index := i\<rparr>) = counters d" for d t i by (simp add: counters_def)
  from bounded_counters [OF b this] Some bounded_Suc [OF assms(1)] show ?thesis
    by (simp add: Apply_def case_prod_beta Let_def)
qed (use bounded_Suc [OF assms(1)] in \<open>simp add: Apply_def\<close>)

lemma reach_meta:
  assumes "reach plain_command n s" "n < 2 ^ 32"
  shows "meta_inv (st_data s) \<and> bounded n (st_data s)"
  using assms
proof (induction rule: reach.induct)
  case reach_new
  show ?case using meta_inv_init by (simp add: newStore_def bounded_def zero_Data_def)
next
  case (reach_Apply n s env l)
  then have inv: "meta_inv (st_data s)" "bounded n (st_data s)" by simp_all
  moreover have "fits (st_data s)" using bounded_fits [OF inv(2)] reach_Apply.prems by simp
  ultimately show ?case
    using meta.Apply_keeps [of s env l] Apply_bounded [OF inv(2,1)] reach_Apply.hyps by simp
qed

lemma cluster_inv_init: "cluster_inv (zero_Data\<lparr>Index := 1\<rparr>)"
  using meta_inv_init
  by (simp add: cluster_inv_def node_inv_def owner_inv_def groups_of_def zero_Data_def)

lemma reach_cluster:
  assumes "reach (\<lambda>c. plain_command c \<and> \<not> legacy_command c) n s" "n < 2 ^ 32"
  shows "cluster_inv (st_data s)"
  using assms
proof (induction rule: reach.induct)
  case reach_new
  show ?case using cluster_inv_init by (simp add: newStore_def)
next
  case (reach_Apply n s env l)
  have "bounded n (st_data s)"
    using reach_meta reach_mono [OF reach_Apply.hyps(1)] reach_Apply.prems by fastforce
  then have "fits (st_data s)" using bounded_fits reach_Apply.prems by simp
  with reach_Apply cluster.Apply_keeps [of s env l] show ?case by simp
qed

end
