(* ===== verification/MetaProperties.thy ===== *)
theory MetaProperties
  imports MetaReach
begin

text \<open>
  The properties of the meta service: what holds in every state a raft log reaches, what
  each operation on shard groups and nodes promises, the round trip of the metadata through
  its stored form, and the places where the code does less than it intends.
\<close>

section \<open>Sample data for the witnesses\<close>

definition sample_env :: apply_env where
  "sample_env = \<lparr>env_now = unix_epoch + 1, env_rng = (\<lambda>m. m), env_RetentionAutoCreate = True,
     env_url_Parse = (\<lambda>s. Some (''http'', s)), env_SplitHostPort = (\<lambda>s. Some (s, ''80'')),
     env_peers = Inr [], env_isLeader = True, env_servers = Inr [], env_RemoveServer = (\<lambda>_. None)\<rparr>"

definition sample_node :: "u64 \<Rightarrow> string \<Rightarrow> NodeInfo" where
  "sample_node i h = \<lparr>ni_ID = i, ni_Host = h, ni_TCPHost = h\<rparr>"

definition sample_shard :: "u64 \<Rightarrow> u64 list \<Rightarrow> ShardInfo" where
  "sample_shard i os = \<lparr>si_ID = i, si_Owners = map (\<lambda>w. \<lparr>so_NodeID = w\<rparr>) os\<rparr>"

definition sample_group :: ShardGroupInfo where
  "sample_group = \<lparr>sgi_ID = 1, sgi_StartTime = unix_epoch, sgi_EndTime = unix_epoch + Hour,
     sgi_DeletedAt = 0, sgi_Shards = [sample_shard 1 [1, 2], sample_shard 2 [2], sample_shard 3 [3]],
     sgi_TruncatedAt = 0\<rparr>"

definition sample_policy :: RetentionPolicyInfo where
  "sample_policy = \<lparr>rpi_Name = ''rp'', rpi_ReplicaN = 2, rpi_Duration = 0, rpi_ShardGroupDuration = Hour,
     rpi_ShardGroups = [sample_group], rpi_Subscriptions = []\<rparr>"

definition sample_data :: Data where
  "sample_data = zero_Data\<lparr>DataNodes := [sample_node 1 ''a'', sample_node 2 ''b'', sample_node 3 ''c''],
     Databases := [\<lparr>di_Name = ''db'', di_DefaultRetentionPolicy = ''rp'',
       di_RetentionPolicies = [sample_policy], di_ContinuousQueries = []\<rparr>],
     Users := [\<lparr>ui_Name = ''root'', ui_Hash = ''h'', ui_Admin = True, ui_Privileges = [(''db'', 3)]\<rparr>],
     adminUserExists := True, MaxNodeID := 3, MaxShardGroupID := 1, MaxShardID := 3\<rparr>"

lemmas sample_defs = sample_env_def sample_node_def sample_shard_def sample_group_def sample_policy_def
  sample_data_def zero_Data_def

lemma sample_env_ok: "env_ok sample_env"
  by (simp add: env_ok_def sample_env_def unix_epoch_def go_time_defs)

section \<open>Reachable states\<close>


definition sample_log :: "command \<Rightarrow> raft_log" where
  "sample_log c = \<lparr>log_Term = 1, log_Index = 2, log_Data = Some c\<rparr>"

definition sample_store :: store where
  "sample_store = snd (Apply sample_env (sample_log (CreateDataNodeCommand ''a'' ''a'')) newStore)"

lemma sample_store_reach:
  assumes "ok (CreateDataNodeCommand ''a'' ''a'')"
  shows "reach ok (Suc 0) sample_store"
  unfolding sample_store_def
  by (rule reach_Apply [OF reach_new sample_env_ok]) (simp add: sample_log_def assms)



definition sample_db_store :: store where
  "sample_db_store = snd (Apply sample_env (sample_log (CreateDatabaseCommand ''db'' None)) newStore)"

lemma sample_db_store_reach: "reach plain_command (Suc 0) sample_db_store"
  unfolding sample_db_store_def
  by (rule reach_Apply [OF reach_new sample_env_ok]) (simp add: sample_log_def)

lemmas sample_eval = sample_defs sample_log_def newStore_def Apply_def is_panic_def
  applyCreateDatabaseCommand_def on_clone_def and_then_def CreateDatabase_def Database_def
  new_DatabaseInfo_def CreateRetentionPolicy_def NewRetentionPolicyInfo_def auto_replicaN_def
  maxAutoCreatedRetentionPolicyReplicaN_def autoCreateRetentionPolicyPeriod_def
  autoCreateRetentionPolicyName_def update_db_def SetDefaultRetentionPolicy_def
  di_RetentionPolicy_def di_RetentionPolicy_name_def Let_def

lemma sample_db_store_policies:
  "policies_of (st_data sample_db_store) = [\<lparr>rpi_Name = ''autogen'', rpi_ReplicaN = 1, rpi_Duration = 0,
     rpi_ShardGroupDuration = normalisedShardDuration 0 0, rpi_ShardGroups = [], rpi_Subscriptions = []\<rparr>]"
  by (simp add: sample_db_store_def sample_eval policies_of_def)








section \<open>Shard groups\<close>


lemma sample_find_rp: "find_rp sample_data ''db'' ''rp'' = Inr sample_policy"
  by (simp add: find_rp_def RetentionPolicy_def Database_def sample_data_def sample_policy_def)

lemma sample_uncovered: "rpi_ShardGroupByTimestamp sample_policy (unix_epoch + Hour) = None"
  by (simp add: rpi_ShardGroupByTimestamp_def sample_policy_def sample_group_def accepts_def Contains_def)

lemma sample_create:
  "\<exists>d'. CreateShardGroup ''db'' ''rp'' (unix_epoch + Hour) sample_data = (None, d')"
  by (subst CreateShardGroup_new [OF _ sample_find_rp sample_uncovered])
    (simp_all add: sample_data_def sample_policy_def)


text \<open>
  (C28) The shards of a new group are spread round robin: a group on \<open>n\<close> nodes with
  replication \<open>r\<close> (capped at \<open>n\<close>, at least 1) has \<open>n div r\<close> shards, each with exactly \<open>r\<close>
  owners, and no data node owns two shards of the group.
\<close>

theorem CreateShardGroup_round_robin:
  assumes "DataNodes d \<noteq> []" "find_rp d n p = Inr rpi" "rpi_ShardGroupByTimestamp rpi ts = None"
    "0 \<le> rpi_ReplicaN rpi" "0 < rpi_ShardGroupDuration rpi" "distinct (map ni_ID (DataNodes d))"
    "CreateShardGroup n p ts d = (None, d')"
  shows "\<exists>g. ShardGroupByTimestamp d' n p ts = Inr (Some g) \<and>
    (let r = min (max 1 (nat (rpi_ReplicaN rpi))) (length (DataNodes d)) in
     length (sgi_Shards g) = length (DataNodes d) div r \<and>
     (\<forall>sh \<in> set (sgi_Shards g). length (si_Owners sh) = r) \<and>
     distinct (concat (map (\<lambda>sh. map so_NodeID (si_Owners sh)) (sgi_Shards g))) \<and>
     (\<forall>sh \<in> set (sgi_Shards g). so_NodeID ` set (si_Owners sh) \<subseteq> ni_ID ` set (DataNodes d)))"
proof -
  let ?g = "new_shard_group d rpi ts (replicas_for rpi d) (shards_for rpi d)"
  have r: "min (max 1 (nat (rpi_ReplicaN rpi))) (length (DataNodes d)) = replicas_for rpi d"
    using assms(1,4) by (auto simp: replicas_for_def replica_count_def min_def max_def Suc_le_eq)
  note b = replicas_for_bounds [OF assms(1,4)]
  have "length (sgi_Shards ?g) = length (DataNodes d) div replicas_for rpi d"
    by (simp add: new_shard_group_def Let_def new_shards_props shards_for_def)
  with CreateShardGroup_covers_new [OF assms(1-5,7)] new_shard_group_owners [OF assms(6,1) b(4), of rpi ts]
  show ?thesis unfolding r Let_def by blast
qed

theorem CreateShardGroup_round_robin_witness:
  "\<exists>d' g. ShardGroupByTimestamp d' ''db'' ''rp'' (unix_epoch + Hour) = Inr (Some g) \<and>
     length (sgi_Shards g) = 1 \<and> (\<forall>sh \<in> set (sgi_Shards g). length (si_Owners sh) = 2)"
proof -
  obtain d' where "CreateShardGroup ''db'' ''rp'' (unix_epoch + Hour) sample_data = (None, d')"
    using sample_create by blast
  from CreateShardGroup_round_robin [OF _ sample_find_rp sample_uncovered _ _ _ this] show ?thesis
    by (auto simp: sample_data_def sample_policy_def sample_node_def Let_def
        simp flip: numeral_2_eq_2 numeral_3_eq_3)
qed

lemma truncate_group_accepts:
  assumes "0 < t" "sgi_StartTime g \<noteq> 0"
  shows "accepts (truncate_group t g) ts \<longleftrightarrow> accepts g ts \<and> ts < t"
  using assms by (auto simp: accepts_def truncate_group_def Contains_def Deleted_def Truncated_def IsZero_def)

text \<open>
  (C30) \<open>TruncateShardGroups\<close> at a time \<open>t\<close> after Go's zero time closes every group that has
  not ended: afterwards no group accepts a timestamp at or after \<open>t\<close> unless it began at the
  zero time, and writes before \<open>t\<close> are accepted exactly where they were.
\<close>

theorem TruncateShardGroups_closes:
  assumes "0 < t" "\<forall>g \<in> set (groups_of d). sgi_StartTime g \<noteq> 0"
  shows "map (\<lambda>g. accepts g ts) (groups_of (TruncateShardGroups t d)) =
    map (\<lambda>g. accepts g ts \<and> ts < t) (groups_of d)"
  using assms by (simp add: TruncateShardGroups_def groups_of_map truncate_group_accepts)

theorem TruncateShardGroups_closes_witness:
  "map (\<lambda>g. accepts g (unix_epoch + 5)) (groups_of (TruncateShardGroups (unix_epoch + 3) sample_data)) = [False]"
  using TruncateShardGroups_closes [of "unix_epoch + 3" sample_data "unix_epoch + 5"]
  by (simp add: sample_defs groups_of_def groups_of_db_def unix_epoch_def go_time_defs)

text \<open>
  \<open>DropShard\<close> removes exactly the first shard with the given ID from the metadata, and
  a group that loses its last shard is marked deleted.
\<close>

theorem DropShard_removes:
  "shards_of (DropShard now sid d) = remove_first (\<lambda>s. si_ID s = sid) (shards_of d) \<and>
   (\<forall>g. length (sgi_Shards g) = 1 \<longrightarrow> has_shard sid g \<longrightarrow> now \<noteq> 0 \<longrightarrow>
      Deleted (drop_shard_group now sid g) \<and> sgi_Shards (drop_shard_group now sid g) = [])"
  by (auto simp: shards_of_DropShard drop_shard_group_def Let_def Deleted_def IsZero_def has_shard_def
      length_Suc_conv)

theorem DropShard_removes_witness:
  "shards_of (DropShard 1 2 sample_data) = [sample_shard 1 [1, 2], sample_shard 3 [3]]"
  using conjunct1 [OF DropShard_removes [of 1 2 sample_data]]
  by (simp add: sample_defs shards_of_def groups_of_def groups_of_db_def)

text \<open>
  An import of foreign metadata, of one database or of all of them, successful or not,
  gives the imported groups and shards fresh IDs: unique identifiers stay unique.
\<close>

theorem ImportData_fresh_ids:
  assumes "shard_inv d" "distinct (map di_Name (Databases other))"
    "unat (MaxShardGroupID d) + length (groups_of other) < 2 ^ 64"
    "unat (MaxShardID d) + length (shards_of other) < 2 ^ 64"
  shows "distinct (map sgi_ID (groups_of (snd (ImportData other b r brp rrp d)))) \<and>
    distinct (map si_ID (shards_of (snd (ImportData other b r brp rrp d))))"
  using ImportData_inv [OF assms] by (simp add: shard_inv_iff)

lemma sample_shard_inv: "shard_inv sample_data"
  by (simp add: shard_inv_iff sample_defs groups_of_def groups_of_db_def shards_of_def)

theorem ImportData_fresh_ids_witness:
  "distinct (map si_ID (shards_of (snd (ImportData sample_data ''db'' ''db2'' '''' '''' sample_data))))"
  using ImportData_fresh_ids [OF sample_shard_inv, of sample_data]
  by (simp add: sample_defs groups_of_def groups_of_db_def shards_of_def)

section \<open>Nodes\<close>


lemma sample_cluster_inv: "cluster_inv sample_data"
proof -
  have "shard_inv sample_data" by (rule sample_shard_inv)
  moreover have "policies_ok sample_data" "replicas_ok sample_data" "names_ok sample_data" "access_ok sample_data"
    by (simp_all add: sample_defs policies_all_def policies_of_def policy_ok_def names_ok_def db_names_ok_def
        access_ok_def user_ok_def db_names_def hasAdminUser_def)
  moreover have "node_inv sample_data"
    by (simp add: node_inv_def sample_defs ids_agree_def)
  moreover have "owner_inv sample_data"
    by (simp add: owner_inv_def sample_defs groups_of_def groups_of_db_def group_owned_def owners_wf_def)
  ultimately show ?thesis by (simp add: cluster_inv_def meta_inv_def)
qed


text \<open>
  \<open>newShardOwner\<close> gives an orphaned shard to a node that owns the fewest shards of the
  group, and counts the shard for it.
\<close>

theorem newShardOwner_least_loaded:
  assumes "m \<noteq> []" "\<forall>kv \<in> set m. 0 \<le> fst kv" "set (rng m) = set m"
  shows "\<exists>k f. (k, f) \<in> set m \<and> (\<forall>kv \<in> set m. f \<le> snd kv) \<and>
    newShardOwner rng s m = Inr (word_of_int k, freq_incr k m)"
  using newShardOwner_ok [of rng m, OF assms(3,1,2)] by metis

theorem newShardOwner_least_loaded_witness:
  "\<exists>k f. (k, f) \<in> set [(1, 2), (2, 1)] \<and>
     newShardOwner rev (sample_shard 1 []) [(1, 2), (2, 1)] = Inr (word_of_int k, freq_incr k [(1, 2), (2, 1)])"
  using newShardOwner_least_loaded [of "[(1, 2), (2, 1)]" rev "sample_shard 1 []"] by fastforce

text \<open>
  The new owner is not determined by the metadata: when two nodes own equally many
  shards, the owner depends on the iteration order of a Go map, which may differ between two
  replicas that apply the same log entry.
\<close>

theorem newShardOwner_order_dependent:
  "newShardOwner (\<lambda>m. m) s [(1, 1), (2, 1)] \<noteq> newShardOwner rev s [(1, 1), (2, 1)]"
  by (simp add: newShardOwner_def min_freq_step_def Let_def)

text \<open>
  Renaming the only meta node with \<open>SetMetaNode\<close> lets two data nodes get one ID: the
  data node that shares the meta node's old address keeps its ID, and the next data node at
  the new address is given the same one.
\<close>

theorem SetMetaNode_duplicate_ids:
  "\<exists>d1 d2 d3 d4. CreateMetaNode ''m'' ''x'' zero_Data = (None, d1) \<and> CreateDataNode ''m'' ''x'' d1 = (None, d2) \<and>
     SetMetaNode ''m'' ''y'' d2 = (None, d3) \<and> CreateDataNode ''m'' ''y'' d3 = (None, d4) \<and>
     map ni_ID (DataNodes d4) = [1, 1]"
  by (simp add: CreateMetaNode_def CreateDataNode_def SetMetaNode_def node_id_for_def zero_Data_def
      sort_NodeInfos_def insertion_sort_def NodeInfos_Less_def)

section \<open>The replicated log\<close>



text \<open>
  The commands whose handler reads nothing but the metadata and the configuration every
  replica shares.
\<close>

fun replicated_command :: "command \<Rightarrow> bool" where
  "replicated_command (CreateNodeCommand h r) = False"
| "replicated_command (DeleteShardGroupCommand n p gid) = False"
| "replicated_command (DeleteMetaNodeCommand nid) = False"
| "replicated_command (DeleteDataNodeCommand nid) = False"
| "replicated_command c = True"

definition same_config :: "apply_env \<Rightarrow> apply_env \<Rightarrow> bool" where
  "same_config env env' \<longleftrightarrow> env_RetentionAutoCreate env = env_RetentionAutoCreate env' \<and>
     env_url_Parse env = env_url_Parse env' \<and> env_SplitHostPort env = env_SplitHostPort env'"



text \<open>
  The removal of a meta node is not deterministic: when raft refuses to remove the
  server, the leader fails and keeps the meta node, while a follower, for which
  \<open>removeVoter\<close> answers that it is not the leader, removes it from its metadata.
\<close>

theorem DeleteMetaNode_diverges:
  defines "d \<equiv> snd (CreateMetaNode ''m'' ''x'' zero_Data)"
  defines "leader \<equiv> sample_env\<lparr>env_servers := Inr [(''x'', ''x'')],
      env_RemoveServer := \<lambda>_. Some (ErrRaft ''timeout'')\<rparr>"
  shows "MetaNodes (snd (fst (apply_command leader (DeleteMetaNodeCommand 1) d))) \<noteq> [] \<and>
    MetaNodes (snd (fst (apply_command (leader\<lparr>env_isLeader := False\<rparr>) (DeleteMetaNodeCommand 1) d))) = []"
  by (simp add: d_def leader_def CreateMetaNode_def node_id_for_def zero_Data_def sample_env_def
      sort_NodeInfos_def insertion_sort_def applyDeleteMetaNodeCommand_def MetaNode_def leave_def
      removeVoter_def ErrNotLeader_def on_clone_def DeleteMetaNode_def)

text \<open>
  Two commands of the protocol crash every replica: \<open>Apply\<close> has no case for
  \<open>UpdateDataNodeCommand\<close> and \<open>DropShardCommand\<close> and panics on them.
\<close>

theorem Apply_panics_on_declared_commands:
  "fst (Apply env \<lparr>log_Term = t, log_Index = i, log_Data = Some (DropShardCommand sid)\<rparr> s) =
     Some (Panic ''cannot apply command'') \<and>
   fst (Apply env \<lparr>log_Term = t, log_Index = i, log_Data = Some (UpdateDataNodeCommand nid h tcp)\<rparr> s) =
     Some (Panic ''cannot apply command'')"
  by (simp add: Apply_def is_panic_def)

section \<open>Stored metadata\<close>



text \<open>
  What is lost: after a restore \<open>AdminUserExists\<close> answers no, also when the restored
  metadata has an admin user, until the next change of a user recomputes the flag.
\<close>

theorem Restore_forgets_admin:
  "unmarsh b = Inr pb \<longrightarrow> \<not> AdminUserExists (st_data (snd (Restore unmarsh b s)))"
  by (simp add: Restore_def Data_UnmarshalBinary_def Data_unmarshal_def AdminUserExists_def zero_Data_def)

theorem Restore_forgets_admin_witness:
  "hasAdminUser sample_data \<and>
   \<not> AdminUserExists (st_data (snd (Restore (Inr :: pb_Data \<Rightarrow> string + pb_Data) (Data_marshal rev sample_data) newStore)))"
  using Restore_forgets_admin [of "Inr :: pb_Data \<Rightarrow> string + pb_Data" "Data_marshal rev sample_data"]
  by (simp add: hasAdminUser_def sample_defs)

text \<open>
  A group truncated at the Unix epoch comes back from storage as one that is not
  truncated: it accepts writes again.
\<close>

theorem unmarshal_forgets_epoch_truncation:
  defines "g \<equiv> truncate_group unix_epoch sample_group"
  shows "\<not> accepts g (unix_epoch + 1) \<and> accepts (ShardGroupInfo_unmarshal (ShardGroupInfo_marshal g)) (unix_epoch + 1)"
  by (simp add: g_def truncate_group_def sample_group_def accepts_def Contains_def Deleted_def Truncated_def
      IsZero_def ShardGroupInfo_unmarshal_def ShardGroupInfo_marshal_def MarshalTime_def UnmarshalTime_def
      UnixNano_def time_Unix_nano_def unix_epoch_def go_time_defs)

end
