(* ===== verification/WriteProperties.thy ===== *)
theory WriteProperties
  imports ClusterService MetaProperties
begin

text \<open>
  The properties of the write path: every point in scope reaches a shard of a group that
  covers it, and a write is reported as successful only when enough owners of every shard
  have it.
\<close>

section \<open>A working cluster for the witnesses\<close>

definition sample_raft :: "store \<Rightarrow> raft_env" where
  "sample_raft s = \<lparr>re_open = True, re_Apply = (\<lambda>cmd. Inr (1, Index (st_data s) + 1)), re_Leader = ''m'',
     re_AddVoter = (\<lambda>_. None), re_env = sample_env\<rparr>"

definition write_data :: Data where
  "write_data = sample_data\<lparr>MetaNodes := [sample_node 4 ''m''], Index := 7\<rparr>"

definition write_cluster :: "Client \<times> store" where
  "write_cluster = ((NewClient 0 None)\<lparr>cl_metaServers := [''m''], cl_cacheData := write_data\<rparr>,
     \<lparr>st_data = write_data, st_changed = 0, st_removed = []\<rparr>)"

lemma raft_works_sample: "raft_works sample_raft"
proof -
  have "i < i + 1 \<and> unat (i + 1) \<le> unat i + 2 ^ 32" if "unat i + 2 ^ 32 < 2 ^ 64" for i :: u64
  proof -
    have "unat (i + 1) = unat i + 1" using that by (simp add: unat_plus_if_size word_size)
    then show ?thesis by (simp add: word_less_nat_alt)
  qed
  then show ?thesis by (simp add: raft_works_def sample_raft_def)
qed

lemma write_find_rp: "find_rp write_data ''db'' ''rp'' = Inr sample_policy"
  using sample_find_rp by (simp add: write_data_def find_rp_def RetentionPolicy_def Database_def)

lemma write_cluster_tiled: "tiled_cluster ''db'' ''rp'' Hour write_cluster"
proof -
  have "tiled ''db'' ''rp'' Hour write_data"
    unfolding tiled_def
    by (simp add: write_find_rp) (simp add: write_data_def sample_data_def sample_policy_def sample_group_def aligned_def Hour_def Second_def
        Truncated_def IsZero_def unix_epoch_def)
  then show ?thesis by (simp add: tiled_cluster_def write_cluster_def)
qed

lemma write_cluster_room: "2 \<le> room sample_raft write_cluster"
  by (simp add: room_def write_cluster_def raft_works_sample in_sync_def write_data_def)

section \<open>Mapping points to shards\<close>



section \<open>Consistency levels\<close>

text \<open>What it means that an owner has the points: its store took them, or, on another node,
  the remote write was acknowledged.\<close>

definition stored :: "backend \<Rightarrow> string \<Rightarrow> string \<Rightarrow> u64 \<Rightarrow> point list \<Rightarrow> ShardOwner \<Rightarrow> bool" where
  "stored be db rp sid pts ow \<longleftrightarrow>
     (if be_NodeID be = so_NodeID ow
      then be_WriteToShard be 0 sid pts = None \<or>
           (be_CreateShard be db rp sid = None \<and> be_WriteToShard be 1 sid pts = None)
      else be_ShardWriter be sid (so_NodeID ow) pts = None)"

lemma owner_write_stored:
  assumes "owner_write be c db rp sid pts ow = None" "c \<noteq> ConsistencyLevelAny"
  shows "stored be db rp sid pts ow"
  using assms
  by (auto simp: owner_write_def write_local_def write_remote_def stored_def Let_def
      split: if_splits option.splits)

lemma writeToShard_await:
  "\<exists>st1. writeToShard be shard db rp c pts evs st =
     await_results (required_writes c (length (si_Owners shard))) 0 None evs st1"
  by (simp add: writeToShard_def Let_def) blast

lemma writeToShard_success_count:
  assumes "fst (writeToShard be shard db rp c pts evs st) = None"
    "wr_schedule (owner_results be c db rp (si_ID shard) pts (si_Owners shard)) evs"
  shows "required_writes c (length (si_Owners shard)) \<le>
    length (filter (\<lambda>ow. owner_write be c db rp (si_ID shard) pts ow = None) (si_Owners shard))"
proof -
  obtain st1 where "fst (await_results (required_writes c (length (si_Owners shard))) 0 None evs st1) = None"
    using writeToShard_await [of be shard db rp c pts evs st] assms(1) by force
  from await_results_sound [OF this]
  have "required_writes c (length (si_Owners shard)) \<le> successes evs" by simp
  also have "\<dots> \<le> successes (owner_results be c db rp (si_ID shard) pts (si_Owners shard))"
    by (rule successes_schedule [OF assms(2)])
  finally show ?thesis by (simp add: successes_owner_results)
qed

text \<open>
  (C6) A write to a shard that succeeds at level One, Quorum or All is stored by at least as
  many owners as the level asks for, in whatever order the owners answer; a write queued by
  hinted handoff does not count.
\<close>

theorem writeToShard_consistent:
  assumes "fst (writeToShard be shard db rp c pts evs st) = None"
    and "wr_schedule (owner_results be c db rp (si_ID shard) pts (si_Owners shard)) evs"
    and "c \<noteq> ConsistencyLevelAny"
  shows "required_writes c (length (si_Owners shard)) \<le>
    length (filter (stored be db rp (si_ID shard) pts) (si_Owners shard))"
proof -
  have "length (filter (\<lambda>ow. owner_write be c db rp (si_ID shard) pts ow = None) ows)
      \<le> length (filter (stored be db rp (si_ID shard) pts) ows)" for ows
    using owner_write_stored [OF _ assms(3)] by (induction ows) auto
  with writeToShard_success_count [OF assms(1,2)] show ?thesis by (meson order_trans)
qed

definition sample_backend :: backend where
  "sample_backend = \<lparr>be_NodeID = 1, be_WriteToShard = (\<lambda>n sid pts. if n = 0 then Some ErrShardNotFound else None),
     be_CreateShard = (\<lambda>_ _ _. None),
     be_ShardWriter = (\<lambda>sid nid pts. if nid = 2 then None else Some (StoreError ''timeout'')),
     be_HintedHandoff = (\<lambda>_ _ _. None)\<rparr>"

definition quorum_events :: "wr_event list" where
  "quorum_events = [WResult \<lparr>so_NodeID = 3\<rparr> (Some (StoreError ''timeout'')), WResult \<lparr>so_NodeID = 2\<rparr> None,
     WResult \<lparr>so_NodeID = 1\<rparr> None]"

lemmas write_sample_defs = sample_backend_def quorum_events_def sample_shard_def owner_results_def owner_write_def
  write_local_def write_remote_def IsRetryable_def error_text_def writeToShard_def required_writes_def Let_def

lemma quorum_schedule:
  "wr_schedule (owner_results sample_backend ConsistencyLevelQuorum ''db'' ''rp'' 9 pts (si_Owners (sample_shard 9 [1, 2, 3])))
     quorum_events"
  by (simp add: wr_schedule_def write_sample_defs)

lemma quorum_success:
  "fst (writeToShard sample_backend (sample_shard 9 [1, 2, 3]) ''db'' ''rp'' ConsistencyLevelQuorum pts quorum_events
     zero_stats) = None"
  by (simp add: write_sample_defs)

theorem writeToShard_consistent_witness:
  "2 \<le> length (filter (stored sample_backend ''db'' ''rp'' 9 []) (si_Owners (sample_shard 9 [1, 2, 3])))"
  using writeToShard_consistent [OF quorum_success, of "[]"] quorum_schedule [of "[]"]
  by (simp add: sample_shard_def required_writes_def)

text \<open>
  (C8) Two writes to a shard that both succeed at level Quorum are both stored by a common
  owner, as long as no owner is listed twice.
\<close>

theorem quorum_writes_intersect:
  assumes "distinct (si_Owners shard)"
    and "fst (writeToShard be shard db rp ConsistencyLevelQuorum pts evs st) = None"
      "wr_schedule (owner_results be ConsistencyLevelQuorum db rp (si_ID shard) pts (si_Owners shard)) evs"
    and "fst (writeToShard be' shard db rp ConsistencyLevelQuorum pts' evs' st') = None"
      "wr_schedule (owner_results be' ConsistencyLevelQuorum db rp (si_ID shard) pts' (si_Owners shard)) evs'"
  shows "\<exists>ow \<in> set (si_Owners shard). stored be db rp (si_ID shard) pts ow \<and> stored be' db rp (si_ID shard) pts' ow"
proof (rule ccontr)
  assume none: "\<not> ?thesis"
  let ?ows = "si_Owners shard"
  let ?A = "{ow \<in> set ?ows. owner_write be ConsistencyLevelQuorum db rp (si_ID shard) pts ow = None}"
  let ?B = "{ow \<in> set ?ows. owner_write be' ConsistencyLevelQuorum db rp (si_ID shard) pts' ow = None}"
  have q: "length ?ows div 2 + 1 \<le> card ?A" "length ?ows div 2 + 1 \<le> card ?B"
    using writeToShard_success_count [OF assms(2,3)] writeToShard_success_count [OF assms(4,5)] assms(1)
    by (simp_all add: required_writes_def distinct_length_filter Int_def conj_commute)
  have "?A \<inter> ?B = {}" using none owner_write_stored by fastforce
  then have "card ?A + card ?B = card (?A \<union> ?B)" by (simp add: card_Un_disjoint)
  also have "\<dots> \<le> card (set ?ows)" by (rule card_mono) auto
  also have "\<dots> \<le> length ?ows" by (rule card_length)
  finally show False using q by linarith
qed

definition sample_point :: point where
  "sample_point = \<lparr>pt_Time = unix_epoch + 1, pt_HashID = 5, pt_Data = ''a''\<rparr>"

theorem quorum_writes_intersect_witness:
  "\<exists>ow \<in> set (si_Owners (sample_shard 9 [1, 2, 3])).
     stored sample_backend ''db'' ''rp'' 9 [] ow \<and> stored sample_backend ''db'' ''rp'' 9 [sample_point] ow"
  using quorum_writes_intersect [OF _ quorum_success _ quorum_success, of "[]" "[sample_point]"] quorum_schedule
  by (simp add: sample_shard_def)

text \<open>
  (C7) When every owner answers, the outcome does not depend on the order of the answers: the
  write succeeds exactly if enough owners succeed, is a partial write if some but not enough
  do, and otherwise fails with the error of one of the owners.
\<close>

theorem writeToShard_outcome:
  fixes st :: WriteStatistics
  assumes "mset evs = mset (owner_results be c db rp (si_ID shard) pts (si_Owners shard))" "si_Owners shard \<noteq> []"
  defines "n \<equiv> length (filter (\<lambda>ow. owner_write be c db rp (si_ID shard) pts ow = None) (si_Owners shard))"
    and "r \<equiv> fst (writeToShard be shard db rp c pts evs st)"
  shows "(r = None \<longleftrightarrow> required_writes c (length (si_Owners shard)) \<le> n) \<and>
    (r = Some ErrPartialWrite \<longleftrightarrow> 0 < n \<and> n < required_writes c (length (si_Owners shard))) \<and>
    (n = 0 \<longrightarrow> (\<exists>ow e. ow \<in> set (si_Owners shard) \<and> owner_write be c db rp (si_ID shard) pts ow = Some e \<and>
       r = Some (WriteFailed e)))"
proof -
  let ?req = "required_writes c (length (si_Owners shard))"
  let ?res = "owner_results be c db rp (si_ID shard) pts (si_Owners shard)"
  have req: "0 < ?req" using assms(2) by (cases c) (simp_all add: required_writes_def)
  obtain st1 where r: "r = fst (await_results ?req 0 None evs st1)"
    using writeToShard_await [of be shard db rp c pts evs st] unfolding r_def by force
  have set: "set evs = set ?res" using assms(1) by (rule mset_eq_setD)
  have succ: "successes evs = n"
    using assms(1) by (simp add: successes_mset flip: successes_owner_results n_def)
      (simp add: n_def flip: successes_owner_results successes_mset)
  have all: "list_all is_result evs" using set by (auto simp: list_all_iff owner_results_def)
  have out: "r = (if ?req \<le> n then None else if 0 < n then Some ErrPartialWrite
      else fst (await_results ?req 0 None evs st1))"
    using await_results_complete [OF all req, of None st1] unfolding succ add_0 r .
  have failed: "\<exists>ow e. WResult ow (Some e) \<in> set evs \<and> r = Some (WriteFailed e)" if "n = 0"
  proof -
    have "evs \<noteq> []" using set assms(2) by (auto simp: owner_results_def)
    with await_results_failed [OF all _ req] succ that r show ?thesis by simp
  qed
  have "\<exists>ow e. ow \<in> set (si_Owners shard) \<and> owner_write be c db rp (si_ID shard) pts ow = Some e \<and>
      r = Some (WriteFailed e)" if "n = 0"
    using failed [OF that] set by (auto simp: owner_results_def image_iff)
  with out req failed show ?thesis by (cases "n = 0") auto
qed

theorem writeToShard_outcome_witness:
  "fst (writeToShard sample_backend (sample_shard 9 [1, 2, 3]) ''db'' ''rp'' ConsistencyLevelQuorum [] quorum_events
     zero_stats) = None \<and>
   fst (writeToShard sample_backend (sample_shard 9 [1, 2, 3]) ''db'' ''rp'' ConsistencyLevelAll [] quorum_events
     zero_stats) = Some ErrPartialWrite"
proof -
  have q: "mset quorum_events = mset (owner_results sample_backend c ''db'' ''rp'' (si_ID (sample_shard 9 [1, 2, 3])) []
      (si_Owners (sample_shard 9 [1, 2, 3])))" if "c \<noteq> ConsistencyLevelAny" for c
    using that by (simp add: write_sample_defs)
  show ?thesis
    using writeToShard_outcome [OF q [of ConsistencyLevelQuorum], of zero_stats]
      writeToShard_outcome [OF q [of ConsistencyLevelAll], of zero_stats]
    by (simp add: write_sample_defs)
qed

section \<open>Whole requests\<close>

lemma await_shards_None:
  assumes "fst (await_shards res err outer st) = None"
  shows "err = None \<and> (\<forall>sid. OShard sid \<in> set outer \<longrightarrow> res sid = None) \<and> OClosing \<notin> set outer \<and> OTimeout \<notin> set outer"
  using assms by (induction res err outer st rule: await_shards.induct) (auto split: option.splits)

lemma ow_schedule_complete:
  assumes "ow_schedule sids outer" "OClosing \<notin> set outer" "OTimeout \<notin> set outer"
  shows "mset outer = mset (map OShard sids)"
proof (rule ccontr)
  assume "mset outer \<noteq> mset (map OShard sids)"
  then have "outer \<noteq> []" "last outer \<in> {OClosing, OTimeout}" using assms(1) by (auto simp: ow_schedule_def)
  then show False using last_in_set assms(2,3) by (metis empty_iff insert_iff)
qed


definition one_group_client :: "unit MetaClient" where
  "one_group_client = \<lparr>mc_Database = (\<lambda>_ _. None), mc_RetentionPolicy = (\<lambda>_ _ _. Inr (Some sample_policy)),
     mc_CreateShardGroup = (\<lambda>_ _ s t. (Inr (Some (sample_group\<lparr>sgi_Shards := [sample_shard 9 [1, 2, 3]]\<rparr>)), s))\<rparr>"

lemmas map_sample_defs = one_group_client_def MapShards_def Covers_def sgList_Append_def
  ShardGroupAt_def sort_Search_def sort_Search_loop.simps sort_ShardGroupInfos_def insertion_sort_def
  ShardFor_def MapPoint_def NewShardMapping_def scope_min_def sample_point_def


text \<open>
  The conversion of \<open>ErrShardDeletion\<close> into a partial write never happens: whatever the
  stores answer, \<open>writeToShard\<close> wraps their errors, so the result of a shard is never a
  \<open>PartialWriteError\<close> and a batch that hits a shard under deletion fails as a whole.
\<close>

theorem shard_deletion_never_partial:
  "shard_result be db rp c m evs sid \<noteq> Some (PartialWriteError reason n) \<and>
   fst (writeToShard be shard db rp c pts es st) \<noteq> Some (ErrTSDB ErrShardDeletion)"
proof -
  have aw: "fst (await_results k w werr es' st') \<notin> {Some (ErrTSDB e), Some (PartialWriteError reason n)}"
    for k w werr es' st' e
    by (induction k w werr es' st' rule: await_results.induct) (auto split: option.splits)
  have w: "fst (writeToShard be shard db rp c pts es st) \<notin> {Some (ErrTSDB e), Some (PartialWriteError reason n)}"
    for shard pts es st e
    using writeToShard_await [of be shard db rp c pts es st] aw by metis
  show ?thesis
    using w [where e = ErrShardDeletion]
    by (auto simp: shard_result_def Let_def split: option.splits prod.splits if_splits)
qed

text \<open>
  Truncation does not hold within a batch: once a point before the truncation time has
  brought the truncated group into the batch's list, a later point of the batch at or after
  the truncation time is mapped to that group too, although the meta service would create a
  new group for it.
\<close>

theorem MapShards_ignores_truncation:
  defines "g \<equiv> sample_group\<lparr>sgi_Shards := [sample_shard 9 [1]], sgi_TruncatedAt := unix_epoch + 100\<rparr>"
    and "g' \<equiv> sample_group\<lparr>sgi_ID := 2, sgi_Shards := [sample_shard 10 [1]]\<rparr>"
    and "p \<equiv> \<lambda>t. \<lparr>pt_Time = unix_epoch + t, pt_HashID = 5, pt_Data = ''a''\<rparr>"
  defines "mc \<equiv> one_group_client\<lparr>mc_CreateShardGroup := (\<lambda>_ _ s t. (Inr (find (\<lambda>x. accepts x t) [g, g']), s))\<rparr>"
  shows "\<not> accepts g (unix_epoch + 200) \<and>
    map_sum id sm_Shards (fst (MapShards mc unix_epoch ''db'' ''rp'' [p 200] ())) = Inr [(10, sample_shard 10 [1])] \<and>
    map_sum id sm_Shards (fst (MapShards mc unix_epoch ''db'' ''rp'' [p 50, p 200] ())) = Inr [(9, sample_shard 9 [1])]"
  by (simp add: mc_def g_def g'_def p_def map_sample_defs sample_policy_def sample_group_def sample_shard_def
      MinNanoTime_def time_Unix_nano_def Hour_def Second_def Let_def accepts_def Contains_def Deleted_def Truncated_def
      IsZero_def unix_epoch_def)

end
