(* ===== verification/ClientProperties.thy ===== *)
theory ClientProperties
  imports ClusterService MetaProperties
begin

text \<open>
  The properties of the meta client and of the leases: what a successful call means and how
  often it tries, that the authentication cache never lets a stale password in, that a lease
  has one owner at a time, and where the client's local changes fall short.
\<close>

section \<open>Leases\<close>

text \<open>A sequence of requests (time, lease, node) and which of them get the lease.\<close>

fun lease_run :: "(go_time \<times> string \<times> u64) list \<Rightarrow> Leases \<Rightarrow> bool list" where
  "lease_run [] L = []"
| "lease_run ((now, name, nid) # rs) L =
     (let ((e, l), L') = Acquire now name nid L in (e = None) # lease_run rs L')"

lemma length_lease_run [simp]: "length (lease_run rs L) = length rs"
  by (induction rs L rule: lease_run.induct) (auto split: prod.splits)

lemma Acquire_d [simp]: "ls_d (snd (Acquire now name nid L)) = ls_d L"
  by (auto simp: Acquire_def Let_def split: option.splits)

lemma Acquire_other:
  "n \<noteq> name \<Longrightarrow> map_of (ls_m (snd (Acquire now name nid L))) n = map_of (ls_m L) n"
  by (auto simp: Acquire_def Let_def split: option.splits)

lemma Acquire_ok:
  assumes "fst (fst (Acquire now name nid L)) = None"
  shows "\<exists>l. map_of (ls_m (snd (Acquire now name nid L))) name = Some l \<and> le_Owner l = nid \<and>
     le_Expiration l = now + ls_d L"
  using assms by (auto simp: Acquire_def Let_def split: option.splits if_splits)

lemma Acquire_same:
  assumes "map_of (ls_m L) name = Some l" "le_Owner l \<noteq> nid" "fst (fst (Acquire now name nid L)) = None"
  shows "now > le_Expiration l"
  using assms by (auto simp: Acquire_def Let_def split: if_splits)

lemma Acquire_fails: "fst (fst (Acquire now name nid L)) \<noteq> None \<Longrightarrow> snd (Acquire now name nid L) = L"
  by (auto simp: Acquire_def Let_def split: option.splits if_splits)

text \<open>From a lease of \<open>a\<close> that lasts until \<open>t1 + d\<close> on, another node gets it only later than that.\<close>

lemma lease_run_later:
  assumes "sorted (map fst rs)" "\<forall>r \<in> set rs. t1 \<le> fst r"
    and "\<exists>l. map_of (ls_m L) n = Some l \<and> le_Owner l = a \<and> t1 + ls_d L \<le> le_Expiration l"
    and "j < length rs" "lease_run rs L ! j" "rs ! j = (t, n, b)" "b \<noteq> a"
  shows "t1 + ls_d L < t"
  using assms
proof (induction rs arbitrary: L j)
  case (Cons r rs)
  obtain now name nid where r: "r = (now, name, nid)" by (cases r)
  obtain e l' L' where acq: "Acquire now name nid L = ((e, l'), L')" by (metis prod.exhaust)
  have d: "ls_d L' = ls_d L" using Acquire_d [of now name nid L] acq by simp
  obtain l where l: "map_of (ls_m L) n = Some l" "le_Owner l = a" "t1 + ls_d L \<le> le_Expiration l"
    using Cons.prems(3) by blast
  show ?case
  proof (cases "e = None \<and> name = n \<and> nid \<noteq> a")
    case True
    then have "t1 + ls_d L < now" using Acquire_same [of L n l nid now] l acq by force
    moreover have "now \<le> t" using Cons.prems(1,4,6) r
      by (cases j) (auto, metis fst_conv nth_mem)
    ultimately show ?thesis by linarith
  next
    case False
    have "\<exists>l. map_of (ls_m L') n = Some l \<and> le_Owner l = a \<and> t1 + ls_d L' \<le> le_Expiration l"
    proof (cases "e = None \<and> name = n")
      case True
      then show ?thesis using False Acquire_ok [of now name nid L] acq d Cons.prems(2) r by fastforce
    next
      case other: False
      then have "map_of (ls_m L') n = map_of (ls_m L) n"
        using Acquire_other [of n name now nid L] Acquire_fails [of now name nid L] acq by fastforce
      with l d show ?thesis by simp
    qed
    moreover obtain k where "j = Suc k"
      using False Cons.prems(5,6,7) r acq by (cases j) auto
    ultimately show ?thesis using Cons.IH [of L' k] Cons.prems r acq d by simp
  qed
qed simp

text \<open>
  (C22) A lease has one owner at a time: when two nodes both get the same lease, the second one
  gets it more than the lease duration after the first, in every sequence of requests with a
  clock that does not run backwards.
\<close>

theorem lease_exclusive:
  assumes "sorted (map fst rs)" "i < j" "j < length rs"
    and "rs ! i = (t1, name, a)" "rs ! j = (t2, name, b)" "a \<noteq> b"
    and "lease_run rs (NewLeases d) ! i" "lease_run rs (NewLeases d) ! j"
  shows "t1 + d < t2"
proof -
  have "t1 + ls_d L < t2" if "lease_run rs L ! i" "lease_run rs L ! j" for L
    using assms(1-6) that
  proof (induction rs arbitrary: L i j)
    case (Cons r rs)
    obtain now nm nid where r: "r = (now, nm, nid)" by (cases r)
    obtain e l' L' where acq: "Acquire now nm nid L = ((e, l'), L')" by (metis prod.exhaust)
    have d: "ls_d L' = ls_d L" using Acquire_d [of now nm nid L] acq by simp
    obtain j' where j: "j = Suc j'" using Cons.prems(2) by (cases j) auto
    show ?case
    proof (cases i)
      case 0
      with Cons.prems r acq have e: "e = None" "now = t1" "nm = name" "nid = a" by auto
      have "\<exists>l. map_of (ls_m L') name = Some l \<and> le_Owner l = a \<and> t1 + ls_d L' \<le> le_Expiration l"
        using Acquire_ok [of now nm nid L] acq e d by force
      from lease_run_later [OF _ _ this, of rs j' t2 b] Cons.prems r acq e d j show ?thesis by auto
    next
      case (Suc i')
      with Cons.IH [of i' j' L'] Cons.prems r acq d j show ?thesis by auto
    qed
  qed simp
  from this [of "NewLeases d"] assms(7,8) show ?thesis by (simp add: NewLeases_def)
qed

theorem lease_exclusive_witness:
  "lease_run [(0, ''cq'', 1), (5, ''cq'', 2), (11, ''cq'', 2)] (NewLeases 10) = [True, False, True] \<and> (0 :: int) + 10 < 11"
proof -
  let ?rs = "[(0, ''cq'', 1), (5, ''cq'', 2), (11, ''cq'', 2)] :: (go_time \<times> string \<times> u64) list"
  have run: "lease_run ?rs (NewLeases 10) = [True, False, True]"
    by (simp add: NewLeases_def Acquire_def Let_def)
  show ?thesis
    using lease_exclusive [of ?rs 0 2 0 "''cq''" 1 11 2 10] run by simp
qed

section \<open>Submitting commands\<close>

text \<open>
  (C23) A command is posted at most eleven times, whatever the servers answer; and when a
  client that is not closed reports success, some server acknowledged the command and the
  client's cache has caught up with the acknowledged index.
\<close>

theorem retryUntilExec_bounded_and_acknowledged:
  "snd (snd (snd (retryUntilExec (counting sv) cmd c (w, 0)))) \<le> 11 \<and>
   ((\<forall>w. \<not> sv_closing sv w) \<longrightarrow> retryUntilExec sv cmd c w = (None, c', w') \<longrightarrow>
     (\<exists>url w1 a index. sv_post sv url cmd w1 = (a, w') \<and> exec a = Inr index \<and> index \<le> Index (cl_cacheData c')))"
proof -
  obtain e c1 w1 n1 where "retry_exec (counting sv) cmd 0 0 '''' c (w, 0) = (e, c1, w1, n1)"
    by (metis prod.exhaust)
  with retry_exec_bound [OF this] retry_exec_success [of sv cmd 0 0 "''''" c w c' w'] show ?thesis
    by (auto simp: retryUntilExec_def maxRetries_def)
qed

definition busy_service :: "nat service" where
  "busy_service = \<lparr>sv_post = (\<lambda>url cmd n. (if n < 3 then NoAnswer ''refused''
       else Answer 200 '''' (Some \<lparr>rs_OK = False, rs_Error = '''', rs_Index = 5\<rparr>), n + 1)),
     sv_snapshots = (\<lambda>i n. [zero_Data\<lparr>Index := 5\<rparr>]), sv_closing = (\<lambda>n. False), sv_save = True\<rparr>"

theorem retryUntilExec_bounded_and_acknowledged_witness:
  "\<exists>url w1 a index. sv_post busy_service url (DropUserCommand ''u'') w1 = (a, 4) \<and> exec a = Inr index \<and> index \<le> 5"
proof -
  let ?c = "(NewClient 0 None)\<lparr>cl_metaServers := [''m'', ''n'']\<rparr>"
  have "\<exists>c'. retryUntilExec busy_service (DropUserCommand ''u'') ?c 0 = (None, c', 4) \<and> Index (cl_cacheData c') = 5"
    by (simp add: retryUntilExec_def retry_exec.simps busy_service_def exec_url_def NewClient_def exec_def maxRetries_def
        redirect_of_def is_command_error_def waitForIndex.simps zero_Data_def word_le_nat_alt)
  then obtain c' where r: "retryUntilExec busy_service (DropUserCommand ''u'') ?c 0 = (None, c', 4)"
    "Index (cl_cacheData c') = 5" by blast
  have "\<forall>w. \<not> sv_closing busy_service w" by (simp add: busy_service_def)
  with retryUntilExec_bounded_and_acknowledged [of busy_service "DropUserCommand ''u''" ?c 0 c' 4] r
  show ?thesis by simp
qed

section \<open>Authentication\<close>

text \<open>
  The states a client goes through: it starts empty, takes over snapshots of the meta store,
  in which user names are unique, authenticates users, and commits local changes, which leave
  the users alone.
\<close>

inductive client_reach :: "bcrypt_compare \<Rightarrow> (byte list \<Rightarrow> byte list) \<Rightarrow> Client \<Rightarrow> bool" for cmp sha256 where
  start: "client_reach cmp sha256 (NewClient rand n)"
| poll: "client_reach cmp sha256 c \<Longrightarrow> distinct (map ui_Name (Users d)) \<Longrightarrow> client_reach cmp sha256 (poll_update save d c)"
| auth: "client_reach cmp sha256 c \<Longrightarrow> client_reach cmp sha256 (snd (Authenticate cmp sha256 crand u p c))"
| drop: "client_reach cmp sha256 c \<Longrightarrow> client_reach cmp sha256 (snd (client_DropShard snap now sid c))"
| truncate: "client_reach cmp sha256 c \<Longrightarrow> client_reach cmp sha256 (snd (client_TruncateShardGroups snap t c))"
| prune: "client_reach cmp sha256 c \<Longrightarrow> client_reach cmp sha256 (snd (PruneShardGroups snap now c))"

text \<open>Every cached entry was made from a password that the user's present hash accepts.\<close>

definition cache_sound :: "bcrypt_compare \<Rightarrow> (byte list \<Rightarrow> byte list) \<Rightarrow> Client \<Rightarrow> bool" where
  "cache_sound cmp sha256 c \<longleftrightarrow> (\<forall>n au. map_of (cl_authCache c) n = Some au \<longrightarrow>
     (\<exists>u pw. data_user (cl_cacheData c) n = Some u \<and> ui_Hash u = au_bhash au \<and> cmp (au_bhash au) pw \<and>
        hashWithSalt sha256 (au_salt au) pw = au_hash au))"

lemma updateAuthCache_entry:
  assumes "map_of (cl_authCache (updateAuthCache c)) n = Some au"
  shows "map_of (cl_authCache c) n = Some au \<and>
    (\<exists>u \<in> set (Users (cl_cacheData c)). ui_Name u = n \<and> ui_Hash u = au_bhash au)"
proof -
  let ?step = "\<lambda>newCache u. case map_of (cl_authCache c) (ui_Name u) of
      Some cached \<Rightarrow> if au_bhash cached = ui_Hash u then map_put (ui_Name u) cached newCache else newCache
    | None \<Rightarrow> newCache"
  have "map_of (foldl ?step nc us) n = Some au \<Longrightarrow> map_of nc n = Some au \<or>
      (map_of (cl_authCache c) n = Some au \<and> (\<exists>u \<in> set us. ui_Name u = n \<and> ui_Hash u = au_bhash au))" for us nc
  proof (induction us arbitrary: nc)
    case (Cons u us)
    have step: "map_of (?step nc u) n = Some au \<Longrightarrow> map_of nc n = Some au \<or>
        (map_of (cl_authCache c) n = Some au \<and> ui_Name u = n \<and> ui_Hash u = au_bhash au)"
      by (auto split: option.splits if_splits)
    from Cons.IH [OF Cons.prems [unfolded foldl_Cons]] step show ?case by auto
  qed simp
  from this [of "[]" "Users (cl_cacheData c)"] assms show ?thesis by (simp add: updateAuthCache_def)
qed

lemma data_user_distinct:
  "distinct (map ui_Name (Users d)) \<Longrightarrow> u \<in> set (Users d) \<Longrightarrow> data_user d (ui_Name u) = Some u"
  unfolding data_user_def by (induction "Users d" arbitrary: d) (auto simp: find_Some_iff in_set_conv_nth distinct_conv_nth)

lemma cache_sound_poll:
  assumes "cache_sound cmp sha256 c" "distinct (map ui_Name (Users d))"
  shows "cache_sound cmp sha256 (poll_update save d c)"
  unfolding cache_sound_def
proof (intro allI impI)
  fix n au assume "map_of (cl_authCache (poll_update save d c)) n = Some au"
  then have "map_of (cl_authCache (updateAuthCache (c\<lparr>cl_cacheData := d\<rparr>))) n = Some au"
    by (auto simp: poll_update_def updateMetaPeers_def Let_def split: option.splits if_splits)
  from updateAuthCache_entry [OF this] obtain u where u: "map_of (cl_authCache c) n = Some au" "u \<in> set (Users d)"
      "ui_Name u = n" "ui_Hash u = au_bhash au" by auto
  with assms(1) obtain pw where "cmp (au_bhash au) pw" "hashWithSalt sha256 (au_salt au) pw = au_hash au"
    unfolding cache_sound_def by blast
  with u data_user_distinct [OF assms(2) u(2)]
  show "\<exists>u pw. data_user (cl_cacheData (poll_update save d c)) n = Some u \<and> ui_Hash u = au_bhash au \<and>
      cmp (au_bhash au) pw \<and> hashWithSalt sha256 (au_salt au) pw = au_hash au" by auto
qed

lemma cache_sound_commit:
  assumes "cache_sound cmp sha256 c" "Users d = Users (cl_cacheData c)"
  shows "cache_sound cmp sha256 (snd (commit snap d c))"
  using assms by (auto simp: commit_def Let_def cache_sound_def data_user_def split: option.splits)

lemma Users_local [simp]:
  "Users (DropShard now sid d) = Users d" "Users (TruncateShardGroups t d) = Users d"
  by (auto simp: DropShard_def TruncateShardGroups_def Let_def split: prod.splits)

lemma cache_sound_Authenticate:
  assumes "cache_sound cmp sha256 c"
  shows "cache_sound cmp sha256 (snd (Authenticate cmp sha256 crand u p c))"
  using assms
  by (auto simp: Authenticate_def cache_sound_def saltedHash_def Let_def split: option.splits sum.splits)

lemma client_reach_cache_sound: "client_reach cmp sha256 c \<Longrightarrow> cache_sound cmp sha256 c"
proof (induction rule: client_reach.induct)
  case (start rand n)
  show ?case by (simp add: cache_sound_def NewClient_def)
next
  case (prune c snap now)
  then show ?case by (auto simp: PruneShardGroups_def Let_def intro: cache_sound_commit)
qed (auto intro: cache_sound_poll cache_sound_Authenticate cache_sound_commit
    simp: client_DropShard_def client_TruncateShardGroups_def)



section \<open>Changes of the cache\<close>

text \<open>
  (C31) \<open>PruneShardGroups\<close> forgets exactly the shard groups that were deleted more than two
  weeks ago: of each policy the other groups remain, in order, and nothing else changes but
  the index.
\<close>

theorem PruneShardGroups_exact:
  assumes "PruneShardGroups snap now c = (None, c')" "find_rp (cl_cacheData c) db rp = Inr rpi"
  shows "find_rp (cl_cacheData c') db rp =
    Inr (rpi\<lparr>rpi_ShardGroups := filter (\<lambda>g. \<not> (Deleted g \<and> sgi_DeletedAt g < now - 336 * Hour)) (rpi_ShardGroups rpi)\<rparr>) \<and>
    (cl_cacheData c')\<lparr>Databases := Databases (cl_cacheData c), Index := Index (cl_cacheData c)\<rparr> = cl_cacheData c"
proof -
  let ?ex = "now + ShardGroupDeletedExpiration"
  let ?prune = "\<lambda>rp. rp\<lparr>rpi_ShardGroups := filter (prune_keeps ?ex) (rpi_ShardGroups rp)\<rparr>"
  let ?db = "\<lambda>d. d\<lparr>di_RetentionPolicies := map ?prune (di_RetentionPolicies d)\<rparr>"
  have keeps: "prune_keeps ?ex = (\<lambda>g. \<not> (Deleted g \<and> sgi_DeletedAt g < now - 336 * Hour))"
    by (auto simp: fun_eq_iff prune_keeps_def Deleted_def ShardGroupDeletedExpiration_def)
  have find_map: "find P (map f xs) = map_option f (find (\<lambda>x. P (f x)) xs)" for P f and xs :: "'z list"
    by (induction xs) auto
  have id: "?prune r = r" if "\<forall>g \<in> set (rpi_ShardGroups r). prune_keeps ?ex g" for r
    using that by (simp add: filter_id_conv)
  obtain di where di: "find (\<lambda>d. di_Name d = db) (Databases (cl_cacheData c)) = Some di"
      "find (\<lambda>r. rpi_Name r = rp) (di_RetentionPolicies di) = Some rpi"
    using assms(2) by (auto simp: find_rp_Inr)
  show ?thesis
  proof (cases "list_ex (\<lambda>d. list_ex (\<lambda>r. list_ex (\<lambda>g. \<not> prune_keeps ?ex g) (rpi_ShardGroups r))
      (di_RetentionPolicies d)) (Databases (cl_cacheData c))")
    case True
    with assms(1) have "cl_cacheData c' = (cl_cacheData c)\<lparr>Databases := map ?db (Databases (cl_cacheData c)),
        Index := Index (cl_cacheData c) + 1\<rparr>"
      by (auto simp: PruneShardGroups_def Let_def commit_def split: option.splits)
    moreover from this di have "find_rp (cl_cacheData c') db rp = Inr (?prune rpi)"
      by (auto simp: find_rp_Inr find_map o_def)
    ultimately show ?thesis by (simp add: keeps)
  next
    case False
    with assms(1) have "c' = c" by (simp add: PruneShardGroups_def Let_def)
    moreover have "?prune rpi = rpi"
      using False find_SomeD [OF di(1)] find_SomeD [OF di(2)] by (intro id) (auto simp: list_ex_iff)
    ultimately show ?thesis using assms(2) by (simp add: keeps)
  qed
qed

definition pruned_client :: Client where
  "pruned_client = (NewClient 0 None)\<lparr>cl_cacheData := sample_data\<rparr>"

theorem PruneShardGroups_exact_witness:
  "find_rp (cl_cacheData (snd (PruneShardGroups (\<lambda>_. None) (unix_epoch + 400 * Hour) pruned_client))) ''db'' ''rp'' =
     Inr sample_policy"
proof -
  have p: "PruneShardGroups (\<lambda>_. None) (unix_epoch + 400 * Hour) pruned_client = (None, pruned_client)"
    by (simp add: PruneShardGroups_def pruned_client_def sample_data_def sample_policy_def sample_group_def prune_keeps_def
        IsZero_def Let_def)
  have "find_rp (cl_cacheData pruned_client) ''db'' ''rp'' = Inr sample_policy"
    by (simp add: pruned_client_def sample_find_rp)
  from PruneShardGroups_exact [OF p this] show ?thesis
    by (simp add: p) (simp add: sample_policy_def sample_group_def Deleted_def IsZero_def)
qed

text \<open>
  \<open>PrecreateShardGroups\<close> returns after the first database: here the policy of the second
  one has a last group that ends within the window, and the client neither posts a command
  nor changes anything.
\<close>

theorem PrecreateShardGroups_skips_databases:
  defines "c \<equiv> pruned_client\<lparr>cl_cacheData := sample_data\<lparr>Databases :=
      new_DatabaseInfo ''first'' # Databases sample_data\<rparr>\<rparr>"
  shows "PrecreateShardGroups sv unix_epoch (unix_epoch + 2 * Hour) c w = (None, c, w) \<and>
    find_rp (cl_cacheData c) ''db'' ''rp'' = Inr sample_policy \<and>
    \<not> Deleted (last (rpi_ShardGroups sample_policy)) \<and>
    unix_epoch < sgi_EndTime (last (rpi_ShardGroups sample_policy)) \<and>
    sgi_EndTime (last (rpi_ShardGroups sample_policy)) < unix_epoch + 2 * Hour"
  by (simp add: c_def PrecreateShardGroups_def new_DatabaseInfo_def find_rp_def RetentionPolicy_def Database_def
      sample_data_def sample_policy_def sample_group_def Deleted_def IsZero_def Hour_def Second_def)

end
