(* ===== verification/Binary.thy ===== *)
theory Binary
  imports Prelude
begin

text \<open>
  Package \<open>encoding/binary\<close>: big-endian integers and variable-length integers, as used by the
  segments of hinted handoff and the blocks of TSM files.
\<close>

unbundle bit_operations_syntax

section \<open>Big-endian integers\<close>

definition PutUint64 :: "u64 \<Rightarrow> byte list" where
  "PutUint64 v = map (\<lambda>i. ucast (drop_bit (56 - 8 * i) v)) [0, 1, 2, 3, 4, 5, 6, 7]"

definition Uint64 :: "byte list \<Rightarrow> u64" where
  "Uint64 b = foldl (\<lambda>acc x. push_bit 8 acc OR ucast x) 0 (take 8 b)"

lemma length_PutUint64 [simp]: "length (PutUint64 v) = 8"
  by (simp add: PutUint64_def)

lemma PutUint64_nonempty [simp]: "PutUint64 v \<noteq> []"
  by (simp add: PutUint64_def)

lemma Uint64_step:
  fixes v :: u64
  shows "push_bit 8 (drop_bit (k + 8) v) OR ucast (ucast (drop_bit k v) :: byte) = drop_bit k v"
proof (rule bit_word_eqI)
  fix n assume n: "n < LENGTH(64)"
  show "bit (push_bit 8 (drop_bit (k + 8) v) OR ucast (ucast (drop_bit k v) :: byte)) n = bit (drop_bit k v) n"
  proof (cases "n < 8")
    case True
    with n show ?thesis by (simp add: bit_or_iff bit_push_bit_iff bit_ucast_iff bit_drop_bit_eq)
  next
    case False
    then have "k + 8 + (n - 8) = k + n" by simp
    with n False show ?thesis by (simp add: bit_or_iff bit_push_bit_iff bit_ucast_iff bit_drop_bit_eq)
  qed
qed

lemma Uint64_PutUint64 [simp]: "Uint64 (PutUint64 v) = v"
proof -
  have "drop_bit 64 v = 0" by (rule bit_word_eqI) (simp add: bit_drop_bit_eq)
  then show ?thesis
    using Uint64_step [of 56 v] Uint64_step [of 48 v] Uint64_step [of 40 v] Uint64_step [of 32 v]
      Uint64_step [of 24 v] Uint64_step [of 16 v] Uint64_step [of 8 v] Uint64_step [of 0 v]
    by (simp add: Uint64_def PutUint64_def)
qed

lemma u64_of_nat:
  assumes "n < 2 ^ 63"
  shows "sint (of_nat n :: u64) = int n" "unat (of_nat n :: u64) = n"
proof -
  show "unat (of_nat n :: u64) = n" using assms by (simp add: unat_of_nat take_bit_nat_eq_self)
  have "sint (word_of_int (int n) :: u64) = signed_take_bit 63 (int n)" by (subst sint_sbintrunc') simp
  also have "\<dots> = int n" using assms by (simp add: signed_take_bit_int_eq_self)
  finally show "sint (of_nat n :: u64) = int n" by simp
qed

section \<open>Variable-length integers\<close>

text \<open>Seven bits to a byte, the lowest first; the highest bit of a byte says that more follow.\<close>

function PutUvarint :: "u64 \<Rightarrow> byte list" where
  "PutUvarint x = (if x \<ge> 0x80 then (ucast x OR 0x80) # PutUvarint (drop_bit 7 x) else [ucast x])"
  by auto
termination
  by (relation "measure unat") (auto simp: unat_drop_bit_eq drop_bit_eq_div word_le_nat_alt unat_div)

declare PutUvarint.simps [simp del]

text \<open>The result is the integer and the number of bytes read, not positive if there is none.\<close>

fun uvarint_loop :: "nat \<Rightarrow> u64 \<Rightarrow> nat \<Rightarrow> byte list \<Rightarrow> u64 \<times> int" where
  "uvarint_loop i x s [] = (0, 0)"
| "uvarint_loop i x s (b # buf) =
     (if i = 10 then (0, - (int i + 1))
      else if b < 0x80 then
        (if i = 9 \<and> b > 1 then (0, - (int i + 1)) else (x OR push_bit s (ucast b), int i + 1))
      else uvarint_loop (i + 1) (x OR push_bit s (ucast (b AND 0x7f))) (s + 7) buf)"

definition Uvarint :: "byte list \<Rightarrow> u64 \<times> int" where
  "Uvarint buf = uvarint_loop 0 0 0 buf"

lemma PutUvarint_nonempty [simp]: "PutUvarint x \<noteq> []"
  by (subst PutUvarint.simps) simp

text \<open>The low seven bits of a byte that says that more follow, and the bits above them.\<close>

lemma bit_word_less:
  fixes w :: "'a::len word"
  assumes "unat w < 2 ^ n" "n \<le> m"
  shows "\<not> bit w m"
proof -
  have "unat w < 2 ^ m" using assms power_increasing [OF assms(2), of "2 :: nat"] by linarith
  then have "\<not> bit (unat w) m" by (simp add: bit_iff_odd)
  then show ?thesis by (simp add: bit_unsigned_iff)
qed

lemma uvarint_byte:
  fixes x :: u64
  shows "((ucast x OR 0x80 :: byte) < 0x80) = False" "(ucast x OR 0x80 :: byte) AND 0x7f = ucast x AND 0x7f"
proof -
  have "bit (ucast x OR 0x80 :: byte) 7" by (simp add: bit_or_iff bit_numeral_word_iff)
  then show "((ucast x OR 0x80 :: byte) < 0x80) = False"
    using bit_word_less [of "ucast x OR 0x80 :: byte" 7 7] by (auto simp: word_less_nat_alt)
  show "(ucast x OR 0x80 :: byte) AND 0x7f = ucast x AND 0x7f"
    by (simp add: bit.conj_disj_distrib2)
qed

lemma byte_low: "(ucast x AND 0x7f :: byte) = take_bit 7 (ucast (x :: u64))"
  by (simp add: take_bit_eq_mask mask_numeral)

lemma uvarint_split:
  fixes x :: u64
  assumes "k + 7 \<le> 64"
  shows "push_bit k (ucast (ucast x AND 0x7f :: byte)) OR push_bit (k + 7) (drop_bit 7 x) = push_bit k x"
  unfolding byte_low
proof (rule bit_word_eqI)
  fix n assume n: "n < LENGTH(64)"
  show "bit (push_bit k (ucast (take_bit 7 (ucast x :: byte))) OR push_bit (k + 7) (drop_bit 7 x)) n = bit (push_bit k x) n"
  proof (cases "n < k + 7")
    case True
    with n show ?thesis by (auto simp: bit_or_iff bit_push_bit_iff bit_ucast_iff bit_take_bit_iff)
  next
    case False
    then have "7 + (n - (k + 7)) = n - k" by simp
    with n False show ?thesis by (auto simp: bit_or_iff bit_push_bit_iff bit_ucast_iff bit_take_bit_iff bit_drop_bit_eq)
  qed
qed
lemma uvarint_last:
  fixes v :: u64
  assumes "unat v < 128"
  shows "(ucast v :: byte) < 0x80" "ucast (ucast v :: byte) = v" "unat (ucast v :: byte) = unat v"
proof -
  show u: "unat (ucast v :: byte) = unat v" using assms by (simp add: unsigned_ucast_eq take_bit_nat_eq_self)
  with assms show "(ucast v :: byte) < 0x80" by (simp add: word_less_nat_alt)
  from u show "ucast (ucast v :: byte) = v" 
    using assms by (intro word_unat_eq_iff [THEN iffD2]) (simp add: unsigned_ucast_eq unsigned_take_bit_eq take_bit_nat_eq_self)
qed

lemma uvarint_loop_PutUvarint:
  assumes "i \<le> 9" "unat v < 2 ^ (64 - 7 * i)"
  shows "uvarint_loop i x (7 * i) (PutUvarint v @ rest) =
    (x OR push_bit (7 * i) v, int (i + length (PutUvarint v))) \<and> i + length (PutUvarint v) \<le> 10"
  using assms
proof (induction v arbitrary: i x rule: PutUvarint.induct)
  case (1 v)
  show ?case
  proof (cases "v \<ge> 0x80")
    case True
    then have "unat v \<ge> 128" by (simp add: word_le_nat_alt)
    with 1(3) have "(2::nat) ^ 7 < 2 ^ (64 - 7 * i)" by simp
    then have i: "7 < 64 - 7 * i" by (rule power_less_imp_less_exp [rotated]) simp
    then have "64 - 7 * i = 7 + (64 - 7 * (i + 1))" by simp
    then have "(2::nat) ^ (64 - 7 * i) = 2 ^ 7 * 2 ^ (64 - 7 * (i + 1))" by (simp only: power_add)
    with 1(3) have "unat (drop_bit 7 v) < 2 ^ (64 - 7 * (i + 1))"
      by (simp add: unat_drop_bit_eq drop_bit_eq_div unat_div div_less_iff_less_mult mult.commute)
    moreover from i have i8: "i \<le> 8" by simp
    moreover have "(x OR push_bit (7 * i) (ucast (ucast v AND 0x7f :: byte))) OR push_bit (7 + 7 * i) (drop_bit 7 v) =
        x OR push_bit (7 * i) v" for x
      using uvarint_split [of "7 * i" v] i8 by (simp add: or.assoc add.commute)
    ultimately show ?thesis
      using 1(1) [OF True, of "i + 1"] True by (subst (1 2 3) PutUvarint.simps) (simp add: uvarint_byte add.commute [of "7 * i" 7])
  next
    case False
    then have "unat v < 128" by (simp add: word_le_nat_alt)
    moreover have "unat v \<le> 1" if "i = 9" using 1(3) that by simp
    ultimately show ?thesis
      using uvarint_last [of v] 1(2) False by (subst (1 2 3) PutUvarint.simps) (auto simp: word_less_nat_alt)
  qed
qed

lemma Uvarint_PutUvarint: "Uvarint (PutUvarint v @ rest) = (v, int (length (PutUvarint v)))"
  and length_PutUvarint: "length (PutUvarint v) \<le> 10"
proof -
  have "unat v < 2 ^ 64" using unsigned_less [of v] by simp
  then show "Uvarint (PutUvarint v @ rest) = (v, int (length (PutUvarint v)))" "length (PutUvarint v) \<le> 10"
    using uvarint_loop_PutUvarint [of 0 v 0 rest] by (simp_all add: Uvarint_def)
qed


lemma length_PutUvarint_bound: "unat v < 2 ^ (7 * Suc k) \<Longrightarrow> length (PutUvarint v) \<le> Suc k"
proof (induction v arbitrary: k rule: PutUvarint.induct)
  case (1 v)
  show ?case
  proof (cases "v \<ge> 0x80")
    case True
    then have "unat v \<ge> 2 ^ 7" by (simp add: word_le_nat_alt)
    with 1(2) have k: "0 < k" by (cases k) auto
    then have "(2::nat) ^ (7 * Suc k) = 2 ^ 7 * 2 ^ (7 * Suc (k - 1))" by (cases k) (simp_all add: power_add)
    with 1(2) have "unat (drop_bit 7 v) < 2 ^ (7 * Suc (k - 1))"
      by (simp add: unat_drop_bit_eq drop_bit_eq_div unat_div div_less_iff_less_mult mult.commute)
    from 1(1) [OF True this] k True show ?thesis by (subst PutUvarint.simps) simp
  qed (subst PutUvarint.simps, simp)
qed

end
