(* ===== verification/HHSegment.thy ===== *)
theory HHSegment
  imports Binary
begin

text \<open>
  A segment of the hinted handoff queue (\<open>services/hh/queue.go\<close>), down to the bytes of its
  file: blocks of a big-endian length and a body, and a footer with the offset of the current
  block.  Every operation is the sequence of seeks, reads and writes of the code.  The disk
  works: a write succeeds, a read fails at the end of the file only.
\<close>

section \<open>Segments and their files\<close>

datatype hh_error =
    ErrNotOpen
  | ErrQueueFull
  | ErrSegmentFull
  | EOF
  | HHError string
  | HHPanic

text \<open>\<open>sg_off\<close> is the offset of the open file, \<open>None\<close> for a file that is closed; \<open>sg_path\<close> is the
  file name, a number; numbering the files stays below \<open>2 ^ 64\<close>.\<close>

record segment =
  sg_size :: int
  sg_off :: "nat option"
  sg_path :: nat
  sg_pos :: int
  sg_currentSize :: int
  sg_maxSize :: int

definition footerSize :: int where
  "footerSize = 8"

text \<open>A fallible computation on a segment and the bytes of its file.\<close>

type_synonym 'a seg_io = "segment \<times> byte list \<Rightarrow> (hh_error + 'a) \<times> segment \<times> byte list"

definition io_return :: "'a \<Rightarrow> 'a seg_io" where
  "io_return x st = (Inr x, st)"

definition io_throw :: "hh_error \<Rightarrow> 'a seg_io" where
  "io_throw e st = (Inl e, st)"

definition io_bind :: "'a seg_io \<Rightarrow> ('a \<Rightarrow> 'b seg_io) \<Rightarrow> 'b seg_io" where
  "io_bind m f st = (case m st of (Inl e, st') \<Rightarrow> (Inl e, st') | (Inr x, st') \<Rightarrow> f x st')"

definition io_then :: "unit seg_io \<Rightarrow> 'b seg_io \<Rightarrow> 'b seg_io" where
  "io_then m k = io_bind m (\<lambda>_. k)"

definition with_seg :: "(segment \<Rightarrow> 'a seg_io) \<Rightarrow> 'a seg_io" where
  "with_seg f st = f (fst st) st"

definition upd_seg :: "(segment \<Rightarrow> segment) \<Rightarrow> unit seg_io" where
  "upd_seg f st = (Inr (), f (fst st), snd st)"

lemmas io_defs = io_return_def io_throw_def io_bind_def io_then_def with_seg_def upd_seg_def

definition write_at :: "nat \<Rightarrow> byte list \<Rightarrow> byte list \<Rightarrow> byte list" where
  "write_at off b data =
     take off (data @ replicate (off - length data) 0) @ b @ drop (off + length b) data"

definition seek_to :: "int \<Rightarrow> unit seg_io" where
  "seek_to pos = with_seg (\<lambda>l.
     if sg_off l = None \<or> pos < 0 then io_throw (HHError ''invalid argument'')
     else upd_seg (\<lambda>l. l\<lparr>sg_off := Some (nat pos)\<rparr>))"

definition seekToCurrent :: "unit seg_io" where
  "seekToCurrent = with_seg (\<lambda>l. seek_to (sg_pos l))"

definition seekEnd :: "int \<Rightarrow> unit seg_io" where
  "seekEnd k st = seek_to (int (length (snd st)) + k) st"

definition writeBytes :: "byte list \<Rightarrow> unit seg_io" where
  "writeBytes b st =
     (case sg_off (fst st) of
        None \<Rightarrow> (Inl (HHError ''invalid argument''), st)
      | Some off \<Rightarrow> (Inr (), (fst st)\<lparr>sg_off := Some (off + length b)\<rparr>, write_at off b (snd st)))"

definition readBytes :: "nat \<Rightarrow> byte list seg_io" where
  "readBytes n st =
     (case sg_off (fst st) of
        None \<Rightarrow> (Inl (HHError ''invalid argument''), st)
      | Some off \<Rightarrow>
          if n = 0 then (Inr [], st)
          else if drop off (snd st) = [] then (Inl EOF, st)
          else
            (let got = take n (drop off (snd st));
                 l' = (fst st)\<lparr>sg_off := Some (off + length got)\<rparr>
             in if length got \<noteq> n then (Inl (HHError ''bad read''), l', snd st) else (Inr got, l', snd st)))"

definition writeUint64 :: "u64 \<Rightarrow> unit seg_io" where
  "writeUint64 sz = writeBytes (PutUint64 sz)"

definition readUint64 :: "u64 seg_io" where
  "readUint64 = io_bind (readBytes 8) (\<lambda>b. io_return (Uint64 b))"

section \<open>Operations\<close>

definition segment_open :: "unit seg_io" where
  "segment_open = with_seg (\<lambda>l.
     if sg_size l = 0 then
       io_then (upd_seg (\<lambda>l. l\<lparr>sg_pos := 0, sg_currentSize := 0\<rparr>))
         (io_then (writeUint64 0) (upd_seg (\<lambda>l. l\<lparr>sg_size := footerSize\<rparr>)))
     else
       io_then (seekEnd (- footerSize))
         (io_bind readUint64 (\<lambda>pos.
            io_then (upd_seg (\<lambda>l. l\<lparr>sg_pos := sint pos\<rparr>))
              (io_then seekToCurrent
                 (with_seg (\<lambda>l.
                    if sg_pos l < sg_size l - footerSize
                    then io_bind readUint64 (\<lambda>sz. upd_seg (\<lambda>l. l\<lparr>sg_currentSize := sint sz\<rparr>))
                    else io_return ()))))))"

text \<open>Opening the file \<open>path\<close> with its present content (none when it is created).\<close>

definition newSegment :: "nat \<Rightarrow> byte list \<Rightarrow> int \<Rightarrow> (hh_error + unit) \<times> segment \<times> byte list" where
  "newSegment path data maxSize =
     segment_open (\<lparr>sg_size = int (length data), sg_off = Some 0, sg_path = path, sg_pos = 0,
       sg_currentSize = 0, sg_maxSize = maxSize\<rparr>, data)"

definition segment_append :: "byte list \<Rightarrow> unit seg_io" where
  "segment_append b = with_seg (\<lambda>l.
     if sg_off l = None then io_throw ErrNotOpen
     else if sg_size l + int (length b) > sg_maxSize l then io_throw ErrSegmentFull
     else
       io_then (seekEnd (- footerSize))
         (io_then (writeUint64 (of_nat (length b)))
            (io_then (writeBytes b)
               (io_then (with_seg (\<lambda>l. writeUint64 (word_of_int (sg_pos l))))
                  (io_then (upd_seg (\<lambda>l. if sg_currentSize l = 0 then l\<lparr>sg_currentSize := int (length b)\<rparr> else l))
                     (upd_seg (\<lambda>l. l\<lparr>sg_size := sg_size l + int (length b) + 8\<rparr>)))))))"

definition segment_current :: "byte list seg_io" where
  "segment_current = with_seg (\<lambda>l.
     if sg_pos l = sg_size l - 8 then io_throw EOF
     else
       io_then seekToCurrent
         (io_bind readUint64 (\<lambda>sz.
            io_then (upd_seg (\<lambda>l. l\<lparr>sg_currentSize := sint sz\<rparr>))
              (with_seg (\<lambda>l.
                 if sint sz > sg_maxSize l then io_throw (HHError ''record size out of range'')
                 else if sint sz < 0 then io_throw HHPanic
                 else readBytes (unat sz))))))"

definition segment_advance :: "unit seg_io" where
  "segment_advance = with_seg (\<lambda>l.
     if sg_off l = None then io_throw ErrNotOpen
     else if sg_pos l = sg_size l - footerSize
     then io_then (upd_seg (\<lambda>l. l\<lparr>sg_currentSize := 0\<rparr>)) (io_throw EOF)
     else
       let pos = sg_pos l + sg_currentSize l + 8 in
       io_then (seekEnd (- footerSize))
         (io_then (writeUint64 (word_of_int pos))
            (io_then (upd_seg (\<lambda>l. l\<lparr>sg_pos := pos\<rparr>))
               (io_then seekToCurrent
                  (io_bind readUint64 (\<lambda>sz.
                     io_then (upd_seg (\<lambda>l. l\<lparr>sg_currentSize := sint sz\<rparr>))
                       (with_seg (\<lambda>l.
                          if sg_pos l = sg_size l - footerSize
                          then io_then (upd_seg (\<lambda>l. l\<lparr>sg_currentSize := 0\<rparr>)) (io_throw EOF)
                          else io_return ()))))))))"

definition segment_close :: "segment \<Rightarrow> segment" where
  "segment_close l = l\<lparr>sg_off := None\<rparr>"

definition segment_SetMaxSegmentSize :: "int \<Rightarrow> segment \<Rightarrow> segment" where
  "segment_SetMaxSegmentSize maxSize l = l\<lparr>sg_maxSize := maxSize\<rparr>"

section \<open>The blocks of a segment\<close>

definition encode_block :: "byte list \<Rightarrow> byte list" where
  "encode_block b = PutUint64 (of_nat (length b)) @ b"

definition encode_blocks :: "byte list list \<Rightarrow> byte list" where
  "encode_blocks bs = concat (map encode_block bs)"

text \<open>
  The file of a segment: blocks that were read already, blocks still to be read, and the
  footer; the fields of the segment agree with it.
\<close>

definition seg_holds :: "segment \<Rightarrow> byte list \<Rightarrow> byte list list \<Rightarrow> byte list list \<Rightarrow> bool" where
  "seg_holds l data done pending \<longleftrightarrow>
     data = encode_blocks (done @ pending) @ PutUint64 (word_of_int (sg_pos l)) \<and>
     sg_pos l = int (length (encode_blocks done)) \<and> sg_size l = int (length data) \<and>
     sg_size l < 2 ^ 62 \<and> sg_maxSize l < 2 ^ 61 \<and>
     sg_currentSize l = (case pending of [] \<Rightarrow> 0 | b # _ \<Rightarrow> int (length b)) \<and>
     (\<forall>b \<in> set (done @ pending). b \<noteq> [] \<and> int (length b) \<le> sg_maxSize l) \<and> sg_off l \<noteq> None"

lemma encode_blocks_simps [simp]:
  "encode_blocks [] = []" "encode_blocks (b # bs) = encode_block b @ encode_blocks bs"
  "encode_blocks (bs @ cs) = encode_blocks bs @ encode_blocks cs"
  by (simp_all add: encode_blocks_def)

lemma length_encode_block [simp]: "length (encode_block b) = length b + 8"
  by (simp add: encode_block_def)

lemma write_at_end: "length b \<ge> 8 \<Longrightarrow> length f = 8 \<Longrightarrow> write_at (length xs) b (xs @ f) = xs @ b"
  by (simp add: write_at_def)

lemma write_at_append [simp]: "write_at (length xs) b xs = xs @ b"
  by (simp add: write_at_def)

lemmas seg_op_defs = io_defs seekEnd_def seek_to_def seekToCurrent_def writeUint64_def writeBytes_def readUint64_def
  readBytes_def write_at_def footerSize_def

lemma segment_append_run:
  assumes "sg_off l \<noteq> None" "length f = 8" "sg_size l + int (length b) \<le> sg_maxSize l"
  shows "segment_append b (l, e @ f) =
    (Inr (), l\<lparr>sg_off := Some (length e + length b + 16),
        sg_currentSize := if sg_currentSize l = 0 then int (length b) else sg_currentSize l,
        sg_size := sg_size l + int (length b) + 8\<rparr>,
      e @ encode_block b @ PutUint64 (word_of_int (sg_pos l)))"
proof -
  obtain off where "sg_off l = Some off" using assms(1) by blast
  with assms show ?thesis by (simp add: segment_append_def seg_op_defs encode_block_def)
qed

lemma segment_append_holds:
  assumes h: "seg_holds l data done pending" and b: "b \<noteq> []" "sg_size l + int (length b) \<le> sg_maxSize l"
  shows "\<exists>l'. segment_append b (l, data) = (Inr (), l', snd (snd (segment_append b (l, data)))) \<and>
    seg_holds l' (snd (snd (segment_append b (l, data)))) done (pending @ [b]) \<and>
    sg_path l' = sg_path l \<and> sg_maxSize l' = sg_maxSize l"
proof -
  let ?e = "encode_blocks (done @ pending)"
  have d: "data = ?e @ PutUint64 (word_of_int (sg_pos l))" and o: "sg_off l \<noteq> None"
    using h by (auto simp: seg_holds_def)
  note run = segment_append_run [OF o length_PutUint64 b(2), of ?e "word_of_int (sg_pos l)", folded d]
  show ?thesis
    using h b unfolding run
    by (auto simp: seg_holds_def split: list.splits)
qed

lemma segment_current_run:
  assumes "sg_off l \<noteq> None" "sg_pos l = int (length d)" "sg_pos l \<noteq> sg_size l - 8"
    "x \<noteq> []" "length x < 2 ^ 63" "int (length x) \<le> sg_maxSize l"
  shows "segment_current (l, d @ encode_block x @ r) =
    (Inr x, l\<lparr>sg_off := Some (length d + 8 + length x), sg_currentSize := int (length x)\<rparr>, d @ encode_block x @ r)"
proof -
  obtain off where "sg_off l = Some off" using assms(1) by blast
  with assms show ?thesis
    by (simp add: segment_current_def seg_op_defs encode_block_def u64_of_nat Let_def)
qed

lemma segment_current_holds:
  assumes h: "seg_holds l data done pending"
  shows "\<exists>l'. segment_current (l, data) = ((case pending of [] \<Rightarrow> Inl EOF | x # _ \<Rightarrow> Inr x), l', data) \<and>
    seg_holds l' data done pending \<and> sg_path l' = sg_path l \<and> sg_maxSize l' = sg_maxSize l"
proof (cases pending)
  case Nil
  then have "sg_pos l = sg_size l - 8" using h by (simp add: seg_holds_def)
  with Nil h show ?thesis by (auto simp: segment_current_def seg_op_defs)
next
  case (Cons x p)
  let ?f = "PutUint64 (word_of_int (sg_pos l))"
  have "data = encode_blocks done @ encode_block x @ (encode_blocks p @ ?f)" using h Cons by (simp add: seg_holds_def)
  moreover have "sg_off l \<noteq> None" "sg_pos l = int (length (encode_blocks done))" "sg_pos l \<noteq> sg_size l - 8"
      "x \<noteq> []" "length x < 2 ^ 63" "int (length x) \<le> sg_maxSize l"
    using h Cons by (auto simp: seg_holds_def)
  ultimately have "segment_current (l, data) = (Inr x, l\<lparr>sg_off := Some (length (encode_blocks done) + 8 + length x),
      sg_currentSize := int (length x)\<rparr>, data)"
    using segment_current_run [of l "encode_blocks done" x "encode_blocks p @ ?f"] by simp
  with h Cons show ?thesis by (auto simp: seg_holds_def)
qed

text \<open>After the move the length of the next block is read, or the footer at the end.\<close>

lemma segment_advance_run:
  assumes "sg_off l \<noteq> None" "sg_pos l \<noteq> sg_size l - 8" "length f = 8" "sg_pos l + sg_currentSize l + 8 = int (length d)"
    and fields: "sg_size l = int (length (d @ e @ f))"
    and w: "take 8 (e @ PutUint64 (word_of_int (int (length d)))) = PutUint64 w"
  shows "segment_advance (l, d @ e @ f) =
    ((if e = [] then Inl EOF else Inr ()),
     l\<lparr>sg_off := Some (length d + 8), sg_pos := int (length d), sg_currentSize := if e = [] then 0 else sint w\<rparr>,
     d @ e @ PutUint64 (word_of_int (int (length d))))"
proof -
  obtain off where "sg_off l = Some off" using assms(1) by blast
  moreover have "take 8 (drop (length d) (d @ e @ PutUint64 (word_of_int (int (length d))))) = PutUint64 w"
    using w by simp
  ultimately show ?thesis
    using assms by (auto simp: segment_advance_def seg_op_defs Let_def)
qed

lemma segment_advance_holds:
  assumes h: "seg_holds l data done (x # p)"
  shows "\<exists>l' data'. segment_advance (l, data) = ((if p = [] then Inl EOF else Inr ()), l', data') \<and>
    seg_holds l' data' (done @ [x]) p \<and> sg_path l' = sg_path l \<and> sg_maxSize l' = sg_maxSize l"
proof -
  let ?d = "encode_blocks (done @ [x])" and ?f = "PutUint64 (word_of_int (sg_pos l))"
  have d: "data = ?d @ encode_blocks p @ ?f" using h by (simp add: seg_holds_def)
  have "\<exists>w. take 8 (encode_blocks p @ PutUint64 (word_of_int (int (length ?d)))) = PutUint64 w \<and>
      (p \<noteq> [] \<longrightarrow> sint w = int (length (hd p)))"
  proof (cases p)
    case (Cons y p')
    then have "length y < 2 ^ 63" using h by (auto simp: seg_holds_def)
    with Cons show ?thesis
      by (intro exI [of _ "of_nat (length y)"]) (simp add: encode_block_def u64_of_nat)
  qed (simp, blast)
  then obtain w where w: "take 8 (encode_blocks p @ PutUint64 (word_of_int (int (length ?d)))) = PutUint64 w"
      "p \<noteq> [] \<Longrightarrow> sint w = int (length (hd p))" by blast
  have pe: "encode_blocks p = [] \<longleftrightarrow> p = []" by (cases p) (auto simp: encode_block_def simp flip: length_0_conv)
  have run: "segment_advance (l, data) =
    ((if p = [] then Inl EOF else Inr ()),
     l\<lparr>sg_off := Some (length ?d + 8), sg_pos := int (length ?d), sg_currentSize := if p = [] then 0 else sint w\<rparr>,
     ?d @ encode_blocks p @ PutUint64 (word_of_int (int (length ?d))))"
    unfolding d pe [symmetric] using h by (intro segment_advance_run w(1)) (auto simp: seg_holds_def)
  show ?thesis
    unfolding run using h w(2) by (auto simp: seg_holds_def split: list.splits)
qed

lemma segment_advance_end:
  assumes "seg_holds l data done []"
  shows "segment_advance (l, data) = (Inl EOF, l, data)"
  using assms by (auto simp: segment_advance_def seg_op_defs seg_holds_def)

text \<open>Opening the file of a segment again gives the same blocks.\<close>

lemma newSegment_empty:
  "newSegment path [] m = (Inr (), \<lparr>sg_size = 8, sg_off = Some 8, sg_path = path, sg_pos = 0, sg_currentSize = 0, sg_maxSize = m\<rparr>,
     PutUint64 0)"
  by (simp add: newSegment_def segment_open_def seg_op_defs)

lemma newSegment_new_holds:
  "m < 2 ^ 61 \<Longrightarrow> \<exists>l. newSegment path [] m = (Inr (), l, PutUint64 0) \<and> seg_holds l (PutUint64 0) [] [] \<and>
     sg_path l = path \<and> sg_maxSize l = m"
  by (simp add: newSegment_empty seg_holds_def)

lemma newSegment_holds:
  assumes h: "seg_holds l data done pending"
  shows "\<exists>l'. newSegment path data (sg_maxSize l) = (Inr (), l', data) \<and> seg_holds l' data done pending \<and>
    sg_path l' = path \<and> sg_maxSize l' = sg_maxSize l"
proof -
  let ?e = "encode_blocks (done @ pending)"
  have d: "data = ?e @ PutUint64 (word_of_int (sg_pos l))" and pos: "sg_pos l = int (length (encode_blocks done))"
    and "sg_size l = int (length data)" "sg_size l < 2 ^ 62"
    using h by (auto simp: seg_holds_def)
  then have s: "sint (word_of_int (sg_pos l) :: u64) = sg_pos l"
    using u64_of_nat(1) [of "length (encode_blocks done)"] by simp
  have nz: "length data \<noteq> 0" using d by simp
  show ?thesis
  proof (cases pending)
    case Nil
    with h d s pos nz show ?thesis
      by (auto simp: newSegment_def segment_open_def seg_op_defs Let_def seg_holds_def)
  next
    case (Cons x p)
    then have x: "length x < 2 ^ 63" using h by (auto simp: seg_holds_def)
    have t: "take 8 (drop (length (encode_blocks done)) data) = PutUint64 (of_nat (length x))"
      using d Cons by (simp add: encode_block_def)
    with h d s pos nz Cons x show ?thesis
      by (auto simp: newSegment_def segment_open_def seg_op_defs Let_def seg_holds_def u64_of_nat)
  qed
qed

end
