(* ===== verification/HHQueue.thy ===== *)
theory HHQueue
  imports HHSegment
begin

text \<open>
  The disk-backed queue of hinted handoff (\<open>services/hh/queue.go\<close>): a list of segments, read
  at the head and written at the tail, each in a numbered file of a directory.  It refines a
  FIFO list of byte sequences, as long as its head is not left behind.
\<close>

section \<open>State\<close>

text \<open>
  \<open>head\<close>, \<open>tail\<close> and the entries of \<open>segments\<close> are pointers; they are represented by the file
  name of the segment, with the segments themselves in \<open>q_objs\<close>.  \<open>q_disk\<close> is the
  directory.
\<close>

record queue =
  q_head :: "nat option"
  q_tail :: "nat option"
  q_maxSegmentSize :: int
  q_maxSize :: int
  q_segments :: "nat list"
  q_objs :: "nat \<Rightarrow> segment option"
  q_disk :: "(nat \<times> byte list) list"

definition defaultSegmentSize :: int where
  "defaultSegmentSize = 10 * 1024 * 1024"

definition newQueue :: "int \<Rightarrow> (nat \<times> byte list) list \<Rightarrow> queue" where
  "newQueue maxSize files = \<lparr>q_head = None, q_tail = None, q_maxSegmentSize = defaultSegmentSize, q_maxSize = maxSize,
     q_segments = [], q_objs = (\<lambda>_. None), q_disk = files\<rparr>"

definition file_of :: "queue \<Rightarrow> nat \<Rightarrow> byte list" where
  "file_of q p = (case map_of (q_disk q) p of Some d \<Rightarrow> d | None \<Rightarrow> [])"

text \<open>An operation of the segment \<open>p\<close>; a file that was removed is not written.\<close>

definition run_seg :: "'a seg_io \<Rightarrow> nat \<Rightarrow> queue \<Rightarrow> (hh_error + 'a) \<times> queue" where
  "run_seg m p q =
     (case q_objs q p of
        None \<Rightarrow> (Inl HHPanic, q)
      | Some l \<Rightarrow>
          (case m (l, file_of q p) of
             (r, l', data) \<Rightarrow>
               (r, q\<lparr>q_objs := (q_objs q)(p \<mapsto> l'),
                     q_disk := if map_of (q_disk q) p = None then q_disk q else map_put p data (q_disk q)\<rparr>)))"

section \<open>Operations\<close>

definition diskUsage :: "queue \<Rightarrow> int" where
  "diskUsage q = sum_list (map (\<lambda>p. case q_objs q p of Some l \<Rightarrow> sg_size l | None \<Rightarrow> 0) (q_segments q))"

definition nextSegmentID :: "queue \<Rightarrow> nat" where
  "nextSegmentID q = foldl max 0 (map fst (q_disk q)) + 1"

definition addSegment :: "queue \<Rightarrow> (hh_error + nat) \<times> queue" where
  "addSegment q =
     (let nextID = nextSegmentID q in
      case newSegment nextID (file_of q nextID) (q_maxSegmentSize q) of
        (Inl e, l, data) \<Rightarrow> (Inl e, q\<lparr>q_disk := map_put nextID data (q_disk q)\<rparr>)
      | (Inr _, l, data) \<Rightarrow>
          (Inr nextID, q\<lparr>q_segments := q_segments q @ [nextID], q_objs := (q_objs q)(nextID \<mapsto> l),
             q_disk := map_put nextID data (q_disk q)\<rparr>))"

definition trimHead :: "queue \<Rightarrow> hh_error option \<times> queue" where
  "trimHead q =
     (if length (q_segments q) > 1 then
        (case q_head q of
           None \<Rightarrow> (Some HHPanic, q)
         | Some h \<Rightarrow>
             (let q1 = q\<lparr>q_segments := tl (q_segments q)\<rparr> in
              case q_objs q h of
                None \<Rightarrow> (Some HHPanic, q1)
              | Some l \<Rightarrow>
                  if sg_off l = None then (Some (HHError ''invalid argument''), q1)
                  else (None, q1\<lparr>q_objs := (q_objs q)(h \<mapsto> segment_close l), q_disk := map_del h (q_disk q),
                          q_head := Some (hd (q_segments q1))\<rparr>)))
      else (None, q))"

definition Append :: "byte list \<Rightarrow> queue \<Rightarrow> hh_error option \<times> queue" where
  "Append b q =
     (case q_tail q of
        None \<Rightarrow> (Some ErrNotOpen, q)
      | Some t \<Rightarrow>
          if diskUsage q + int (length b) > q_maxSize q then (Some ErrQueueFull, q)
          else
            (case run_seg (segment_append b) t q of
               (Inl ErrSegmentFull, q1) \<Rightarrow>
                 (case addSegment q1 of
                    (Inl e, q2) \<Rightarrow> (Some e, q2)
                  | (Inr t', q2) \<Rightarrow>
                      (case run_seg (segment_append b) t' (q2\<lparr>q_tail := Some t'\<rparr>) of
                         (Inl e, q3) \<Rightarrow> (Some e, q3)
                       | (Inr _, q3) \<Rightarrow> (None, q3)))
             | (_, q1) \<Rightarrow> (None, q1)))"

definition Current :: "queue \<Rightarrow> (hh_error + byte list) \<times> queue" where
  "Current q = (case q_head q of None \<Rightarrow> (Inl ErrNotOpen, q) | Some h \<Rightarrow> run_seg segment_current h q)"

definition Advance :: "queue \<Rightarrow> hh_error option \<times> queue" where
  "Advance q =
     (case q_head q of
        None \<Rightarrow> (Some ErrNotOpen, q)
      | Some h \<Rightarrow>
          (case run_seg segment_advance h q of
             (Inl EOF, q1) \<Rightarrow> trimHead q1
           | (_, q1) \<Rightarrow> (None, q1)))"

text \<open>\<open>ioutil.ReadDir\<close> lists a directory by the text of the file names.\<close>

fun str_less :: "string \<Rightarrow> string \<Rightarrow> bool" where
  "str_less xs [] = False"
| "str_less [] (y # ys) = True"
| "str_less (x # xs) (y # ys) =
     (if of_char x < (of_char y :: nat) then True else if x = y then str_less xs ys else False)"

definition name_less :: "nat \<Rightarrow> nat \<Rightarrow> bool" where
  "name_less a b = str_less (show_nat a) (show_nat b)"

definition ReadDir :: "queue \<Rightarrow> nat list" where
  "ReadDir q = insertion_sort name_less (map fst (q_disk q))"

fun load_segments :: "nat list \<Rightarrow> queue \<Rightarrow> hh_error option \<times> queue" where
  "load_segments [] q = (None, q)"
| "load_segments (p # ps) q =
     (case newSegment p (file_of q p) (q_maxSegmentSize q) of
        (Inl e, l, data) \<Rightarrow> (Some e, q\<lparr>q_disk := map_put p data (q_disk q)\<rparr>)
      | (Inr _, l, data) \<Rightarrow>
          load_segments ps (q\<lparr>q_segments := q_segments q @ [p], q_objs := (q_objs q)(p \<mapsto> l),
            q_disk := map_put p data (q_disk q)\<rparr>))"

definition Open :: "queue \<Rightarrow> hh_error option \<times> queue" where
  "Open q =
     (case load_segments (ReadDir q) (q\<lparr>q_segments := []\<rparr>) of
        (Some e, q1) \<Rightarrow> (Some e, q1\<lparr>q_segments := q_segments q\<rparr>)
      | (None, q1) \<Rightarrow>
          (case (if q_segments q1 = [] then addSegment q1 else (Inr 0, q1)) of
             (Inl e, q2) \<Rightarrow> (Some e, q2)
           | (Inr _, q2) \<Rightarrow>
               (let q3 = q2\<lparr>q_head := Some (hd (q_segments q2)), q_tail := Some (last (q_segments q2))\<rparr> in
                case Current q3 of
                  (Inl EOF, q4) \<Rightarrow> trimHead q4
                | (_, q4) \<Rightarrow> (None, q4))))"

fun close_segments :: "nat list \<Rightarrow> queue \<Rightarrow> hh_error option \<times> queue" where
  "close_segments [] q = (None, q)"
| "close_segments (p # ps) q =
     (case q_objs q p of
        None \<Rightarrow> (Some HHPanic, q)
      | Some l \<Rightarrow>
          if sg_off l = None then (Some (HHError ''invalid argument''), q)
          else close_segments ps (q\<lparr>q_objs := (q_objs q)(p \<mapsto> segment_close l)\<rparr>))"

definition Close :: "queue \<Rightarrow> hh_error option \<times> queue" where
  "Close q =
     (case close_segments (q_segments q) q of
        (Some e, q1) \<Rightarrow> (Some e, q1)
      | (None, q1) \<Rightarrow> (None, q1\<lparr>q_head := None, q_tail := None, q_segments := []\<rparr>))"

text \<open>An open queue is not removed; the segments of a closed one are \<open>nil\<close>, here the empty list.\<close>

definition Remove :: "queue \<Rightarrow> hh_error option \<times> queue" where
  "Remove q =
     (if q_head q \<noteq> None \<or> q_tail q \<noteq> None \<or> q_segments q \<noteq> [] then (Some (HHError ''queue is open''), q)
      else (None, q\<lparr>q_disk := []\<rparr>))"

definition SetMaxSegmentSize :: "int \<Rightarrow> queue \<Rightarrow> hh_error option \<times> queue" where
  "SetMaxSegmentSize maxSize q =
     (let q1 = q\<lparr>q_maxSegmentSize := maxSize,
                q_objs := (\<lambda>p. if p \<in> set (q_segments q) then map_option (segment_SetMaxSegmentSize maxSize) (q_objs q p)
                               else q_objs q p)\<rparr>
      in case q_tail q of
           None \<Rightarrow> (Some HHPanic, q1)
         | Some t \<Rightarrow>
             (case q_objs q1 t of
                None \<Rightarrow> (Some HHPanic, q1)
              | Some l \<Rightarrow>
                  if sg_size l \<ge> maxSize then
                    (case addSegment q1 of
                       (Inl e, q2) \<Rightarrow> (Some e, q2)
                     | (Inr t', q2) \<Rightarrow> (None, q2\<lparr>q_tail := Some t'\<rparr>))
                  else (None, q1)))"

text \<open>\<open>modified\<close> gives the modification times of the files; a closed segment has no file to ask.\<close>

definition segment_lastModified :: "(nat \<Rightarrow> go_time) \<Rightarrow> nat \<Rightarrow> queue \<Rightarrow> hh_error + go_time" where
  "segment_lastModified modified p q =
     (case q_objs q p of
        None \<Rightarrow> Inl HHPanic
      | Some l \<Rightarrow>
          if sg_off l = None then Inl HHPanic
          else if map_of (q_disk q) p = None then Inl (HHError ''no such file or directory'')
          else Inr (modified p))"

definition LastModified :: "(nat \<Rightarrow> go_time) \<Rightarrow> queue \<Rightarrow> hh_error + go_time" where
  "LastModified modified q =
     (case q_tail q of Some t \<Rightarrow> segment_lastModified modified t q | None \<Rightarrow> Inr 0)"

text \<open>The loop ends when the head is young enough; \<open>None\<close>: it did not within \<open>fuel\<close> rounds.\<close>

fun purge_loop :: "nat \<Rightarrow> (nat \<Rightarrow> go_time) \<Rightarrow> go_time \<Rightarrow> queue \<Rightarrow> (hh_error option \<times> queue) option" where
  "purge_loop 0 modified cutoff q = None"
| "purge_loop (Suc fuel) modified cutoff q =
     (case q_head q of
        None \<Rightarrow> Some (Some HHPanic, q)
      | Some h \<Rightarrow>
          (case segment_lastModified modified h q of
             Inl e \<Rightarrow> Some (Some e, q)
           | Inr md \<Rightarrow>
               if md \<ge> cutoff then Some (None, q)
               else
                 (case (if length (q_segments q) = 1 then addSegment q else (Inr 0, q)) of
                    (Inl e, q1) \<Rightarrow> Some (Some e, q1)
                  | (Inr _, q1) \<Rightarrow>
                      (case trimHead q1 of
                         (Some e, q2) \<Rightarrow> Some (Some e, q2)
                       | (None, q2) \<Rightarrow> purge_loop fuel modified cutoff q2))))"

definition PurgeOlderThan :: "nat \<Rightarrow> (nat \<Rightarrow> go_time) \<Rightarrow> go_time \<Rightarrow> queue \<Rightarrow> (hh_error option \<times> queue) option" where
  "PurgeOlderThan fuel modified when q =
     (if q_segments q = [] then Some (None, q) else purge_loop fuel modified (Truncate when Second) q)"

end
