(* ===== verification/HHQueueProps.thy ===== *)
theory HHQueueProps
  imports HHQueue
begin

text \<open>
  The queue as a FIFO list: the representation relation between a queue and the byte
  sequences waiting in it, and that every operation keeps it.
\<close>

section \<open>Representation\<close>

definition seg_of :: "queue \<Rightarrow> nat \<Rightarrow> byte list list \<Rightarrow> bool" where
  "seg_of q p pending \<longleftrightarrow> (\<exists>l data rd. q_objs q p = Some l \<and> map_of (q_disk q) p = Some data \<and>
     seg_holds l data rd pending \<and> sg_maxSize l = q_maxSegmentSize q)"

text \<open>The segments of an open queue with the blocks waiting in each of them.\<close>

definition queue_holds :: "queue \<Rightarrow> byte list list list \<Rightarrow> bool" where
  "queue_holds q pends \<longleftrightarrow> q_segments q \<noteq> [] \<and> distinct (q_segments q) \<and>
     q_head q = Some (hd (q_segments q)) \<and> q_tail q = Some (last (q_segments q)) \<and>
     list_all2 (seg_of q) (q_segments q) pends \<and> q_maxSegmentSize q < 2 ^ 61"

definition queue_rep :: "queue \<Rightarrow> byte list list \<Rightarrow> bool" where
  "queue_rep q xs \<longleftrightarrow> (\<exists>pends. queue_holds q pends \<and> xs = concat pends)"

lemma seg_of_cong:
  assumes "q_objs q' p = q_objs q p" "map_of (q_disk q') p = map_of (q_disk q) p"
    "q_maxSegmentSize q' = q_maxSegmentSize q"
  shows "seg_of q' p pend = seg_of q p pend"
  using assms by (simp add: seg_of_def)

text \<open>An operation on one segment, in terms of the segment.\<close>

lemma run_seg_of:
  assumes "seg_of q p pend"
  obtains l data rd where "q_objs q p = Some l" "map_of (q_disk q) p = Some data" "seg_holds l data rd pend"
    "sg_maxSize l = q_maxSegmentSize q"
    "\<And>m r l' data'. m (l, data) = (r, l', data') \<Longrightarrow>
       run_seg m p q = (r, q\<lparr>q_objs := (q_objs q)(p \<mapsto> l'), q_disk := map_put p data' (q_disk q)\<rparr>)"
  using assms unfolding seg_of_def by (force simp: run_seg_def file_of_def)

lemma seg_of_put:
  assumes "seg_holds l' data' rd pend" "sg_maxSize l' = q_maxSegmentSize q"
  shows "seg_of (q\<lparr>q_objs := (q_objs q)(p \<mapsto> l'), q_disk := map_put p data' (q_disk q)\<rparr>) p pend"
  using assms by (auto simp: seg_of_def)

lemma queue_holds_update:
  assumes "queue_holds q pends" "k < length pends" "q_segments q ! k = p"
    and "seg_of q' p pend" "q_segments q' = q_segments q" "q_head q' = q_head q" "q_tail q' = q_tail q"
      "q_maxSegmentSize q' = q_maxSegmentSize q"
    and "\<And>p'. p' \<noteq> p \<Longrightarrow> q_objs q' p' = q_objs q p' \<and> map_of (q_disk q') p' = map_of (q_disk q) p'"
  shows "queue_holds q' (pends[k := pend])"
proof -
  have len: "length (q_segments q) = length pends" and d: "distinct (q_segments q)"
    using assms(1) by (auto simp: queue_holds_def list_all2_lengthD)
  have "seg_of q' (q_segments q ! i) (pends[k := pend] ! i)" if "i < length pends" for i
  proof (cases "i = k")
    case True
    with assms(2-4) show ?thesis by simp
  next
    case False
    then have "q_segments q ! i \<noteq> p" using d that assms(2,3) len by (auto simp: nth_eq_iff_index_eq)
    then have "seg_of q' (q_segments q ! i) (pends ! i) = seg_of q (q_segments q ! i) (pends ! i)"
      using assms(8,9) by (intro seg_of_cong) auto
    with False that assms(1) show ?thesis by (auto simp: queue_holds_def list_all2_conv_all_nth)
  qed
  with assms(1,5-8) len show ?thesis by (auto simp: queue_holds_def list_all2_conv_all_nth)
qed

lemma queue_holds_length: "queue_holds q pends \<Longrightarrow> length (q_segments q) = length pends \<and> pends \<noteq> []"
  by (auto simp: queue_holds_def dest: list_all2_lengthD)

lemma queue_holds_nth: "queue_holds q pends \<Longrightarrow> k < length pends \<Longrightarrow> seg_of q (q_segments q ! k) (pends ! k)"
  by (auto simp: queue_holds_def list_all2_conv_all_nth)

lemma queue_holds_ConsE:
  assumes "queue_holds q pends"
  obtains h ss p ps where "pends = p # ps" "q_segments q = h # ss" "q_head q = Some h" "seg_of q h p"
    "list_all2 (seg_of q) ss ps" "h \<notin> set ss" "distinct ss" "q_tail q = Some (last (h # ss))"
    "q_maxSegmentSize q < 2 ^ 61"
proof -
  obtain h ss where ss: "q_segments q = h # ss" using assms by (auto simp: queue_holds_def neq_Nil_conv)
  moreover from this assms obtain p ps where "pends = p # ps" "seg_of q h p" "list_all2 (seg_of q) ss ps"
    by (auto simp: queue_holds_def list_all2_Cons1)
  ultimately show ?thesis using that assms by (simp add: queue_holds_def)
qed

section \<open>Reading\<close>

lemma Current_holds:
  assumes h: "queue_holds q pends"
  shows "\<exists>q'. Current q = ((case hd pends of [] \<Rightarrow> Inl EOF | x # _ \<Rightarrow> Inr x), q') \<and> queue_holds q' pends"
proof -
  obtain hd_id ss p ps where c: "pends = p # ps" "q_segments q = hd_id # ss" "q_head q = Some hd_id" "seg_of q hd_id p"
    using queue_holds_ConsE [OF h] by metis
  obtain l data rd where l: "seg_holds l data rd p" "sg_maxSize l = q_maxSegmentSize q"
      and run: "\<And>m r l' data'. m (l, data) = (r, l', data') \<Longrightarrow> run_seg m hd_id q =
        ((r :: hh_error + byte list), q\<lparr>q_objs := (q_objs q)(hd_id \<mapsto> l'), q_disk := map_put hd_id data' (q_disk q)\<rparr>)"
    using run_seg_of [OF c(4)] by metis
  obtain l' where l': "segment_current (l, data) = ((case p of [] \<Rightarrow> Inl EOF | x # _ \<Rightarrow> Inr x), l', data)"
      "seg_holds l' data rd p" "sg_maxSize l' = sg_maxSize l"
    using segment_current_holds [OF l(1)] by blast
  let ?q' = "q\<lparr>q_objs := (q_objs q)(hd_id \<mapsto> l'), q_disk := map_put hd_id data (q_disk q)\<rparr>"
  have "queue_holds ?q' (pends[0 := p])"
    using l l' c by (intro queue_holds_update [OF h, of 0 hd_id] seg_of_put) auto
  moreover have "Current q = ((case p of [] \<Rightarrow> Inl EOF | x # _ \<Rightarrow> Inr x), ?q')"
    using c(3) run [of segment_current, OF l'(1)] by (simp add: Current_def)
  ultimately show ?thesis using c(1) by auto
qed

lemma trimHead_holds:
  assumes h: "queue_holds q (p # pends)" "pends \<noteq> []"
  shows "\<exists>q'. trimHead q = (None, q') \<and> queue_holds q' pends"
proof -
  obtain hd_id ss where c: "q_segments q = hd_id # ss" "q_head q = Some hd_id" "seg_of q hd_id p"
      "list_all2 (seg_of q) ss pends" "hd_id \<notin> set ss" "distinct ss" "q_tail q = Some (last (hd_id # ss))"
      "q_maxSegmentSize q < 2 ^ 61"
    using queue_holds_ConsE [OF h(1)] by (metis list.inject)
  have ss: "ss \<noteq> []" using c(4) h(2) by auto
  obtain l where l: "q_objs q hd_id = Some l" "sg_off l \<noteq> None"
    using c(3) by (auto simp: seg_of_def seg_holds_def)
  let ?q' = "q\<lparr>q_segments := ss, q_objs := (q_objs q)(hd_id \<mapsto> segment_close l), q_disk := map_del hd_id (q_disk q),
      q_head := Some (hd ss)\<rparr>"
  have t: "trimHead q = (None, ?q')" using c l ss by (simp add: trimHead_def Let_def)
  have "seg_of ?q' x pend = seg_of q x pend" if "x \<in> set ss" for x pend
    using that c(5) by (intro seg_of_cong) (auto simp: map_of_map_del)
  with c(4) have "list_all2 (seg_of ?q') ss pends" by (auto simp: list_all2_conv_all_nth)
  with c ss have "queue_holds ?q' pends" by (simp add: queue_holds_def)
  with t show ?thesis by blast
qed

lemma Advance_holds:
  assumes h: "queue_holds q ((x # p) # pends)"
  shows "\<exists>q' pends'. Advance q = (None, q') \<and> queue_holds q' pends' \<and> concat pends' = p @ concat pends"
proof -
  obtain hd_id ss where c: "q_segments q = hd_id # ss" "q_head q = Some hd_id" "seg_of q hd_id (x # p)"
    using queue_holds_ConsE [OF h] by (metis list.inject)
  obtain l data rd where l: "seg_holds l data rd (x # p)" "sg_maxSize l = q_maxSegmentSize q"
      and run: "\<And>m r l' data'. m (l, data) = (r, l', data') \<Longrightarrow> run_seg m hd_id q =
        ((r :: hh_error + unit), q\<lparr>q_objs := (q_objs q)(hd_id \<mapsto> l'), q_disk := map_put hd_id data' (q_disk q)\<rparr>)"
    using run_seg_of [OF c(3)] by metis
  obtain l' data' where l': "segment_advance (l, data) = ((if p = [] then Inl EOF else Inr ()), l', data')"
      "seg_holds l' data' (rd @ [x]) p" "sg_maxSize l' = sg_maxSize l"
    using segment_advance_holds [OF l(1)] by blast
  let ?q' = "q\<lparr>q_objs := (q_objs q)(hd_id \<mapsto> l'), q_disk := map_put hd_id data' (q_disk q)\<rparr>"
  have "queue_holds ?q' (((x # p) # pends)[0 := p])"
    using l l' c by (intro queue_holds_update [OF h, of 0 hd_id] seg_of_put) auto
  then have q': "queue_holds ?q' (p # pends)" by simp
  have adv: "Advance q = (if p = [] then trimHead ?q' else (None, ?q'))"
    using c(2) run [of segment_advance, OF l'(1)] by (simp add: Advance_def)
  show ?thesis
  proof (cases "p = [] \<and> pends \<noteq> []")
    case True
    with trimHead_holds [OF q'] adv show ?thesis by auto
  next
    case False
    then have "trimHead ?q' = (None, ?q')" if "p = []" using that queue_holds_length [OF q'] by (simp add: trimHead_def)
    with adv q' show ?thesis by (auto intro!: exI [of _ "p # pends"])
  qed
qed

section \<open>Writing\<close>

lemma foldl_max_ge:
  fixes x :: nat
  shows "x \<le> foldl max x xs" "y \<in> set xs \<Longrightarrow> y \<le> foldl max x xs"
proof -
  show ge: "x \<le> foldl max x xs" for x :: nat
    by (induction xs arbitrary: x) (simp, metis foldl_Cons max.bounded_iff)
  show "y \<in> set xs \<Longrightarrow> y \<le> foldl max x xs"
  proof (induction xs arbitrary: x)
    case (Cons z zs)
    have "max x z \<le> foldl max (max x z) zs" by (induction zs arbitrary: x z) (simp, metis foldl_Cons max.bounded_iff)
    with Cons show ?case by auto
  qed simp
qed

lemma nextSegmentID_fresh: "map_of (q_disk q) (nextSegmentID q) = None"
proof -
  have "nextSegmentID q \<notin> fst ` set (q_disk q)"
    using foldl_max_ge(2) [of "nextSegmentID q" "map fst (q_disk q)" 0] by (auto simp: nextSegmentID_def)
  then show ?thesis by (simp add: map_of_eq_None_iff)
qed

lemma addSegment_holds:
  assumes h: "queue_holds q pends"
  shows "\<exists>q' t. addSegment q = (Inr t, q') \<and> queue_holds (q'\<lparr>q_tail := Some t\<rparr>) (pends @ [[]]) \<and>
    q_segments q' = q_segments q @ [t] \<and> seg_of q' t [] \<and> q_maxSegmentSize q' = q_maxSegmentSize q \<and>
    (\<exists>l. q_objs q' t = Some l \<and> sg_size l = 8 \<and> map_of (q_disk q') t = Some (PutUint64 0)) \<and>
    (\<forall>p \<in> set (q_segments q). q_objs q' p = q_objs q p)"
proof -
  let ?t = "nextSegmentID q"
  let ?l = "\<lparr>sg_size = 8, sg_off = Some 8, sg_path = ?t, sg_pos = 0, sg_currentSize = 0, sg_maxSize = q_maxSegmentSize q\<rparr>"
  let ?q' = "q\<lparr>q_segments := q_segments q @ [?t], q_objs := (q_objs q)(?t \<mapsto> ?l),
     q_disk := map_put ?t (PutUint64 0) (q_disk q)\<rparr>"
  have add: "addSegment q = (Inr ?t, ?q')"
    by (simp add: addSegment_def file_of_def nextSegmentID_fresh newSegment_empty Let_def)
  have all: "list_all2 (seg_of q) (q_segments q) pends" using h by (simp add: queue_holds_def)
  have fresh: "?t \<notin> set (q_segments q)"
    using all nextSegmentID_fresh [of q] by (auto simp: list_all2_conv_all_nth in_set_conv_nth seg_of_def)
  have new: "seg_of q1 ?t []" if "q1 = ?q' \<or> q1 = ?q'\<lparr>q_tail := Some ?t\<rparr>" for q1
    using that h by (auto simp: seg_of_def seg_holds_def queue_holds_def intro!: exI [of _ "[]"])
  have "seg_of (?q'\<lparr>q_tail := Some ?t\<rparr>) x pend = seg_of q x pend" if "x \<in> set (q_segments q)" for x pend
    using that fresh by (intro seg_of_cong) auto
  with all have "list_all2 (seg_of (?q'\<lparr>q_tail := Some ?t\<rparr>)) (q_segments q) pends"
    by (auto simp: list_all2_conv_all_nth)
  then have "list_all2 (seg_of (?q'\<lparr>q_tail := Some ?t\<rparr>)) (q_segments q @ [?t]) (pends @ [[]])"
    using new by (simp add: list_all2_appendI)
  with h fresh have "queue_holds (?q'\<lparr>q_tail := Some ?t\<rparr>) (pends @ [[]])" by (auto simp: queue_holds_def)
  with add new fresh show ?thesis by auto
qed

text \<open>Appending to the last segment when it has room.\<close>

lemma append_last:
  assumes h: "queue_holds q (pends @ [p])" and b: "b \<noteq> []"
  shows "\<exists>r q'. run_seg (segment_append b) (last (q_segments q)) q = (r, q') \<and>
    (r = Inr () \<and> queue_holds q' (pends @ [p @ [b]]) \<or>
     r = Inl ErrSegmentFull \<and> queue_holds q' (pends @ [p]))"
proof -
  let ?t = "last (q_segments q)"
  let ?n = "length pends"
  have len: "length (q_segments q) = Suc ?n" using queue_holds_length [OF h] by simp
  then have t: "q_segments q ! ?n = ?t" by (metis diff_Suc_1 last_conv_nth length_0_conv nat.distinct(1))
  have s: "seg_of q ?t p" using queue_holds_nth [OF h, of ?n] t by simp
  obtain l data rd where l: "q_objs q ?t = Some l" "map_of (q_disk q) ?t = Some data" "seg_holds l data rd p"
      "sg_maxSize l = q_maxSegmentSize q"
      and run: "\<And>m r l' data'. m (l, data) = (r, l', data') \<Longrightarrow> run_seg m ?t q =
        ((r :: hh_error + unit), q\<lparr>q_objs := (q_objs q)(?t \<mapsto> l'), q_disk := map_put ?t data' (q_disk q)\<rparr>)"
    using run_seg_of [OF s] by metis
  have upd: "queue_holds (q\<lparr>q_objs := (q_objs q)(?t \<mapsto> l'), q_disk := map_put ?t data' (q_disk q)\<rparr>)
      ((pends @ [p])[?n := p'])" if "seg_holds l' data' rd p'" "sg_maxSize l' = sg_maxSize l" for l' data' p'
    using that l t by (intro queue_holds_update [OF h, of ?n ?t] seg_of_put) auto
  show ?thesis
  proof (cases "sg_size l + int (length b) \<le> sg_maxSize l")
    case True
    obtain l' data' where l': "segment_append b (l, data) = (Inr (), l', data')" "seg_holds l' data' rd (p @ [b])"
        "sg_maxSize l' = sg_maxSize l"
      using segment_append_holds [OF l(3) b True] by metis
    from run [of "segment_append b", OF l'(1)] upd [OF l'(2,3)] show ?thesis by auto
  next
    case False
    then have "segment_append b (l, data) = (Inl ErrSegmentFull, l, data)"
      using l(3) by (auto simp: segment_append_def seg_op_defs seg_holds_def)
    from run [of "segment_append b", OF this] upd [OF l(3) refl] show ?thesis by auto
  qed
qed

lemma Append_holds:
  assumes h: "queue_holds q pends" and b: "b \<noteq> []"
  shows "\<exists>r q' pends'. Append b q = (r, q') \<and> queue_holds q' pends' \<and>
    concat pends' = (if r = None then concat pends @ [b] else concat pends)"
proof -
  obtain ps p where ps: "pends = ps @ [p]" using queue_holds_length [OF h] by (metis rev_exhaust)
  have tail: "q_tail q = Some (last (q_segments q))" using h by (simp add: queue_holds_def)
  show ?thesis
  proof (cases "diskUsage q + int (length b) > q_maxSize q")
    case True
    with tail h show ?thesis by (auto simp: Append_def)
  next
    case False
    obtain r q1 where r: "run_seg (segment_append b) (last (q_segments q)) q = (r, q1)"
      "r = Inr () \<and> queue_holds q1 (ps @ [p @ [b]]) \<or> r = Inl ErrSegmentFull \<and> queue_holds q1 (ps @ [p])"
      using append_last [OF h [unfolded ps] b] by blast
    show ?thesis
    proof (cases "r = Inr ()")
      case True
      with r tail False ps show ?thesis
        by (auto simp: Append_def intro!: exI [of _ "ps @ [p @ [b]]"])
    next
      case full: False
      with r(2) have q1: "queue_holds q1 (ps @ [p])" and re: "r = Inl ErrSegmentFull" by auto
      obtain q2 t where a: "addSegment q1 = (Inr t, q2)" "queue_holds (q2\<lparr>q_tail := Some t\<rparr>) ((ps @ [p]) @ [[]])"
          "q_segments q2 = q_segments q1 @ [t]"
        using addSegment_holds [OF q1] by blast
      obtain r3 q3 where r3: "run_seg (segment_append b) t (q2\<lparr>q_tail := Some t\<rparr>) = (r3, q3)"
        "r3 = Inr () \<and> queue_holds q3 ((ps @ [p]) @ [[] @ [b]]) \<or>
         r3 = Inl ErrSegmentFull \<and> queue_holds q3 ((ps @ [p]) @ [[]])"
        using append_last [OF a(2) b] a(3) by auto
      have app: "Append b q = (case r3 of Inl e \<Rightarrow> (Some e, q3) | Inr _ \<Rightarrow> (None, q3))"
        using tail False r(1) re a(1) r3(1) by (simp add: Append_def)
      from r3(2) show ?thesis
      proof
        assume "r3 = Inr () \<and> queue_holds q3 ((ps @ [p]) @ [[] @ [b]])"
        with app ps show ?thesis by (intro exI [of _ None] exI [of _ q3] exI [of _ "(ps @ [p]) @ [[b]]"]) simp
      next
        assume "r3 = Inl ErrSegmentFull \<and> queue_holds q3 ((ps @ [p]) @ [[]])"
        with app ps show ?thesis
          by (intro exI [of _ "Some ErrSegmentFull"] exI [of _ q3] exI [of _ "(ps @ [p]) @ [[]]"]) simp
      qed
    qed
  qed
qed

section \<open>Opening a directory\<close>

text \<open>A file that a segment with some pending blocks has left behind.\<close>

definition file_holds :: "int \<Rightarrow> (nat \<times> byte list) list \<Rightarrow> nat \<Rightarrow> byte list list \<Rightarrow> bool" where
  "file_holds m disk p pend \<longleftrightarrow>
     (\<exists>l data rd. map_of disk p = Some data \<and> seg_holds l data rd pend \<and> sg_maxSize l = m)"

lemma load_segments_holds:
  assumes "list_all2 (file_holds (q_maxSegmentSize q) (q_disk q)) ps pends" "distinct (q_segments q @ ps)"
    and "list_all2 (seg_of q) (q_segments q) pends0"
  shows "\<exists>q'. load_segments ps q = (None, q') \<and> q_segments q' = q_segments q @ ps \<and>
    list_all2 (seg_of q') (q_segments q @ ps) (pends0 @ pends) \<and> q_maxSegmentSize q' = q_maxSegmentSize q \<and>
    q_maxSize q' = q_maxSize q"
  using assms
proof (induction ps arbitrary: q pends pends0)
  case (Cons p ps)
  then obtain pend pends' where pends: "pends = pend # pends'" "file_holds (q_maxSegmentSize q) (q_disk q) p pend"
      "list_all2 (file_holds (q_maxSegmentSize q) (q_disk q)) ps pends'"
    by (auto simp: list_all2_Cons1)
  then obtain l data rd where l: "map_of (q_disk q) p = Some data" "seg_holds l data rd pend"
      "sg_maxSize l = q_maxSegmentSize q"
    unfolding file_holds_def by blast
  obtain l' where l': "newSegment p data (sg_maxSize l) = (Inr (), l', data)" "seg_holds l' data rd pend"
      "sg_maxSize l' = sg_maxSize l"
    using newSegment_holds [OF l(2)] by blast
  let ?q = "q\<lparr>q_segments := q_segments q @ [p], q_objs := (q_objs q)(p \<mapsto> l'), q_disk := map_put p data (q_disk q)\<rparr>"
  have disk: "map_of (q_disk ?q) = map_of (q_disk q)" using l(1) by auto
  then have "file_holds m (q_disk ?q) = file_holds m (q_disk q)" for m
    by (simp add: fun_eq_iff file_holds_def)
  then have files: "list_all2 (file_holds (q_maxSegmentSize ?q) (q_disk ?q)) ps pends'"
    using pends(3) by simp
  have "seg_of ?q x pd = seg_of q x pd" if "x \<in> set (q_segments q)" for x pd
    using that Cons.prems(2) disk by (intro seg_of_cong) auto
  with Cons.prems(3) have "list_all2 (seg_of ?q) (q_segments q) pends0" by (auto simp: list_all2_conv_all_nth)
  moreover have "seg_of ?q p pend" using l' l(3) by (auto simp: seg_of_def)
  ultimately have segs: "list_all2 (seg_of ?q) (q_segments ?q) (pends0 @ [pend])" by (simp add: list_all2_appendI)
  have "distinct (q_segments ?q @ ps)" using Cons.prems(2) by simp
  from Cons.IH [OF files this segs] l l' pends(1) show ?case by (simp add: file_of_def)
qed simp

lemma Open_holds:
  assumes "list_all2 (file_holds defaultSegmentSize files) (ReadDir (newQueue maxSize files)) pends"
    "files \<noteq> []" "distinct (map fst files)"
  shows "\<exists>q'. Open (newQueue maxSize files) = (None, q') \<and> queue_rep q' (concat pends)"
proof -
  let ?q = "newQueue maxSize files" and ?ps = "ReadDir (newQueue maxSize files)"
  have mset: "mset ?ps = mset (map fst files)"
    by (simp add: ReadDir_def newQueue_def mset_insertion_sort)
  have ps: "?ps \<noteq> []" "distinct ?ps"
    using mset assms(2,3) by (metis mset_zero_iff map_is_Nil_conv, metis mset_eq_imp_distinct_iff)
  have "?q\<lparr>q_segments := []\<rparr> = ?q" by (simp add: newQueue_def)
  then obtain q1 where q1: "load_segments ?ps (?q\<lparr>q_segments := []\<rparr>) = (None, q1)" "q_segments q1 = ?ps"
      "list_all2 (seg_of q1) ?ps pends" "q_maxSegmentSize q1 = defaultSegmentSize"
    using load_segments_holds [of ?q ?ps pends "[]"] assms(1) ps(2) by (auto simp: newQueue_def)
  let ?q3 = "q1\<lparr>q_head := Some (hd (q_segments q1)), q_tail := Some (last (q_segments q1))\<rparr>"
  have "seg_of ?q3 x pd = seg_of q1 x pd" for x pd by (intro seg_of_cong) auto
  then have "seg_of ?q3 = seg_of q1" by blast
  with q1 ps have q3: "queue_holds ?q3 pends" by (simp add: queue_holds_def defaultSegmentSize_def)
  then obtain q4 where q4: "Current ?q3 = ((case hd pends of [] \<Rightarrow> Inl EOF | x # _ \<Rightarrow> Inr x), q4)" "queue_holds q4 pends"
    using Current_holds by blast
  obtain p ps' where pends: "pends = p # ps'" using queue_holds_length [OF q3] by (cases pends) auto
  have op: "Open ?q = (case Current ?q3 of (Inl EOF, q4) \<Rightarrow> trimHead q4 | (_, q4) \<Rightarrow> (None, q4))"
    using q1 ps by (simp add: Open_def Let_def)
  show ?thesis
  proof (cases "p = [] \<and> ps' \<noteq> []")
    case True
    with trimHead_holds [OF q4(2) [unfolded pends]] q4(1) op pends show ?thesis
      by (auto simp: queue_rep_def)
  next
    case False
    then have "Open ?q = (None, q4)"
      using op q4 pends queue_holds_length [OF q4(2)] by (cases p) (auto simp: trimHead_def)
    with q4(2) show ?thesis by (auto simp: queue_rep_def)
  qed
qed

section \<open>The queue as a provider\<close>

text \<open>
  What a user of the queue relies on: a successful append adds a block at the end and a failed
  one changes nothing, the current block is the first one, and to advance after reading it
  removes just that block.
\<close>

locale fifo_queue =
  fixes rep :: "'q \<Rightarrow> byte list list \<Rightarrow> bool"
    and enqueue :: "byte list \<Rightarrow> 'q \<Rightarrow> hh_error option \<times> 'q"
    and current :: "'q \<Rightarrow> (hh_error + byte list) \<times> 'q"
    and advance :: "'q \<Rightarrow> hh_error option \<times> 'q"
  assumes enqueue_law: "rep q xs \<Longrightarrow> b \<noteq> [] \<Longrightarrow> enqueue b q = (r, q') \<Longrightarrow> rep q' (if r = None then xs @ [b] else xs)"
    and current_law: "rep q xs \<Longrightarrow> current q = (c, q') \<Longrightarrow>
      rep q' xs \<and> (case c of Inr x \<Rightarrow> xs \<noteq> [] \<and> hd xs = x | Inl e \<Rightarrow> e = EOF)"
    and advance_law: "rep q xs \<Longrightarrow> current q = (Inr x, q1) \<Longrightarrow> advance q1 = (r, q2) \<Longrightarrow> rep q2 (tl xs) \<and> r = None"

interpretation hh_fifo: fifo_queue queue_rep Append Current Advance
proof
  fix q xs b r q' assume "queue_rep q xs" "b \<noteq> []" "Append b q = (r, q')"
  then show "queue_rep q' (if r = None then xs @ [b] else xs)"
    using Append_holds [of q _ b] unfolding queue_rep_def by (metis Pair_inject)
next
  fix q xs r q' assume "queue_rep q xs" "Current q = (r, q')"
  then obtain pends where p: "queue_holds q pends" "xs = concat pends" "Current q = (r, q')"
    unfolding queue_rep_def by blast
  then have r: "r = (case hd pends of [] \<Rightarrow> Inl EOF | x # _ \<Rightarrow> Inr x)" "queue_holds q' pends"
    using Current_holds [OF p(1)] by auto
  obtain p0 ps where "pends = p0 # ps" using queue_holds_length [OF p(1)] by (cases pends) auto
  with p(2) r show "queue_rep q' xs \<and> (case r of Inr x \<Rightarrow> xs \<noteq> [] \<and> hd xs = x | Inl e \<Rightarrow> e = EOF)"
    by (cases p0) (auto simp: queue_rep_def)
next
  fix q xs x q1 r q2 assume "queue_rep q xs" "Current q = (Inr x, q1)" and adv: "Advance q1 = (r, q2)"
  then obtain pends where p: "queue_holds q pends" "xs = concat pends" "Current q = (Inr x, q1)"
    unfolding queue_rep_def by blast
  then have r: "Inr x = (case hd pends of [] \<Rightarrow> Inl EOF | x # _ \<Rightarrow> Inr x)" "queue_holds q1 pends"
    using Current_holds [OF p(1)] by auto
  obtain p0 ps where "pends = p0 # ps" using queue_holds_length [OF p(1)] by (cases pends) auto
  then obtain p0' where pe: "pends = (x # p0') # ps" using r(1) by (cases p0) auto
  from Advance_holds [OF r(2) [unfolded pe]] adv pe p(2) show "queue_rep q2 (tl xs) \<and> r = None"
    by (auto simp: queue_rep_def)
qed

end
