(* ===== verification/HHProcessor.thy ===== *)
theory HHProcessor
  imports HHQueueProps
begin

text \<open>
  The node processors of hinted handoff and the service that owns them
  (\<open>services/hh/node_processor.go\<close>, \<open>services/hh/service.go\<close>).  A processor is written over
  the operations of its queue; points are abstract, with the text of a point and the parser
  of \<open>models.ParsePoints\<close> as arguments.
\<close>

section \<open>Blocks\<close>

definition marshalWrite :: "('p \<Rightarrow> byte list) \<Rightarrow> u64 \<Rightarrow> 'p list \<Rightarrow> byte list" where
  "marshalWrite pstring shardID points =
     PutUint64 shardID @ concat (map (\<lambda>p. pstring p @ [10]) points)"

definition unmarshalWrite :: "(byte list \<Rightarrow> hh_error + 'p list) \<Rightarrow> byte list \<Rightarrow> hh_error + u64 \<times> 'p list" where
  "unmarshalWrite ParsePoints b =
     (if length b < 8 then Inl (HHError ''too short'')
      else case ParsePoints (drop 8 b) of
        Inl e \<Rightarrow> Inl e
      | Inr points \<Rightarrow> Inr (Uint64 (take 8 b), points))"

text \<open>What is assumed of the line protocol: parsing the printed points gives them back.\<close>

definition parses :: "('p \<Rightarrow> byte list) \<Rightarrow> (byte list \<Rightarrow> hh_error + 'p list) \<Rightarrow> bool" where
  "parses pstring ParsePoints \<longleftrightarrow>
     (\<forall>points. ParsePoints (concat (map (\<lambda>p. pstring p @ [10]) points)) = Inr points)"

lemma unmarshalWrite_marshalWrite:
  "parses pstring ParsePoints \<Longrightarrow>
     unmarshalWrite ParsePoints (marshalWrite pstring shardID points) = Inr (shardID, points)"
  by (simp add: unmarshalWrite_def marshalWrite_def parses_def)

lemma marshalWrite_nonempty [simp]: "marshalWrite pstring shardID points \<noteq> []"
  by (simp add: marshalWrite_def)

section \<open>Node processors\<close>

record hh_stats =
  hs_writeShardReq :: nat
  hs_writeShardReqPoints :: nat
  hs_writeNodeReq :: nat
  hs_writeNodeReqFail :: nat
  hs_writeNodeReqPoints :: nat

definition zero_hh_stats :: hh_stats where
  "zero_hh_stats = \<lparr>hs_writeShardReq = 0, hs_writeShardReqPoints = 0, hs_writeNodeReq = 0,
     hs_writeNodeReqFail = 0, hs_writeNodeReqPoints = 0\<rparr>"

text \<open>\<open>np_open\<close> stands for \<open>n.done != nil\<close>.\<close>

record 'q NodeProcessor =
  np_nodeID :: u64
  np_open :: bool
  np_queue :: 'q
  np_stats :: hh_stats

text \<open>\<open>nilq\<close> stands in the place of the queue until the processor is opened.\<close>

definition NewNodeProcessor :: "'q \<Rightarrow> u64 \<Rightarrow> 'q NodeProcessor" where
  "NewNodeProcessor nilq nodeID = \<lparr>np_nodeID = nodeID, np_open = False, np_queue = nilq, np_stats = zero_hh_stats\<rparr>"

text \<open>\<open>open_queue\<close> makes and opens the queue in the directory of the node.\<close>

definition np_Open :: "(u64 \<Rightarrow> hh_error + 'q) \<Rightarrow> 'q NodeProcessor \<Rightarrow> hh_error option \<times> 'q NodeProcessor" where
  "np_Open open_queue n =
     (if np_open n then (None, n)
      else case open_queue (np_nodeID n) of
        Inl e \<Rightarrow> (Some e, n\<lparr>np_open := True\<rparr>)
      | Inr q \<Rightarrow> (None, n\<lparr>np_open := True, np_queue := q\<rparr>))"

definition np_Close :: "('q \<Rightarrow> hh_error option \<times> 'q) \<Rightarrow> 'q NodeProcessor \<Rightarrow> hh_error option \<times> 'q NodeProcessor" where
  "np_Close close n =
     (if \<not> np_open n then (None, n)
      else case close (np_queue n) of (r, q) \<Rightarrow> (r, n\<lparr>np_open := False, np_queue := q\<rparr>))"

text \<open>\<open>RemoveAll\<close> is the result of removing the directory of a node.\<close>

definition np_Purge :: "(u64 \<Rightarrow> hh_error option) \<Rightarrow> 'q NodeProcessor \<Rightarrow> hh_error option" where
  "np_Purge RemoveAll n =
     (if np_open n then Some (HHError ''node processor is open'') else RemoveAll (np_nodeID n))"

definition np_WriteShard ::
    "(byte list \<Rightarrow> 'q \<Rightarrow> hh_error option \<times> 'q) \<Rightarrow> ('p \<Rightarrow> byte list) \<Rightarrow> u64 \<Rightarrow> 'p list \<Rightarrow> 'q NodeProcessor \<Rightarrow>
     hh_error option \<times> 'q NodeProcessor" where
  "np_WriteShard enqueue pstring shardID points n =
     (if \<not> np_open n then (Some (HHError ''node processor is closed''), n)
      else
        (let st = np_stats n;
             st' = st\<lparr>hs_writeShardReq := hs_writeShardReq st + 1,
                      hs_writeShardReqPoints := hs_writeShardReqPoints st + length points\<rparr>;
             (r, q) = enqueue (marshalWrite pstring shardID points) (np_queue n)
         in (r, n\<lparr>np_stats := st', np_queue := q\<rparr>)))"

text \<open>
  \<open>active\<close> is the answer of \<open>n.Active()\<close>, \<open>write\<close> is \<open>writer.WriteShard\<close>.  The result comes with
  the write that was sent, if one was acknowledged.
\<close>

definition SendWrite ::
    "('q \<Rightarrow> (hh_error + byte list) \<times> 'q) \<Rightarrow> ('q \<Rightarrow> hh_error option \<times> 'q) \<Rightarrow> (byte list \<Rightarrow> hh_error + 'p list) \<Rightarrow>
     (u64 \<Rightarrow> u64 \<Rightarrow> 'p list \<Rightarrow> hh_error option) \<Rightarrow> hh_error + bool \<Rightarrow> 'q NodeProcessor \<Rightarrow>
     (hh_error + nat) \<times> (u64 \<times> 'p list) option \<times> 'q NodeProcessor" where
  "SendWrite current advance ParsePoints write active n =
     (case active of
        Inl e \<Rightarrow> (Inl e, None, n)
      | Inr False \<Rightarrow> (Inl EOF, None, n)
      | Inr True \<Rightarrow>
          (case current (np_queue n) of
             (Inl e, q) \<Rightarrow> (Inl e, None, n\<lparr>np_queue := q\<rparr>)
           | (Inr buf, q) \<Rightarrow>
               (case unmarshalWrite ParsePoints buf of
                  Inl e \<Rightarrow> (Inl e, None, n\<lparr>np_queue := snd (advance q)\<rparr>)
                | Inr (shardID, points) \<Rightarrow>
                    (let st = np_stats n in
                     case write shardID (np_nodeID n) points of
                       Some e \<Rightarrow> (Inl e, None, n\<lparr>np_queue := q,
                          np_stats := st\<lparr>hs_writeNodeReqFail := hs_writeNodeReqFail st + 1\<rparr>\<rparr>)
                     | None \<Rightarrow>
                         (Inr (length buf), Some (shardID, points), n\<lparr>np_queue := snd (advance q),
                            np_stats := st\<lparr>hs_writeNodeReq := hs_writeNodeReq st + 1,
                              hs_writeNodeReqPoints := hs_writeNodeReqPoints st + length points\<rparr>\<rparr>)))))"

text \<open>The wait before the next round of \<open>run\<close>: doubled after a failure, up to the maximum.\<close>

definition next_interval :: "duration \<Rightarrow> duration \<Rightarrow> duration \<Rightarrow> hh_error + nat \<Rightarrow> duration" where
  "next_interval RetryInterval RetryMaxInterval currInterval r =
     (case r of
        Inr _ \<Rightarrow> RetryInterval
      | Inl e \<Rightarrow>
          if e = EOF then RetryInterval
          else if currInterval * 2 > RetryMaxInterval then RetryMaxInterval else currInterval * 2)"

section \<open>Runs\<close>

text \<open>
  What happens to a processor: writes handed to it and attempts to send, each with the state
  of the target node and its answers.  A run collects the writes that were accepted and the
  writes that were sent.
\<close>

datatype 'p hh_event =
    HWrite u64 "'p list"
  | HSend "hh_error + bool" "u64 \<Rightarrow> u64 \<Rightarrow> 'p list \<Rightarrow> hh_error option"

fun hh_run ::
    "(byte list \<Rightarrow> 'q \<Rightarrow> hh_error option \<times> 'q) \<Rightarrow> ('q \<Rightarrow> (hh_error + byte list) \<times> 'q) \<Rightarrow> ('q \<Rightarrow> hh_error option \<times> 'q) \<Rightarrow>
     ('p \<Rightarrow> byte list) \<Rightarrow> (byte list \<Rightarrow> hh_error + 'p list) \<Rightarrow> 'p hh_event list \<Rightarrow> 'q NodeProcessor \<Rightarrow>
     (u64 \<times> 'p list) list \<times> (u64 \<times> 'p list) list \<times> 'q NodeProcessor" where
  "hh_run enqueue current advance pstring ParsePoints [] n = ([], [], n)"
| "hh_run enqueue current advance pstring ParsePoints (HWrite sid ps # evs) n =
     (case np_WriteShard enqueue pstring sid ps n of
        (r, n') \<Rightarrow>
          (case hh_run enqueue current advance pstring ParsePoints evs n' of
             (accepted, sent, n'') \<Rightarrow> (if r = None then (sid, ps) # accepted else accepted, sent, n'')))"
| "hh_run enqueue current advance pstring ParsePoints (HSend active write # evs) n =
     (case SendWrite current advance ParsePoints write active n of
        (_, s, n') \<Rightarrow>
          (case hh_run enqueue current advance pstring ParsePoints evs n' of
             (accepted, sent, n'') \<Rightarrow> (accepted, case s of Some x \<Rightarrow> x # sent | None \<Rightarrow> sent, n'')))"

context fifo_queue
begin

lemma SendWrite_step:
  assumes "parses pstring ParsePoints" "rep (np_queue n) (map (\<lambda>(sid, ps). marshalWrite pstring sid ps) ws)"
    "SendWrite current advance ParsePoints write active n = (r, s, n')"
  shows "rep (np_queue n') (map (\<lambda>(sid, ps). marshalWrite pstring sid ps) (if s = None then ws else tl ws)) \<and>
    (s \<noteq> None \<longrightarrow> ws \<noteq> [] \<and> s = Some (hd ws))"
proof (cases "active = Inr True")
  case True
  obtain c q where c: "current (np_queue n) = (c, q)" by fastforce
  note cl = current_law [OF assms(2) c]
  show ?thesis
  proof (cases c)
    case (Inl e)
    with assms(3) True c cl show ?thesis by (auto simp: SendWrite_def)
  next
    case (Inr buf)
    with cl obtain sid ps ws' where ws: "ws = (sid, ps) # ws'" and buf: "buf = marshalWrite pstring sid ps"
      by (cases ws) auto
    obtain r2 q2 where a: "advance q = (r2, q2)" by fastforce
    note al = advance_law [OF assms(2) c [unfolded Inr] a]
    from assms(3) True c Inr buf unmarshalWrite_marshalWrite [OF assms(1), of sid ps] a cl al ws show ?thesis
      by (auto simp: SendWrite_def Let_def split: option.splits)
  qed
next
  case False
  with assms(2,3) show ?thesis by (auto simp: SendWrite_def split: sum.splits bool.splits)
qed

text \<open>Writes are sent in the order in which they were accepted; the rest is still in the queue.\<close>

lemma hh_run_fifo:
  assumes "parses pstring ParsePoints" "rep (np_queue n) (map (\<lambda>(sid, ps). marshalWrite pstring sid ps) ws)"
    "hh_run enqueue current advance pstring ParsePoints evs n = (accepted, sent, n')"
  shows "\<exists>rest. ws @ accepted = sent @ rest \<and>
    rep (np_queue n') (map (\<lambda>(sid, ps). marshalWrite pstring sid ps) rest)"
  using assms(2,3)
proof (induction evs arbitrary: n ws accepted sent)
  case (Cons ev evs)
  show ?case
  proof (cases ev)
    case (HWrite sid ps)
    obtain r n1 where w: "np_WriteShard enqueue pstring sid ps n = (r, n1)" by fastforce
    obtain acc1 sent1 where run: "hh_run enqueue current advance pstring ParsePoints evs n1 = (acc1, sent1, n')"
      and eq: "accepted = (if r = None then (sid, ps) # acc1 else acc1)" "sent = sent1"
      using Cons.prems(2) HWrite w by (auto split: prod.splits)
    have "rep (np_queue n1) (map (\<lambda>(sid, ps). marshalWrite pstring sid ps) (if r = None then ws @ [(sid, ps)] else ws))"
    proof (cases "np_open n")
      case True
      obtain r' q' where a: "enqueue (marshalWrite pstring sid ps) (np_queue n) = (r', q')" by fastforce
      from enqueue_law [OF Cons.prems(1) marshalWrite_nonempty a] w True a show ?thesis
        by (auto simp: np_WriteShard_def Let_def)
    qed (use w Cons.prems(1) in \<open>auto simp: np_WriteShard_def\<close>)
    from Cons.IH [OF this run] eq show ?thesis by auto
  next
    case (HSend active wr)
    obtain r s n1 where w: "SendWrite current advance ParsePoints wr active n = (r, s, n1)" by (metis prod.exhaust)
    obtain acc1 sent1 where run: "hh_run enqueue current advance pstring ParsePoints evs n1 = (acc1, sent1, n')"
      and eq: "accepted = acc1" "sent = (case s of Some x \<Rightarrow> x # sent1 | None \<Rightarrow> sent1)"
      using Cons.prems(2) HSend w by (auto split: prod.splits)
    note st = SendWrite_step [OF assms(1) Cons.prems(1) w]
    from Cons.IH [OF conjunct1 [OF st] run] eq st show ?thesis
      by (cases s) (force simp: neq_Nil_conv)+
  qed
qed simp

end

section \<open>The service\<close>

text \<open>The processors by node, the counters, and the configuration the service reads.\<close>

record 'q hh_service =
  hv_Enabled :: bool
  hv_MaxAge :: duration
  hv_processors :: "(u64 \<times> 'q NodeProcessor) list"
  hv_stats :: hh_stats

definition ErrHintedHandoffDisabled :: hh_error where
  "ErrHintedHandoffDisabled = HHError ''hinted handoff disabled''"

text \<open>
  \<open>dirs\<close> are the entries of the service's directory, \<open>None\<close> for a name that is not a number.
\<close>

fun open_processors ::
    "'q \<Rightarrow> (u64 \<Rightarrow> hh_error + 'q) \<Rightarrow> u64 option list \<Rightarrow> 'q hh_service \<Rightarrow> hh_error option \<times> 'q hh_service" where
  "open_processors nilq open_queue [] s = (None, s)"
| "open_processors nilq open_queue (None # dirs) s = open_processors nilq open_queue dirs s"
| "open_processors nilq open_queue (Some nodeID # dirs) s =
     (case np_Open open_queue (NewNodeProcessor nilq nodeID) of
        (Some e, _) \<Rightarrow> (Some e, s)
      | (None, n) \<Rightarrow>
          open_processors nilq open_queue dirs (s\<lparr>hv_processors := map_put nodeID n (hv_processors s)\<rparr>))"

definition service_Open ::
    "'q \<Rightarrow> (u64 \<Rightarrow> hh_error + 'q) \<Rightarrow> u64 option list \<Rightarrow> 'q hh_service \<Rightarrow> hh_error option \<times> 'q hh_service" where
  "service_Open nilq open_queue dirs s =
     (if \<not> hv_Enabled s then (None, s) else open_processors nilq open_queue dirs s)"

text \<open>The processors are closed in the order \<open>ks\<close> of the map iteration, up to the first failure.\<close>

fun service_Close ::
    "('q \<Rightarrow> hh_error option \<times> 'q) \<Rightarrow> u64 list \<Rightarrow> 'q hh_service \<Rightarrow> hh_error option \<times> 'q hh_service" where
  "service_Close close [] s = (None, s)"
| "service_Close close (k # ks) s =
     (case map_of (hv_processors s) k of
        None \<Rightarrow> service_Close close ks s
      | Some n \<Rightarrow>
          (case np_Close close n of
             (r, n') \<Rightarrow>
               (let s' = s\<lparr>hv_processors := map_put k n' (hv_processors s)\<rparr> in
                case r of Some e \<Rightarrow> (Some e, s') | None \<Rightarrow> service_Close close ks s')))"

definition service_WriteShard ::
    "'q \<Rightarrow> (u64 \<Rightarrow> hh_error + 'q) \<Rightarrow> (byte list \<Rightarrow> 'q \<Rightarrow> hh_error option \<times> 'q) \<Rightarrow> ('p \<Rightarrow> byte list) \<Rightarrow>
     u64 \<Rightarrow> u64 \<Rightarrow> 'p list \<Rightarrow> 'q hh_service \<Rightarrow> hh_error option \<times> 'q hh_service" where
  "service_WriteShard nilq open_queue enqueue pstring shardID ownerID points s0 =
     (if \<not> hv_Enabled s0 then (Some ErrHintedHandoffDisabled, s0)
      else
        let st = hv_stats s0;
            s = s0\<lparr>hv_stats := st\<lparr>hs_writeShardReq := hs_writeShardReq st + 1,
                     hs_writeShardReqPoints := hs_writeShardReqPoints st + length points\<rparr>\<rparr>
        in case (case map_of (hv_processors s) ownerID of
                   Some n \<Rightarrow> (None, n)
                 | None \<Rightarrow> np_Open open_queue (NewNodeProcessor nilq ownerID)) of
             (Some e, _) \<Rightarrow> (Some e, s)
           | (None, n) \<Rightarrow>
               (case np_WriteShard enqueue pstring shardID points n of
                  (r, n') \<Rightarrow> (r, s\<lparr>hv_processors := map_put ownerID n' (hv_processors s)\<rparr>)))"

text \<open>
  One tick of \<open>purgeInactiveProcessors\<close>: a processor goes when its node is known to be
  inactive and it got no data for \<open>MaxAge\<close>.  \<open>lm\<close> is \<open>LastModified\<close>; one that cannot be closed
  or whose files cannot be removed stays.
\<close>

definition purge_due ::
    "go_time \<Rightarrow> ('q NodeProcessor \<Rightarrow> hh_error + go_time) \<Rightarrow> (u64 \<Rightarrow> hh_error + bool) \<Rightarrow> duration \<Rightarrow>
     'q NodeProcessor \<Rightarrow> bool" where
  "purge_due now lm active MaxAge n =
     (case lm n of
        Inl _ \<Rightarrow> False
      | Inr t \<Rightarrow>
          (case active (np_nodeID n) of
             Inl _ \<Rightarrow> False
           | Inr a \<Rightarrow> \<not> a \<and> t < now - MaxAge))"

definition purge_processor ::
    "go_time \<Rightarrow> ('q NodeProcessor \<Rightarrow> hh_error + go_time) \<Rightarrow> (u64 \<Rightarrow> hh_error + bool) \<Rightarrow> duration \<Rightarrow>
     ('q \<Rightarrow> hh_error option \<times> 'q) \<Rightarrow> (u64 \<Rightarrow> hh_error option) \<Rightarrow> 'q NodeProcessor \<Rightarrow> 'q NodeProcessor option" where
  "purge_processor now lm active MaxAge close RemoveAll n =
     (if \<not> purge_due now lm active MaxAge n then Some n
      else
        case np_Close close n of
          (Some e, n') \<Rightarrow> Some n'
        | (None, n') \<Rightarrow> (case np_Purge RemoveAll n' of Some e \<Rightarrow> Some n' | None \<Rightarrow> None))"

definition purgeInactiveProcessors ::
    "go_time \<Rightarrow> ('q NodeProcessor \<Rightarrow> hh_error + go_time) \<Rightarrow> (u64 \<Rightarrow> hh_error + bool) \<Rightarrow>
     ('q \<Rightarrow> hh_error option \<times> 'q) \<Rightarrow> (u64 \<Rightarrow> hh_error option) \<Rightarrow> 'q hh_service \<Rightarrow> 'q hh_service" where
  "purgeInactiveProcessors now lm active close RemoveAll s =
     s\<lparr>hv_processors := List.map_filter (\<lambda>(k, n).
         map_option (Pair k) (purge_processor now lm active (hv_MaxAge s) close RemoveAll n)) (hv_processors s)\<rparr>"

end
