(* ===== verification/HHClose.thy ===== *)
theory HHClose
  imports HHProcessor
begin

text \<open>
  Closing a node processor while its goroutine runs (\<open>services/hh/node_processor.go\<close>): the
  locks and waits of \<open>Close\<close>, \<open>run\<close>, \<open>SendWrite\<close> and \<open>WriteShard\<close> as a step relation.  \<open>Close\<close>
  waits for the goroutine with \<open>n.mu\<close> held, and the goroutine takes \<open>n.mu\<close> for every write it
  sends.
\<close>

section \<open>The steps\<close>

text \<open>
  The goroutine is at its \<open>select\<close>, about to take the read lock in \<open>SendWrite\<close>, inside
  \<open>SendWrite\<close>, or has returned.  \<open>Close\<close> has not begun, waits for the write lock, holds it and
  waits for the goroutine, or has returned.
\<close>

datatype run_pc = RSelect | RLock | RSend | RExited

datatype close_pc = CIdle | CLock | CWait | CReturned

text \<open>\<open>pc_writers\<close> is the number of \<open>WriteShard\<close> calls that hold the read lock.\<close>

record proc_state =
  pc_run :: run_pc
  pc_close :: close_pc
  pc_writers :: nat

text \<open>\<open>n.mu\<close> is not held for writing, and nobody waits to do so (which keeps new readers out).\<close>

definition read_free :: "proc_state \<Rightarrow> bool" where
  "read_free s = (pc_close s \<in> {CIdle, CReturned})"

inductive close_step :: "proc_state \<Rightarrow> proc_state \<Rightarrow> bool" where
  run_purge: "pc_run s = RSelect \<Longrightarrow> close_step s s"
| run_timer: "pc_run s = RSelect \<Longrightarrow> close_step s (s\<lparr>pc_run := RLock\<rparr>)"
| run_done: "pc_run s = RSelect \<Longrightarrow> pc_close s = CWait \<Longrightarrow> close_step s (s\<lparr>pc_run := RExited\<rparr>)"
| send_lock: "pc_run s = RLock \<Longrightarrow> read_free s \<Longrightarrow> close_step s (s\<lparr>pc_run := RSend\<rparr>)"
| send_again: "pc_run s = RSend \<Longrightarrow> close_step s (s\<lparr>pc_run := RLock\<rparr>)"
| send_failed: "pc_run s = RSend \<Longrightarrow> close_step s (s\<lparr>pc_run := RSelect\<rparr>)"
| close_begin: "pc_close s = CIdle \<Longrightarrow> close_step s (s\<lparr>pc_close := CLock\<rparr>)"
| close_locked: "pc_close s = CLock \<Longrightarrow> pc_run s \<noteq> RSend \<Longrightarrow> pc_writers s = 0 \<Longrightarrow>
    close_step s (s\<lparr>pc_close := CWait\<rparr>)"
| close_return: "pc_close s = CWait \<Longrightarrow> pc_run s = RExited \<Longrightarrow> close_step s (s\<lparr>pc_close := CReturned\<rparr>)"
| write_enter: "read_free s \<Longrightarrow> close_step s (s\<lparr>pc_writers := pc_writers s + 1\<rparr>)"
| write_leave: "pc_writers s > 0 \<Longrightarrow> close_step s (s\<lparr>pc_writers := pc_writers s - 1\<rparr>)"

inductive_cases close_stepE: "close_step s s'"

definition proc_start :: proc_state where
  "proc_start = \<lparr>pc_run = RSelect, pc_close = CIdle, pc_writers = 0\<rparr>"

abbreviation proc_reachable :: "proc_state \<Rightarrow> bool" where
  "proc_reachable s \<equiv> close_step\<^sup>*\<^sup>* proc_start s"

text \<open>\<open>Close\<close> was called, has not returned, and nothing can happen any more.\<close>

definition close_stuck :: "proc_state \<Rightarrow> bool" where
  "close_stuck s \<longleftrightarrow> pc_close s \<noteq> CReturned \<and> (\<forall>s'. \<not> close_step s s')"

section \<open>Invariant\<close>

definition lock_inv :: "proc_state \<Rightarrow> bool" where
  "lock_inv s \<longleftrightarrow>
     (pc_close s = CWait \<longrightarrow> pc_run s \<noteq> RSend \<and> pc_writers s = 0) \<and>
     (pc_run s = RExited \<longrightarrow> pc_close s \<in> {CWait, CReturned}) \<and>
     (pc_close s = CReturned \<longrightarrow> pc_run s = RExited)"

lemma lock_inv_step: "close_step s s' \<Longrightarrow> lock_inv s \<Longrightarrow> lock_inv s'"
  by (elim close_stepE) (auto simp: lock_inv_def read_free_def)

lemma proc_reachable_inv: "proc_reachable s \<Longrightarrow> lock_inv s"
proof (induction rule: rtranclp_induct)
  case base
  show ?case by (simp add: lock_inv_def proc_start_def)
qed (rule lock_inv_step)

lemma wait_lock_stuck: "lock_inv s \<Longrightarrow> pc_close s = CWait \<Longrightarrow> pc_run s = RLock \<Longrightarrow> close_stuck s"
  by (auto simp: close_stuck_def lock_inv_def read_free_def elim: close_stepE)

lemma stuck_wait_lock:
  assumes "lock_inv s" "close_stuck s"
  shows "pc_close s = CWait \<and> pc_run s = RLock"
proof (cases "pc_close s")
  case CIdle
  with assms(2) close_begin show ?thesis by (auto simp: close_stuck_def)
next
  case CLock
  with assms(2) close_locked send_again write_leave show ?thesis unfolding close_stuck_def by blast
next
  case CWait
  with assms run_timer close_return show ?thesis
    by (cases "pc_run s") (auto simp: close_stuck_def lock_inv_def)
qed (use assms(2) in \<open>simp add: close_stuck_def\<close>)

end
