(* ===== verification/HHProperties.thy ===== *)
theory HHProperties
  imports HHClose
begin

text \<open>
  The properties of hinted handoff: writes are sent in the order in which they were accepted
  and survive a restart, and the three situations in which the queue fails to keep that
  promise.
\<close>

section \<open>Order and completeness\<close>

lemma Open_new:
  "\<exists>q. Open (newQueue m []) = (None, q) \<and> queue_rep q [] \<and> q_maxSize q = m"
proof -
  let ?l = "\<lparr>sg_size = 8, sg_off = Some 8, sg_path = 1, sg_pos = 0, sg_currentSize = 0, sg_maxSize = defaultSegmentSize\<rparr>"
  let ?q = "\<lparr>q_head = Some 1, q_tail = Some 1, q_maxSegmentSize = defaultSegmentSize, q_maxSize = m, q_segments = [1],
    q_objs = [1 \<mapsto> ?l], q_disk = [(1, PutUint64 0)]\<rparr>"
  have add: "addSegment (newQueue m []) = (Inr 1, ?q\<lparr>q_head := None, q_tail := None\<rparr>)"
    by (simp add: addSegment_def nextSegmentID_def newQueue_def file_of_def newSegment_empty Let_def)
  have "(newQueue m [])\<lparr>q_segments := []\<rparr> = newQueue m []" by (simp add: newQueue_def)
  then have "Open (newQueue m []) = (case Current ?q of (Inl EOF, q4) \<Rightarrow> trimHead q4 | (_, q4) \<Rightarrow> (None, q4))"
    using add by (simp add: Open_def ReadDir_def newQueue_def insertion_sort_def Let_def)
  also have "\<dots> = (None, ?q)"
    by (simp add: Current_def run_seg_def file_of_def segment_current_def seg_op_defs trimHead_def)
  finally have op: "Open (newQueue m []) = (None, ?q)" .
  have "seg_holds ?l (PutUint64 0) [] []" by (simp add: seg_holds_def defaultSegmentSize_def)
  then have "seg_of ?q 1 []" unfolding seg_of_def by fastforce
  then have "queue_holds ?q [[]]" by (simp add: queue_holds_def defaultSegmentSize_def)
  then have "queue_rep ?q []" by (auto simp: queue_rep_def)
  with op show ?thesis by auto
qed


definition unit_parser :: "byte list \<Rightarrow> hh_error + unit list" where
  "unit_parser b = Inr (replicate (length b) ())"

lemma unit_parses: "parses (\<lambda>_. []) unit_parser"
proof -
  have "length (concat (map (\<lambda>p. [10 :: byte]) (ps :: unit list))) = length ps" for ps by (induction ps) auto
  then show ?thesis by (simp add: parses_def unit_parser_def replicate_length_same)
qed


text \<open>
  (C11) A restart loses nothing: opening the directory of a queue again, with none of the state
  in memory, gives a queue with the same blocks in the same order, provided the listing of the
  directory has the segments in the order of the queue.
\<close>

theorem Open_recovers:
  assumes "queue_rep q xs" "q_maxSegmentSize q = defaultSegmentSize" "ReadDir q = q_segments q"
  shows "\<exists>q'. Open (newQueue maxSize (q_disk q)) = (None, q') \<and> queue_rep q' xs"
proof -
  obtain pends where h: "queue_holds q pends" "xs = concat pends" using assms(1) by (auto simp: queue_rep_def)
  have rd: "ReadDir (newQueue maxSize (q_disk q)) = q_segments q"
    using assms(3) by (simp add: ReadDir_def newQueue_def)
  have ms: "mset (map fst (q_disk q)) = mset (q_segments q)"
    using assms(3) mset_insertion_sort [of name_less "map fst (q_disk q)"] by (simp add: ReadDir_def)
  then have "q_disk q \<noteq> []" "distinct (map fst (q_disk q))"
    using h(1) mset_eq_imp_distinct_iff [OF ms] by (auto simp: queue_holds_def)
  moreover have "list_all2 (file_holds defaultSegmentSize (q_disk q)) (q_segments q) pends"
    using h(1) assms(2) by (auto simp: queue_holds_def list_all2_conv_all_nth seg_of_def file_holds_def) blast
  ultimately show ?thesis using Open_holds [of "q_disk q" maxSize pends] rd h(2) by simp
qed

section \<open>Restarts that reorder\<close>

text \<open>A queue whose segments \<open>a\<close> and \<open>b\<close> hold one block each.\<close>

definition one_block :: "nat \<Rightarrow> byte list \<Rightarrow> segment" where
  "one_block p x = \<lparr>sg_size = int (length x) + 16, sg_off = Some 0, sg_path = p, sg_pos = 0,
     sg_currentSize = int (length x), sg_maxSize = defaultSegmentSize\<rparr>"

definition two_segments :: "nat \<Rightarrow> byte list \<Rightarrow> nat \<Rightarrow> byte list \<Rightarrow> queue" where
  "two_segments a x b y = \<lparr>q_head = Some a, q_tail = Some b, q_maxSegmentSize = defaultSegmentSize, q_maxSize = 1000,
     q_segments = [a, b], q_objs = [a \<mapsto> one_block a x, b \<mapsto> one_block b y],
     q_disk = [(a, encode_block x @ PutUint64 0), (b, encode_block y @ PutUint64 0)]\<rparr>"

lemma one_block_holds:
  "x \<noteq> [] \<Longrightarrow> int (length x) \<le> 1000 \<Longrightarrow> seg_holds (one_block p x) (encode_block x @ PutUint64 0) [] [x]"
  by (simp add: seg_holds_def one_block_def defaultSegmentSize_def)

lemma two_segments_rep:
  assumes "a \<noteq> b" "x \<noteq> []" "y \<noteq> []" "length x \<le> 1000" "length y \<le> 1000"
  shows "queue_rep (two_segments a x b y) [x, y]"
proof -
  have "seg_of (two_segments a x b y) a [x]" "seg_of (two_segments a x b y) b [y]"
    using assms one_block_holds [of x a] one_block_holds [of y b]
    by (auto simp: seg_of_def two_segments_def one_block_def intro!: exI [of _ "[]"])
  with assms(1) have "queue_holds (two_segments a x b y) [[x], [y]]"
    by (simp add: queue_holds_def two_segments_def defaultSegmentSize_def)
  then show ?thesis by (auto simp: queue_rep_def)
qed

lemmas name_simps = ReadDir_def name_less_def show_nat.simps insertion_sort_def

theorem Open_recovers_witness:
  "\<exists>q'. Open (newQueue 1000 (q_disk (two_segments 1 [1] 2 [2]))) = (None, q') \<and> queue_rep q' [[1], [2]]"
  using Open_recovers [OF two_segments_rep [of 1 2 "[1]" "[2]"], of 1000]
  by (simp add: two_segments_def name_simps)

text \<open>
  The listing is by the text of the names, so that segment 10 comes before segment 9: a
  queue whose segments are 9 and 10 comes back from a restart with its blocks in the wrong
  order.
\<close>

theorem Open_reorders:
  "queue_rep (two_segments 9 [1] 10 [2]) [[1], [2]] \<and>
   (\<exists>q'. Open (newQueue 1000 (q_disk (two_segments 9 [1] 10 [2]))) = (None, q') \<and> queue_rep q' [[2], [1]])"
proof -
  let ?files = "q_disk (two_segments 9 [1] 10 [2])"
  have rd: "ReadDir (newQueue 1000 ?files) = [10, 9]"
    by (simp add: two_segments_def newQueue_def name_simps)
  have "file_holds defaultSegmentSize ?files 9 [[1]]" "file_holds defaultSegmentSize ?files 10 [[2]]"
    using one_block_holds [of "[1]" 9] one_block_holds [of "[2]" 10]
    by (auto simp: file_holds_def two_segments_def one_block_def intro!: exI [of _ "[]"])
  then have "list_all2 (file_holds defaultSegmentSize ?files) (ReadDir (newQueue 1000 ?files)) [[[2]], [[1]]]"
    by (simp add: rd)
  from Open_holds [OF this] two_segments_rep [of 9 10 "[1]" "[2]"] show ?thesis by (simp add: two_segments_def)
qed

section \<open>A head that is left behind\<close>

lemma exhausted_head_sends_nothing:
  assumes "queue_holds (np_queue n) ([] # pends)" "list_all (\<lambda>ev. \<exists>active wr. ev = HSend active wr) evs"
  shows "fst (snd (hh_run Append Current Advance pstring ParsePoints evs n)) = []"
  using assms
proof (induction evs arbitrary: n)
  case (Cons ev evs)
  then obtain active wr where ev: "ev = HSend active wr" by auto
  obtain q' where c: "Current (np_queue n) = (Inl EOF, q')" "queue_holds q' ([] # pends)"
    using Current_holds [OF Cons.prems(1)] by auto
  obtain r s n1 where w: "SendWrite Current Advance ParsePoints wr active n = (r, s, n1)" by (metis prod.exhaust)
  then have "s = None" "queue_holds (np_queue n1) ([] # pends)"
    using c Cons.prems(1) by (auto simp: SendWrite_def split: sum.splits bool.splits)
  with Cons.IH [of n1] Cons.prems(2) ev w show ?case by (auto split: prod.splits)
qed simp

text \<open>
  When everything was sent and the only segment is full, the next write goes to a new
  segment but the head stays behind: the write is accepted and in the queue, and no number of
  attempts to send, with the target node up, ever sends it.
\<close>

theorem Append_after_drain_stuck:
  assumes "queue_holds (np_queue n) [[]]" "np_open n"
    and "q_segments (np_queue n) = [t]" "q_objs (np_queue n) t = Some l"
    and "sg_size l + int (length b) > q_maxSegmentSize (np_queue n)" "8 + int (length b) \<le> q_maxSegmentSize (np_queue n)"
      "diskUsage (np_queue n) + int (length b) \<le> q_maxSize (np_queue n)"
    and "b = marshalWrite pstring sid points"
    and "list_all (\<lambda>ev. \<exists>active wr. ev = HSend active wr) evs"
  shows "\<exists>n'. np_WriteShard Append pstring sid points n = (None, n') \<and> queue_rep (np_queue n') [b] \<and>
    fst (snd (hh_run Append Current Advance pstring ParsePoints evs n')) = []"
proof -
  let ?q = "np_queue n"
  have b: "b \<noteq> []" using assms(8) by simp
  have tail: "q_tail ?q = Some t" and s: "seg_of ?q t []" using assms(1,3) by (auto simp: queue_holds_def)
  have lmax: "sg_maxSize l = q_maxSegmentSize ?q" using s assms(4) by (auto simp: seg_of_def)
  obtain r q1 where r: "run_seg (segment_append b) t ?q = (r, q1)"
      "r = Inr () \<and> queue_holds q1 ([] @ [[] @ [b]]) \<or> r = Inl ErrSegmentFull \<and> queue_holds q1 ([] @ [[]])"
    using append_last [of ?q "[]" "[]" b] assms(1,3) b by auto
  have full: "r = Inl ErrSegmentFull"
    using r(1) assms(4,5) lmax s
    by (auto simp: run_seg_def segment_append_def seg_op_defs seg_of_def seg_holds_def split: if_splits)
  have q1m: "q_maxSegmentSize q1 = q_maxSegmentSize ?q" using r(1) by (auto simp: run_seg_def split: option.splits prod.splits)
  obtain q2 t' l' where a: "addSegment q1 = (Inr t', q2)" "queue_holds (q2\<lparr>q_tail := Some t'\<rparr>) [[], []]"
      "q_segments q2 = q_segments q1 @ [t']" "q_objs q2 t' = Some l'" "sg_size l' = 8" "seg_of q2 t' []"
      "q_maxSegmentSize q2 = q_maxSegmentSize q1"
    using addSegment_holds [of q1 "[[]]"] r(2) full by auto
  obtain r3 q3 where r3: "run_seg (segment_append b) t' (q2\<lparr>q_tail := Some t'\<rparr>) = (r3, q3)"
      "r3 = Inr () \<and> queue_holds q3 ([[]] @ [[] @ [b]]) \<or> r3 = Inl ErrSegmentFull \<and> queue_holds q3 ([[]] @ [[]])"
    using append_last [of "q2\<lparr>q_tail := Some t'\<rparr>" "[[]]" "[]" b] a(2,3) b by auto
  have "r3 \<noteq> Inl ErrSegmentFull"
  proof -
    have fits: "sg_size l' + int (length b) \<le> sg_maxSize l'" "sg_off l' \<noteq> None"
      using a(4-7) q1m assms(6) by (auto simp: seg_of_def seg_holds_def)
    obtain data rd where "seg_holds l' data rd []" "map_of (q_disk q2) t' = Some data"
      using a(4,6) by (auto simp: seg_of_def)
    then obtain l'' d'' where "segment_append b (l', data) = (Inr (), l'', d'')"
      using segment_append_holds [OF _ b fits(1)] by metis
    with r3(1) a(4) \<open>map_of (q_disk q2) t' = Some data\<close> show ?thesis by (auto simp: run_seg_def file_of_def)
  qed
  with r3(2) have q3: "r3 = Inr ()" "queue_holds q3 [[], [b]]" by auto
  have app: "Append b ?q = (None, q3)"
    using tail assms(7) r(1) full a(1) r3(1) q3(1) by (simp add: Append_def)
  then have "\<exists>st. np_WriteShard Append pstring sid points n = (None, n\<lparr>np_stats := st, np_queue := q3\<rparr>)"
    using assms(2,8) by (simp add: np_WriteShard_def Let_def) blast
  moreover have "fst (snd (hh_run Append Current Advance pstring ParsePoints evs (n\<lparr>np_stats := st, np_queue := q3\<rparr>))) = []" for st
    using q3(2) assms(9) by (intro exhausted_head_sends_nothing [where pends = "[[b]]"]) auto
  moreover have "queue_rep q3 [b]" using q3(2) by (auto simp: queue_rep_def)
  ultimately show ?thesis by fastforce
qed

text \<open>A segment of which the only block was sent.\<close>

definition drained_segment :: segment where
  "drained_segment = \<lparr>sg_size = 17, sg_off = Some 0, sg_path = 1, sg_pos = 9, sg_currentSize = 0, sg_maxSize = 20\<rparr>"

definition drained :: queue where
  "drained = \<lparr>q_head = Some 1, q_tail = Some 1, q_maxSegmentSize = 20, q_maxSize = 1000, q_segments = [1],
     q_objs = [1 \<mapsto> drained_segment], q_disk = [(1, encode_block [1] @ PutUint64 9)]\<rparr>"

lemma drained_holds: "queue_holds drained [[]]"
proof -
  have "seg_holds drained_segment (encode_block [1] @ PutUint64 9) [[1]] []"
    by (simp add: seg_holds_def drained_segment_def)
  then have "seg_of drained 1 []" by (auto simp: seg_of_def drained_def drained_segment_def)
  then show ?thesis by (simp add: queue_holds_def drained_def)
qed

lemma drained_simps [simp]:
  "q_segments drained = [1]" "q_maxSegmentSize drained = 20" "q_maxSize drained = 1000" "diskUsage drained = 17"
  "q_objs drained (Suc 0) = Some drained_segment" "nextSegmentID drained = 2" "sg_size drained_segment = 17"
  by (simp_all add: drained_def drained_segment_def diskUsage_def nextSegmentID_def)

theorem Append_after_drain_stuck_witness:
  "\<exists>n n'. np_WriteShard Append (\<lambda>_ :: unit. []) 7 [] n = (None, n') \<and>
    queue_rep (np_queue n') [marshalWrite (\<lambda>_ :: unit. []) 7 []] \<and>
    fst (snd (hh_run Append Current Advance (\<lambda>_. []) unit_parser [HSend (Inr True) (\<lambda>_ _ _. None)] n')) = []"
proof -
  let ?n = "snd (np_Open (\<lambda>_. Inr drained) (NewNodeProcessor drained 1))"
  have "queue_holds (np_queue ?n) [[]]" "np_open ?n" and n: "np_queue ?n = drained"
    using drained_holds by (simp_all add: NewNodeProcessor_def np_Open_def)
  moreover have "length (marshalWrite (\<lambda>_ :: unit. []) 7 []) = 8" by (simp add: marshalWrite_def)
  ultimately have "\<exists>n'. np_WriteShard Append (\<lambda>_ :: unit. []) 7 [] ?n = (None, n') \<and>
    queue_rep (np_queue n') [marshalWrite (\<lambda>_ :: unit. []) 7 []] \<and>
    fst (snd (hh_run Append Current Advance (\<lambda>_. []) unit_parser [HSend (Inr True) (\<lambda>_ _ _. None)] n')) = []"
    by (intro Append_after_drain_stuck [where t = 1 and l = drained_segment]) simp_all
  then show ?thesis by blast
qed

section \<open>Purging\<close>

text \<open>
  Purging the only segment of a queue closes and removes it and puts the head on a new
  one, but leaves the tail on the closed one: afterwards every write that the queue has room
  for is reported as accepted and nothing is stored, and asking for the time of the last
  modification, as the service does for every processor, is a nil dereference.
\<close>

theorem Purge_then_Append_loses:
  assumes "queue_holds q [p]" "q_segments q = [t]"
    and "modified t < Truncate when Second" "modified (nextSegmentID q) \<ge> Truncate when Second"
  shows "\<exists>q'. PurgeOlderThan 2 modified when q = Some (None, q') \<and>
    (\<forall>b. diskUsage q' + int (length b) \<le> q_maxSize q' \<longrightarrow> Append b q' = (None, q')) \<and>
    LastModified modified q' = Inl HHPanic"
proof -
  let ?t = "nextSegmentID q"
  let ?l = "\<lparr>sg_size = 8, sg_off = Some 8, sg_path = ?t, sg_pos = 0, sg_currentSize = 0, sg_maxSize = q_maxSegmentSize q\<rparr>"
  let ?q1 = "q\<lparr>q_segments := [t, ?t], q_objs := (q_objs q)(?t \<mapsto> ?l), q_disk := map_put ?t (PutUint64 0) (q_disk q)\<rparr>"
  obtain l data where t: "q_head q = Some t" "q_tail q = Some t" "q_objs q t = Some l" "sg_off l \<noteq> None"
      "map_of (q_disk q) t = Some data"
    using assms(1,2) by (auto simp: queue_holds_def seg_of_def seg_holds_def)
  then have ne: "?t \<noteq> t" using nextSegmentID_fresh [of q] by auto
  have "addSegment q = (Inr ?t, ?q1)"
    using assms(2) by (simp add: addSegment_def file_of_def nextSegmentID_fresh newSegment_empty Let_def)
  moreover let ?q2 = "?q1\<lparr>q_segments := [?t], q_objs := (q_objs ?q1)(t \<mapsto> segment_close l),
      q_disk := map_del t (q_disk ?q1), q_head := Some ?t\<rparr>"
  have "trimHead ?q1 = (None, ?q2)" using t ne by (simp add: trimHead_def Let_def)
  ultimately have "PurgeOlderThan 2 modified when q = Some (None, ?q2)"
    using assms(2-4) t ne by (simp add: PurgeOlderThan_def segment_lastModified_def numeral_2_eq_2 not_le map_of_map_del)
  moreover have "run_seg (segment_append b) t ?q2 = (Inl ErrNotOpen, ?q2)" for b
    by (simp add: run_seg_def segment_append_def seg_op_defs segment_close_def map_of_map_del)
  then have "Append b ?q2 = (None, ?q2)" if "diskUsage ?q2 + int (length b) \<le> q_maxSize ?q2" for b
    using that t(2) by (simp add: Append_def)
  moreover have "LastModified modified ?q2 = Inl HHPanic"
    using t(2) by (simp add: LastModified_def segment_lastModified_def segment_close_def)
  ultimately show ?thesis by blast
qed

theorem Purge_then_Append_loses_witness:
  "\<exists>q'. PurgeOlderThan 2 (\<lambda>p. if p = 1 then - Second else Second) 0 drained = Some (None, q') \<and>
    (\<forall>b. diskUsage q' + int (length b) \<le> q_maxSize q' \<longrightarrow> Append b q' = (None, q')) \<and>
    LastModified (\<lambda>p. if p = 1 then - Second else Second) q' = Inl HHPanic"
  by (rule Purge_then_Append_loses [OF drained_holds]) (simp_all add: Truncate_def Second_def)

text \<open>
  (C36) A purge of the service keeps every processor whose node is active, or of which that is
  not known, and every processor that got data within \<open>MaxAge\<close>, with all that is in its queue.
\<close>

theorem purgeInactiveProcessors_keeps:
  assumes "(k, n) \<in> set (hv_processors s)"
    and "active (np_nodeID n) \<noteq> Inr False \<or> (\<forall>t. lm n = Inr t \<longrightarrow> t \<ge> now - hv_MaxAge s)"
  shows "(k, n) \<in> set (hv_processors (purgeInactiveProcessors now lm active close RemoveAll s))"
proof -
  have "\<not> purge_due now lm active (hv_MaxAge s) n"
    using assms(2) by (auto simp: purge_due_def not_less split: sum.splits)
  then have "purge_processor now lm active (hv_MaxAge s) close RemoveAll n = Some n"
    by (simp add: purge_processor_def)
  with assms(1) show ?thesis
    by (force simp: purgeInactiveProcessors_def List.map_filter_def)
qed

theorem purgeInactiveProcessors_keeps_witness:
  "(1, snd (np_Open (\<lambda>_. Inr drained) (NewNodeProcessor drained 1))) \<in>
     set (hv_processors (purgeInactiveProcessors 100 (\<lambda>_. Inr 0) (\<lambda>_. Inr True) Close (\<lambda>_. None)
       \<lparr>hv_Enabled = True, hv_MaxAge = 10,
        hv_processors = [(1, snd (np_Open (\<lambda>_. Inr drained) (NewNodeProcessor drained 1)))], hv_stats = zero_hh_stats\<rparr>))"
  by (rule purgeInactiveProcessors_keeps) simp_all

section \<open>Closing a processor\<close>

text \<open>
  (C35) When \<open>Close\<close> of a node processor returns, the goroutine that sends has ended.  It may not
  return: \<open>Close\<close> waits for the goroutine with the lock held that the goroutine takes to send,
  and the two block each other exactly when the goroutine is about to send when \<open>Close\<close> has
  the lock.
\<close>

theorem np_Close_ends_run_or_deadlocks:
  assumes "proc_reachable s"
  shows "(pc_close s = CReturned \<longrightarrow> pc_run s = RExited) \<and>
    (close_stuck s \<longleftrightarrow> pc_close s = CWait \<and> pc_run s = RLock)"
proof -
  have inv: "lock_inv s" by (rule proc_reachable_inv [OF assms])
  then have "pc_close s = CReturned \<longrightarrow> pc_run s = RExited" unfolding lock_inv_def by blast
  with stuck_wait_lock [OF inv] wait_lock_stuck [OF inv] show ?thesis by blast
qed

theorem np_Close_ends_run_or_deadlocks_witness:
  "proc_reachable \<lparr>pc_run = RLock, pc_close = CWait, pc_writers = 0\<rparr> \<and>
   close_stuck \<lparr>pc_run = RLock, pc_close = CWait, pc_writers = 0\<rparr>"
proof -
  let ?s1 = "\<lparr>pc_run = RLock, pc_close = CIdle, pc_writers = 0\<rparr>"
  let ?s2 = "\<lparr>pc_run = RLock, pc_close = CLock, pc_writers = 0\<rparr>"
  let ?s3 = "\<lparr>pc_run = RLock, pc_close = CWait, pc_writers = 0\<rparr>"
  have st: "close_step proc_start ?s1" "close_step ?s1 ?s2" "close_step ?s2 ?s3"
    using run_timer [of proc_start] close_begin [of ?s1] close_locked [of ?s2] by (simp_all add: proc_start_def)
  have "proc_reachable ?s3"
    by (rule rtranclp.rtrancl_into_rtrancl [OF rtranclp.rtrancl_into_rtrancl [OF r_into_rtranclp]]) (rule st)+
  with np_Close_ends_run_or_deadlocks [OF this] show ?thesis by simp
qed

end
