(* ===== verification/Simple8b.thy ===== *)
theory Simple8b
  imports Binary
begin

text \<open>
  The simple8b encoding of \<open>pkg/encoding/simple8b/encoding.go\<close>: integers below \<open>2 ^ 60\<close> are packed
  into 64 bit words, a selector in the four highest bits telling how many integers of how many
  bits follow, or that the word stands for 240 or 120 ones.  \<open>EncodeAll\<close> works in place, as the
  code does; \<open>canPack\<close> and \<open>Encode\<close> are the search of the streaming encoder.
\<close>

section \<open>Encoding\<close>

definition MaxValue :: u64 where
  "MaxValue = push_bit 60 1 - 1"

definition numBits :: "(nat \<times> nat) list" where
  "numBits = [(60, 1), (30, 2), (20, 3), (15, 4), (12, 5), (10, 6), (8, 7), (7, 8), (6, 10), (5, 12), (4, 15), (3, 20),
     (2, 30), (1, 60)]"

text \<open>The index of the last one of the ones that the slice begins with, or -1.\<close>

fun last_one :: "int \<Rightarrow> u64 list \<Rightarrow> int" where
  "last_one k [] = k - 1"
| "last_one k (v # vs) = (if v \<noteq> 1 then k - 1 else last_one (k + 1) vs)"

text \<open>Or the first \<open>intN\<close> values into \<open>val\<close>; \<open>None\<close> when one of them does not fit.\<close>

fun pack_loop :: "nat \<Rightarrow> nat \<Rightarrow> nat \<Rightarrow> u64 list \<Rightarrow> u64 \<Rightarrow> u64 option" where
  "pack_loop k intN bitN [] val = Some val"
| "pack_loop k intN bitN (inV # vs) val =
     (if k < intN then
        (if inV \<ge> push_bit (bitN mod 64) 1 then None
         else pack_loop (k + 1) intN bitN vs (val OR push_bit ((k * bitN) mod 64) inV))
      else Some val)"

fun try_codes :: "nat \<Rightarrow> (nat \<times> nat) list \<Rightarrow> u64 list \<Rightarrow> (u64 \<times> nat) option" where
  "try_codes code [] remaining = None"
| "try_codes code ((intN, bitN) # cs) remaining =
     (if intN > length remaining then try_codes (code + 1) cs remaining
      else
        case pack_loop 0 intN bitN remaining (push_bit 60 (of_nat (code + 2))) of
          Some val \<Rightarrow> Some (val, intN)
        | None \<Rightarrow> try_codes (code + 1) cs remaining)"

text \<open>The next word and the number of values that it holds.\<close>

definition next_word :: "u64 list \<Rightarrow> (u64 \<times> nat) option" where
  "next_word remaining =
     (let codes = try_codes 0 numBits remaining in
      if length remaining \<ge> 120 then
        (let a = (if length remaining \<ge> 240 then take 240 remaining else take 120 remaining);
             k = last_one 0 a
         in if k = 239 then Some (0, 240)
            else if k \<ge> 119 then Some (push_bit 60 1, 120)
            else codes)
      else codes)"

lemma try_codes_pos: "(\<forall>c \<in> set cs. fst c > 0) \<Longrightarrow> try_codes code cs vs = Some (w, n) \<Longrightarrow> 0 < n"
  by (induction code cs vs rule: try_codes.induct) (auto split: if_splits option.splits)

lemma numBits_pos: "\<forall>c \<in> set numBits. fst c > 0"
  by (simp add: numBits_def)

lemma next_word_pos: "next_word vs = Some (w, n) \<Longrightarrow> 0 < n"
  using try_codes_pos [OF numBits_pos] by (auto simp: next_word_def Let_def split: if_splits)

datatype s8b_error = ErrValueOutOfBounds

function encode_loop :: "u64 list \<Rightarrow> nat \<Rightarrow> nat \<Rightarrow> s8b_error + u64 list" where
  "encode_loop src i j =
     (if i < length src then
        case next_word (drop i src) of
          None \<Rightarrow> Inl ErrValueOutOfBounds
        | Some (val, n) \<Rightarrow> encode_loop (src[j := val]) (i + n) (j + 1)
      else Inr (take j src))"
  by auto
termination
  by (relation "measure (\<lambda>(src, i, j). length src - i)") (auto dest: next_word_pos)

declare encode_loop.simps [simp del]

definition EncodeAll :: "u64 list \<Rightarrow> s8b_error + u64 list" where
  "EncodeAll src = encode_loop src 0 0"

section \<open>Decoding\<close>

text \<open>The number of values and of bits for each selector.\<close>

definition selector :: "(nat \<times> nat) list" where
  "selector = [(240, 0), (120, 0)] @ numBits"

definition unpack :: "nat \<times> nat \<Rightarrow> u64 \<Rightarrow> u64 list" where
  "unpack p v =
     (if snd p = 0 then replicate (fst p) 1
      else map (\<lambda>i. drop_bit (i * snd p) v AND mask (snd p)) [0..<fst p])"

definition sel_of :: "u64 \<Rightarrow> nat \<times> nat" where
  "sel_of v = selector ! unat (drop_bit 60 v AND 0xf)"

definition DecodeAll :: "u64 list \<Rightarrow> u64 list" where
  "DecodeAll src = concat (map (\<lambda>v. unpack (sel_of v) v) src)"

definition Count :: "u64 \<Rightarrow> nat" where
  "Count v = fst (selector ! unat (drop_bit 60 v))"

definition put_words :: "u64 list \<Rightarrow> byte list" where
  "put_words ws = concat (map PutUint64 ws)"

text \<open>\<open>None\<close>: bytes are left over.\<close>

function CountBytes :: "byte list \<Rightarrow> nat option" where
  "CountBytes b =
     (if length b \<ge> 8 then map_option ((+) (Count (Uint64 b))) (CountBytes (drop 8 b))
      else if length b > 0 then None
      else Some 0)"
  by auto
termination
  by (relation "measure length") auto

declare CountBytes.simps [simp del]

function decode_bytes :: "byte list \<Rightarrow> u64 list" where
  "decode_bytes src =
     (if src = [] then []
      else unpack (sel_of (Uint64 src)) (Uint64 src) @ decode_bytes (drop 8 src))"
  by auto
termination
  by (relation "measure length") auto

declare decode_bytes.simps [simp del]

definition DecodeBytesBigEndian :: "byte list \<Rightarrow> u64 list option" where
  "DecodeBytesBigEndian src = (if length src mod 8 \<noteq> 0 then None else Some (decode_bytes src))"

section \<open>The streaming encoder\<close>

definition canPack :: "u64 list \<Rightarrow> nat \<Rightarrow> nat \<Rightarrow> bool" where
  "canPack src n bits =
     (if length src < n then False
      else if bits = 0 then list_all (\<lambda>v. v = 1) src
      else list_all (\<lambda>v. v \<le> push_bit bits 1 - 1) (take n src))"

text \<open>The value words of \<open>pack60\<close> to \<open>pack1\<close>.\<close>

definition pack :: "nat \<Rightarrow> nat \<Rightarrow> u64 list \<Rightarrow> u64" where
  "pack sel bits src =
     fold (\<lambda>i w. w OR push_bit (i * bits) (src ! i)) [0..<length src] (push_bit 60 (of_nat sel))"

fun encode_codes :: "nat \<Rightarrow> (nat \<times> nat) list \<Rightarrow> u64 list \<Rightarrow> s8b_error + u64 \<times> nat" where
  "encode_codes sel [] src = (if src \<noteq> [] then Inl ErrValueOutOfBounds else Inr (0, 0))"
| "encode_codes sel ((n, bits) # cs) src =
     (if canPack src n bits
      then Inr (if bits = 0 then push_bit 60 (of_nat sel) else pack sel bits (take n src), n)
      else encode_codes (sel + 1) cs src)"

definition Encode :: "u64 list \<Rightarrow> s8b_error + u64 \<times> nat" where
  "Encode src = encode_codes 0 selector src"

end
