(* ===== verification/Simple8bProps.thy ===== *)
theory Simple8bProps
  imports Simple8b
begin

text \<open>
  Simple8b is lossless: every list of values below \<open>2 ^ 60\<close> is encoded, and decoding the words
  gives the list back; a value that does not fit is an error.
\<close>

section \<open>One word\<close>

lemma u64_less_bit: "v < push_bit b 1 \<Longrightarrow> b \<le> m \<Longrightarrow> \<not> bit (v :: u64) m"
proof -
  assume v: "v < push_bit b 1" and m: "b \<le> m"
  have "b < 64"
  proof (rule ccontr)
    assume "\<not> b < 64"
    then have "push_bit b (1 :: u64) = 0" by (intro bit_word_eqI) (simp add: bit_exp_iff)
    with v have "v < 0" by (simp only:)
    then show False by simp
  qed
  then have "unat (push_bit b 1 :: u64) = 2 ^ b"
    by (simp add: unsigned_push_bit_eq take_bit_nat_eq_self del: push_bit_of_1)
  then have "unat v < 2 ^ b" using v by (simp add: word_less_nat_alt del: push_bit_of_1)
  then show ?thesis by (rule bit_word_less [OF _ m])
qed

lemma pack_loop_bits:
  assumes "pack_loop k n b vs val = Some w" "n - k \<le> length vs" "n * b \<le> 60" "0 < b" "k \<le> n"
    and "\<And>m. k * b \<le> m \<Longrightarrow> m < n * b \<Longrightarrow> \<not> bit val m"
  shows "(\<forall>m. m < k * b \<or> n * b \<le> m \<longrightarrow> bit w m = bit val m) \<and>
    (\<forall>i < n - k. \<forall>j < b. bit w ((k + i) * b + j) = bit (vs ! i) j) \<and>
    (\<forall>v \<in> set (take (n - k) vs). v < push_bit b 1)"
  using assms
proof (induction k n b vs val rule: pack_loop.induct)
  case (2 k n b v vs val)
  show ?case
  proof (cases "k < n")
    case True
    then have kb: "k * b + b \<le> n * b"
      by (metis Suc_leI add.commute mult_Suc mult_le_mono1)
    then have "b \<le> 60" "k * b < 64" using 2(4,5) by linarith+
    then have mods: "b mod 64 = b" "(k * b) mod 64 = k * b" by simp_all
    let ?val = "val OR push_bit (k * b) v"
    from 2(2) True mods have v: "v < push_bit b 1" and rec: "pack_loop (k + 1) n b vs ?val = Some w"
      by (auto split: if_splits)
    have vbit: "bit ?val m = (bit val m \<or> k * b \<le> m \<and> bit v (m - k * b))" for m
    proof -
      have "m < 64" if "k * b \<le> m" "bit v (m - k * b)"
        using u64_less_bit [OF v, of "m - k * b"] that kb 2(4) by linarith
      then show ?thesis using bit_imp_le_length [of val m] by (auto simp: bit_or_iff bit_push_bit_iff)
    qed
    have "\<not> bit ?val m" if "(k + 1) * b \<le> m" "m < n * b" for m
      using that 2(7) [of m] u64_less_bit [OF v, of "m - k * b"] by (auto simp: vbit)
    then have IH: "(\<forall>m. m < (k + 1) * b \<or> n * b \<le> m \<longrightarrow> bit w m = bit ?val m) \<and>
      (\<forall>i < n - (k + 1). \<forall>j < b. bit w ((k + 1 + i) * b + j) = bit (vs ! i) j) \<and>
      (\<forall>v \<in> set (take (n - (k + 1)) vs). v < push_bit b 1)"
      using 2(1) True v mods rec 2(3-5) by simp
    have "bit w ((k + i) * b + j) = bit ((v # vs) ! i) j" if "i < n - k" "j < b" for i j
    proof (cases i)
      case 0
      have "bit w (k * b + j) = bit ?val (k * b + j)" using IH that(2) by simp
      with 0 show ?thesis using 2(7) [of "k * b + j"] that(2) kb by (simp add: vbit)
    next
      case (Suc i')
      then have "bit w ((k + 1 + i') * b + j) = bit (vs ! i') j" using IH that by simp
      with Suc show ?thesis by simp
    qed
    moreover have "bit w m = bit val m" if "m < k * b \<or> n * b \<le> m" for m
    proof -
      have "bit w m = bit ?val m" using IH that kb by auto
      also have "\<dots> = bit val m" using that kb u64_less_bit [OF v, of "m - k * b"] by (fastforce simp: vbit)
      finally show ?thesis .
    qed
    moreover have "n - k = Suc (n - (k + 1))" using True by simp
    ultimately show ?thesis using IH v by simp
  next
    case False
    with 2(2,6) show ?thesis by simp
  qed
qed auto


lemma pack_loop_None:
  assumes "pack_loop k n b vs val = None" "n * b < 64" 
  shows "\<exists>v \<in> set (take (n - k) vs). \<not> v < push_bit b 1"
  using assms
proof (induction k n b vs val rule: pack_loop.induct)
  case (2 k n b v vs val)
  then have k: "k < n" by (auto split: if_splits)
  then have "b \<le> n * b" by (cases n) auto
  with 2(3) have "b < 64" by linarith
  then have "b mod 64 = b" by simp
  moreover have "n - k = Suc (n - (k + 1))" using k by simp
  ultimately show ?case using 2 k by (auto split: if_splits simp: not_less)
qed simp

lemma unpack_eq:
  assumes "\<forall>i < n. \<forall>j < b. bit w (i * b + j) = bit (vs ! i) j" "\<forall>v \<in> set (take n vs). v < push_bit b 1"
    "n \<le> length vs" "0 < b"
  shows "unpack (n, b) w = take n vs"
proof (rule nth_equalityI)
  fix i assume "i < length (unpack (n, b) w)"
  then have i: "i < n" using assms(4) by (simp add: unpack_def)
  then have "vs ! i \<in> set (take n vs)" using assms(3) by (auto simp: in_set_conv_nth)
  then have v: "vs ! i < push_bit b 1" using assms(2) by blast
  have "drop_bit (i * b) w AND mask b = vs ! i"
  proof (rule bit_word_eqI)
    fix j assume "j < LENGTH(64)"
    with assms(1) i u64_less_bit [OF v, of j]
    show "bit (drop_bit (i * b) w AND mask b) j = bit (vs ! i) j"
      by (cases "j < b") (auto simp: bit_and_iff bit_drop_bit_eq bit_mask_iff)
  qed
  with i assms(3,4) show "unpack (n, b) w ! i = take n vs ! i" by (simp add: unpack_def)
qed (use assms(3,4) in \<open>simp add: unpack_def\<close>)

lemma numBits_bounds: "\<forall>(n, b) \<in> set numBits. 0 < n \<and> 0 < b \<and> n * b \<le> 60"
  by (simp add: numBits_def)

lemma sel_bits:
  fixes w :: u64
  assumes "sel < 16" "\<forall>m \<ge> 60. bit w m = bit (push_bit 60 (of_nat sel :: u64)) m"
  shows "unat (drop_bit 60 w) = sel" "unat (drop_bit 60 w AND 0xf) = sel"
proof -
  have "drop_bit 60 w = of_nat sel"
  proof (rule bit_word_eqI)
    fix j assume j: "j < LENGTH(64)"
    have "unat (of_nat sel :: u64) < 2 ^ 4" using assms(1) by (simp add: unat_of_nat)
    then have "\<not> bit (of_nat sel :: u64) j" if "j \<ge> 4" by (rule bit_word_less [OF _ that])
    with assms(2) j bit_imp_le_length [of w "60 + j"] show "bit (drop_bit 60 w) j = bit (of_nat sel :: u64) j"
      by (cases "j < 4") (auto simp: bit_drop_bit_eq bit_push_bit_iff)
  qed
  moreover have "(of_nat sel :: u64) AND 0xf = of_nat sel"
  proof -
    have "(of_nat sel :: u64) AND 0xf = take_bit 4 (of_nat sel)" by (simp add: take_bit_eq_mask mask_numeral)
    also have "\<dots> = of_nat sel" using assms(1) by (simp add: take_bit_of_nat take_bit_nat_eq_self)
    finally show ?thesis .
  qed
  ultimately show "unat (drop_bit 60 w) = sel" "unat (drop_bit 60 w AND 0xf) = sel"
    using assms(1) by (simp_all add: unat_of_nat)
qed

text \<open>What it means that a word holds the values \<open>vs\<close>.\<close>

definition word_holds :: "u64 \<Rightarrow> u64 list \<Rightarrow> bool" where
  "word_holds w vs \<longleftrightarrow> unpack (sel_of w) w = vs \<and> Count w = length vs \<and> (\<forall>v \<in> set vs. v \<le> MaxValue)"

lemma le_MaxValue: "v \<le> MaxValue \<longleftrightarrow> unat v < 2 ^ 60"
  unfolding MaxValue_def word_le_nat_alt by simp linarith

lemma less_MaxValue: "v < push_bit b 1 \<Longrightarrow> b \<le> 60 \<Longrightarrow> v \<le> MaxValue"
proof -
  assume v: "v < push_bit b 1" and b: "b \<le> 60"
  then have "unat (push_bit b 1 :: u64) = 2 ^ b"
    by (simp add: unsigned_push_bit_eq take_bit_nat_eq_self del: push_bit_of_1)
  then have "unat v < 2 ^ b" using v by (simp add: word_less_nat_alt del: push_bit_of_1)
  also have "\<dots> \<le> 2 ^ 60" using b by (rule power_increasing) simp
  finally show ?thesis by (simp add: le_MaxValue)
qed

lemma packed_word_holds:
  assumes "pack_loop 0 n b vs (push_bit 60 (of_nat sel)) = Some w" "n \<le> length vs" "sel < 16"
    "selector ! sel = (n, b)" "0 < b" "n * b \<le> 60"
  shows "word_holds w (take n vs)"
proof -
  have *: "(\<forall>m. m < 0 * b \<or> n * b \<le> m \<longrightarrow> bit w m = bit (push_bit 60 (of_nat sel :: u64)) m) \<and>
    (\<forall>i < n - 0. \<forall>j < b. bit w ((0 + i) * b + j) = bit (vs ! i) j) \<and> (\<forall>v \<in> set (take (n - 0) vs). v < push_bit b 1)"
    using assms by (intro pack_loop_bits) (auto simp: bit_push_bit_iff)
  then have "unat (drop_bit 60 w) = sel" "unat (drop_bit 60 w AND 0xf) = sel"
    using sel_bits [OF assms(3), of w] assms(6) by auto
  moreover have "b \<le> 60" if "0 < n" using assms(6) that by (cases n) auto
  then have "\<forall>v \<in> set (take n vs). v \<le> MaxValue" using * less_MaxValue by (cases n) auto
  ultimately show ?thesis using unpack_eq [of n b w vs] * assms by (simp add: word_holds_def sel_of_def Count_def)
qed


lemma try_codes_word:
  assumes "try_codes code cs vs = Some (w, n)"
  shows "\<exists>i b. i < length cs \<and> cs ! i = (n, b) \<and> n \<le> length vs \<and>
    pack_loop 0 n b vs (push_bit 60 (of_nat (code + i + 2))) = Some w"
  using assms
proof (induction code cs vs rule: try_codes.induct)
  case (2 code intN bitN cs vs)
  show ?case
  proof (cases "intN \<le> length vs \<and> pack_loop 0 intN bitN vs (push_bit 60 (of_nat (code + 2))) = Some w \<and> n = intN")
    case True
    then show ?thesis by (intro exI [of _ 0] exI [of _ bitN]) simp
  next
    case False
    with 2 have "\<exists>i b. i < length cs \<and> cs ! i = (n, b) \<and> n \<le> length vs \<and>
        pack_loop 0 n b vs (push_bit 60 (of_nat (code + 1 + i + 2))) = Some w"
      by (auto split: if_splits option.splits)
    then obtain i b where "i < length cs" "cs ! i = (n, b)" "n \<le> length vs"
        "pack_loop 0 n b vs (push_bit 60 (of_nat (code + 1 + i + 2))) = Some w" by blast
    then show ?thesis by (intro exI [of _ "Suc i"] exI [of _ b]) (simp add: add_ac)
  qed
qed simp

lemma try_codes_None: "try_codes code cs vs = None \<Longrightarrow> (n, b) \<in> set cs \<Longrightarrow> n \<le> length vs \<Longrightarrow>
    \<exists>val. pack_loop 0 n b vs val = None"
  by (induction code cs vs rule: try_codes.induct) (auto split: if_splits option.splits)

lemma last_one_eq: "last_one k vs = k + int (length (takeWhile (\<lambda>v. v = 1) vs)) - 1"
  by (induction k vs rule: last_one.induct) auto

lemma ones_take:
  assumes "k \<le> length (takeWhile (\<lambda>v. v = 1) vs)"
  shows "take k vs = replicate k 1"
proof (rule nth_equalityI)
  have len: "k \<le> length vs" using assms length_takeWhile_le le_trans by blast
  then show "length (take k vs) = length (replicate k 1)" by simp
  fix i assume "i < length (take k vs)"
  then have i: "i < k" by simp
  then have "takeWhile (\<lambda>v. v = 1) vs ! i \<in> set (takeWhile (\<lambda>v. v = 1) vs)" using assms by simp
  then have "vs ! i = 1" using i assms by (metis (full_types) less_le_trans set_takeWhileD takeWhile_nth)
  with i show "take k vs ! i = replicate k 1 ! i" by simp
qed

lemma ones_word_holds:
  "word_holds 0 (replicate 240 1)" "word_holds (push_bit 60 1) (replicate 120 1)"
  by (simp_all add: word_holds_def sel_of_def Count_def unpack_def selector_def le_MaxValue)

lemma next_word_holds:
  assumes "next_word vs = Some (w, n)"
  shows "n \<le> length vs \<and> word_holds w (take n vs)"
proof -
  have codes: ?thesis if t: "try_codes 0 numBits vs = Some (w, n)"
  proof -
    obtain i b where i: "i < length numBits" "numBits ! i = (n, b)" "n \<le> length vs"
        "pack_loop 0 n b vs (push_bit 60 (of_nat (i + 2))) = Some w"
      using try_codes_word [OF t] by auto
    have "(n, b) \<in> set numBits" using i(1,2) nth_mem by metis
    then have "0 < b \<and> n * b \<le> 60" using numBits_bounds by auto
    moreover have "i + 2 < 16" "selector ! (i + 2) = (n, b)"
      using i(1,2) by (simp_all add: numBits_def selector_def)
    ultimately show ?thesis using packed_word_holds [OF i(4,3)] i(3) by blast
  qed
  have ones: "take k (take m vs) = replicate k 1" if "last_one 0 (take m vs) \<ge> int k - 1" for k m
    using that by (intro ones_take) (simp add: last_one_eq)
  have cases: "P" if "length vs \<ge> 240 \<Longrightarrow> last_one 0 (take 240 vs) = 239 \<Longrightarrow> w = 0 \<Longrightarrow> n = 240 \<Longrightarrow> P"
      "\<And>m. m \<ge> 120 \<Longrightarrow> length vs \<ge> m \<Longrightarrow> last_one 0 (take m vs) \<ge> 119 \<Longrightarrow> w = push_bit 60 1 \<Longrightarrow> n = 120 \<Longrightarrow> P"
      "try_codes 0 numBits vs = Some (w, n) \<Longrightarrow> P" for P
  proof (cases "try_codes 0 numBits vs = Some (w, n)")
    case False
    moreover have "last_one 0 (take 120 vs) < 239"
      using length_takeWhile_le [of "\<lambda>v. v = 1" "take 120 vs"] by (simp add: last_one_eq)
    ultimately show P
      using assms that(1) that(2) [of 240] that(2) [of 120] unfolding next_word_def Let_def
      by (auto split: if_split_asm simp del: push_bit_of_1)
  qed (rule that(3))
  show ?thesis
  proof (rule cases)
    assume "length vs \<ge> 240" "last_one 0 (take 240 vs) = 239" "w = 0" "n = 240"
    with ones [of 240 240] ones_word_holds show ?thesis by simp
  next
    fix m assume "m \<ge> 120" "length vs \<ge> m" "last_one 0 (take m vs) \<ge> 119" "w = push_bit 60 1" "n = 120"
    with ones [of 120 m] ones_word_holds show ?thesis by (simp add: min_def)
  qed (rule codes)
qed


lemma next_word_None: "next_word vs = None \<Longrightarrow> vs \<noteq> [] \<Longrightarrow> hd vs > MaxValue"
proof -
  assume none: "next_word vs = None" and ne: "vs \<noteq> []"
  then have "try_codes 0 numBits vs = None" by (auto simp: next_word_def Let_def split: if_splits)
  moreover have "(1, 60) \<in> set numBits" by (simp add: numBits_def)
  ultimately obtain val where "pack_loop 0 1 60 vs val = None"
    using ne try_codes_None by (metis One_nat_def Suc_leI length_greater_0_conv)
  then have "\<exists>v \<in> set (take 1 vs). \<not> v < push_bit 60 1"
    using pack_loop_None [of 0 1 60 vs val] by simp
  with ne show ?thesis by (cases vs) (auto simp: MaxValue_def word_le_nat_alt word_less_nat_alt)
qed

section \<open>Whole slices\<close>

text \<open>The words that \<open>EncodeAll\<close> leaves at the front of its argument.\<close>

function encode_words :: "u64 list \<Rightarrow> s8b_error + u64 list" where
  "encode_words vs =
     (if vs = [] then Inr []
      else case next_word vs of
        None \<Rightarrow> Inl ErrValueOutOfBounds
      | Some (w, n) \<Rightarrow> (case encode_words (drop n vs) of Inl e \<Rightarrow> Inl e | Inr ws \<Rightarrow> Inr (w # ws)))"
  by auto
termination
  by (relation "measure length") (auto dest!: next_word_pos)

declare encode_words.simps [simp del]

lemma encode_loop_eq:
  assumes "j \<le> i" "i \<le> length src"
  shows "encode_loop src i j =
    (case encode_words (drop i src) of Inl e \<Rightarrow> Inl e | Inr ws \<Rightarrow> Inr (take j src @ ws))"
  using assms
proof (induction src i j rule: encode_loop.induct)
  case (1 src i j)
  show ?case
  proof (cases "i < length src")
    case True
    show ?thesis
    proof (cases "next_word (drop i src)")
      case None
      with True show ?thesis by (subst encode_loop.simps, subst encode_words.simps) simp
    next
      case (Some wn)
      obtain w n where wn: "wn = (w, n)" by fastforce
      then have n: "0 < n" "n \<le> length (drop i src)"
        using Some next_word_pos next_word_holds by blast+
      have "encode_loop (src[j := w]) (i + n) (j + 1) =
          (case encode_words (drop (i + n) (src[j := w])) of
             Inl e \<Rightarrow> Inl e | Inr ws \<Rightarrow> Inr (take (j + 1) (src[j := w]) @ ws))"
        using 1(1) [OF True Some wn [symmetric]] 1(2) n True by simp
      moreover have "drop (i + n) (src[j := w]) = drop n (drop i src)"
        using 1(2) n by (simp add: add.commute)
      moreover have "take (j + 1) (src[j := w]) = take j src @ [w]"
        using 1(2) True by (simp add: take_Suc_conv_app_nth)
      ultimately show ?thesis
        using True Some wn by (subst encode_loop.simps, subst encode_words.simps) (simp split: sum.split)
    qed
  next
    case False
    with 1(3) show ?thesis by (subst encode_loop.simps) (simp add: encode_words.simps)
  qed
qed

text \<open>Working in place does not matter: no value is overwritten before it was encoded.\<close>

lemma EncodeAll_eq: "EncodeAll src = encode_words src"
  using encode_loop_eq [of 0 0 src] by (simp add: EncodeAll_def split: sum.split)

lemma encode_words_holds:
  "encode_words vs = Inr ws \<Longrightarrow> DecodeAll ws = vs \<and> sum_list (map Count ws) = length vs"
proof (induction vs arbitrary: ws rule: encode_words.induct)
  case (1 vs)
  show ?case
  proof (cases "vs = []")
    case False
    with 1(2) obtain w n ws' where w: "next_word vs = Some (w, n)" "encode_words (drop n vs) = Inr ws'" "ws = w # ws'"
      by (subst (asm) encode_words.simps) (auto split: option.splits sum.splits)
    have "DecodeAll ws' = drop n vs \<and> sum_list (map Count ws') = length (drop n vs)"
      using 1(1) [OF False w(1) refl w(2)] .
    with w next_word_holds [OF w(1)] show ?thesis by (simp add: DecodeAll_def word_holds_def)
  qed (use 1(2) in \<open>simp add: encode_words.simps DecodeAll_def\<close>)
qed

lemma encode_words_total: "(\<exists>ws. encode_words vs = Inr ws) \<longleftrightarrow> (\<forall>v \<in> set vs. v \<le> MaxValue)"
proof (induction vs rule: encode_words.induct)
  case (1 vs)
  show ?case
  proof (cases "vs = []")
    case False
    show ?thesis
    proof (cases "next_word vs")
      case None
      have "hd vs > MaxValue" using next_word_None [OF None False] by simp
      moreover have "hd vs \<in> set vs" using False by simp
      ultimately have "\<not> (\<forall>v \<in> set vs. v \<le> MaxValue)" by (meson not_le)
      with None False show ?thesis by (subst encode_words.simps) simp
    next
      case (Some wn)
      obtain w n where wn: "wn = (w, n)" by fastforce
      have "\<forall>v \<in> set (take n vs). v \<le> MaxValue"
        using next_word_holds [of vs w n] Some wn by (simp add: word_holds_def)
      then have "(\<forall>v \<in> set vs. v \<le> MaxValue) \<longleftrightarrow> (\<forall>v \<in> set (drop n vs). v \<le> MaxValue)"
        by (metis append_take_drop_id Un_iff set_append)
      with 1 [OF False Some wn [symmetric]] Some wn False show ?thesis
        by (subst encode_words.simps) (auto split: sum.splits)
    qed
  qed (simp add: encode_words.simps)
qed


lemma EncodeAll_DecodeAll: "EncodeAll vs = Inr ws \<Longrightarrow> DecodeAll ws = vs"
  using encode_words_holds by (simp add: EncodeAll_eq)

section \<open>Bytes\<close>

lemma Uint64_take: "Uint64 (PutUint64 w @ rest) = w"
  using Uint64_PutUint64 [of w] by (simp add: Uint64_def)

lemma length_put_words [simp]: "length (put_words ws) = 8 * length ws"
  by (induction ws) (auto simp: put_words_def)

lemma put_words_Cons: "put_words (w # ws) = PutUint64 w @ put_words ws"
  by (simp add: put_words_def)

lemma CountBytes_put_words: "CountBytes (put_words ws) = Some (sum_list (map Count ws))"
  by (induction ws) (simp_all add: CountBytes.simps put_words_def Uint64_take)

lemma decode_bytes_put_words: "decode_bytes (put_words ws) = DecodeAll ws"
  by (induction ws) (simp_all add: decode_bytes.simps [of "_ @ _"] decode_bytes.simps [of "[]"]
      put_words_def Uint64_take DecodeAll_def)

text \<open>What the block decoders rely on: the encoded words give the count and the values back.\<close>

lemma EncodeAll_bytes:
  assumes "EncodeAll vs = Inr ws"
  shows "CountBytes (put_words ws) = Some (length vs)" "DecodeBytesBigEndian (put_words ws) = Some vs"
  using encode_words_holds [of vs ws] assms
  by (simp_all add: EncodeAll_eq CountBytes_put_words DecodeBytesBigEndian_def decode_bytes_put_words)

lemma EncodeAll_total: "(\<exists>ws. EncodeAll vs = Inr ws) \<longleftrightarrow> (\<forall>v \<in> set vs. v \<le> MaxValue)"
  by (simp add: EncodeAll_eq encode_words_total)

section \<open>The streaming encoder\<close>

lemma pack_loop_fold:
  assumes "n - k \<le> length vs" "n * b \<le> 60" "0 < b" "\<forall>v \<in> set (take (n - k) vs). v < push_bit b 1"
  shows "pack_loop k n b vs val =
    Some (fold (\<lambda>i w. w OR push_bit ((k + i) * b) (vs ! i)) [0..<n - k] val)"
  using assms
proof (induction k n b vs val rule: pack_loop.induct)
  case (2 k n b v vs val)
  show ?case
  proof (cases "k < n")
    case True
    then have "k * b + b \<le> n * b" by (metis Suc_leI add.commute mult_Suc mult_le_mono1)
    then have "b < 64" "k * b < 64" using 2(3,4) by linarith+
    then have mods: "b mod 64 = b" "(k * b) mod 64 = k * b" by simp_all
    have nk: "n - k = Suc (n - (k + 1))" using True by simp
    then have v: "v < push_bit b 1" using 2(5) by simp
    have "pack_loop (k + 1) n b vs (val OR push_bit (k * b) v) =
        Some (fold (\<lambda>i w. w OR push_bit ((k + 1 + i) * b) (vs ! i)) [0..<n - (k + 1)] (val OR push_bit (k * b) v))"
      using 2(1) True v mods 2(2-5) nk by (simp add: not_le)
    moreover have "[0..<n - k] = 0 # map Suc [0..<n - (k + 1)]"
      unfolding nk by (simp only: upt_conv_Cons [OF zero_less_Suc] map_Suc_upt)
    ultimately show ?thesis
      using True v mods by (simp add: fold_map comp_def not_le)
  qed simp
qed auto

lemma selector_cases:
  assumes "selector ! sel = (n, b)" "sel < 16"
  shows "sel = 0 \<and> n = 240 \<and> b = 0 \<or> sel = 1 \<and> n = 120 \<and> b = 0 \<or> 0 < n \<and> 0 < b \<and> n * b \<le> 60"
proof -
  consider "sel = 0" | "sel = 1" | i where "sel = Suc (Suc i)" "i < length numBits"
    using assms(2) by (cases sel; cases "sel - 1") (auto simp: numBits_def)
  then show ?thesis
  proof cases
    case 3
    then have "(n, b) \<in> set numBits" using assms(1) by (auto simp: selector_def intro: nth_mem dest!: sym [of _ "(n, b)"])
    then show ?thesis using numBits_bounds by auto
  qed (use assms(1) in \<open>simp_all add: selector_def\<close>)
qed

lemma le_minus_one_bit: "b < 64 \<Longrightarrow> v \<le> push_bit b 1 - 1 \<longleftrightarrow> v < push_bit b (1 :: u64)"
proof -
  assume "b < 64"
  then have u: "unat (push_bit b 1 :: u64) = 2 ^ b"
    by (simp add: unsigned_push_bit_eq take_bit_nat_eq_self del: push_bit_of_1)
  then have "push_bit b (1 :: u64) \<noteq> 0" by (metis power_not_zero unat_0 zero_neq_numeral)
  then have "unat (push_bit b 1 - 1 :: u64) = 2 ^ b - 1" using u by (simp add: unat_minus_one del: push_bit_of_1)
  moreover have "(0 :: nat) < 2 ^ b" by simp
  ultimately show ?thesis unfolding word_le_nat_alt word_less_nat_alt u by linarith
qed

lemma canPack_holds:
  assumes "canPack src n b" "selector ! sel = (n, b)" "sel < 16"
  shows "0 < n \<and> n \<le> length src \<and>
    word_holds (if b = 0 then push_bit 60 (of_nat sel) else pack sel b (take n src)) (take n src)"
proof -
  have len: "n \<le> length src" using assms(1) by (auto simp: canPack_def split: if_splits)
  have ones: "take n src = replicate n 1" if "b = 0"
    using assms(1) that len by (intro nth_equalityI) (auto simp: canPack_def list_all_length split: if_splits)
  from selector_cases [OF assms(2,3)] show ?thesis
  proof (elim disjE)
    assume *: "0 < n \<and> 0 < b \<and> n * b \<le> 60"
    then have "b * 1 \<le> n * b" by simp
    with * have "b < 64" by linarith
    then have "\<forall>v \<in> set (take n src). v < push_bit b 1"
      using assms(1) * le_minus_one_bit [of b] by (auto simp: canPack_def list_all_iff split: if_splits)
    then have "pack_loop 0 n b src (push_bit 60 (of_nat sel)) =
        Some (fold (\<lambda>i w. w OR push_bit (i * b) (src ! i)) [0..<n] (push_bit 60 (of_nat sel)))"
      using pack_loop_fold [of n 0 src b "push_bit 60 (of_nat sel)"] len * by simp
    moreover have "pack sel b (take n src) = fold (\<lambda>i w. w OR push_bit (i * b) (src ! i)) [0..<n] (push_bit 60 (of_nat sel))"
      unfolding pack_def using len by (intro fold_cong) simp_all
    ultimately have "pack_loop 0 n b src (push_bit 60 (of_nat sel)) = Some (pack sel b (take n src))" by simp
    then have "word_holds (pack sel b (take n src)) (take n src)"
      using packed_word_holds [OF _ len assms(3,2)] * by blast
    with * len show ?thesis by simp
  next
    assume *: "sel = 0 \<and> n = 240 \<and> b = 0"
    then have "n = 240" "take n src = replicate n 1" using ones by blast+
    then have "word_holds 0 (take n src)" using ones_word_holds(1) by metis
    moreover have "(if b = 0 then push_bit 60 (of_nat sel) else pack sel b (take n src)) = 0" using * by simp
    ultimately show ?thesis using * len by auto
  next
    assume *: "sel = 1 \<and> n = 120 \<and> b = 0"
    then have "n = 120" "take n src = replicate n 1" using ones by blast+
    then have "word_holds (push_bit 60 1) (take n src)" using ones_word_holds(2) by metis
    moreover have "(if b = 0 then push_bit 60 (of_nat sel) else pack sel b (take n src)) = push_bit 60 1" using * by simp
    ultimately show ?thesis using * len by auto
  qed
qed

lemma encode_codes_holds:
  assumes "encode_codes sel cs src = Inr (w, n)" "src \<noteq> []"
    "\<forall>i < length cs. sel + i < 16 \<and> selector ! (sel + i) = cs ! i"
  shows "0 < n \<and> n \<le> length src \<and> word_holds w (take n src)"
  using assms
proof (induction sel cs src rule: encode_codes.induct)
  case (2 sel m b cs src)
  have sel: "sel < 16" "selector ! sel = (m, b)" using 2(4) by auto
  show ?case
  proof (cases "canPack src m b")
    case True
    then have "n = m" "w = (if b = 0 then push_bit 60 (of_nat sel) else pack sel b (take m src))" using 2(2) by auto
    with canPack_holds [OF True sel(2,1)] show ?thesis by blast
  next
    case False
    moreover have "\<forall>i < length cs. sel + 1 + i < 16 \<and> selector ! (sel + 1 + i) = cs ! i"
    proof (intro allI impI)
      fix i assume "i < length cs"
      then show "sel + 1 + i < 16 \<and> selector ! (sel + 1 + i) = cs ! i" using 2(4) [rule_format, of "Suc i"] by simp
    qed
    ultimately show ?thesis using 2(1-3) by simp
  qed
qed simp

text \<open>The word that the streaming encoder makes holds the values that it reports as encoded.\<close>

lemma Encode_holds:
  assumes "Encode src = Inr (w, n)" "src \<noteq> []"
  shows "0 < n \<and> n \<le> length src \<and> word_holds w (take n src)"
  using assms(1) unfolding Encode_def
  by (rule encode_codes_holds [OF _ assms(2)]) (simp add: selector_def numBits_def)

end
