(* ===== verification/TSMBlocks.thy ===== *)
theory TSMBlocks
  imports Simple8bProps
begin

text \<open>
  The block encodings of TSM files for integers, timestamps and booleans
  (\<open>tsdb/engine/tsm1/batch_integer.go\<close>, \<open>batch_timestamp.go\<close>, \<open>batch_boolean.go\<close>): differences of
  neighbouring values, run lengths, simple8b or plain words.  An \<open>int64\<close> is the 64 bit word of
  its two's complement.  The destination buffers of the code are scratch space; the one of the
  boolean encoder is an argument, since its stale bits stay in the result.
\<close>

section \<open>Differences\<close>

datatype tsm_error = TSMError string | TSMPanic

text \<open>
  The loop that replaces every value but the first by its difference to the value before it,
  from the end and in place, and finds the maximum.
\<close>

fun delta_loop :: "(u64 \<Rightarrow> u64) \<Rightarrow> nat \<Rightarrow> u64 list \<Rightarrow> u64 \<Rightarrow> u64 list \<times> u64" where
  "delta_loop f 0 deltas mx = (deltas, mx)"
| "delta_loop f (Suc i) deltas mx =
     (let d = f (deltas ! Suc i - deltas ! i)
      in delta_loop f i (deltas[Suc i := d]) (if d > mx then d else mx))"

fun prefix_sum :: "(u64 \<Rightarrow> u64) \<Rightarrow> u64 \<Rightarrow> u64 list \<Rightarrow> u64 list" where
  "prefix_sum g prev [] = []"
| "prefix_sum g prev (d # ds) = (prev + g d) # prefix_sum g (prev + g d) ds"

text \<open>The words in a slice of bytes; less than eight bytes at the end are not read.\<close>

function get_words :: "byte list \<Rightarrow> u64 list" where
  "get_words b = (if length b \<ge> 8 then Uint64 b # get_words (drop 8 b) else [])"
  by auto
termination
  by (relation "measure length") auto

declare get_words.simps [simp del]

fun run_of :: "nat \<Rightarrow> u64 \<Rightarrow> u64 \<Rightarrow> u64 list" where
  "run_of 0 acc delta = []"
| "run_of (Suc n) acc delta = acc # run_of n (acc + delta) delta"

section \<open>Integers\<close>

definition intUncompressed :: byte where "intUncompressed = 0"
definition intCompressedSimple :: byte where "intCompressedSimple = 1"
definition intCompressedRLE :: byte where "intCompressedRLE = 2"

definition ZigZagEncode :: "u64 \<Rightarrow> u64" where
  "ZigZagEncode x = push_bit 1 x XOR signed_drop_bit 63 x"

definition ZigZagDecode :: "u64 \<Rightarrow> u64" where
  "ZigZagDecode v = drop_bit 1 v XOR signed_drop_bit 63 (push_bit 63 (v AND 1))"

definition IntegerArrayEncodeAll :: "u64 list \<Rightarrow> s8b_error + byte list" where
  "IntegerArrayEncodeAll src =
     (if src = [] then Inr []
      else
        case delta_loop ZigZagEncode (length src - 1) src 0 of
          (ds, mx) \<Rightarrow>
            (let deltas = ds[0 := ZigZagEncode (ds ! 0)] in
             if length deltas > 2 \<and> list_all (\<lambda>d. deltas ! 1 = d) (drop 2 deltas) then
               Inr (push_bit 4 intCompressedRLE # PutUint64 (deltas ! 0) @ PutUvarint (deltas ! 1) @
                 PutUvarint (of_nat (length deltas - 1)))
             else if mx > MaxValue then Inr (push_bit 4 intUncompressed # put_words deltas)
             else
               case EncodeAll (tl deltas) of
                 Inl e \<Rightarrow> Inl e
               | Inr encoded \<Rightarrow> Inr (push_bit 4 intCompressedSimple # PutUint64 (deltas ! 0) @ put_words encoded)))"

definition integerBatchDecodeAllUncompressed :: "byte list \<Rightarrow> tsm_error + u64 list" where
  "integerBatchDecodeAllUncompressed b0 =
     (let b = tl b0 in
      if length b mod 8 \<noteq> 0 then Inl (TSMError ''expected multiple of 8 bytes'')
      else Inr (prefix_sum ZigZagDecode 0 (get_words b)))"

definition integerBatchDecodeAllSimple :: "byte list \<Rightarrow> tsm_error + u64 list" where
  "integerBatchDecodeAllSimple b0 =
     (let b = tl b0 in
      if length b < 8 then Inl (TSMError ''not enough data to decode packed value'')
      else
        case CountBytes (drop 8 b) of
          None \<Rightarrow> Inl (TSMError ''invalid slice len remaining'')
        | Some cnt \<Rightarrow>
            (case DecodeBytesBigEndian (drop 8 b) of
               None \<Rightarrow> Inl (TSMError ''src length is not multiple of 8'')
             | Some buf \<Rightarrow>
                 if length buf \<noteq> cnt then Inl (TSMError ''unexpected number of values decoded'')
                 else
                   (let first = ZigZagDecode (Uint64 b)
                    in Inr (first # prefix_sum ZigZagDecode first buf))))"

text \<open>A count that is negative as an \<open>int\<close> is out of range for the slice of the result.\<close>

definition integerBatchDecodeAllRLE :: "byte list \<Rightarrow> tsm_error + u64 list" where
  "integerBatchDecodeAllRLE b0 =
     (let b = tl b0 in
      if length b < 8 then Inl (TSMError ''not enough data to decode RLE starting value'')
      else
        (let first = ZigZagDecode (Uint64 (take 8 b));
             (value0, n) = Uvarint (drop 8 b) in
         if n \<le> 0 then Inl (TSMError ''invalid RLE delta value'')
         else
           (let delta = ZigZagDecode value0;
                (cnt0, n2) = Uvarint (drop (8 + nat n) b) in
            if n2 \<le> 0 then Inl (TSMError ''invalid RLE repeat value'')
            else
              (let cnt = cnt0 + 1 in
               if sint cnt < 0 then Inl TSMPanic
               else if delta = 0 then Inr (replicate (unat cnt) first)
               else Inr (run_of (unat cnt) first delta)))))"

definition IntegerArrayDecodeAll :: "byte list \<Rightarrow> tsm_error + u64 list" where
  "IntegerArrayDecodeAll b =
     (case b of
        [] \<Rightarrow> Inr []
      | h # _ \<Rightarrow>
          (let encoding = drop_bit 4 h in
           if encoding > intCompressedRLE then Inl (TSMError ''unknown encoding'')
           else if encoding = 0 then integerBatchDecodeAllUncompressed b
           else if encoding = 1 then integerBatchDecodeAllSimple b
           else integerBatchDecodeAllRLE b))"

definition UnsignedArrayEncodeAll :: "u64 list \<Rightarrow> s8b_error + byte list" where
  "UnsignedArrayEncodeAll src = IntegerArrayEncodeAll src"

definition UnsignedArrayDecodeAll :: "byte list \<Rightarrow> tsm_error + u64 list" where
  "UnsignedArrayDecodeAll b = IntegerArrayDecodeAll b"

section \<open>Timestamps\<close>

definition timeUncompressed :: byte where "timeUncompressed = 0"
definition timeCompressedPackedSimple :: byte where "timeCompressedPackedSimple = 1"
definition timeCompressedRLE :: byte where "timeCompressedRLE = 2"

text \<open>The largest power of ten, at most \<open>div\<close>, that divides \<open>v\<close>.\<close>

function find_div :: "u64 \<Rightarrow> u64 \<Rightarrow> u64" where
  "find_div v d = (if d > 1 \<and> v mod d \<noteq> 0 then find_div v (d div 10) else d)"
  by auto
termination
  by (relation "measure (\<lambda>(v, d). unat d)") (auto simp: unat_div word_less_nat_alt)

declare find_div.simps [simp del]

fun find_divs :: "u64 list \<Rightarrow> u64 \<Rightarrow> u64" where
  "find_divs [] d = d"
| "find_divs (v # vs) d = (if d > 1 then find_divs vs (find_div v d) else d)"

text \<open>\<open>math.Log10\<close> and \<open>math.Pow10\<close> are exact for the powers of ten that occur here.\<close>

fun Log10 :: "nat \<Rightarrow> nat" where
  "Log10 n = (if n < 10 then 0 else 1 + Log10 (n div 10))"

declare Log10.simps [simp del]

definition time_header :: "byte \<Rightarrow> u64 \<Rightarrow> byte" where
  "time_header enc d = push_bit 4 enc OR of_nat (Log10 (unat d))"

definition TimeArrayEncodeAll :: "u64 list \<Rightarrow> s8b_error + byte list" where
  "TimeArrayEncodeAll src =
     (if src = [] then Inr []
      else
        case delta_loop (\<lambda>d. d) (length src - 1) src 0 of
          (deltas, mx) \<Rightarrow>
            if length deltas > 1 \<and> list_all (\<lambda>d. deltas ! 1 = d) (drop 2 deltas) then
              (let d = find_div (deltas ! 1) (10 ^ 12)
               in Inr ((if d > 1 then time_header timeCompressedRLE d else push_bit 4 timeCompressedRLE) #
                    PutUint64 (deltas ! 0) @ PutUvarint (if d > 1 then deltas ! 1 div d else deltas ! 1) @
                    PutUvarint (of_nat (length deltas))))
            else if mx > MaxValue then Inr (push_bit 4 timeUncompressed # put_words deltas)
            else
              (let d = find_divs (tl deltas) (10 ^ 12) in
               case EncodeAll (if d > 1 then map (\<lambda>v. v div d) (tl deltas) else tl deltas) of
                 Inl e \<Rightarrow> Inl e
               | Inr encoded \<Rightarrow>
                   Inr (time_header timeCompressedPackedSimple d # PutUint64 (deltas ! 0) @ put_words encoded)))"

definition pow10_of :: "byte \<Rightarrow> u64" where
  "pow10_of h = 10 ^ unat (h AND 0xf)"

definition timeBatchDecodeAllUncompressed :: "byte list \<Rightarrow> tsm_error + u64 list" where
  "timeBatchDecodeAllUncompressed b0 =
     (let b = tl b0 in
      if length b mod 8 \<noteq> 0 then Inl (TSMError ''expected multiple of 8 bytes'')
      else Inr (prefix_sum (\<lambda>d. d) 0 (get_words b)))"

definition timeBatchDecodeAllSimple :: "byte list \<Rightarrow> tsm_error + u64 list" where
  "timeBatchDecodeAllSimple b =
     (if length b < 9 then Inl (TSMError ''not enough data to decode packed timestamps'')
      else
        let d = pow10_of (hd b) in
        case CountBytes (drop 9 b) of
          None \<Rightarrow> Inl (TSMError ''invalid slice len remaining'')
        | Some cnt \<Rightarrow>
            (case DecodeBytesBigEndian (drop 9 b) of
               None \<Rightarrow> Inl (TSMError ''src length is not multiple of 8'')
             | Some buf \<Rightarrow>
                 if length buf \<noteq> cnt then Inl (TSMError ''unexpected number of values decoded'')
                 else
                   (let first = Uint64 (take 8 (drop 1 b))
                    in Inr (first # prefix_sum (if d > 1 then (\<lambda>v. v * d) else (\<lambda>v. v)) first buf))))"

definition timeBatchDecodeAllRLE :: "byte list \<Rightarrow> tsm_error + u64 list" where
  "timeBatchDecodeAllRLE b =
     (if length b < 9 then Inl (TSMError ''not enough data to decode RLE starting value'')
      else
        let md = pow10_of (hd b);
            first = Uint64 (drop 1 b);
            (delta0, n) = Uvarint (drop 9 b) in
        if n \<le> 0 then Inl (TSMError ''invalid run length in decodeRLE'')
        else
          (let delta = delta0 * md;
               (cnt, n2) = Uvarint (drop (9 + nat n) b) in
           if n2 \<le> 0 then Inl (TSMError ''invalid repeat value in decodeRLE'')
           else if sint cnt < 0 then Inl TSMPanic
           else Inr (run_of (unat cnt) first delta)))"

definition TimeArrayDecodeAll :: "byte list \<Rightarrow> tsm_error + u64 list" where
  "TimeArrayDecodeAll b =
     (case b of
        [] \<Rightarrow> Inr []
      | h # _ \<Rightarrow>
          (let encoding = drop_bit 4 h in
           if encoding > timeCompressedRLE then Inl (TSMError ''unknown encoding'')
           else if encoding = 0 then timeBatchDecodeAllUncompressed b
           else if encoding = 1 then timeBatchDecodeAllSimple b
           else timeBatchDecodeAllRLE b))"

section \<open>Booleans\<close>

definition booleanCompressedBitPacked :: byte where "booleanCompressedBitPacked = 1"

text \<open>Writing a bit at position \<open>n\<close>, counted in bits, and leaving the others as they are.\<close>

definition write_bit :: "nat \<Rightarrow> bool \<Rightarrow> byte list \<Rightarrow> byte list" where
  "write_bit n v b =
     (let m = drop_bit (n mod 8) 128 :: byte
      in b[n div 8 := (if v then b ! (n div 8) OR m else b ! (n div 8) AND NOT m)])"

fun write_bits :: "nat \<Rightarrow> bool list \<Rightarrow> byte list \<Rightarrow> byte list" where
  "write_bits n [] b = b"
| "write_bits n (v # vs) b = write_bits (n + 1) vs (write_bit n v b)"

definition overwrite :: "nat \<Rightarrow> byte list \<Rightarrow> byte list \<Rightarrow> byte list" where
  "overwrite i xs b = take i b @ xs @ drop (i + length xs) b"

text \<open>\<open>b\<close> is the buffer that is passed in and \<open>spare\<close> what its array holds beyond its length.\<close>

definition BooleanArrayEncodeAll :: "bool list \<Rightarrow> byte list \<Rightarrow> byte list \<Rightarrow> byte list" where
  "BooleanArrayEncodeAll src b0 spare =
     (let sz = 1 + 8 + (length src + 7) div 8;
          b1 = (if length b0 < sz \<and> length b0 + length spare > sz then take sz (b0 @ spare)
                else if length b0 < sz then b0 @ replicate sz 0
                else b0);
          cnt = PutUvarint (of_nat (length src));
          b2 = overwrite 1 cnt (b1[0 := push_bit 4 booleanCompressedBitPacked]);
          n = 8 + 8 * length cnt;
          b3 = write_bits n src b2;
          total = n + length src
      in take (total div 8 + (if total mod 8 > 0 then 1 else 0)) b3)"

fun read_bits :: "nat \<Rightarrow> byte list \<Rightarrow> bool list" where
  "read_bits 0 b = []"
| "read_bits n [] = replicate n False"
| "read_bits n (v # b) =
     (let bits = map (\<lambda>i. v AND drop_bit i 128 \<noteq> 0) [0..<8]
      in take n bits @ (if n \<le> 8 then [] else read_bits (n - 8) b))"

definition BooleanArrayDecodeAll :: "byte list \<Rightarrow> tsm_error + bool list" where
  "BooleanArrayDecodeAll b0 =
     (if b0 = [] then Inr []
      else
        let (val, n) = Uvarint (tl b0) in
        if n \<le> 0 then Inl (TSMError ''invalid count'')
        else
          (let b = drop (nat n) (tl b0);
               cnt = (if int (length b * 8) < sint val then int (length b * 8) else sint val)
           in if cnt < 0 then Inl TSMPanic else Inr (read_bits (nat cnt) b)))"

end
