(* ===== verification/TSMBlockProps.thy ===== *)
theory TSMBlockProps
  imports TSMBlocks
begin

text \<open>
  The block encodings are lossless: decoding an encoded block gives the values back, whatever
  the values and whichever encoding was chosen.
\<close>

section \<open>Differences\<close>

lemma delta_loop_length: "length (fst (delta_loop f i ds mx)) = length ds"
  by (induction f i ds mx rule: delta_loop.induct) (simp_all add: Let_def)

lemma delta_loop_above: "k > i \<Longrightarrow> fst (delta_loop f i ds mx) ! k = ds ! k"
  by (induction f i ds mx rule: delta_loop.induct) (simp_all add: Let_def)

lemma delta_loop_max_mono: "mx \<le> snd (delta_loop f i ds mx)"
proof (induction f i ds mx rule: delta_loop.induct)
  case (2 f i ds mx)
  have "mx \<le> (if f (ds ! Suc i - ds ! i) > mx then f (ds ! Suc i - ds ! i) else mx)" by auto
  also have "\<dots> \<le> snd (delta_loop f (Suc i) ds mx)" using 2 by (simp add: Let_def)
  finally show ?case .
qed simp

lemma delta_loop_nth:
  assumes "i < length ds" "k \<le> i"
  shows "fst (delta_loop f i ds mx) ! k = (if k = 0 then ds ! 0 else f (ds ! k - ds ! (k - 1))) \<and>
    (0 < k \<longrightarrow> fst (delta_loop f i ds mx) ! k \<le> snd (delta_loop f i ds mx))"
  using assms
proof (induction f i ds mx rule: delta_loop.induct)
  case (2 f i ds mx)
  let ?d = "f (ds ! Suc i - ds ! i)" and ?mx = "if f (ds ! Suc i - ds ! i) > mx then f (ds ! Suc i - ds ! i) else mx"
  have eq: "delta_loop f (Suc i) ds mx = delta_loop f i (ds[Suc i := ?d]) ?mx" by (simp add: Let_def)
  show ?case
  proof (cases "k = Suc i")
    case True
    have "?d \<le> ?mx" by auto
    also have "?mx \<le> snd (delta_loop f i (ds[Suc i := ?d]) ?mx)" by (rule delta_loop_max_mono)
    finally show ?thesis using True 2(2) delta_loop_above [of i k f "ds[Suc i := ?d]" ?mx] unfolding eq by simp
  next
    case False
    with 2(1) [OF refl] 2(2,3) show ?thesis unfolding eq by (auto simp: nth_list_update)
  qed
qed simp

text \<open>The list that the loop leaves, read from the front.\<close>

fun diffs :: "(u64 \<Rightarrow> u64) \<Rightarrow> u64 \<Rightarrow> u64 list \<Rightarrow> u64 list" where
  "diffs f prev [] = []"
| "diffs f prev (x # xs) = f (x - prev) # diffs f x xs"

lemma length_diffs [simp]: "length (diffs f prev xs) = length xs"
  by (induction f prev xs rule: diffs.induct) simp_all

lemma diffs_nth: "k < length xs \<Longrightarrow> diffs f prev xs ! k = f (xs ! k - (if k = 0 then prev else xs ! (k - 1)))"
proof (induction f prev xs arbitrary: k rule: diffs.induct)
  case (2 f prev x xs)
  show ?case
  proof (cases k)
    case (Suc k')
    with 2 show ?thesis by (cases k') auto
  qed simp
qed simp

lemma delta_loop_diffs:
  assumes "delta_loop f (length xs) (x # xs) 0 = (ds, mx)"
  shows "ds = x # diffs f x xs" "\<forall>d \<in> set (diffs f x xs). d \<le> mx"
proof -
  have len: "length ds = length (x # xs)" using delta_loop_length [of f "length xs" "x # xs" 0] assms by simp
  have nth: "ds ! k = (if k = 0 then x else f ((x # xs) ! k - (x # xs) ! (k - 1))) \<and> (0 < k \<longrightarrow> ds ! k \<le> mx)"
    if "k \<le> length xs" for k
    using delta_loop_nth [of "length xs" "x # xs" k f 0] assms that by (auto split: if_splits)
  show ds: "ds = x # diffs f x xs"
  proof (rule nth_equalityI)
    fix k assume "k < length ds"
    with nth [of k] len show "ds ! k = (x # diffs f x xs) ! k"
      by (cases k) (auto simp: diffs_nth)
  qed (simp add: len)
  show "\<forall>d \<in> set (diffs f x xs). d \<le> mx"
  proof
    fix d assume "d \<in> set (diffs f x xs)"
    then obtain k where "k < length xs" "d = diffs f x xs ! k" by (auto simp: in_set_conv_nth)
    moreover have "ds ! Suc k \<le> mx" using nth [of "Suc k"] \<open>k < length xs\<close> by (meson Suc_leI zero_less_Suc)
    ultimately show "d \<le> mx" by (simp only: ds nth_Cons_Suc)
  qed
qed

lemma prefix_sum_diffs: "(\<And>d. g (f d) = d) \<Longrightarrow> prefix_sum g prev (diffs f prev xs) = xs"
  by (induction f prev xs rule: diffs.induct) simp_all

lemma prefix_sum_replicate: "prefix_sum g prev (replicate n d) = run_of n (prev + g d) (g d)"
  by (induction n arbitrary: prev) simp_all

lemma prefix_sum_scale: "prefix_sum g prev (map h ds) = prefix_sum (\<lambda>d. g (h d)) prev ds"
  by (induction ds arbitrary: prev) simp_all

lemma prefix_sum_cong: "(\<And>d. d \<in> set ds \<Longrightarrow> g d = g' d) \<Longrightarrow> prefix_sum g prev ds = prefix_sum g' prev ds"
  by (induction ds arbitrary: prev) simp_all

lemma run_of_zero: "run_of n acc 0 = replicate n acc"
  by (induction n) simp_all

lemma get_words_put_words [simp]: "get_words (put_words ws) = ws"
  by (induction ws) (simp_all add: get_words.simps [of "_ @ _"] get_words.simps [of "[]"] put_words_def Uint64_take)

lemma all_equal: "list_all (\<lambda>d. ds ! 0 = d) (tl ds) \<Longrightarrow> ds = replicate (length ds) (ds ! 0)"
  by (cases ds) (auto simp: list_all_iff replicate_length_same [symmetric])

lemma bit_ZigZagEncode: "bit (ZigZagEncode x) n \<longleftrightarrow> n < 64 \<and> (0 < n \<and> bit x (n - 1)) \<noteq> bit x 63"
  unfolding ZigZagEncode_def bit_xor_iff bit_push_bit_iff bit_signed_drop_bit_iff
  by (auto simp: Suc_le_eq dest: bit_imp_le_length)

lemma bit_ZigZagDecode: "bit (ZigZagDecode v) n \<longleftrightarrow> n < 64 \<and> (n < 63 \<and> bit v (n + 1)) \<noteq> bit v 0"
proof -
  define c where "c = push_bit 63 (v AND 1)"
  have c: "bit c m \<longleftrightarrow> m = 63 \<and> bit v 0" for m
  proof (cases "m \<le> 63")
    case True
    then show ?thesis unfolding c_def bit_push_bit_iff bit_and_iff by (auto simp: bit_1_iff)
  next
    case False
    then show ?thesis using bit_imp_le_length [of c m] by auto
  qed
  show ?thesis
    unfolding ZigZagDecode_def c_def [symmetric] bit_xor_iff bit_drop_bit_eq bit_signed_drop_bit_iff c
    by (auto simp: comp_def dest: bit_imp_le_length)
qed

lemma ZigZagDecode_Encode [simp]: "ZigZagDecode (ZigZagEncode x) = x"
proof (rule bit_word_eqI)
  fix n assume "n < LENGTH(64)"
  then consider "n < 63" | "n = 63" by fastforce
  then show "bit (ZigZagDecode (ZigZagEncode x)) n = bit x n"
    by cases (auto simp: bit_ZigZagDecode bit_ZigZagEncode)
qed


section \<open>Integers\<close>

lemma length_8_PutUint64: "\<not> length (PutUint64 w @ rest) < 8"
  by simp

lemma Uvarint_two:
  "Uvarint (PutUvarint v @ PutUvarint w) = (v, int (length (PutUvarint v)))"
  "Uvarint (PutUvarint v) = (v, int (length (PutUvarint v)))"
  using Uvarint_PutUvarint [of v] Uvarint_PutUvarint [of v "[]"] by simp_all

lemma sint_of_nat: "n < 2 ^ 63 \<Longrightarrow> \<not> sint (of_nat n :: u64) < 0 \<and> unat (of_nat n :: u64) = n"
  using u64_of_nat [of n] by simp

lemma integer_diffs:
  assumes "delta_loop ZigZagEncode (length xs) (x # xs) 0 = (ds, mx)"
  shows "ds[0 := ZigZagEncode (ds ! 0)] = diffs ZigZagEncode 0 (x # xs)"
  using delta_loop_diffs(1) [OF assms] by simp

lemma decode_uncompressed:
  "IntegerArrayDecodeAll (push_bit 4 intUncompressed # put_words ws) = Inr (prefix_sum ZigZagDecode 0 ws)"
  by (simp add: IntegerArrayDecodeAll_def intUncompressed_def intCompressedRLE_def
      integerBatchDecodeAllUncompressed_def Let_def)

lemma decode_simple:
  assumes "EncodeAll vs = Inr ws"
  shows "IntegerArrayDecodeAll (push_bit 4 intCompressedSimple # PutUint64 w @ put_words ws) =
    Inr (ZigZagDecode w # prefix_sum ZigZagDecode (ZigZagDecode w) vs)"
proof -
  have "drop_bit 4 (push_bit 4 intCompressedSimple) = intCompressedSimple" by (simp add: intCompressedSimple_def)
  then show ?thesis
    using EncodeAll_bytes [OF assms]
    by (simp add: IntegerArrayDecodeAll_def intCompressedSimple_def intCompressedRLE_def
        integerBatchDecodeAllSimple_def Let_def Uint64_take)
qed

lemma decode_RLE:
  assumes "n < 2 ^ 63 - 1"
  shows "IntegerArrayDecodeAll (push_bit 4 intCompressedRLE # PutUint64 w @ PutUvarint v @ PutUvarint (of_nat n)) =
    Inr (run_of (Suc n) (ZigZagDecode w) (ZigZagDecode v))"
proof -
  have "of_nat n + 1 = (of_nat (Suc n) :: u64)" by simp
  then have c: "\<not> sint (1 + of_nat n :: u64) < 0" "unat (1 + of_nat n :: u64) = Suc n"
    using sint_of_nat [of "Suc n"] assms by auto
  show ?thesis
    using c
    by (simp add: IntegerArrayDecodeAll_def intCompressedRLE_def integerBatchDecodeAllRLE_def Let_def
        Uvarint_two run_of_zero add.commute [of _ 1] del: run_of.simps of_nat_Suc)
qed

lemma Integer_roundtrip:
  assumes "length src < 2 ^ 63"
  shows "\<exists>b. IntegerArrayEncodeAll src = Inr b \<and> IntegerArrayDecodeAll b = Inr src"
proof (cases src)
  case (Cons x xs)
  obtain ds mx where dl: "delta_loop ZigZagEncode (length xs) (x # xs) 0 = (ds, mx)" by fastforce
  let ?ds = "diffs ZigZagEncode 0 (x # xs)"
  note deltas = integer_diffs [OF dl]
  have bk: "prefix_sum ZigZagDecode 0 ?ds = src" unfolding Cons by (rule prefix_sum_diffs) simp
  have le: "\<forall>d \<in> set (tl ?ds). d \<le> mx" using delta_loop_diffs(2) [OF dl] by simp
  have l: "(x # xs = []) = False" "length (x # xs) - 1 = length xs" by simp_all
  note enc = IntegerArrayEncodeAll_def [of "x # xs", unfolded l if_False dl prod.case deltas Let_def]
  show ?thesis
  proof (cases "length ?ds > 2 \<and> list_all (\<lambda>d. ?ds ! 1 = d) (drop 2 ?ds)")
    case True
    have e: "IntegerArrayEncodeAll src = Inr (push_bit 4 intCompressedRLE # PutUint64 (?ds ! 0) @ PutUvarint (?ds ! 1) @
        PutUvarint (of_nat (length ?ds - 1)))"
      unfolding Cons enc using True by (simp only: if_True simp_thms)
    have "tl ?ds = replicate (length xs) (?ds ! 1)"
      using all_equal [of "tl ?ds"] True by (cases xs) (simp_all add: drop_Suc)
    then have "prefix_sum ZigZagDecode 0 (ZigZagEncode x # replicate (length xs) (?ds ! 1)) = src"
      using bk by simp
    then have "run_of (Suc (length xs)) x (ZigZagDecode (?ds ! 1)) = src"
      by (simp add: prefix_sum_replicate)
    moreover have "length xs < 2 ^ 63 - 1" using assms Cons by simp
    ultimately show ?thesis using e decode_RLE [of "length xs" "ZigZagEncode x" "?ds ! 1"] by simp
  next
    case not_rle: False
    show ?thesis
    proof (cases "mx > MaxValue")
      case True
      then have "IntegerArrayEncodeAll src = Inr (push_bit 4 intUncompressed # put_words ?ds)"
        unfolding Cons enc using not_rle by (simp only: if_True if_False)
      then show ?thesis using bk by (simp add: decode_uncompressed)
    next
      case False
      then have "\<forall>d \<in> set (tl ?ds). d \<le> MaxValue" using le by (meson not_le order.trans)
      then obtain ws where ws: "EncodeAll (tl ?ds) = Inr ws" using EncodeAll_total by blast
      then have "IntegerArrayEncodeAll src = Inr (push_bit 4 intCompressedSimple # PutUint64 (?ds ! 0) @ put_words ws)"
        unfolding Cons enc using not_rle False ws by (simp only: if_False if_True ws sum.case)
      moreover have "ZigZagDecode (?ds ! 0) # prefix_sum ZigZagDecode (ZigZagDecode (?ds ! 0)) (tl ?ds) = src"
        using bk by simp
      ultimately show ?thesis using decode_simple [OF ws] by simp
    qed
  qed
qed (simp add: IntegerArrayEncodeAll_def IntegerArrayDecodeAll_def)


section \<open>Timestamps\<close>

lemma pow10_cases: "k \<le> (12 :: nat) \<Longrightarrow> k \<in> {0, 1, 2, 3, 4, 5, 6, 7, 8, 9, 10, 11, 12}"
  by simp presburger

lemma Log10_pow10 [simp]: "Log10 (10 ^ k) = k"
proof (induction k)
  case (Suc k)
  then show ?case by (subst Log10.simps) simp
qed (simp add: Log10.simps)

lemma pow10_facts:
  assumes "k \<le> 12"
  shows "unat (10 ^ k :: u64) = 10 ^ k" "((10 ^ k :: u64) > 1) = (0 < k)"
    "0 < k \<Longrightarrow> (10 ^ k :: u64) div 10 = 10 ^ (k - 1)"
proof -
  have "unat (10 ^ j :: u64) = 10 ^ j" if "j \<le> 12" for j using pow10_cases [OF that] by auto
  note u = this
  show "unat (10 ^ k :: u64) = 10 ^ k" by (rule u [OF assms])
  have "(1 :: nat) < 10 ^ k \<longleftrightarrow> 0 < k" using one_less_power [of "10 :: nat" k] by (cases k) auto
  then show "((10 ^ k :: u64) > 1) = (0 < k)" by (simp add: word_less_nat_alt u [OF assms])
  assume k: "0 < k"
  show "(10 ^ k :: u64) div 10 = 10 ^ (k - 1)"
  proof (rule word_unat_eq_iff [THEN iffD2])
    have "unat ((10 ^ k :: u64) div 10) = 10 ^ k div 10" by (simp add: unat_div u [OF assms])
    also have "\<dots> = 10 ^ (k - 1)" using k by (cases k) simp_all
    also have "\<dots> = unat (10 ^ (k - 1) :: u64)" using u [of "k - 1"] assms by simp
    finally show "unat ((10 ^ k :: u64) div 10) = unat (10 ^ (k - 1) :: u64)" .
  qed
qed

lemma find_div_pow10:
  assumes "k \<le> 12"
  shows "\<exists>k' \<le> k. find_div v (10 ^ k) = 10 ^ k' \<and> v mod 10 ^ k' = 0"
  using assms
proof (induction k)
  case 0
  then show ?case by (subst find_div.simps) simp
next
  case (Suc k)
  show ?case
  proof (cases "v mod 10 ^ Suc k = 0")
    case True
    then show ?thesis by (intro exI [of _ "Suc k"]) (simp add: find_div.simps [of v "10 * 10 ^ k"])
  next
    case False
    then have "find_div v (10 ^ Suc k) = find_div v (10 ^ k)"
      using pow10_facts(2,3) [OF Suc.prems] by (subst find_div.simps) (simp del: power_Suc)
    with Suc show ?thesis by (metis Suc_leD le_SucI)
  qed
qed

lemma mod_pow10_mono:
  fixes v :: u64
  assumes "v mod 10 ^ k = 0" "k' \<le> k" "k \<le> 12"
  shows "v mod 10 ^ k' = 0"
proof -
  have u: "unat (10 ^ k :: u64) = 10 ^ k" "unat (10 ^ k' :: u64) = 10 ^ k'"
    using pow10_facts(1) assms(2,3) by auto
  have "(10 :: nat) ^ k dvd unat v"
    using arg_cong [OF assms(1), of unat] by (simp add: unat_mod u mod_eq_0_iff_dvd)
  then have "(10 :: nat) ^ k' dvd unat v" using le_imp_power_dvd [OF assms(2)] dvd_trans by blast
  then have "unat (v mod 10 ^ k') = 0" by (simp add: unat_mod u)
  then show ?thesis by (simp add: unat_eq_0)
qed

lemma find_divs_pow10:
  assumes "k \<le> 12"
  shows "\<exists>k' \<le> k. find_divs vs (10 ^ k) = 10 ^ k' \<and> (\<forall>v \<in> set vs. v mod 10 ^ k' = 0)"
  using assms
proof (induction vs arbitrary: k)
  case (Cons v vs)
  show ?case
  proof (cases "k = 0")
    case False
    obtain k1 where k1: "k1 \<le> k" "find_div v (10 ^ k) = 10 ^ k1" "v mod 10 ^ k1 = 0"
      using find_div_pow10 [OF Cons.prems, of v] by (elim exE conjE) (rule that)
    have k12: "k1 \<le> 12" using k1(1) Cons.prems by linarith
    obtain k2 where k2: "k2 \<le> k1" "find_divs vs (10 ^ k1) = 10 ^ k2" "\<forall>v \<in> set vs. v mod 10 ^ k2 = 0"
      using Cons.IH [OF k12] by (elim exE conjE) (rule that)
    have "v mod 10 ^ k2 = 0" by (rule mod_pow10_mono [OF k1(3) k2(1) k12])
    moreover have "find_divs (v # vs) (10 ^ k) = 10 ^ k2"
      using pow10_facts(2) [OF Cons.prems] False by (simp only: find_divs.simps k1(2) k2(2) if_True neq0_conv)
    ultimately show ?thesis using k1(1) k2(1,3) by (intro exI [of _ k2]) (simp only: list.set ball_simps, simp)
  qed simp
qed auto

lemma nibbles:
  fixes e w :: byte
  assumes "unat e < 16" "unat w < 16"
  shows "drop_bit 4 (push_bit 4 e OR w) = e" "(push_bit 4 e OR w) AND mask 4 = w"
proof -
  have e: "\<not> bit e j" and w: "\<not> bit w j" if "4 \<le> j" for j
    using bit_word_less [of e 4 j] bit_word_less [of w 4 j] assms that by simp_all
  show "drop_bit 4 (push_bit 4 e OR w) = e"
  proof (rule bit_word_eqI)
    fix j assume "j < LENGTH(8)"
    with e [of j] w [of "4 + j"] show "bit (drop_bit 4 (push_bit 4 e OR w)) j = bit e j"
      by (cases "j < 4") (auto simp: bit_drop_bit_eq bit_or_iff bit_push_bit_iff)
  qed
  show "(push_bit 4 e OR w) AND mask 4 = w"
  proof (rule bit_word_eqI)
    fix j assume "j < LENGTH(8)"
    with w [of j] show "bit ((push_bit 4 e OR w) AND mask 4) j = bit w j"
      by (cases "j < 4") (auto simp: bit_and_iff bit_or_iff bit_push_bit_iff bit_mask_iff)
  qed
qed

lemma time_header_facts:
  assumes "k \<le> 12" "enc = 1 \<or> enc = 2"
  shows "drop_bit 4 (time_header enc (10 ^ k)) = enc" "pow10_of (time_header enc (10 ^ k)) = 10 ^ k"
proof -
  have h: "time_header enc (10 ^ k) = push_bit 4 enc OR of_nat k"
    by (simp add: time_header_def pow10_facts(1) [OF assms(1)])
  have k: "unat (of_nat k :: byte) = k" using assms(1) by (simp add: unat_of_nat take_bit_nat_eq_self)
  have "unat enc < 16" "unat (of_nat k :: byte) < 16" using assms k by auto
  note n = nibbles [OF this]
  show "drop_bit 4 (time_header enc (10 ^ k)) = enc" unfolding h by (rule n)
  have "(0xf :: byte) = mask 4" by (simp add: mask_numeral)
  then show "pow10_of (time_header enc (10 ^ k)) = 10 ^ k"
    unfolding h pow10_of_def by (simp only: n k)
qed


lemma time_decode_uncompressed:
  "TimeArrayDecodeAll (push_bit 4 timeUncompressed # put_words ws) = Inr (prefix_sum (\<lambda>d. d) 0 ws)"
  by (simp add: TimeArrayDecodeAll_def timeUncompressed_def timeCompressedRLE_def
      timeBatchDecodeAllUncompressed_def Let_def)

lemma time_decode_simple:
  assumes "EncodeAll vs = Inr ws" "k \<le> 12"
  shows "TimeArrayDecodeAll (time_header timeCompressedPackedSimple (10 ^ k) # PutUint64 w @ put_words ws) =
    Inr (w # prefix_sum (\<lambda>v. v * 10 ^ k) w vs)"
proof -
  have "(if (10 ^ k :: u64) > 1 then (\<lambda>v. v * 10 ^ k) else (\<lambda>v. v)) = (\<lambda>v :: u64. v * 10 ^ k)"
    using pow10_facts(2) [OF assms(2)] by (cases k) auto
  then show ?thesis
    using EncodeAll_bytes [OF assms(1)] time_header_facts [OF assms(2), of 1]
    by (simp add: TimeArrayDecodeAll_def timeCompressedPackedSimple_def timeCompressedRLE_def
        timeBatchDecodeAllSimple_def Let_def del: one_less_power)
qed

lemma time_decode_RLE:
  assumes "k \<le> 12" "n < 2 ^ 63" "drop_bit 4 h = 2" "pow10_of h = 10 ^ k"
  shows "TimeArrayDecodeAll (h # PutUint64 w @ PutUvarint v @ PutUvarint (of_nat n)) = Inr (run_of n w (v * 10 ^ k))"
proof -
  have "drop (9 + length (PutUvarint v)) (h # PutUint64 w @ PutUvarint v @ PutUvarint (of_nat n)) = PutUvarint (of_nat n)"
    by (simp add: drop_Cons')
  then show ?thesis
    using sint_of_nat [OF assms(2)] assms(3,4)
    by (simp add: TimeArrayDecodeAll_def timeCompressedRLE_def timeBatchDecodeAllRLE_def Let_def Uvarint_two Uint64_take)
qed

lemma div_pow10_le: "v \<le> MaxValue \<Longrightarrow> v div d \<le> MaxValue"
  using le_less_trans [OF div_le_dividend [of "unat v" "unat d"]] by (simp add: le_MaxValue unat_div)

lemma div_times_pow10: "v mod d = 0 \<Longrightarrow> v div d * d = (v :: u64)"
  using div_mult_mod_eq [of v d] by simp

lemma Time_roundtrip:
  assumes "length src < 2 ^ 63"
  shows "\<exists>b. TimeArrayEncodeAll src = Inr b \<and> TimeArrayDecodeAll b = Inr src"
proof (cases src)
  case (Cons x xs)
  obtain ds mx where dl: "delta_loop (\<lambda>d. d) (length xs) (x # xs) 0 = (ds, mx)" by fastforce
  let ?ds = "diffs (\<lambda>d. d) x xs"
  note deltas = delta_loop_diffs(1) [OF dl]
  have bk: "x # prefix_sum (\<lambda>d. d) x ?ds = src" unfolding Cons by (simp add: prefix_sum_diffs)
  have le: "\<forall>d \<in> set ?ds. d \<le> mx" by (rule delta_loop_diffs(2) [OF dl])
  have l: "(x # xs = []) = False" "length (x # xs) - 1 = length xs" by simp_all
  note enc = TimeArrayEncodeAll_def [of "x # xs", unfolded l if_False dl prod.case deltas Let_def nth_Cons_0 list.sel]
  show ?thesis
  proof (cases "length (x # ?ds) > 1 \<and> list_all (\<lambda>d. (x # ?ds) ! 1 = d) (drop 2 (x # ?ds))")
    case True
    let ?v = "?ds ! 0"
    obtain k where k: "k \<le> 12" "find_div ?v (10 ^ 12) = 10 ^ k" "?v mod 10 ^ k = 0"
      using find_div_pow10 [OF order.refl, of ?v] by (elim exE conjE) (rule that)
    let ?d = "10 ^ k :: u64"
    let ?h = "if ?d > 1 then time_header timeCompressedRLE ?d else push_bit 4 timeCompressedRLE"
    have "?h = time_header timeCompressedRLE ?d"
      using pow10_facts(2) [OF k(1)] by (cases k) (simp_all add: time_header_def Log10.simps)
    then have h: "drop_bit 4 ?h = 2" "pow10_of ?h = ?d"
      using time_header_facts [OF k(1), of timeCompressedRLE] by (simp_all only: timeCompressedRLE_def simp_thms)
    have v: "(if ?d > 1 then ?v div ?d else ?v) = ?v div ?d"
      using pow10_facts(2) [OF k(1)] by (cases k) simp_all
    have e: "TimeArrayEncodeAll src = Inr (?h # PutUint64 x @ PutUvarint (?v div ?d) @ PutUvarint (of_nat (length src)))"
      unfolding Cons enc using True k(2) v by (simp only: if_True simp_thms nth_Cons_Suc One_nat_def length_diffs list.size)
    have "?ds = replicate (length xs) ?v"
      using all_equal [of ?ds] True by (cases xs) (simp_all add: drop_Suc)
    then have "x # prefix_sum (\<lambda>d. d) x (replicate (length xs) ?v) = src" using bk by simp
    then have "run_of (length src) x (?v div ?d * ?d) = src"
      using div_times_pow10 [OF k(3)] Cons by (simp add: prefix_sum_replicate)
    then show ?thesis using e time_decode_RLE [OF k(1) assms h] by simp
  next
    case not_rle: False
    show ?thesis
    proof (cases "mx > MaxValue")
      case True
      then have "TimeArrayEncodeAll src = Inr (push_bit 4 timeUncompressed # put_words (x # ?ds))"
        unfolding Cons enc using not_rle by (simp only: if_True if_False)
      then show ?thesis using bk by (simp add: time_decode_uncompressed)
    next
      case False
      then have small: "\<forall>d \<in> set ?ds. d \<le> MaxValue" using le by (meson not_le order.trans)
      obtain k where k: "k \<le> 12" "find_divs ?ds (10 ^ 12) = 10 ^ k" "\<forall>v \<in> set ?ds. v mod 10 ^ k = 0"
        using find_divs_pow10 [OF order.refl, of ?ds] by (elim exE conjE) (rule that)
      let ?d = "10 ^ k :: u64"
      have v: "(if ?d > 1 then map (\<lambda>v. v div ?d) ?ds else ?ds) = map (\<lambda>v. v div ?d) ?ds"
        using pow10_facts(2) [OF k(1)] by (cases k) simp_all
      have "\<forall>d \<in> set (map (\<lambda>v. v div ?d) ?ds). d \<le> MaxValue" using small div_pow10_le by auto
      then obtain ws where ws: "EncodeAll (map (\<lambda>v. v div ?d) ?ds) = Inr ws" using EncodeAll_total by blast
      then have "TimeArrayEncodeAll src = Inr (time_header timeCompressedPackedSimple ?d # PutUint64 x @ put_words ws)"
        unfolding Cons enc using not_rle False by (simp only: if_False k(2) v sum.case)
      moreover have "prefix_sum (\<lambda>v. v * ?d) x (map (\<lambda>v. v div ?d) ?ds) = prefix_sum (\<lambda>v. v) x ?ds"
        unfolding prefix_sum_scale using k(3) div_times_pow10 by (intro prefix_sum_cong) blast
      ultimately show ?thesis using time_decode_simple [OF ws k(1)] bk by simp
    qed
  qed
qed (simp add: TimeArrayEncodeAll_def TimeArrayDecodeAll_def)

end
