(* ===== verification/TSMBoolProps.thy ===== *)
theory TSMBoolProps
  imports TSMBlocks
begin

text \<open>The boolean blocks are lossless, whatever the buffer held before.\<close>

section \<open>Booleans\<close>

text \<open>Bit \<open>n\<close> of a slice of bytes, the highest bit of a byte first.\<close>

definition bit_at :: "byte list \<Rightarrow> nat \<Rightarrow> bool" where
  "bit_at b n = bit (b ! (n div 8)) (7 - n mod 8)"

lemma bit_mask_byte: "k < 8 \<Longrightarrow> bit (drop_bit k (128 :: byte)) j \<longleftrightarrow> j = 7 - k"
proof -
  assume k: "k < 8"
  have e: "(128 :: byte) = 2 ^ 7" by simp
  have "bit (128 :: byte) m \<longleftrightarrow> m = 7" for m unfolding e bit_exp_iff by auto
  then show ?thesis using k unfolding bit_drop_bit_eq comp_def by (simp only:) linarith
qed

lemma write_bit_facts:
  assumes "n div 8 < length b"
  shows "length (write_bit n v b) = length b" "bit_at (write_bit n v b) n = v"
    "m \<noteq> n \<Longrightarrow> bit_at (write_bit n v b) m = bit_at b m"
    "k \<noteq> n div 8 \<Longrightarrow> write_bit n v b ! k = b ! k"
proof -
  have n: "n mod 8 < 8" by simp
  show "length (write_bit n v b) = length b" "k \<noteq> n div 8 \<Longrightarrow> write_bit n v b ! k = b ! k"
    by (simp_all add: write_bit_def Let_def)
  show "bit_at (write_bit n v b) n = v"
    using assms bit_mask_byte [OF n] by (simp add: write_bit_def bit_at_def Let_def bit_or_iff bit_and_iff bit_not_iff)
  assume "m \<noteq> n"
  then have ne: "7 - m mod 8 \<noteq> 7 - n mod 8" if "m div 8 = n div 8"
  proof -
    have "m mod 8 \<noteq> n mod 8" using \<open>m \<noteq> n\<close> that by (metis div_mult_mod_eq)
    moreover have "m mod 8 < 8" "n mod 8 < 8" by simp_all
    ultimately show ?thesis by linarith
  qed
  then show "bit_at (write_bit n v b) m = bit_at b m"
    using assms bit_mask_byte [OF n] le_imp_less_Suc [OF diff_le_self, of 7 "m mod 8"]
    by (cases "m div 8 = n div 8") (simp_all add: write_bit_def bit_at_def Let_def bit_or_iff bit_and_iff bit_not_iff nth_list_update)
qed

lemma write_bits_facts:
  assumes "n + length vs \<le> 8 * length b"
  shows "length (write_bits n vs b) = length b \<and>
    (\<forall>i < length vs. bit_at (write_bits n vs b) (n + i) = vs ! i) \<and>
    (\<forall>k < n div 8. write_bits n vs b ! k = b ! k) \<and> (\<forall>m < n. bit_at (write_bits n vs b) m = bit_at b m)"
  using assms
proof (induction n vs b rule: write_bits.induct)
  case (2 n v vs b)
  let ?b = "write_bit n v b"
  have n: "n div 8 < length b" using 2(2) by simp
  note w = write_bit_facts [OF n]
  have IH: "length (write_bits (n + 1) vs ?b) = length b \<and>
    (\<forall>i < length vs. bit_at (write_bits (n + 1) vs ?b) (n + 1 + i) = vs ! i) \<and>
    (\<forall>k < (n + 1) div 8. write_bits (n + 1) vs ?b ! k = ?b ! k) \<and>
    (\<forall>m < n + 1. bit_at (write_bits (n + 1) vs ?b) m = bit_at ?b m)"
    using 2(1) 2(2) w(1) by simp
  have "bit_at (write_bits n (v # vs) b) (n + i) = (v # vs) ! i" if "i < length (v # vs)" for i
    using IH that w(2) by (cases i) auto
  moreover have "write_bits n (v # vs) b ! k = b ! k" if "k < n div 8" for k
  proof -
    have "k < (n + 1) div 8" using that by linarith
    with IH w(4) that show ?thesis by simp
  qed
  moreover have "bit_at (write_bits n (v # vs) b) m = bit_at b m" if "m < n" for m
    using IH w(3) that by simp
  ultimately show ?case using IH by simp
qed simp

lemma read_bits_at:
  assumes "n \<le> 8 * length b"
  shows "read_bits n b = map (bit_at b) [0..<n]"
  using assms
proof (induction n b rule: read_bits.induct)
  case (3 n v b)
  have bits: "map (\<lambda>i. v AND drop_bit i 128 \<noteq> 0) [0..<8] = map (bit_at (v # b)) [0..<8]"
  proof (rule map_cong [OF refl])
    fix i assume "i \<in> set [0..<8]"
    then have i: "i < 8" by simp
    have "v AND drop_bit i 128 \<noteq> 0 \<longleftrightarrow> (\<exists>j. bit (v AND drop_bit i 128) j)" by (metis bit_eq_iff bit_0_eq bot_fun_def bot_bool_def)
    also have "\<dots> = bit v (7 - i)" using bit_mask_byte [OF i] by (auto simp: bit_and_iff)
    finally show "(v AND drop_bit i 128 \<noteq> 0) = bit_at (v # b) i" using i by (simp add: bit_at_def)
  qed
  have step: "bit_at (v # b) (8 + i) = bit_at b i" for i
  proof -
    have "(8 + i) div 8 = Suc (i div 8)" "(8 + i) mod 8 = i mod 8" by simp_all
    then show ?thesis by (simp only: bit_at_def nth_Cons_Suc)
  qed
  show ?case
  proof (cases "Suc n \<le> 8")
    case True
    have "take (Suc n) (map (bit_at (v # b)) [0..<8]) = map (bit_at (v # b)) [0..<Suc n]"
      using True by (simp only: take_map take_upt add_0)
    with True show ?thesis by (simp only: read_bits.simps bits Let_def if_True append_Nil2)
  next
    case False
    then have "[0..<Suc n] = [0..<8] @ map ((+) 8) [0..<Suc n - 8]"
      using upt_add_eq_append [of 0 8 "Suc n - 8"] map_add_upt [of 8 "Suc n - 8"] by (simp add: add.commute [of _ 8])
    moreover have "read_bits (Suc n - 8) b = map (bit_at b) [0..<Suc n - 8]"
      using 3 False by simp
    moreover have "take (Suc n) (map (bit_at (v # b)) [0..<8]) = map (bit_at (v # b)) [0..<8]" using False by simp
    ultimately show ?thesis using False step
      by (simp only: read_bits.simps bits Let_def if_False map_append map_map comp_def)
  qed
qed auto

lemma bytes_for:
  fixes m k :: nat
  assumes "m \<le> 8 * k"
  shows "m div 8 + (if m mod 8 > 0 then 1 else 0) \<le> k" "m \<le> 8 * (m div 8 + (if m mod 8 > 0 then 1 else 0))"
    "8 * j \<le> m \<Longrightarrow> j \<le> m div 8 + (if m mod 8 > 0 then 1 else 0)"
proof -
  define q r where "q = m div 8" and "r = m mod 8"
  then have m: "m = 8 * q + r" "r < 8" by simp_all
  show "m div 8 + (if m mod 8 > 0 then 1 else 0) \<le> k" "m \<le> 8 * (m div 8 + (if m mod 8 > 0 then 1 else 0))"
    unfolding q_def [symmetric] r_def [symmetric] using assms m by (cases "r > 0"; simp; linarith)+
  show "8 * j \<le> m \<Longrightarrow> j \<le> m div 8 + (if m mod 8 > 0 then 1 else 0)"
    unfolding q_def [symmetric] r_def [symmetric] using m by (cases "r > 0"; simp; linarith)
qed

lemma Boolean_roundtrip:
  assumes "length src < 2 ^ 56"
  shows "BooleanArrayDecodeAll (BooleanArrayEncodeAll src b0 spare) = Inr src"
proof -
  define sz where "sz = 1 + 8 + (length src + 7) div 8"
  define b1 where "b1 = (if length b0 < sz \<and> length b0 + length spare > sz then take sz (b0 @ spare)
      else if length b0 < sz then b0 @ replicate sz 0 else b0)"
  define cnt where "cnt = PutUvarint (of_nat (length src))"
  let ?h = "push_bit 4 booleanCompressedBitPacked"
  define b2 where "b2 = overwrite 1 cnt (b1[0 := ?h])"
  define n where "n = 8 + 8 * length cnt"
  define b3 where "b3 = write_bits n src b2"
  define L where "L = (n + length src) div 8 + (if (n + length src) mod 8 > 0 then 1 else 0)"
  have len: "sz \<le> length b1" by (simp add: b1_def)
  have len63: "length src < 2 ^ 63" using assms by simp
  have c8: "length cnt \<le> 8" using length_PutUvarint_bound [of "of_nat (length src)" 7] assms u64_of_nat(2) [OF len63]
    by (simp add: cnt_def)
  have "1 + length cnt \<le> length b1" using len c8 by (simp add: sz_def)
  then obtain rest where b2: "b2 = ?h # cnt @ rest" and lb2: "length b2 = length b1"
    by (cases b1) (auto simp: b2_def overwrite_def)
  have fits: "n + length src \<le> 8 * length b2"
  proof -
    have "length src \<le> 8 * ((length src + 7) div 8)" by linarith
    with len c8 lb2 show ?thesis by (simp add: n_def sz_def)
  qed
  note w = write_bits_facts [OF fits, folded b3_def]
  have L: "1 + length cnt \<le> L" "L \<le> length b3" "n + length src \<le> 8 * L"
    using bytes_for [OF fits, folded L_def] w by (simp_all add: n_def)
  have enc: "BooleanArrayEncodeAll src b0 spare = take L b3"
    unfolding BooleanArrayEncodeAll_def Let_def sz_def [symmetric] b1_def [symmetric] cnt_def [symmetric] b2_def [symmetric]
      n_def [symmetric] b3_def [symmetric] L_def [symmetric] by (rule refl)
  define R where "R = drop (1 + length cnt) (take L b3)"
  have pre: "take (1 + length cnt) b3 = ?h # cnt"
  proof (rule nth_equalityI)
    show "length (take (1 + length cnt) b3) = length (?h # cnt)" using L by simp
    fix k assume "k < length (take (1 + length cnt) b3)"
    then have k: "k < 1 + length cnt" by simp
    then have "b3 ! k = b2 ! k" using w by (simp add: n_def)
    with k show "take (1 + length cnt) b3 ! k = (?h # cnt) ! k" by (cases k) (simp_all add: b2 nth_append)
  qed
  have R: "take L b3 = ?h # cnt @ R"
    using pre L(1) append_take_drop_id [of "1 + length cnt" "take L b3"] by (simp add: R_def min_def)
  have lR: "length src \<le> 8 * length R" using L by (simp add: R_def n_def)
  have "bit_at R i = src ! i" if "i < length src" for i
  proof -
    have d: "(n + i) div 8 = 1 + length cnt + i div 8" "(n + i) mod 8 = i mod 8"
      using mod_mult_self3 [of "1 + length cnt" 8 i] by (simp_all add: n_def add.commute mult.commute)
    have "i div 8 < length R" using that lR by linarith
    then have "Suc (length cnt + i div 8) < L" using L(1,2) by (simp add: R_def min_def split: if_splits)
    then have "R ! (i div 8) = b3 ! ((n + i) div 8)" using d(1) L(1,2) by (simp add: R_def)
    then have "bit_at R i = bit_at b3 (n + i)" by (simp add: bit_at_def d(2))
    with w that show ?thesis by simp
  qed
  then have "read_bits (length src) R = src"
    using read_bits_at [of "length src" R] lR by (intro nth_equalityI) simp_all
  moreover have "Uvarint (cnt @ R) = (of_nat (length src), int (length cnt))"
    unfolding cnt_def by (rule Uvarint_PutUvarint)
  ultimately show ?thesis
    using u64_of_nat(1) [OF len63] lR unfolding enc R
    by (simp add: BooleanArrayDecodeAll_def Let_def cnt_def)
qed

end
