(* ===== verification/TSMArray.thy ===== *)
theory TSMArray
  imports TSMBlockProps TSMBoolProps
begin

text \<open>
  Whole blocks of a TSM file (\<open>tsdb/engine/tsm1/encoding.go\<close>, \<open>encoding.gen.go\<close>,
  \<open>array_encoding.go\<close>): the type, the length of the encoded timestamps, the timestamps and the
  values.
\<close>

section \<open>Packing\<close>

definition BlockInteger :: byte where "BlockInteger = 1"
definition BlockBoolean :: byte where "BlockBoolean = 2"
definition BlockUnsigned :: byte where "BlockUnsigned = 4"

definition packBlock :: "byte \<Rightarrow> byte list \<Rightarrow> byte list \<Rightarrow> byte list" where
  "packBlock typ ts values = typ # PutUvarint (of_nat (length ts)) @ ts @ values"

text \<open>The bounds are computed as \<open>int\<close>; a slice with its end before its start panics.\<close>

definition unpackBlock :: "byte list \<Rightarrow> tsm_error + byte list \<times> byte list" where
  "unpackBlock buf =
     (let (tsLen, i) = Uvarint buf in
      if i \<le> 0 then Inl (TSMError ''unpackBlock: unable to read timestamp block length'')
      else
        (let tsIdx = sint (word_of_int i + tsLen) in
         if tsIdx > int (length buf) then Inl (TSMError ''unpackBlock: not enough data for timestamp'')
         else if tsIdx < i then Inl TSMPanic
         else Inr (take (nat (tsIdx - i)) (drop (nat i) buf), drop (nat tsIdx) buf)))"

record 'v tsm_array =
  ta_Timestamps :: "u64 list"
  ta_Values :: "'v list"

text \<open>An encoded block; \<open>None\<close> for no values.\<close>

definition EncodeIntegerArrayBlock :: "u64 tsm_array \<Rightarrow> s8b_error + byte list option" where
  "EncodeIntegerArrayBlock a =
     (if length (ta_Timestamps a) = 0 then Inr None
      else
        case IntegerArrayEncodeAll (ta_Values a) of
          Inl e \<Rightarrow> Inl e
        | Inr vb \<Rightarrow>
            (case TimeArrayEncodeAll (ta_Timestamps a) of
               Inl e \<Rightarrow> Inl e
             | Inr tb \<Rightarrow> Inr (Some (packBlock BlockInteger tb vb))))"

definition EncodeUnsignedArrayBlock :: "u64 tsm_array \<Rightarrow> s8b_error + byte list option" where
  "EncodeUnsignedArrayBlock a =
     (if length (ta_Timestamps a) = 0 then Inr None
      else
        case UnsignedArrayEncodeAll (ta_Values a) of
          Inl e \<Rightarrow> Inl e
        | Inr vb \<Rightarrow>
            (case TimeArrayEncodeAll (ta_Timestamps a) of
               Inl e \<Rightarrow> Inl e
             | Inr tb \<Rightarrow> Inr (Some (packBlock BlockUnsigned tb vb))))"

definition EncodeBooleanArrayBlock :: "bool tsm_array \<Rightarrow> s8b_error + byte list option" where
  "EncodeBooleanArrayBlock a =
     (if length (ta_Timestamps a) = 0 then Inr None
      else
        let vb = BooleanArrayEncodeAll (ta_Values a) [] [] in
        case TimeArrayEncodeAll (ta_Timestamps a) of
          Inl e \<Rightarrow> Inl e
        | Inr tb \<Rightarrow> Inr (Some (packBlock BlockBoolean tb vb)))"

text \<open>The steps that the decoders share: type, timestamps, values.\<close>

definition decode_block :: "byte \<Rightarrow> (byte list \<Rightarrow> tsm_error + 'v list) \<Rightarrow> byte list \<Rightarrow> tsm_error + 'v tsm_array" where
  "decode_block typ decode_values block =
     (case block of
        [] \<Rightarrow> Inl TSMPanic
      | blockType # rest \<Rightarrow>
          if blockType \<noteq> typ then Inl (TSMError ''invalid block type'')
          else
            (case unpackBlock rest of
               Inl e \<Rightarrow> Inl e
             | Inr (tb, vb) \<Rightarrow>
                 (case TimeArrayDecodeAll tb of
                    Inl e \<Rightarrow> Inl e
                  | Inr ts \<Rightarrow>
                      (case decode_values vb of
                         Inl e \<Rightarrow> Inl e
                       | Inr vs \<Rightarrow> Inr \<lparr>ta_Timestamps = ts, ta_Values = vs\<rparr>))))"

definition DecodeIntegerArrayBlock :: "byte list \<Rightarrow> tsm_error + u64 tsm_array" where
  "DecodeIntegerArrayBlock = decode_block BlockInteger IntegerArrayDecodeAll"

definition DecodeUnsignedArrayBlock :: "byte list \<Rightarrow> tsm_error + u64 tsm_array" where
  "DecodeUnsignedArrayBlock = decode_block BlockUnsigned UnsignedArrayDecodeAll"

definition DecodeBooleanArrayBlock :: "byte list \<Rightarrow> tsm_error + bool tsm_array" where
  "DecodeBooleanArrayBlock = decode_block BlockBoolean BooleanArrayDecodeAll"

section \<open>Round trips\<close>

lemma unpackBlock_packBlock:
  assumes "length ts < 2 ^ 62"
  shows "unpackBlock (tl (packBlock typ ts vs)) = Inr (ts, vs)"
proof -
  let ?p = "PutUvarint (of_nat (length ts))"
  have l: "length ?p \<le> 10" by (rule length_PutUvarint)
  have "word_of_int (int (length ?p)) + of_nat (length ts) = (of_nat (length ?p + length ts) :: u64)" by simp
  moreover have "length ?p + length ts < 2 ^ 63" using assms l by simp
  ultimately have s: "sint (word_of_int (int (length ?p)) + of_nat (length ts) :: u64) = int (length ?p + length ts)"
    by (simp only: u64_of_nat(1))
  show ?thesis
    using s by (simp add: unpackBlock_def packBlock_def Uvarint_PutUvarint Let_def nat_add_distrib)
qed

lemma encode_words_length: "encode_words vs = Inr ws \<Longrightarrow> length ws \<le> length vs"
proof (induction vs arbitrary: ws rule: encode_words.induct)
  case (1 vs)
  show ?case
  proof (cases "vs = []")
    case False
    with 1(2) obtain w n ws' where w: "next_word vs = Some (w, n)" "encode_words (drop n vs) = Inr ws'" "ws = w # ws'"
      by (subst (asm) encode_words.simps) (auto split: option.splits sum.splits)
    then have "length ws' \<le> length (drop n vs)" using 1(1) [OF False w(1) refl w(2)] by simp
    moreover have "0 < n" "length vs \<noteq> 0" using next_word_pos [OF w(1)] False by simp_all
    ultimately show ?thesis using w(3) by (simp only: length_Cons length_drop)
  qed (use 1(2) in \<open>simp add: encode_words.simps\<close>)
qed

lemma TimeArrayEncodeAll_length: "TimeArrayEncodeAll src = Inr b \<Longrightarrow> length b \<le> 29 + 8 * length src"
proof (cases "src = []")
  case False
  assume enc: "TimeArrayEncodeAll src = Inr b"
  obtain ds mx where dl: "delta_loop (\<lambda>d. d) (length src - 1) src 0 = (ds, mx)" by fastforce
  have ds: "length ds = length src" using delta_loop_length [of "\<lambda>d. d" "length src - 1" src 0] dl by simp
  have "(\<exists>h x y z. b = h # PutUint64 x @ PutUvarint y @ PutUvarint z) \<or> (\<exists>h. b = h # put_words ds) \<or>
      (\<exists>h x ws vs. b = h # PutUint64 x @ put_words ws \<and> EncodeAll vs = Inr ws \<and> length vs = length ds - 1)"
  proof (cases "length ds > 1 \<and> list_all (\<lambda>d. ds ! 1 = d) (drop 2 ds)")
    case True
    with enc False show ?thesis unfolding TimeArrayEncodeAll_def dl Let_def prod.case by (simp only: if_False if_True simp_thms sum.inject) blast
  next
    case nrle: False
    let ?d = "find_divs (tl ds) (10 ^ 12)"
    let ?vs = "if ?d > 1 then map (\<lambda>v. v div ?d) (tl ds) else tl ds"
    have lvs: "length ?vs = length ds - 1" by simp
    show ?thesis
    proof (cases "mx > MaxValue")
      case True
      with enc False nrle show ?thesis unfolding TimeArrayEncodeAll_def dl Let_def prod.case by (simp only: if_False if_True simp_thms sum.inject) blast
    next
      case nmx: False
      show ?thesis
      proof (cases "EncodeAll ?vs")
        case (Inr ws)
        with enc False nrle nmx have "Inr (time_header timeCompressedPackedSimple ?d # PutUint64 (ds ! 0) @ put_words ws) = (Inr b :: s8b_error + byte list)"
          unfolding TimeArrayEncodeAll_def dl Let_def prod.case by (simp only: if_False sum.case)
        with Inr lvs show ?thesis by blast
      next
        case (Inl e)
        with enc False nrle nmx have "Inl e = (Inr b :: s8b_error + byte list)"
          unfolding TimeArrayEncodeAll_def dl Let_def prod.case by (simp only: if_False sum.case)
        then show ?thesis by simp
      qed
    qed
  qed
  then show ?thesis
  proof (elim disjE exE conjE)
    fix h x y z assume "b = h # PutUint64 x @ PutUvarint y @ PutUvarint z"
    with length_PutUvarint [of y] length_PutUvarint [of z] show ?thesis by simp
  next
    fix h x ws vs assume "b = h # PutUint64 x @ put_words ws" "EncodeAll vs = Inr ws" "length vs = length ds - 1"
    moreover from this have "length ws \<le> length ds" using encode_words_length [of vs ws] by (simp add: EncodeAll_eq)
    ultimately show ?thesis by (simp add: ds)
  qed (simp add: ds)
qed (simp add: TimeArrayEncodeAll_def)

lemma decode_block_packBlock:
  assumes "TimeArrayEncodeAll ts = Inr tb" "decode_values vb = Inr vs" "length ts < 2 ^ 56"
  shows "decode_block ty decode_values (packBlock ty tb vb) = Inr \<lparr>ta_Timestamps = ts, ta_Values = vs\<rparr>"
proof -
  have "length tb < 2 ^ 62" using TimeArrayEncodeAll_length [OF assms(1)] assms(3) by simp
  note u = unpackBlock_packBlock [OF this, of ty vb]
  have "TimeArrayDecodeAll tb = Inr ts" using Time_roundtrip [of ts] assms(1,3) by simp
  then show ?thesis using u assms(2) by (simp add: decode_block_def packBlock_def)
qed

end
