(* ===== verification/TSMProperties.thy ===== *)
theory TSMProperties
  imports TSMArray
begin

text \<open>The properties of the encodings of TSM files.\<close>

section \<open>Encodings\<close>

text \<open>
  (C21) Simple8b never loses a value: \<open>EncodeAll\<close>, working in place, fails exactly when a value
  is \<open>2 ^ 60\<close> or more, and otherwise the bytes of its words decode to the values it was given.
\<close>

theorem simple8b_lossless:
  "case EncodeAll vs of
     Inl e \<Rightarrow> e = ErrValueOutOfBounds \<and> (\<exists>v \<in> set vs. v > MaxValue)
   | Inr ws \<Rightarrow> DecodeAll ws = vs \<and> CountBytes (put_words ws) = Some (length vs) \<and>
       DecodeBytesBigEndian (put_words ws) = Some vs"
proof (cases "EncodeAll vs")
  case (Inl e)
  then have "\<exists>v \<in> set vs. v > MaxValue" using EncodeAll_total [of vs] by (auto simp: not_le)
  with Inl show ?thesis by (cases e) simp
next
  case (Inr ws)
  with EncodeAll_DecodeAll EncodeAll_bytes show ?thesis by simp
qed

text \<open>
  (C19) A block of integers or of unsigned integers with their timestamps is encoded without
  error, whatever the values and whether or not the timestamps are in order, and decodes to
  what it was made from.
\<close>

theorem integer_block_roundtrip:
  assumes "length (ta_Values a) = length (ta_Timestamps a)" "ta_Timestamps a \<noteq> []" "length (ta_Timestamps a) < 2 ^ 56"
  shows "(\<exists>b. EncodeIntegerArrayBlock a = Inr (Some b) \<and> DecodeIntegerArrayBlock b = Inr a) \<and>
    (\<exists>b. EncodeUnsignedArrayBlock a = Inr (Some b) \<and> DecodeUnsignedArrayBlock b = Inr a)"
proof -
  obtain tb where tb: "TimeArrayEncodeAll (ta_Timestamps a) = Inr tb"
    using Time_roundtrip [of "ta_Timestamps a"] assms(3) by auto
  obtain vb where vb: "IntegerArrayEncodeAll (ta_Values a) = Inr vb" "IntegerArrayDecodeAll vb = Inr (ta_Values a)"
    using Integer_roundtrip [of "ta_Values a"] assms by auto
  have "\<lparr>ta_Timestamps = ta_Timestamps a, ta_Values = ta_Values a\<rparr> = a" by simp
  with tb vb assms(2,3) decode_block_packBlock [OF tb, of _ vb "ta_Values a"] show ?thesis
    by (simp add: EncodeIntegerArrayBlock_def DecodeIntegerArrayBlock_def EncodeUnsignedArrayBlock_def
        DecodeUnsignedArrayBlock_def UnsignedArrayEncodeAll_def UnsignedArrayDecodeAll_def)
qed

theorem integer_block_roundtrip_witness:
  "\<exists>b. EncodeIntegerArrayBlock \<lparr>ta_Timestamps = [10, 20, 5], ta_Values = [1, - 1, 7]\<rparr> = Inr (Some b) \<and>
    DecodeIntegerArrayBlock b = Inr \<lparr>ta_Timestamps = [10, 20, 5], ta_Values = [1, - 1, 7]\<rparr>"
  using integer_block_roundtrip [of "\<lparr>ta_Timestamps = [10, 20, 5], ta_Values = [1, - 1, 7]\<rparr>"] by simp

text \<open>
  (C20) Booleans survive encoding and decoding, whatever the buffer that the encoder was given
  held before, and so does a whole block of them.
\<close>

theorem boolean_block_roundtrip:
  assumes "length (ta_Values a) = length (ta_Timestamps a)" "ta_Timestamps a \<noteq> []" "length (ta_Timestamps a) < 2 ^ 56"
  shows "BooleanArrayDecodeAll (BooleanArrayEncodeAll (ta_Values a) b0 spare) = Inr (ta_Values a) \<and>
    (\<exists>b. EncodeBooleanArrayBlock a = Inr (Some b) \<and> DecodeBooleanArrayBlock b = Inr a)"
proof -
  obtain tb where tb: "TimeArrayEncodeAll (ta_Timestamps a) = Inr tb"
    using Time_roundtrip [of "ta_Timestamps a"] assms(3) by auto
  have l: "length (ta_Values a) < 2 ^ 56" using assms(1,3) by simp
  have "\<lparr>ta_Timestamps = ta_Timestamps a, ta_Values = ta_Values a\<rparr> = a" by simp
  with tb assms(2) decode_block_packBlock [OF tb _ assms(3), of BooleanArrayDecodeAll _ "ta_Values a"] Boolean_roundtrip [OF l] show ?thesis
    by (simp add: EncodeBooleanArrayBlock_def DecodeBooleanArrayBlock_def Let_def)
qed

theorem boolean_block_roundtrip_witness:
  "BooleanArrayDecodeAll (BooleanArrayEncodeAll [True, False, True] [255, 255] [255]) = Inr [True, False, True]"
  using boolean_block_roundtrip [of "\<lparr>ta_Timestamps = [10, 20, 5], ta_Values = [True, False, True]\<rparr>"] by simp

end
