(* ===== verification/TSMValues.thy ===== *)
theory TSMValues
  imports Prelude
begin

text \<open>
  Slices of values with their timestamps (\<open>tsdb/engine/tsm1/encoding.go\<close>, \<open>encoding.gen.go\<close>):
  removing duplicates, finding and cutting out ranges of time, merging.  Timestamps are only
  compared, so an \<open>int64\<close> is an integer here.  A slice stands for a finite map from timestamps
  to values, in which a later element replaces an earlier one.
\<close>

section \<open>Values\<close>

text \<open>Floats are their bits.\<close>

datatype Value =
    FloatValue int u64
  | IntegerValue int u64
  | UnsignedValue int u64
  | BooleanValue int bool
  | StringValue int string
  | EmptyValue

definition MinInt64 :: int where "MinInt64 = - (2 ^ 63)"
definition MaxInt64 :: int where "MaxInt64 = 2 ^ 63 - 1"

fun val_UnixNano :: "Value \<Rightarrow> int" where
  "val_UnixNano (FloatValue t v) = t"
| "val_UnixNano (IntegerValue t v) = t"
| "val_UnixNano (UnsignedValue t v) = t"
| "val_UnixNano (BooleanValue t v) = t"
| "val_UnixNano (StringValue t v) = t"
| "val_UnixNano EmptyValue = MinInt64"

fun val_Size :: "Value \<Rightarrow> nat" where
  "val_Size (FloatValue t v) = 16"
| "val_Size (IntegerValue t v) = 16"
| "val_Size (UnsignedValue t v) = 16"
| "val_Size (BooleanValue t v) = 9"
| "val_Size (StringValue t v) = 8 + length v"
| "val_Size EmptyValue = 0"

definition values_Size :: "Value list \<Rightarrow> nat" where
  "values_Size a = sum_list (map val_Size a)"

section \<open>Duplicates\<close>

fun need_sort :: "Value list \<Rightarrow> bool" where
  "need_sort (x # y # a) = (if val_UnixNano x \<ge> val_UnixNano y then True else need_sort (y # a))"
| "need_sort a = False"

text \<open>The loop over the sorted slice, in place: \<open>i\<close> is the last index kept, \<open>j\<close> the next to look at.\<close>

function dedup_loop :: "nat \<Rightarrow> nat \<Rightarrow> Value list \<Rightarrow> Value list" where
  "dedup_loop i j a =
     (if j < length a then
        (let v = a ! j;
             i' = (if val_UnixNano v \<noteq> val_UnixNano (a ! i) then i + 1 else i)
         in dedup_loop i' (j + 1) (a[i' := v]))
      else take (i + 1) a)"
  by auto
termination
  by (relation "measure (\<lambda>(i, j, a). length a - j)") auto

declare dedup_loop.simps [simp del]

text \<open>\<open>sort.Stable\<close> is the stable sort of the library.\<close>

definition Deduplicate :: "Value list \<Rightarrow> Value list" where
  "Deduplicate a =
     (if length a \<le> 1 then a
      else if \<not> need_sort a then a
      else dedup_loop 0 1 (sort_key val_UnixNano a))"

section \<open>Ranges\<close>

function search_loop :: "Value list \<Rightarrow> int \<Rightarrow> nat \<Rightarrow> nat \<Rightarrow> nat" where
  "search_loop a v lo hi =
     (if lo < hi then
        (let mid = (lo + hi) div 2 in
         if val_UnixNano (a ! mid) < v then search_loop a v (mid + 1) hi else search_loop a v lo mid)
      else lo)"
  by auto
termination
  by (relation "measure (\<lambda>(a, v, lo, hi). hi - lo)") auto

declare search_loop.simps [simp del]

definition val_search :: "Value list \<Rightarrow> int \<Rightarrow> nat" where
  "val_search a v = search_loop a v 0 (length a)"

definition FindRange :: "Value list \<Rightarrow> int \<Rightarrow> int \<Rightarrow> int \<times> int" where
  "FindRange a mn mx =
     (if a = [] \<or> mn > mx then (- 1, - 1)
      else
        let minVal = val_UnixNano (hd a);
            maxVal = val_UnixNano (last a)
        in if maxVal < mn \<or> minVal > mx then (- 1, - 1)
           else (int (val_search a mn), int (val_search a mx)))"

definition Exclude :: "Value list \<Rightarrow> int \<Rightarrow> int \<Rightarrow> Value list" where
  "Exclude a mn mx =
     (let (rmin, rmax0) = FindRange a mn mx in
      if rmin = - 1 \<and> rmax0 = - 1 then a
      else if rmax0 < int (length a) then
        (let rmax = (if val_UnixNano (a ! nat rmax0) = mx then rmax0 + 1 else rmax0);
             rest = int (length a) - rmax
         in if rest > 0 then take (nat rmin) a @ drop (nat rmax) a
            else take (nat rmin) a)
      else take (nat rmin) a)"

definition Include :: "Value list \<Rightarrow> int \<Rightarrow> int \<Rightarrow> Value list" where
  "Include a mn mx =
     (let (rmin, rmax0) = FindRange a mn mx in
      if rmin = - 1 \<and> rmax0 = - 1 then []
      else
        let rmax = (if rmax0 < int (length a) \<and> val_UnixNano (a ! nat rmax0) = mx then rmax0 + 1 else rmax0)
        in if rmin > - 1 then take (nat (rmax - rmin)) (drop (nat rmin) a)
           else take (nat rmax) a)"

section \<open>Merging\<close>

fun merge_loop :: "Value list \<Rightarrow> Value list \<Rightarrow> Value list" where
  "merge_loop [] b = b"
| "merge_loop a [] = a"
| "merge_loop (x # a) (y # b) =
     (if val_UnixNano x < val_UnixNano y then x # merge_loop a (y # b)
      else if val_UnixNano x = val_UnixNano y then merge_loop a (y # b)
      else y # merge_loop (x # a) b)"

definition Merge :: "Value list \<Rightarrow> Value list \<Rightarrow> Value list" where
  "Merge a0 b0 =
     (if a0 = [] then b0
      else if b0 = [] then a0
      else
        let a = Deduplicate a0;
            b = Deduplicate b0
        in if val_UnixNano (last a) < val_UnixNano (hd b) then a @ b
           else if val_UnixNano (last b) < val_UnixNano (hd a) then b @ a
           else merge_loop a b)"

section \<open>The map of a slice\<close>

definition vmap :: "Value list \<Rightarrow> int \<Rightarrow> Value option" where
  "vmap a = map_of (rev (map (\<lambda>v. (val_UnixNano v, v)) a))"

abbreviation ordered :: "Value list \<Rightarrow> bool" where
  "ordered a \<equiv> sorted_wrt (\<lambda>x y. val_UnixNano x < val_UnixNano y) a"

lemma vmap_Nil [simp]: "vmap [] = Map.empty"
  by (simp add: vmap_def)

lemma vmap_append: "vmap (a @ b) = vmap a ++ vmap b"
  by (simp add: vmap_def)

lemma vmap_Cons: "vmap (v # a) = [val_UnixNano v \<mapsto> v] ++ vmap a"
  by (simp add: vmap_def)

lemma vmap_snoc: "vmap (a @ [v]) = (vmap a)(val_UnixNano v \<mapsto> v)"
  by (simp add: vmap_def)

lemma dom_vmap: "dom (vmap a) = val_UnixNano ` set a"
  by (auto simp: vmap_def dom_map_of_conv_image_fst image_image)

lemma vmap_UnixNano: "vmap a t = Some v \<Longrightarrow> v \<in> set a \<and> val_UnixNano v = t"
  by (auto simp: vmap_def dest!: map_of_SomeD)

lemma vmap_None: "(\<And>v. v \<in> set a \<Longrightarrow> val_UnixNano v \<noteq> t) \<Longrightarrow> vmap a t = None"
  using vmap_UnixNano [of a t] by (cases "vmap a t") auto

lemma vmap_ordered: "ordered a \<Longrightarrow> v \<in> set a \<Longrightarrow> vmap a (val_UnixNano v) = Some v"
proof (induction a rule: rev_induct)
  case (snoc x a)
  then show ?case by (auto simp: vmap_snoc sorted_wrt_append)
qed simp

lemma ordered_distinct: "ordered a \<Longrightarrow> distinct (map val_UnixNano a) \<and> sorted (map val_UnixNano a)"
  by (induction a) (auto simp: less_imp_le)

text \<open>A slice in order is determined by its map.\<close>

lemma ordered_vmap_unique:
  assumes "ordered a" "ordered b" "vmap a = vmap b"
  shows "a = b"
proof -
  have "set a = ran (vmap a)" "set b = ran (vmap b)"
    using assms(1,2) vmap_ordered vmap_UnixNano by (fastforce simp: ran_def)+
  then have s: "set a = set b" using assms(3) by simp
  have "val_UnixNano ` set a = val_UnixNano ` set b" using s by simp
  then have "map val_UnixNano a = map val_UnixNano b"
    using ordered_distinct [OF assms(1)] ordered_distinct [OF assms(2)] by (intro sorted_distinct_set_unique) simp_all
  moreover have "inj_on val_UnixNano (set a \<union> set b)"
    using s vmap_ordered [OF assms(1)] by (metis Un_absorb inj_onI option.inject)
  ultimately show ?thesis by (rule map_inj_on)
qed

lemma need_sort_iff: "need_sort a \<longleftrightarrow> \<not> ordered a"
proof -
  have tr: "transp (\<lambda>x y. val_UnixNano x < val_UnixNano y)" by (auto intro: transpI)
  show ?thesis
    by (induction a rule: need_sort.induct) (auto simp: sorted_wrt2 [OF tr] sorted_wrt1 simp del: sorted_wrt.simps(2))
qed

subsection \<open>Duplicates\<close>

lemma vmap_update:
  assumes "i + 1 = length p" "val_UnixNano (p ! i) = val_UnixNano v"
  shows "vmap (p[i := v]) = (vmap p)(val_UnixNano v \<mapsto> v)"
proof -
  obtain q x where p: "p = q @ [x]" using assms(1) by (cases p rule: rev_cases) auto
  then have "i = length q" using assms(1) by simp
  then show ?thesis using assms(2) by (simp add: p vmap_snoc)
qed

text \<open>While the loop runs, the slice up to \<open>i\<close> is in order, and with the rest it has the same map.\<close>

lemma dedup_loop_inv:
  assumes "i < j" "j \<le> length a" "ordered (take (i + 1) a)" "sorted (map val_UnixNano (a ! i # drop j a))"
  shows "ordered (dedup_loop i j a) \<and> vmap (dedup_loop i j a) = vmap (take (i + 1) a @ drop j a)"
  using assms
proof (induction i j a rule: dedup_loop.induct)
  case (1 i j a)
  show ?case
  proof (cases "j < length a")
    case False
    then have "dedup_loop i j a = take (i + 1) a" by (subst dedup_loop.simps) simp
    then show ?thesis using False "1.prems"(3) by simp
  next
    case True
    define v where "v = a ! j"
    define i' where "i' = (if val_UnixNano v \<noteq> val_UnixNano (a ! i) then i + 1 else i)"
    have step: "dedup_loop i j a = dedup_loop i' (j + 1) (a[i' := v])"
      using True by (subst dedup_loop.simps) (simp add: v_def i'_def Let_def)
    have i': "i' < j + 1" "i' \<le> j" using "1.prems"(1) by (auto simp: i'_def)
    have d: "drop j a = v # drop (j + 1) a" using True by (simp add: v_def Cons_nth_drop_Suc)
    have le: "val_UnixNano (a ! i) \<le> val_UnixNano v"
      and srt: "sorted (map val_UnixNano (v # drop (j + 1) a))"
      using "1.prems"(4) by (simp_all add: d)
    have il: "i < length a" using "1.prems"(1) True by simp
    have ta: "take (i + 1) a = take i a @ [a ! i]" using il by (simp add: take_Suc_conv_app_nth)
    have oi: "ordered (take i a)" "\<forall>x\<in>set (take i a). val_UnixNano x < val_UnixNano (a ! i)"
      using "1.prems"(3) unfolding ta by (auto simp: sorted_wrt_append)
    have tk: "take (i' + 1) (a[i' := v]) =
       (if val_UnixNano v \<noteq> val_UnixNano (a ! i) then take (i + 1) a @ [v] else take i a @ [v])"
      using il True "1.prems"(1) by (auto simp: i'_def take_Suc_conv_app_nth)
    have ordt: "ordered (take (i' + 1) (a[i' := v]))"
      unfolding tk ta using oi le by (auto simp: sorted_wrt_append intro: less_trans)
    have dr: "drop (j + 1) (a[i' := v]) = drop (j + 1) a" using i' by simp
    have nt: "a[i' := v] ! i' = v" using i' True by simp
    have "ordered (dedup_loop i' (j + 1) (a[i' := v])) \<and>
      vmap (dedup_loop i' (j + 1) (a[i' := v])) = vmap (take (i' + 1) (a[i' := v]) @ drop (j + 1) (a[i' := v]))"
      using "1.IH" [OF True v_def i'_def] i' ordt srt True by (simp add: dr nt)
    moreover have "vmap (take (i' + 1) (a[i' := v]) @ drop (j + 1) (a[i' := v])) = vmap (take (i + 1) a @ drop j a)"
      unfolding tk dr d ta by (auto simp: vmap_append vmap_snoc vmap_Cons)
    ultimately show ?thesis by (simp add: step)
  qed
qed

lemma map_of_rev_sort_key:
  "vmap (sort_key val_UnixNano a) = vmap a"
proof
  fix t
  have f: "vmap b t = (case rev (filter (\<lambda>v. val_UnixNano v = t) b) of [] \<Rightarrow> None | v # vs \<Rightarrow> Some v)" for b
    by (induction b rule: rev_induct) (auto simp: vmap_snoc)
  show "vmap (sort_key val_UnixNano a) t = vmap a t"
    unfolding f by (simp add: sort_key_stable)
qed

lemma Deduplicate_ordered: "ordered (Deduplicate a)"
  and Deduplicate_vmap: "vmap (Deduplicate a) = vmap a"
proof -
  have *: "ordered (Deduplicate a) \<and> vmap (Deduplicate a) = vmap a"
  proof (cases "length a \<le> 1")
    case True
    then have "ordered a" by (cases a rule: list.exhaust; cases "tl a") auto
    then show ?thesis using True by (simp add: Deduplicate_def)
  next
    case False
    define s where "s = sort_key val_UnixNano a"
    have len: "length s = length a" by (simp add: s_def)
    then obtain x b where s: "s = x # b" using False by (cases s) auto
    have srt: "sorted (map val_UnixNano s)" by (simp add: s_def)
    have "ordered (dedup_loop 0 1 s) \<and> vmap (dedup_loop 0 1 s) = vmap (take (0 + 1) s @ drop 1 s)"
      using len False srt by (intro dedup_loop_inv) (simp_all add: s)
    then show ?thesis
      using False by (auto simp: Deduplicate_def need_sort_iff s map_of_rev_sort_key s_def [symmetric])
        (simp add: s_def map_of_rev_sort_key flip: s)
  qed
  show "ordered (Deduplicate a)" using * by simp
  show "vmap (Deduplicate a) = vmap a" using * by simp
qed

lemma Deduplicate_id: "ordered a \<Longrightarrow> Deduplicate a = a"
  by (simp add: Deduplicate_def need_sort_iff)

lemma Deduplicate_unique: "ordered b \<Longrightarrow> vmap b = vmap a \<Longrightarrow> Deduplicate a = b"
  using ordered_vmap_unique [OF Deduplicate_ordered] Deduplicate_vmap by metis

lemma set_Deduplicate: "set (Deduplicate a) \<subseteq> set a"
  using vmap_ordered [OF Deduplicate_ordered [of a]] vmap_UnixNano by (fastforce simp: Deduplicate_vmap)

lemma Deduplicate_Nil [simp]: "Deduplicate [] = []"
  by (simp add: Deduplicate_def)

lemma Deduplicate_eq_Nil [simp]: "Deduplicate a = [] \<longleftrightarrow> a = []"
proof -
  have "Deduplicate a = [] \<Longrightarrow> val_UnixNano ` set a = {}"
    using dom_vmap [of a] by (simp add: Deduplicate_vmap [of a, symmetric])
  then show ?thesis by auto
qed

subsection \<open>Ranges\<close>

lemma ordered_nth: "ordered a \<Longrightarrow> i < j \<Longrightarrow> j < length a \<Longrightarrow> val_UnixNano (a ! i) < val_UnixNano (a ! j)"
  by (rule sorted_wrt_nth_less)

lemma ordered_nth_le: "ordered a \<Longrightarrow> i \<le> j \<Longrightarrow> j < length a \<Longrightarrow> val_UnixNano (a ! i) \<le> val_UnixNano (a ! j)"
  using ordered_nth [of a i j] by (cases "i = j") auto

lemma search_loop_spec:
  assumes "ordered a" "lo \<le> hi" "hi \<le> length a"
    "\<forall>x\<in>set (take lo a). val_UnixNano x < v" "\<forall>x\<in>set (drop hi a). v \<le> val_UnixNano x"
  shows "search_loop a v lo hi \<le> length a
    \<and> (\<forall>x\<in>set (take (search_loop a v lo hi) a). val_UnixNano x < v)
    \<and> (\<forall>x\<in>set (drop (search_loop a v lo hi) a). v \<le> val_UnixNano x)"
  using assms
proof (induction a v lo hi rule: search_loop.induct)
  case (1 a v lo hi)
  show ?case
  proof (cases "lo < hi")
    case False
    then have "search_loop a v lo hi = lo" by (subst search_loop.simps) simp
    moreover have "lo = hi" using False "1.prems"(2) by simp
    ultimately show ?thesis using "1.prems" by simp
  next
    case True
    define mid where "mid = (lo + hi) div 2"
    have m: "lo \<le> mid" "mid < hi" "mid < length a" using True "1.prems"(3) by (auto simp: mid_def)
    show ?thesis
    proof (cases "val_UnixNano (a ! mid) < v")
      case lt: True
      have "\<forall>x\<in>set (take (mid + 1) a). val_UnixNano x < v"
      proof
        fix x assume "x \<in> set (take (mid + 1) a)"
        then obtain k where "k < length (take (mid + 1) a)" "x = take (mid + 1) a ! k" by (auto simp: in_set_conv_nth)
          then have "k \<le> mid" "x = a ! k" using m(3) by simp_all
        then show "val_UnixNano x < v" using ordered_nth_le [OF "1.prems"(1), of k mid] m(3) lt by simp
      qed
      then have "search_loop a v (mid + 1) hi \<le> length a
        \<and> (\<forall>x\<in>set (take (search_loop a v (mid + 1) hi) a). val_UnixNano x < v)
        \<and> (\<forall>x\<in>set (drop (search_loop a v (mid + 1) hi) a). v \<le> val_UnixNano x)"
        using m by (intro "1.IH"(1) [OF True mid_def lt "1.prems"(1) _ "1.prems"(3) _ "1.prems"(5)]) simp_all
      moreover have "search_loop a v lo hi = search_loop a v (mid + 1) hi"
        using True lt by (subst search_loop.simps) (simp add: mid_def [symmetric] Let_def)
      ultimately show ?thesis by simp
    next
      case ge: False
      have "\<forall>x\<in>set (drop mid a). v \<le> val_UnixNano x"
      proof
        fix x assume "x \<in> set (drop mid a)"
        then obtain k where "k < length (drop mid a)" "x = drop mid a ! k" by (auto simp: in_set_conv_nth)
          then have "mid + k < length a" "x = a ! (mid + k)" by simp_all
        then show "v \<le> val_UnixNano x" using ordered_nth_le [OF "1.prems"(1), of mid "mid + k"] ge by simp
      qed
      then have "search_loop a v lo mid \<le> length a
        \<and> (\<forall>x\<in>set (take (search_loop a v lo mid) a). val_UnixNano x < v)
        \<and> (\<forall>x\<in>set (drop (search_loop a v lo mid) a). v \<le> val_UnixNano x)"
        using m by (intro "1.IH"(2) [OF True mid_def ge "1.prems"(1) _ _ "1.prems"(4)]) simp_all
      moreover have "search_loop a v lo hi = search_loop a v lo mid"
        using True ge by (subst search_loop.simps) (simp add: mid_def [symmetric] Let_def)
      ultimately show ?thesis by simp
    qed
  qed
qed

lemma val_search_spec:
  assumes "ordered a"
  shows "val_search a v \<le> length a"
    "\<forall>x\<in>set (take (val_search a v) a). val_UnixNano x < v"
    "\<forall>x\<in>set (drop (val_search a v) a). v \<le> val_UnixNano x"
  using search_loop_spec [OF assms, of 0 "length a" v] by (simp_all add: val_search_def)

text \<open>The binary search splits a slice in order where a filter would.\<close>

lemma filter_split:
  assumes "a = p @ s" "\<forall>x\<in>set p. P x" "\<forall>x\<in>set s. \<not> P x"
  shows "filter P a = p"
  using assms by (simp add: filter_id_conv)

lemma take_search:
  assumes "ordered a"
  shows "take (val_search a v) a = filter (\<lambda>x. val_UnixNano x < v) a"
    "drop (val_search a v) a = filter (\<lambda>x. v \<le> val_UnixNano x) a"
proof -
  let ?n = "val_search a v"
  have p: "\<forall>x\<in>set (take ?n a). val_UnixNano x < v" and s: "\<forall>x\<in>set (drop ?n a). \<not> val_UnixNano x < v"
    using val_search_spec [OF assms, of v] by auto
  have "filter (\<lambda>x. val_UnixNano x < v) (take ?n a @ drop ?n a) = take ?n a"
    by (rule filter_split [OF refl p s])
  then show "take ?n a = filter (\<lambda>x. val_UnixNano x < v) a" by simp
  have "filter (\<lambda>x. v \<le> val_UnixNano x) (take ?n a @ drop ?n a) = drop ?n a"
    using p s unfolding filter_append by (simp add: filter_id_conv filter_empty_conv not_le not_less)
  then show "drop ?n a = filter (\<lambda>x. v \<le> val_UnixNano x) a" by simp
qed

text \<open>The same, with the element at the bound itself included.\<close>

definition search_incl :: "Value list \<Rightarrow> int \<Rightarrow> nat" where
  "search_incl a v = (let n = val_search a v in if n < length a \<and> val_UnixNano (a ! n) = v then n + 1 else n)"

lemma take_search_incl:
  assumes "ordered a"
  shows "take (search_incl a v) a = filter (\<lambda>x. val_UnixNano x \<le> v) a"
    "drop (search_incl a v) a = filter (\<lambda>x. v < val_UnixNano x) a" "search_incl a v \<le> length a"
proof -
  let ?n = "val_search a v" and ?m = "search_incl a v"
  show le: "?m \<le> length a" using val_search_spec(1) [OF assms, of v] by (simp add: search_incl_def Let_def)
  have p: "\<forall>x\<in>set (take ?m a). val_UnixNano x \<le> v"
    using val_search_spec(2) [OF assms, of v] by (auto simp: search_incl_def Let_def take_Suc_conv_app_nth)
  have s: "\<forall>x\<in>set (drop ?m a). \<not> val_UnixNano x \<le> v"
  proof
    fix x assume "x \<in> set (drop ?m a)"
    then obtain k where "k < length (drop ?m a)" "x = drop ?m a ! k" by (auto simp: in_set_conv_nth)
    then have k: "?m + k < length a" "x = a ! (?m + k)" by simp_all
    have n: "?n < length a" using k(1) by (auto simp: search_incl_def Let_def split: if_splits)
    then have "v \<le> val_UnixNano (a ! ?n)"
      using val_search_spec(3) [OF assms, of v] by (simp flip: Cons_nth_drop_Suc)
    show "\<not> val_UnixNano x \<le> v"
    proof (cases "val_UnixNano (a ! ?n) = v")
      case True
      then have "?m = ?n + 1" using n by (simp add: search_incl_def)
      then show ?thesis using ordered_nth [OF assms, of ?n "?m + k"] k True by simp
    next
      case False
      then have "?m = ?n" by (simp add: search_incl_def)
      then show ?thesis
        using ordered_nth_le [OF assms, of ?n "?m + k"] k False \<open>v \<le> val_UnixNano (a ! ?n)\<close> by simp
    qed
  qed
  have "filter (\<lambda>x. val_UnixNano x \<le> v) (take ?m a @ drop ?m a) = take ?m a"
    by (rule filter_split [OF refl p s])
  then show "take ?m a = filter (\<lambda>x. val_UnixNano x \<le> v) a" by simp
  have "filter (\<lambda>x. v < val_UnixNano x) (take ?m a @ drop ?m a) = drop ?m a"
    using p s unfolding filter_append by (simp add: filter_id_conv filter_empty_conv not_le not_less)
  then show "drop ?m a = filter (\<lambda>x. v < val_UnixNano x) a" by simp
qed

lemma FindRange_spec:
  assumes "ordered a"
  shows "FindRange a mn mx =
    (if mn \<le> mx \<and> filter (\<lambda>x. mn \<le> val_UnixNano x) a \<noteq> [] \<and> filter (\<lambda>x. val_UnixNano x \<le> mx) a \<noteq> []
     then (int (val_search a mn), int (val_search a mx)) else (- 1, - 1))"
proof (cases "a = []")
  case False
  have h: "val_UnixNano (hd a) \<le> val_UnixNano x" if "x \<in> set a" for x
    using ordered_nth_le [OF assms, of 0] that False by (auto simp: in_set_conv_nth hd_conv_nth)
  have l: "val_UnixNano x \<le> val_UnixNano (last a)" if "x \<in> set a" for x
    using ordered_nth_le [OF assms, of _ "length a - 1"] that False by (auto simp: in_set_conv_nth last_conv_nth)
  have "filter (\<lambda>x. mn \<le> val_UnixNano x) a = [] \<longleftrightarrow> val_UnixNano (last a) < mn"
    using l last_in_set [OF False] by (force simp: filter_empty_conv not_le)
  moreover have "filter (\<lambda>x. val_UnixNano x \<le> mx) a = [] \<longleftrightarrow> mx < val_UnixNano (hd a)"
    using h hd_in_set [OF False] by (force simp: filter_empty_conv not_le)
  ultimately show ?thesis using False by (simp add: FindRange_def Let_def)
qed (simp add: FindRange_def)

text \<open>On a slice in order the two cuts are filters.\<close>

lemma Include_filter:
  assumes "ordered a"
  shows "Include a mn mx = filter (\<lambda>v. mn \<le> val_UnixNano v \<and> val_UnixNano v \<le> mx) a"
proof (cases "mn \<le> mx \<and> filter (\<lambda>x. mn \<le> val_UnixNano x) a \<noteq> [] \<and> filter (\<lambda>x. val_UnixNano x \<le> mx) a \<noteq> []")
  case True
  have "Include a mn mx = take (search_incl a mx - val_search a mn) (drop (val_search a mn) a)"
    using True by (auto simp: Include_def FindRange_spec [OF assms] search_incl_def Let_def nat_diff_distrib' nat_add_distrib)
  also have "\<dots> = drop (val_search a mn) (take (search_incl a mx) a)" by (simp add: drop_take)
  also have "\<dots> = drop (val_search a mn) (filter (\<lambda>x. val_UnixNano x \<le> mx) a)"
    by (simp add: take_search_incl [OF assms])
  also have "filter (\<lambda>x. val_UnixNano x \<le> mx) a
    = filter (\<lambda>x. val_UnixNano x \<le> mx) (take (val_search a mn) a) @ filter (\<lambda>x. val_UnixNano x \<le> mx) (drop (val_search a mn) a)"
    by (simp flip: filter_append)
  also have "filter (\<lambda>x. val_UnixNano x \<le> mx) (take (val_search a mn) a) = take (val_search a mn) a"
    using val_search_spec(2) [OF assms, of mn] True by (force simp: filter_id_conv)
  finally show ?thesis
    using val_search_spec(1) [OF assms, of mn]
    by (simp add: take_search(2) [OF assms] conj_commute)
next
  case False
  then have "Include a mn mx = []" by (auto simp: Include_def FindRange_spec [OF assms])
  moreover have "filter (\<lambda>v. mn \<le> val_UnixNano v \<and> val_UnixNano v \<le> mx) a = []"
    using False by (force simp: filter_empty_conv)
  ultimately show ?thesis by simp
qed

lemma Exclude_filter:
  assumes "ordered a"
  shows "Exclude a mn mx = filter (\<lambda>v. \<not> (mn \<le> val_UnixNano v \<and> val_UnixNano v \<le> mx)) a"
proof (cases "mn \<le> mx \<and> filter (\<lambda>x. mn \<le> val_UnixNano x) a \<noteq> [] \<and> filter (\<lambda>x. val_UnixNano x \<le> mx) a \<noteq> []")
  case True
  have le: "val_search a mx \<le> length a" by (rule val_search_spec(1) [OF assms])
  have "Exclude a mn mx = take (val_search a mn) a @ drop (search_incl a mx) a"
    using True le
    by (auto simp: Exclude_def FindRange_spec [OF assms] search_incl_def Let_def nat_add_distrib)
  also have "\<dots> = filter (\<lambda>x. val_UnixNano x < mn) a @ filter (\<lambda>x. mx < val_UnixNano x) a"
    by (simp add: take_search [OF assms] take_search_incl [OF assms])
  also have "\<dots> = filter (\<lambda>v. \<not> (mn \<le> val_UnixNano v \<and> val_UnixNano v \<le> mx)) a"
    using assms True [THEN conjunct1]
  proof (induction a)
    case (Cons x a)
    have "val_UnixNano x < mn \<or> filter (\<lambda>x. val_UnixNano x < mn) a = [] "
      using Cons.prems by (auto simp: filter_empty_conv)
    then show ?case using Cons by (auto simp: not_le filter_empty_conv)
  qed simp
  finally show ?thesis .
next
  case False
  then have "Exclude a mn mx = a" by (auto simp: Exclude_def FindRange_spec [OF assms])
  moreover have "filter (\<lambda>v. \<not> (mn \<le> val_UnixNano v \<and> val_UnixNano v \<le> mx)) a = a"
    using False by (force simp: filter_id_conv filter_empty_conv)
  ultimately show ?thesis by simp
qed

lemma vmap_filter_ordered:
  assumes "ordered a"
  shows "vmap (filter (\<lambda>v. P (val_UnixNano v)) a) = vmap a |` {t. P t}"
proof
  fix t
  show "vmap (filter (\<lambda>v. P (val_UnixNano v)) a) t = (vmap a |` {t. P t}) t"
    by (induction a rule: rev_induct) (auto simp: vmap_snoc restrict_map_def)
qed

subsection \<open>Merging\<close>

lemma merge_loop_spec:
  assumes "ordered a" "ordered b"
  shows "ordered (merge_loop a b) \<and> vmap (merge_loop a b) = vmap a ++ vmap b \<and> set (merge_loop a b) \<subseteq> set a \<union> set b"
  using assms
proof (induction a b rule: merge_loop.induct)
  case (3 x a y b)
  have nx: "vmap (y # b) t = None" if "t \<le> val_UnixNano x" "val_UnixNano x < val_UnixNano y" for t
    using that "3.prems"(2) by (intro vmap_None) auto
  have ny: "vmap (x # a) t = None" if "t \<le> val_UnixNano y" "val_UnixNano y < val_UnixNano x" for t
    using that "3.prems"(1) by (intro vmap_None) auto
  consider "val_UnixNano x < val_UnixNano y" | "val_UnixNano x = val_UnixNano y" | "val_UnixNano y < val_UnixNano x"
    by linarith
  then show ?case
  proof cases
    case 1
    then have ih: "ordered (merge_loop a (y # b))" "vmap (merge_loop a (y # b)) = vmap a ++ vmap (y # b)"
      "set (merge_loop a (y # b)) \<subseteq> set a \<union> set (y # b)"
      using "3.IH"(1) "3.prems" by auto
    have "val_UnixNano x < val_UnixNano z" if "z \<in> set (merge_loop a (y # b))" for z
      using that ih(3) 1 "3.prems" by (force intro: less_trans)
    then show ?thesis using 1 ih by (auto simp: vmap_Cons)
  next
    case 2
    then have "vmap (x # a) ++ vmap (y # b) = vmap a ++ vmap (y # b)"
      by (auto simp: vmap_Cons fun_eq_iff map_add_def split: option.splits)
    then show ?thesis using "3.IH"(2) "3.prems" 2 by auto
  next
    case 3
    have "vmap (x # a) ++ vmap (y # b) = [val_UnixNano y \<mapsto> y] ++ (vmap (x # a) ++ vmap b)"
      using ny 3 by (auto simp: vmap_Cons [of y] fun_eq_iff map_add_def split: option.splits)
    moreover have ih: "ordered (merge_loop (x # a) b)" "vmap (merge_loop (x # a) b) = vmap (x # a) ++ vmap b"
      "set (merge_loop (x # a) b) \<subseteq> set (x # a) \<union> set b"
      using "3.IH"(3) "3.prems" 3 by auto
    moreover have "val_UnixNano y < val_UnixNano z" if "z \<in> set (merge_loop (x # a) b)" for z
      using that ih(3) 3 "3.prems" by (force intro: less_trans)
    ultimately show ?thesis using 3 by (auto simp: vmap_Cons [of y])
  qed
qed auto

lemma vmap_disjoint_swap:
  assumes "\<forall>x\<in>set a. \<forall>y\<in>set b. val_UnixNano x \<noteq> val_UnixNano y"
  shows "vmap (b @ a) = vmap a ++ vmap b"
  unfolding vmap_append by (rule map_add_comm) (use assms in \<open>force simp: dom_vmap\<close>)

lemma Merge_vmap: "vmap (Merge a b) = vmap a ++ vmap b"
  and Merge_set: "set (Merge a b) \<subseteq> set a \<union> set b"
  and Merge_ordered: "(a = [] \<longrightarrow> ordered b) \<Longrightarrow> (b = [] \<longrightarrow> ordered a) \<Longrightarrow> ordered (Merge a b)"
proof -
  let ?a = "Deduplicate a" and ?b = "Deduplicate b"
  have o: "ordered ?a" "ordered ?b" by (rule Deduplicate_ordered)+
  have lt: "val_UnixNano x < val_UnixNano y"
    if "val_UnixNano (last c) < val_UnixNano (hd d)" "ordered c" "ordered d" "x \<in> set c" "y \<in> set d" for c d x y
  proof -
    from that(4) obtain c' l where c: "c = c' @ [l]" by (cases c rule: rev_cases) auto
    from that(5) obtain h d' where d: "d = h # d'" by (cases d) auto
    have "val_UnixNano x \<le> val_UnixNano l" using that(2,4) by (auto simp: c sorted_wrt_append)
    moreover have "val_UnixNano h \<le> val_UnixNano y" using that(3,5) by (auto simp: d)
    ultimately show "val_UnixNano x < val_UnixNano y" using that(1) by (simp add: c d)
  qed
  have *: "vmap (Merge a b) = vmap a ++ vmap b \<and> set (Merge a b) \<subseteq> set a \<union> set b \<and> ordered (Merge a b)"
    if "a \<noteq> []" "b \<noteq> []"
  proof -
    consider "val_UnixNano (last ?a) < val_UnixNano (hd ?b)"
      | "\<not> val_UnixNano (last ?a) < val_UnixNano (hd ?b)" "val_UnixNano (last ?b) < val_UnixNano (hd ?a)"
      | "\<not> val_UnixNano (last ?a) < val_UnixNano (hd ?b)" "\<not> val_UnixNano (last ?b) < val_UnixNano (hd ?a)"
      by blast
    then show ?thesis
    proof cases
      case 1
      then have "Merge a b = ?a @ ?b" using that by (simp add: Merge_def Let_def)
      then show ?thesis using lt [OF 1 o] o set_Deduplicate [of a] set_Deduplicate [of b]
        by (auto simp: sorted_wrt_append vmap_append Deduplicate_vmap)
    next
      case 2
      then have m: "Merge a b = ?b @ ?a" using that by (simp add: Merge_def Let_def)
      have "vmap (?b @ ?a) = vmap ?a ++ vmap ?b"
        using lt [OF 2(2) o(2,1)] by (intro vmap_disjoint_swap) force
      then show ?thesis using m lt [OF 2(2) o(2,1)] o set_Deduplicate [of a] set_Deduplicate [of b]
        by (auto simp: sorted_wrt_append Deduplicate_vmap)
    next
      case 3
      then have "Merge a b = merge_loop ?a ?b" using that by (simp add: Merge_def Let_def)
      then show ?thesis using merge_loop_spec [OF o] set_Deduplicate [of a] set_Deduplicate [of b]
        by (auto simp: Deduplicate_vmap)
    qed
  qed
  show "vmap (Merge a b) = vmap a ++ vmap b" using * by (cases "a = [] \<or> b = []") (auto simp: Merge_def)
  show "set (Merge a b) \<subseteq> set a \<union> set b" using * by (cases "a = [] \<or> b = []") (auto simp: Merge_def)
  show "(a = [] \<longrightarrow> ordered b) \<Longrightarrow> (b = [] \<longrightarrow> ordered a) \<Longrightarrow> ordered (Merge a b)"
    using * by (cases "a = [] \<or> b = []") (auto simp: Merge_def)
qed

end
