(* ===== verification/TSMRing.thy ===== *)
theory TSMRing
  imports TSMValues "HOL-Library.AList" "HOL-Library.List_Lexorder" "HOL-Library.Char_ord"
begin

text \<open>
  The store behind the cache (\<open>tsdb/engine/tsm1/ring.go\<close>, and the entries, the \<open>storer\<close>
  interface and \<open>emptyStore\<close> of \<open>cache.go\<close>): a ring of partitions, each a map from series keys to
  entries.  A Go map is an association list with distinct keys, in the order an iteration
  visits it.  The hash of a key, \<open>xxhash.Sum64\<close>, is a parameter.  The interface is the locale
  \<open>entry_store\<close>, interpreted on the ring.
\<close>

section \<open>Entries\<close>

datatype cache_error =
    ErrFieldTypeConflict
  | ErrCacheMemorySizeLimitExceeded u64 u64
  | ErrSnapshotInProgress
  | ErrInvalidPartitions int
  | ErrUnknownFieldType

record entry =
  en_values :: "Value list"
  en_vtype :: nat

fun valueType :: "Value \<Rightarrow> nat" where
  "valueType (FloatValue t v) = 1"
| "valueType (IntegerValue t v) = 2"
| "valueType (StringValue t v) = 3"
| "valueType (BooleanValue t v) = 4"
| "valueType v = 0"

definition newEntryValues :: "Value list \<Rightarrow> cache_error + entry" where
  "newEntryValues values =
     (if values = [] then Inr \<lparr>en_values = [], en_vtype = 0\<rparr>
      else
        let et = valueType (hd values)
        in if list_ex (\<lambda>v. et \<noteq> valueType v) values then Inl ErrFieldTypeConflict
           else Inr \<lparr>en_values = values, en_vtype = et\<rparr>)"

definition entry_add :: "entry \<Rightarrow> Value list \<Rightarrow> cache_error + entry" where
  "entry_add e values =
     (if values = [] then Inr e
      else if en_vtype e \<noteq> 0 \<and> list_ex (\<lambda>v. en_vtype e \<noteq> valueType v) values then Inl ErrFieldTypeConflict
      else if en_values e = [] then Inr \<lparr>en_values = values, en_vtype = valueType (hd values)\<rparr>
      else Inr (e\<lparr>en_values := en_values e @ values\<rparr>))"

definition entry_deduplicate :: "entry \<Rightarrow> entry" where
  "entry_deduplicate e =
     (if length (en_values e) \<le> 1 then e else e\<lparr>en_values := Deduplicate (en_values e)\<rparr>)"

definition entry_count :: "entry \<Rightarrow> nat" where
  "entry_count e = length (en_values e)"

definition entry_filter :: "entry \<Rightarrow> int \<Rightarrow> int \<Rightarrow> entry" where
  "entry_filter e mn mx =
     (let vs = (if length (en_values e) > 1 then Deduplicate (en_values e) else en_values e)
      in e\<lparr>en_values := Exclude vs mn mx\<rparr>)"

definition entry_size :: "entry \<Rightarrow> nat" where
  "entry_size e = values_Size (en_values e)"

section \<open>Partitions\<close>

type_synonym partition = "(string \<times> entry) list"

definition partition_entry :: "partition \<Rightarrow> string \<Rightarrow> entry option" where
  "partition_entry p key = map_of p key"

definition partition_write :: "partition \<Rightarrow> string \<Rightarrow> Value list \<Rightarrow> cache_error + (bool \<times> partition)" where
  "partition_write p key values =
     (case map_of p key of
        Some e \<Rightarrow>
          (case entry_add e values of
             Inl err \<Rightarrow> Inl err
           | Inr e' \<Rightarrow> Inr (False, AList.update key e' p))
      | None \<Rightarrow>
          (case newEntryValues values of
             Inl err \<Rightarrow> Inl err
           | Inr e \<Rightarrow> Inr (True, AList.update key e p)))"

definition partition_add :: "partition \<Rightarrow> string \<Rightarrow> entry \<Rightarrow> partition" where
  "partition_add p key e = AList.update key e p"

definition partition_remove :: "partition \<Rightarrow> string \<Rightarrow> partition" where
  "partition_remove p key = AList.delete key p"

definition partition_keys :: "partition \<Rightarrow> string list" where
  "partition_keys p = map fst (filter (\<lambda>(k, v). entry_count v \<noteq> 0) p)"

definition partition_reset :: "partition \<Rightarrow> partition" where
  "partition_reset p = []"

definition partition_count :: "partition \<Rightarrow> nat" where
  "partition_count p = length (filter (\<lambda>(k, v). entry_count v > 0) p)"

section \<open>The ring\<close>

definition partitions :: nat where "partitions = 16"

record ring =
  ri_keysHint :: int
  ri_partitions :: "partition list"

definition newring :: "int \<Rightarrow> cache_error + ring" where
  "newring n =
     (if n \<le> 0 \<or> n > int partitions then Inl (ErrInvalidPartitions n)
      else Inr \<lparr>ri_keysHint = 0, ri_partitions = replicate (nat n) []\<rparr>)"

definition ring_reset :: "ring \<Rightarrow> ring" where
  "ring_reset r = \<lparr>ri_keysHint = 0, ri_partitions = map partition_reset (ri_partitions r)\<rparr>"

text \<open>
  The index is within the slice when the ring has all 16 partitions, as every ring of the
  sources has.
\<close>

definition getPartition :: "(string \<Rightarrow> u64) \<Rightarrow> string \<Rightarrow> nat" where
  "getPartition hash key = unat (hash key mod of_nat partitions)"

definition ring_entry :: "(string \<Rightarrow> u64) \<Rightarrow> ring \<Rightarrow> string \<Rightarrow> entry option" where
  "ring_entry hash r key = partition_entry (ri_partitions r ! getPartition hash key) key"

definition ring_write :: "(string \<Rightarrow> u64) \<Rightarrow> ring \<Rightarrow> string \<Rightarrow> Value list \<Rightarrow> cache_error + (bool \<times> ring)" where
  "ring_write hash r key values =
     (let i = getPartition hash key in
      case partition_write (ri_partitions r ! i) key values of
        Inl err \<Rightarrow> Inl err
      | Inr (newKey, p) \<Rightarrow> Inr (newKey, r\<lparr>ri_partitions := (ri_partitions r)[i := p]\<rparr>))"

definition ring_add :: "(string \<Rightarrow> u64) \<Rightarrow> ring \<Rightarrow> string \<Rightarrow> entry \<Rightarrow> ring" where
  "ring_add hash r key e =
     (let i = getPartition hash key
      in r\<lparr>ri_partitions := (ri_partitions r)[i := partition_add (ri_partitions r ! i) key e],
           ri_keysHint := ri_keysHint r + 1\<rparr>)"

definition ring_remove :: "(string \<Rightarrow> u64) \<Rightarrow> ring \<Rightarrow> string \<Rightarrow> ring" where
  "ring_remove hash r key =
     (let i = getPartition hash key;
          r' = r\<lparr>ri_partitions := (ri_partitions r)[i := partition_remove (ri_partitions r ! i) key]\<rparr>
      in if ri_keysHint r' > 0 then r'\<lparr>ri_keysHint := ri_keysHint r' - 1\<rparr> else r')"

definition ring_keys :: "ring \<Rightarrow> bool \<Rightarrow> string list" where
  "ring_keys r inorder =
     (let keys = concat (map partition_keys (ri_partitions r))
      in if inorder then sort keys else keys)"

definition ring_count :: "ring \<Rightarrow> nat" where
  "ring_count r = sum_list (map partition_count (ri_partitions r))"

text \<open>\<open>apply\<close> with a function that changes the entry in place and returns no error.\<close>

definition ring_apply :: "ring \<Rightarrow> (string \<Rightarrow> entry \<Rightarrow> entry) \<Rightarrow> ring" where
  "ring_apply r f = r\<lparr>ri_partitions := map (map (\<lambda>(k, e). (k, f k e))) (ri_partitions r)\<rparr>"

text \<open>\<open>applySerial\<close> with a function that reads the entries and accumulates a result.\<close>

fun partition_fold :: "(string \<Rightarrow> entry \<Rightarrow> 's \<Rightarrow> 'e + 's) \<Rightarrow> partition \<Rightarrow> 's \<Rightarrow> 'e + 's" where
  "partition_fold f [] s = Inr s"
| "partition_fold f ((k, e) # p) s =
     (if entry_count e = 0 then partition_fold f p s
      else case f k e s of Inl err \<Rightarrow> Inl err | Inr s' \<Rightarrow> partition_fold f p s')"

fun ring_applySerial :: "(string \<Rightarrow> entry \<Rightarrow> 's \<Rightarrow> 'e + 's) \<Rightarrow> partition list \<Rightarrow> 's \<Rightarrow> 'e + 's" where
  "ring_applySerial f [] s = Inr s"
| "ring_applySerial f (p # ps) s =
     (case partition_fold f p s of Inl err \<Rightarrow> Inl err | Inr s' \<Rightarrow> ring_applySerial f ps s')"

definition ring_split :: "ring \<Rightarrow> nat \<Rightarrow> ring list" where
  "ring_split r n =
     map (\<lambda>m. \<lparr>ri_keysHint = 0,
               ri_partitions = map (\<lambda>i. if i mod n = m then ri_partitions r ! i else [])
                                 [0..<length (ri_partitions r)]\<rparr>) [0..<n]"

section \<open>The contract of a store\<close>

text \<open>
  What the cache relies on: the store is a finite map from keys to entries, and a write either
  changes nothing or adds the values to the entry of its key.
\<close>

definition write_entry :: "entry option \<Rightarrow> Value list \<Rightarrow> cache_error + entry" where
  "write_entry eo values = (case eo of None \<Rightarrow> newEntryValues values | Some e \<Rightarrow> entry_add e values)"

definition store_bytes :: "(string \<Rightarrow> entry option) \<Rightarrow> nat" where
  "store_bytes m = (\<Sum>k\<in>dom m. length k + entry_size (the (m k)))"

lemma store_bytes_empty [simp]: "store_bytes Map.empty = 0"
  by (simp add: store_bytes_def)

lemma store_bytes_upd:
  assumes "finite (dom m)"
  shows "store_bytes (m(k \<mapsto> e)) = store_bytes (m(k := None)) + length k + entry_size e"
proof -
  have "(\<Sum>x\<in>dom m - {k}. length x + entry_size (the ((m(k \<mapsto> e)) x)))
      = (\<Sum>x\<in>dom m - {k}. length x + entry_size (the ((m(k := None)) x)))"
    by (rule sum.cong) auto
  then show ?thesis
    using assms by (simp add: store_bytes_def sum.insert_remove)
qed

lemma store_bytes_del:
  assumes "finite (dom m)" "m k = Some e"
  shows "store_bytes m = store_bytes (m(k := None)) + length k + entry_size e"
  using store_bytes_upd [OF assms(1), of k e] assms(2) by (simp add: map_upd_triv)

locale entry_store =
  fixes inv :: "'s \<Rightarrow> bool"
    and get :: "'s \<Rightarrow> string \<Rightarrow> entry option"
    and wr :: "'s \<Rightarrow> string \<Rightarrow> Value list \<Rightarrow> cache_error + (bool \<times> 's)"
    and rm :: "'s \<Rightarrow> string \<Rightarrow> 's"
    and rs :: "'s \<Rightarrow> 's"
    and app :: "'s \<Rightarrow> (string \<Rightarrow> entry \<Rightarrow> entry) \<Rightarrow> 's"
  assumes finite_get: "inv s \<Longrightarrow> finite (dom (get s))"
    and write_err: "inv s \<Longrightarrow> wr s k vs = Inl err \<Longrightarrow> write_entry (get s k) vs = Inl err"
    and write_ok: "inv s \<Longrightarrow> wr s k vs = Inr (nk, s') \<Longrightarrow>
      inv s' \<and> nk = (get s k = None) \<and> (\<exists>e. write_entry (get s k) vs = Inr e \<and> get s' = (get s)(k \<mapsto> e))"
    and remove_get: "inv s \<Longrightarrow> inv (rm s k) \<and> get (rm s k) = (get s)(k := None)"
    and reset_get: "inv s \<Longrightarrow> inv (rs s) \<and> get (rs s) = Map.empty"
    and apply_get: "inv s \<Longrightarrow> inv (app s f) \<and> get (app s f) = (\<lambda>k. map_option (f k) (get s k))"
begin

lemma write_bytes:
  assumes "inv s" "wr s k vs = Inr (nk, s')"
  shows "store_bytes (get s') = store_bytes (get s) + values_Size vs + (if nk then length k else 0)"
proof -
  obtain e where e: "write_entry (get s k) vs = Inr e" "get s' = (get s)(k \<mapsto> e)" "nk = (get s k = None)"
    using write_ok [OF assms] by auto
  have fin: "finite (dom (get s))" using assms(1) by (rule finite_get)
  show ?thesis
  proof (cases "get s k")
    case None
    then have "en_values e = vs" using e(1) by (auto simp: write_entry_def newEntryValues_def Let_def split: if_splits)
    then show ?thesis using None e(2,3) store_bytes_upd [OF fin, of k e] by (simp add: entry_size_def fun_upd_idem)
  next
    case (Some e0)
    then have "en_values e = en_values e0 @ vs"
      using e(1) by (auto simp: write_entry_def entry_add_def split: if_splits)
    then show ?thesis
      using Some e(2,3) store_bytes_upd [OF fin, of k e] store_bytes_del [OF fin Some]
      by (simp add: entry_size_def values_Size_def)
  qed
qed

lemma remove_bytes:
  assumes "inv s" "get s k = Some e"
  shows "store_bytes (get s) = store_bytes (get (rm s k)) + length k + entry_size e"
  using store_bytes_del [of "get s" k e] finite_get [OF assms(1)] remove_get [OF assms(1)] assms(2) by simp

lemma apply_bytes:
  assumes "inv s" "\<And>k e. entry_size (f k e) \<le> entry_size e"
  shows "store_bytes (get (app s f)) \<le> store_bytes (get s)"
proof -
  have g: "get (app s f) = (\<lambda>k. map_option (f k) (get s k))" using apply_get [OF assms(1)] by simp
  have d: "dom (get (app s f)) = dom (get s)" unfolding g by (auto simp: dom_def)
  show ?thesis
    unfolding store_bytes_def d
  proof (rule sum_mono)
    fix k assume "k \<in> dom (get s)"
    then show "length k + entry_size (the (get (app s f) k)) \<le> length k + entry_size (the (get s k))"
      using assms(2) by (auto simp: g)
  qed
qed

end

section \<open>The ring keeps the contract\<close>

text \<open>A ring in order: 16 partitions, each with distinct keys, and every key in the partition of its hash.\<close>

definition ring_ok :: "(string \<Rightarrow> u64) \<Rightarrow> ring \<Rightarrow> bool" where
  "ring_ok hash r \<longleftrightarrow> length (ri_partitions r) = partitions \<and>
     (\<forall>i<partitions. distinct (map fst (ri_partitions r ! i)) \<and>
        (\<forall>k\<in>fst ` set (ri_partitions r ! i). getPartition hash k = i))"

lemma getPartition_less: "getPartition hash k < partitions"
  by (simp add: getPartition_def partitions_def unat_mod_distrib unat_of_nat)

lemma ring_okD:
  assumes "ring_ok hash r" "i < partitions"
  shows "length (ri_partitions r) = partitions" "distinct (map fst (ri_partitions r ! i))"
    "(k, e) \<in> set (ri_partitions r ! i) \<Longrightarrow> getPartition hash k = i"
  using assms by (force simp: ring_ok_def)+

lemma newring_ok: "newring (int partitions) = Inr r \<Longrightarrow> ring_ok hash r \<and> ring_entry hash r = Map.empty"
  using getPartition_less
  by (auto simp: newring_def ring_ok_def partitions_def ring_entry_def partition_entry_def fun_eq_iff)

text \<open>Replacing the partition of a key changes the ring at that partition only.\<close>

lemma ring_set_partition:
  assumes ok: "ring_ok hash r" and d: "distinct (map fst p)"
    and ks: "\<And>x. x \<in> fst ` set p \<Longrightarrow> getPartition hash x = getPartition hash k"
    and r': "ri_partitions r' = (ri_partitions r)[getPartition hash k := p]"
  shows "ring_ok hash r'"
    "ring_entry hash r' = (\<lambda>x. if getPartition hash x = getPartition hash k then map_of p x else ring_entry hash r x)"
  using ok d ks getPartition_less [of hash k]
  by (auto simp: ring_ok_def r' nth_list_update ring_entry_def partition_entry_def fun_eq_iff)

lemma ring_entry_map_of:
  "getPartition hash x = getPartition hash k \<Longrightarrow>
    ring_entry hash r x = map_of (ri_partitions r ! getPartition hash k) x"
  by (simp add: ring_entry_def partition_entry_def)

lemma ring_set_partition_entry:
  assumes "ring_ok hash r" "distinct (map fst p)"
    and "\<And>x. x \<in> fst ` set p \<Longrightarrow> getPartition hash x = getPartition hash k"
    and "ri_partitions r' = (ri_partitions r)[getPartition hash k := p]"
    and p: "map_of p = (map_of (ri_partitions r ! getPartition hash k))(k := v)"
  shows "ring_entry hash r' = (ring_entry hash r)(k := v)"
proof
  fix x
  show "ring_entry hash r' x = ((ring_entry hash r)(k := v)) x"
  proof (cases "getPartition hash x = getPartition hash k")
    case True
    then show ?thesis by (simp add: ring_set_partition(2) [OF assms(1-4)] p ring_entry_map_of)
  next
    case False
    then have "x \<noteq> k" by auto
    then show ?thesis using False by (simp add: ring_set_partition(2) [OF assms(1-4)])
  qed
qed

lemma ring_write_spec:
  assumes ok: "ring_ok hash r"
  shows "ring_write hash r k vs = Inl err \<Longrightarrow> write_entry (ring_entry hash r k) vs = Inl err"
    "ring_write hash r k vs = Inr (nk, r') \<Longrightarrow> ring_ok hash r' \<and> nk = (ring_entry hash r k = None) \<and>
       (\<exists>e. write_entry (ring_entry hash r k) vs = Inr e \<and> ring_entry hash r' = (ring_entry hash r)(k \<mapsto> e))"
proof -
  let ?i = "getPartition hash k"
  let ?p = "ri_partitions r ! ?i"
  have d: "distinct (map fst ?p)" and ks: "\<And>x. x \<in> fst ` set ?p \<Longrightarrow> getPartition hash x = ?i"
    using ring_okD [OF ok getPartition_less [of hash k]] by auto
  have g: "ring_entry hash r k = map_of ?p k" by (rule ring_entry_map_of) simp
  show "ring_write hash r k vs = Inl err \<Longrightarrow> write_entry (ring_entry hash r k) vs = Inl err"
    by (auto simp: ring_write_def partition_write_def write_entry_def g Let_def split: option.splits sum.splits prod.splits)
  assume w: "ring_write hash r k vs = Inr (nk, r')"
  then obtain e where e: "write_entry (ring_entry hash r k) vs = Inr e" "nk = (ring_entry hash r k = None)"
      "r' = r\<lparr>ri_partitions := (ri_partitions r)[?i := AList.update k e ?p]\<rparr>"
    by (auto simp: ring_write_def partition_write_def write_entry_def g Let_def split: option.splits sum.splits prod.splits)
  have d': "distinct (map fst (AList.update k e ?p))" using d by (rule distinct_update)
  have ks': "\<And>x. x \<in> fst ` set (AList.update k e ?p) \<Longrightarrow> getPartition hash x = ?i"
    unfolding dom_update by (elim UnE, simp, rule ks)
  have "ring_entry hash r' = (ring_entry hash r)(k \<mapsto> e)"
    by (rule ring_set_partition_entry [OF ok d' ks']) (simp_all add: e(3) update_conv')
  then show "ring_ok hash r' \<and> nk = (ring_entry hash r k = None) \<and>
       (\<exists>e. write_entry (ring_entry hash r k) vs = Inr e \<and> ring_entry hash r' = (ring_entry hash r)(k \<mapsto> e))"
    using ring_set_partition(1) [OF ok d' ks', of r'] e by simp
qed

lemma ring_remove_spec:
  assumes ok: "ring_ok hash r"
  shows "ring_ok hash (ring_remove hash r k) \<and> ring_entry hash (ring_remove hash r k) = (ring_entry hash r)(k := None)"
proof -
  let ?i = "getPartition hash k"
  let ?p = "ri_partitions r ! ?i"
  have d: "distinct (map fst (AList.delete k ?p))"
    using ring_okD(2) [OF ok getPartition_less [of hash k]] by (rule distinct_delete)
  have ks: "\<And>x. x \<in> fst ` set (AList.delete k ?p) \<Longrightarrow> getPartition hash x = ?i"
  proof -
    fix x assume "x \<in> fst ` set (AList.delete k ?p)"
    then have "x \<in> fst ` set ?p" using dom_delete_subset by (rule rev_subsetD)
    then show "getPartition hash x = ?i" by (elim imageE) (metis ring_okD(3) [OF ok getPartition_less [of hash k]] prod.collapse)
  qed
  have r: "ri_partitions (ring_remove hash r k) = (ri_partitions r)[?i := AList.delete k ?p]"
    by (simp add: ring_remove_def partition_remove_def Let_def)
  have "ring_entry hash (ring_remove hash r k) = (ring_entry hash r)(k := None)"
    by (rule ring_set_partition_entry [OF ok d ks r]) (simp_all add: delete_conv')
  then show ?thesis using ring_set_partition(1) [OF ok d ks r] by simp
qed

lemma ring_reset_spec:
  "ring_ok hash r \<Longrightarrow> ring_ok hash (ring_reset r) \<and> ring_entry hash (ring_reset r) = Map.empty"
  using getPartition_less [of hash]
  by (auto simp: ring_ok_def ring_reset_def partition_reset_def ring_entry_def partition_entry_def fun_eq_iff)

lemma map_of_map_values: "map_of (map (\<lambda>(k, e). (k, f k e)) p) k = map_option (f k) (map_of p k)"
  by (induction p) auto

lemma ring_apply_spec:
  assumes "ring_ok hash r"
  shows "ring_ok hash (ring_apply r f) \<and> ring_entry hash (ring_apply r f) = (\<lambda>k. map_option (f k) (ring_entry hash r k))"
proof -
  have m: "map fst (map (\<lambda>(k, e). (k, f k e)) p) = map fst p" for p
    by (induction p) auto
  then have i: "fst ` set (map (\<lambda>(k, e). (k, f k e)) p) = fst ` set p" for p
    by (metis image_set)
  show ?thesis
    using assms getPartition_less [of hash]
    by (simp add: ring_ok_def ring_apply_def ring_entry_def partition_entry_def map_of_map_values fun_eq_iff m i
        del: map_map set_map list.map_comp)
qed

lemma ring_finite: "ring_ok hash r \<Longrightarrow> finite (dom (ring_entry hash r))"
proof -
  assume ok: "ring_ok hash r"
  have "dom (ring_entry hash r) \<subseteq> (\<Union>p\<in>set (ri_partitions r). dom (map_of p))"
  proof
    fix k assume "k \<in> dom (ring_entry hash r)"
    then have "k \<in> dom (map_of (ri_partitions r ! getPartition hash k))"
      by (simp add: ring_entry_def partition_entry_def dom_def)
    moreover have "ri_partitions r ! getPartition hash k \<in> set (ri_partitions r)"
      using ok getPartition_less [of hash k] by (simp add: ring_ok_def)
    ultimately show "k \<in> (\<Union>p\<in>set (ri_partitions r). dom (map_of p))" by (rule UN_I [rotated])
  qed
  then show ?thesis by (rule finite_subset) (simp add: finite_dom_map_of)
qed

interpretation rg: entry_store "ring_ok hash" "ring_entry hash" "ring_write hash" "ring_remove hash"
  ring_reset ring_apply for hash
  by unfold_locales
    (simp_all add: ring_finite ring_write_spec ring_remove_spec ring_reset_spec ring_apply_spec)

subsection \<open>Listing and splitting\<close>

lemma distinct_concat_nth:
  assumes "\<And>i. i < length xss \<Longrightarrow> distinct (xss ! i)"
    and "\<And>i j. i < j \<Longrightarrow> j < length xss \<Longrightarrow> set (xss ! i) \<inter> set (xss ! j) = {}"
  shows "distinct (concat xss)"
  using assms
proof (induction xss)
  case (Cons xs xss)
  have "distinct (concat xss)"
  proof (rule Cons.IH)
    show "distinct (xss ! i)" if "i < length xss" for i using Cons.prems(1) [of "Suc i"] that by simp
    show "set (xss ! i) \<inter> set (xss ! j) = {}" if "i < j" "j < length xss" for i j
      using Cons.prems(2) [of "Suc i" "Suc j"] that by simp
  qed
  moreover have "set xs \<inter> set ys = {}" if "ys \<in> set xss" for ys
  proof -
    from that obtain i where "i < length xss" "ys = xss ! i" by (auto simp: in_set_conv_nth)
    then show ?thesis using Cons.prems(2) [of 0 "Suc i"] by simp
  qed
  moreover have "distinct xs" using Cons.prems(1) [of 0] by simp
  ultimately show ?case by auto
qed simp

lemma distinct_map_filter: "distinct (map f xs) \<Longrightarrow> distinct (map f (filter P xs))"
  by (induction xs) auto

lemma ring_keys_spec:
  assumes ok: "ring_ok hash r"
  shows "set (ring_keys r b) = {k. \<exists>e. ring_entry hash r k = Some e \<and> en_values e \<noteq> []}"
    and "distinct (ring_keys r b)"
    and "length (ring_keys r b) = ring_count r"
    and "sorted (ring_keys r True)"
proof -
  let ?ks = "concat (map partition_keys (ri_partitions r))"
  have len: "length (ri_partitions r) = partitions" using ok by (simp add: ring_ok_def)
  have mem: "k \<in> set (partition_keys (ri_partitions r ! i)) \<longleftrightarrow>
      i = getPartition hash k \<and> (\<exists>e. ring_entry hash r k = Some e \<and> en_values e \<noteq> [])"
    if "i < partitions" for i k
  proof -
    have "k \<in> set (partition_keys (ri_partitions r ! i)) \<longleftrightarrow>
      (\<exists>e. (k, e) \<in> set (ri_partitions r ! i) \<and> en_values e \<noteq> [])"
      by (force simp: partition_keys_def entry_count_def)
    moreover have "(k, e) \<in> set (ri_partitions r ! i) \<longleftrightarrow> i = getPartition hash k \<and> ring_entry hash r k = Some e" for e
      using ring_okD(2,3) [OF ok that] getPartition_less [of hash k] ring_okD(2) [OF ok]
      by (auto simp: ring_entry_def partition_entry_def dest: map_of_SomeD)
    ultimately show ?thesis by auto
  qed
  have "set ?ks = {k. \<exists>e. ring_entry hash r k = Some e \<and> en_values e \<noteq> []}" (is "_ = ?S")
  proof (rule set_eqI)
    fix k
    have "k \<in> set ?ks \<longleftrightarrow> (\<exists>i<partitions. k \<in> set (partition_keys (ri_partitions r ! i)))"
      unfolding set_concat set_map by (force simp: in_set_conv_nth len)
    then show "k \<in> set ?ks \<longleftrightarrow> k \<in> ?S" using mem getPartition_less [of hash k] by auto
  qed
  then show "set (ring_keys r b) = ?S" unfolding ring_keys_def Let_def by (simp only: if_distrib set_sort if_cancel)
  have dk: "distinct ?ks"
  proof (rule distinct_concat_nth)
    fix i assume "i < length (map partition_keys (ri_partitions r))"
    then show "distinct (map partition_keys (ri_partitions r) ! i)"
      using ring_okD(2) [OF ok, of i] by (simp add: len partition_keys_def distinct_map_filter)
  next
    fix i j assume "i < j" "j < length (map partition_keys (ri_partitions r))"
    then show "set (map partition_keys (ri_partitions r) ! i) \<inter> set (map partition_keys (ri_partitions r) ! j) = {}"
      using mem by (auto simp: len)
  qed
  then show "distinct (ring_keys r b)" by (cases b) (simp_all add: ring_keys_def Let_def)
  show "length (ring_keys r b) = ring_count r"
    by (cases b) (simp_all add: ring_keys_def ring_count_def length_concat o_def partition_keys_def partition_count_def [abs_def])
  show "sorted (ring_keys r True)" by (simp add: ring_keys_def)
qed

text \<open>The rings of a split share out the keys of the ring.\<close>

lemma ring_split_spec:
  assumes ok: "ring_ok hash r" and m: "m < n"
  shows "ring_ok hash (ring_split r n ! m)"
    "ring_entry hash (ring_split r n ! m) k = (if getPartition hash k mod n = m then ring_entry hash r k else None)"
  using ok m getPartition_less [of hash k]
  by (auto simp: ring_split_def ring_ok_def ring_entry_def partition_entry_def)

end
