(* ===== verification/TSMCache.thy ===== *)
theory TSMCache
  imports TSMRing
begin

text \<open>
  The in-memory cache of a shard (\<open>tsdb/engine/tsm1/cache.go\<close>): a hot store that takes the writes
  and a snapshot that is being written to disk.  Sizes are \<open>uint64\<close>, and so are the statistics,
  whose \<open>int64\<close> is kept as its bits.  Times (last write, last snapshot) only feed statistics and are
  left out.  The snapshot is itself a \<open>Cache\<close>, of which only the store and the size are ever set.
\<close>

section \<open>Stores\<close>

datatype storer = emptyStore | ring_store ring

definition storer_entry :: "(string \<Rightarrow> u64) \<Rightarrow> storer \<Rightarrow> string \<Rightarrow> entry option" where
  "storer_entry hash s key = (case s of emptyStore \<Rightarrow> None | ring_store r \<Rightarrow> ring_entry hash r key)"

definition storer_write :: "(string \<Rightarrow> u64) \<Rightarrow> storer \<Rightarrow> string \<Rightarrow> Value list \<Rightarrow> cache_error + (bool \<times> storer)" where
  "storer_write hash s key values =
     (case s of
        emptyStore \<Rightarrow> Inr (False, emptyStore)
      | ring_store r \<Rightarrow>
          (case ring_write hash r key values of
             Inl err \<Rightarrow> Inl err
           | Inr (newKey, r') \<Rightarrow> Inr (newKey, ring_store r')))"

definition storer_remove :: "(string \<Rightarrow> u64) \<Rightarrow> storer \<Rightarrow> string \<Rightarrow> storer" where
  "storer_remove hash s key = (case s of emptyStore \<Rightarrow> emptyStore | ring_store r \<Rightarrow> ring_store (ring_remove hash r key))"

definition storer_keys :: "storer \<Rightarrow> bool \<Rightarrow> string list" where
  "storer_keys s inorder = (case s of emptyStore \<Rightarrow> [] | ring_store r \<Rightarrow> ring_keys r inorder)"

definition storer_apply :: "storer \<Rightarrow> (string \<Rightarrow> entry \<Rightarrow> entry) \<Rightarrow> storer" where
  "storer_apply s f = (case s of emptyStore \<Rightarrow> emptyStore | ring_store r \<Rightarrow> ring_store (ring_apply r f))"

definition storer_reset :: "storer \<Rightarrow> storer" where
  "storer_reset s = (case s of emptyStore \<Rightarrow> emptyStore | ring_store r \<Rightarrow> ring_store (ring_reset r))"

definition storer_split :: "storer \<Rightarrow> nat \<Rightarrow> storer list" where
  "storer_split s n = (case s of emptyStore \<Rightarrow> [] | ring_store r \<Rightarrow> map ring_store (ring_split r n))"

definition storer_count :: "storer \<Rightarrow> nat" where
  "storer_count s = (case s of emptyStore \<Rightarrow> 0 | ring_store r \<Rightarrow> ring_count r)"

text \<open>Entries are pointers: an operation on one changes it in its store.\<close>

definition storer_update :: "storer \<Rightarrow> string \<Rightarrow> (entry \<Rightarrow> entry) \<Rightarrow> storer" where
  "storer_update s key f = storer_apply s (\<lambda>k e. if k = key then f e else e)"

section \<open>The state\<close>

record snapshot_cache =
  sn_store :: storer
  sn_size :: u64

record CacheStatistics =
  MemSizeBytes :: u64
  DiskSizeBytes :: u64
  SnapshotCount :: u64
  CachedBytes :: u64
  WriteOK :: u64
  WriteErr :: u64
  WriteDropped :: u64

record Cache =
  ca_size :: u64
  ca_snapshotSize :: u64
  ca_store :: storer
  ca_maxSize :: u64
  ca_snapshot :: "snapshot_cache option"
  ca_snapshotting :: bool
  ca_snapshotAttempts :: nat
  ca_stats :: CacheStatistics
  ca_initialized :: bool

definition NewCache :: "u64 \<Rightarrow> Cache" where
  "NewCache maxSize =
     \<lparr>ca_size = 0, ca_snapshotSize = 0, ca_store = emptyStore, ca_maxSize = maxSize, ca_snapshot = None,
      ca_snapshotting = False, ca_snapshotAttempts = 0,
      ca_stats = \<lparr>MemSizeBytes = 0, DiskSizeBytes = 0, SnapshotCount = 0, CachedBytes = 0,
                  WriteOK = 0, WriteErr = 0, WriteDropped = 0\<rparr>,
      ca_initialized = False\<rparr>"

definition ringShards :: int where "ringShards = 16"

definition new_store :: storer where
  "new_store = (case newring ringShards of Inr r \<Rightarrow> ring_store r | Inl err \<Rightarrow> emptyStore)"

definition Cache_init :: "Cache \<Rightarrow> Cache" where
  "Cache_init c = (if ca_initialized c then c else c\<lparr>ca_initialized := True, ca_store := new_store\<rparr>)"

definition Cache_Free :: "Cache \<Rightarrow> Cache" where
  "Cache_Free c = (if ca_initialized c then c\<lparr>ca_initialized := False, ca_store := emptyStore\<rparr> else c)"

definition Cache_Size :: "Cache \<Rightarrow> u64" where
  "Cache_Size c = ca_size c + ca_snapshotSize c"

definition increaseSize :: "u64 \<Rightarrow> Cache \<Rightarrow> Cache" where
  "increaseSize delta c = c\<lparr>ca_size := ca_size c + delta\<rparr>"

definition decreaseSize :: "u64 \<Rightarrow> Cache \<Rightarrow> Cache" where
  "decreaseSize delta c = c\<lparr>ca_size := ca_size c + not (delta - 1)\<rparr>"

definition updateMemSize :: "u64 \<Rightarrow> Cache \<Rightarrow> Cache" where
  "updateMemSize b c = c\<lparr>ca_stats := (ca_stats c)\<lparr>MemSizeBytes := MemSizeBytes (ca_stats c) + b\<rparr>\<rparr>"

definition updateCachedBytes :: "u64 \<Rightarrow> Cache \<Rightarrow> Cache" where
  "updateCachedBytes b c = c\<lparr>ca_stats := (ca_stats c)\<lparr>CachedBytes := CachedBytes (ca_stats c) + b\<rparr>\<rparr>"

definition updateSnapshots :: "Cache \<Rightarrow> Cache" where
  "updateSnapshots c = c\<lparr>ca_stats := (ca_stats c)\<lparr>DiskSizeBytes := ca_snapshotSize c,
     SnapshotCount := of_nat (ca_snapshotAttempts c)\<rparr>\<rparr>"

definition count_WriteOK :: "Cache \<Rightarrow> Cache" where
  "count_WriteOK c = c\<lparr>ca_stats := (ca_stats c)\<lparr>WriteOK := WriteOK (ca_stats c) + 1\<rparr>\<rparr>"

definition count_WriteErr :: "Cache \<Rightarrow> Cache" where
  "count_WriteErr c = c\<lparr>ca_stats := (ca_stats c)\<lparr>WriteErr := WriteErr (ca_stats c) + 1\<rparr>\<rparr>"

definition count_WriteDropped :: "Cache \<Rightarrow> Cache" where
  "count_WriteDropped c = c\<lparr>ca_stats := (ca_stats c)\<lparr>WriteDropped := WriteDropped (ca_stats c) + 1\<rparr>\<rparr>"

section \<open>Writing\<close>

definition Cache_Write :: "(string \<Rightarrow> u64) \<Rightarrow> Cache \<Rightarrow> string \<Rightarrow> Value list \<Rightarrow> cache_error option \<times> Cache" where
  "Cache_Write hash c0 key values =
     (let c = Cache_init c0;
          addedSize = of_nat (values_Size values);
          limit = ca_maxSize c;
          n = Cache_Size c + addedSize
      in if limit > 0 \<and> n > limit then (Some (ErrCacheMemorySizeLimitExceeded n limit), count_WriteErr c)
         else case storer_write hash (ca_store c) key values of
                Inl err \<Rightarrow> (Some err, count_WriteErr c)
              | Inr (newKey, st) \<Rightarrow>
                  let added = (if newKey then addedSize + of_nat (length key) else addedSize)
                  in (None, count_WriteOK (updateMemSize added (increaseSize added (c\<lparr>ca_store := st\<rparr>)))))"

text \<open>The loop over the map, in the order the iteration visits it.\<close>

fun write_multi_loop :: "(string \<Rightarrow> u64) \<Rightarrow> (string \<times> Value list) list \<Rightarrow> Cache \<Rightarrow> u64 \<Rightarrow> cache_error option
    \<Rightarrow> Cache \<times> u64 \<times> cache_error option" where
  "write_multi_loop hash [] c addedSize werr = (c, addedSize, werr)"
| "write_multi_loop hash ((k, v) # rest) c addedSize werr =
     (case storer_write hash (ca_store c) k v of
        Inl err \<Rightarrow>
          write_multi_loop hash rest (decreaseSize (of_nat (values_Size v)) c)
            (addedSize - of_nat (values_Size v)) (Some err)
      | Inr (newKey, st) \<Rightarrow>
          if newKey
          then write_multi_loop hash rest (increaseSize (of_nat (length k)) (c\<lparr>ca_store := st\<rparr>))
                 (addedSize + of_nat (length k)) werr
          else write_multi_loop hash rest (c\<lparr>ca_store := st\<rparr>) addedSize werr)"

definition Cache_WriteMulti :: "(string \<Rightarrow> u64) \<Rightarrow> Cache \<Rightarrow> (string \<times> Value list) list \<Rightarrow> cache_error option \<times> Cache" where
  "Cache_WriteMulti hash c0 values =
     (let c = Cache_init c0;
          addedSize = sum_list (map (\<lambda>(k, v). of_nat (values_Size v)) values);
          limit = ca_maxSize c;
          n = Cache_Size c + addedSize
      in if limit > 0 \<and> n > limit then (Some (ErrCacheMemorySizeLimitExceeded n limit), count_WriteErr c)
         else
           let (c1, added, werr) = write_multi_loop hash values (increaseSize addedSize c) addedSize None;
               c2 = (if werr \<noteq> None then count_WriteErr (count_WriteDropped c1) else c1)
           in (werr, count_WriteOK (updateMemSize added c2)))"

section \<open>Snapshots\<close>

definition Cache_Snapshot :: "Cache \<Rightarrow> cache_error option \<times> Cache" where
  "Cache_Snapshot c0 =
     (let c = Cache_init c0 in
      if ca_snapshotting c then (Some ErrSnapshotInProgress, c)
      else
        let c1 = c\<lparr>ca_snapshotting := True, ca_snapshotAttempts := ca_snapshotAttempts c + 1\<rparr>;
            sn = (case ca_snapshot c1 of None \<Rightarrow> \<lparr>sn_store = new_store, sn_size = 0\<rparr> | Some sn \<Rightarrow> sn)
        in if sn_size sn > 0 then (None, c1\<lparr>ca_snapshot := Some sn\<rparr>)
           else
             let snapshotSize = Cache_Size c1;
                 c2 = c1\<lparr>ca_snapshot := Some \<lparr>sn_store = ca_store c1, sn_size = snapshotSize\<rparr>,
                         ca_store := storer_reset (sn_store sn),
                         ca_snapshotSize := snapshotSize, ca_size := 0\<rparr>
             in (None, updateSnapshots (updateCachedBytes snapshotSize c2)))"

text \<open>Clearing a snapshot that was never taken dereferences a nil pointer: \<open>None\<close>.\<close>

definition Cache_ClearSnapshot :: "bool \<Rightarrow> Cache \<Rightarrow> Cache option" where
  "Cache_ClearSnapshot success c0 =
     (let c = Cache_init c0 in
      case ca_snapshot c of
        None \<Rightarrow> None
      | Some sn \<Rightarrow>
          if success then
            let st = storer_reset (sn_store sn);
                c1 = updateMemSize (- ca_snapshotSize c) (c\<lparr>ca_snapshotting := False, ca_snapshotAttempts := 0\<rparr>)
            in Some (updateSnapshots (c1\<lparr>ca_snapshot := Some \<lparr>sn_store = st, sn_size = 0\<rparr>, ca_snapshotSize := 0\<rparr>))
          else Some (c\<lparr>ca_snapshotting := False\<rparr>))"

definition Cache_Deduplicate :: "Cache \<Rightarrow> Cache" where
  "Cache_Deduplicate c = c\<lparr>ca_store := storer_apply (ca_store c) (\<lambda>k e. entry_deduplicate e)\<rparr>"

text \<open>The same on the snapshot the caller got.\<close>

definition snapshot_Deduplicate :: "Cache \<Rightarrow> Cache" where
  "snapshot_Deduplicate c =
     c\<lparr>ca_snapshot := map_option (\<lambda>sn. sn\<lparr>sn_store := storer_apply (sn_store sn) (\<lambda>k e. entry_deduplicate e)\<rparr>) (ca_snapshot c)\<rparr>"

definition Cache_Count :: "Cache \<Rightarrow> nat" where
  "Cache_Count c = storer_count (ca_store c)"

definition Cache_Keys :: "Cache \<Rightarrow> string list" where
  "Cache_Keys c = storer_keys (ca_store c) True"

definition snapshot_Split :: "snapshot_cache \<Rightarrow> nat \<Rightarrow> snapshot_cache list" where
  "snapshot_Split sn n =
     (if n = 1 then [sn]
      else map (\<lambda>i. \<lparr>sn_store = storer_split (sn_store sn) n ! i, sn_size = 0\<rparr>) [0..<n])"

section \<open>Reading\<close>

datatype FieldType = FtInteger | FtFloat | FtBoolean | FtString | FtEmpty | FtUnsigned

fun InfluxQLType :: "Value list \<Rightarrow> FieldType option" where
  "InfluxQLType [] = None"
| "InfluxQLType (FloatValue t v # a) = Some FtFloat"
| "InfluxQLType (IntegerValue t v # a) = Some FtInteger"
| "InfluxQLType (UnsignedValue t v # a) = Some FtUnsigned"
| "InfluxQLType (BooleanValue t v # a) = Some FtBoolean"
| "InfluxQLType (StringValue t v # a) = Some FtString"
| "InfluxQLType (EmptyValue # a) = None"

definition snapshot_entry :: "(string \<Rightarrow> u64) \<Rightarrow> Cache \<Rightarrow> string \<Rightarrow> entry option" where
  "snapshot_entry hash c key =
     (case ca_snapshot c of None \<Rightarrow> None | Some sn \<Rightarrow> storer_entry hash (sn_store sn) key)"

definition Cache_Type :: "(string \<Rightarrow> u64) \<Rightarrow> Cache \<Rightarrow> string \<Rightarrow> cache_error + FieldType" where
  "Cache_Type hash c key =
     (let e = (case storer_entry hash (ca_store c) key of None \<Rightarrow> snapshot_entry hash c key | Some e \<Rightarrow> Some e) in
      case e of
        None \<Rightarrow> Inl ErrUnknownFieldType
      | Some e \<Rightarrow> (case InfluxQLType (en_values e) of None \<Rightarrow> Inl ErrUnknownFieldType | Some t \<Rightarrow> Inr t))"

definition Cache_Values :: "(string \<Rightarrow> u64) \<Rightarrow> Cache \<Rightarrow> string \<Rightarrow> Value list \<times> Cache" where
  "Cache_Values hash c key =
     (let e = storer_entry hash (ca_store c) key;
          snapshotEntries = snapshot_entry hash c key
      in if e = None \<and> snapshotEntries = None then ([], c)
         else
           let c1 = c\<lparr>ca_store := storer_update (ca_store c) key entry_deduplicate\<rparr>;
               c2 = c1\<lparr>ca_snapshot := map_option (\<lambda>sn. sn\<lparr>sn_store := storer_update (sn_store sn) key entry_deduplicate\<rparr>) (ca_snapshot c1)\<rparr>;
               entries = (case snapshotEntries of None \<Rightarrow> [] | Some s \<Rightarrow> [entry_deduplicate s])
                       @ (case e of None \<Rightarrow> [] | Some h \<Rightarrow> [entry_deduplicate h]);
               sz = sum_list (map entry_count entries)
           in if sz = 0 then ([], c2)
              else (Deduplicate (concat (map en_values entries)), c2))"

definition cache_values :: "(string \<Rightarrow> u64) \<Rightarrow> snapshot_cache \<Rightarrow> string \<Rightarrow> Value list" where
  "cache_values hash sn key =
     (case storer_entry hash (sn_store sn) key of None \<Rightarrow> [] | Some e \<Rightarrow> en_values e)"

section \<open>Deleting\<close>

fun delete_range_loop :: "(string \<Rightarrow> u64) \<Rightarrow> int \<Rightarrow> int \<Rightarrow> string list \<Rightarrow> Cache \<Rightarrow> Cache" where
  "delete_range_loop hash mn mx [] c = c"
| "delete_range_loop hash mn mx (k # ks) c =
     (case storer_entry hash (ca_store c) k of
        None \<Rightarrow> delete_range_loop hash mn mx ks c
      | Some e \<Rightarrow>
          let origSize = of_nat (entry_size e) in
          if mn = MinInt64 \<and> mx = MaxInt64 then
            delete_range_loop hash mn mx ks
              ((decreaseSize (origSize + of_nat (length k)) c)\<lparr>ca_store := storer_remove hash (ca_store c) k\<rparr>)
          else
            let e' = entry_filter e mn mx;
                st = storer_update (ca_store c) k (\<lambda>_. e')
            in if entry_count e' = 0 then
                 delete_range_loop hash mn mx ks
                   ((decreaseSize (origSize + of_nat (length k)) c)\<lparr>ca_store := storer_remove hash st k\<rparr>)
               else
                 delete_range_loop hash mn mx ks
                   ((decreaseSize (origSize - of_nat (entry_size e')) c)\<lparr>ca_store := st\<rparr>))"

definition Cache_DeleteRange :: "(string \<Rightarrow> u64) \<Rightarrow> Cache \<Rightarrow> string list \<Rightarrow> int \<Rightarrow> int \<Rightarrow> Cache" where
  "Cache_DeleteRange hash c0 keys mn mx =
     (let c = delete_range_loop hash mn mx keys (Cache_init c0)
      in c\<lparr>ca_stats := (ca_stats c)\<lparr>MemSizeBytes := Cache_Size c\<rparr>\<rparr>)"

definition Cache_Delete :: "(string \<Rightarrow> u64) \<Rightarrow> Cache \<Rightarrow> string list \<Rightarrow> Cache" where
  "Cache_Delete hash c keys = Cache_DeleteRange hash c keys MinInt64 MaxInt64"

definition Cache_SetMaxSize :: "u64 \<Rightarrow> Cache \<Rightarrow> Cache" where
  "Cache_SetMaxSize sz c = c\<lparr>ca_maxSize := sz\<rparr>"

section \<open>Runs\<close>

datatype cache_op =
    OpWrite string "Value list"
  | OpWriteMulti "(string \<times> Value list) list"
  | OpSnapshot
  | OpClearSnapshot bool
  | OpDeduplicate
  | OpSnapshotDeduplicate
  | OpValues string
  | OpDeleteRange "string list" int int
  | OpSetMaxSize u64
  | OpFree

text \<open>One call, with its error; \<open>None\<close> is the panic.\<close>

fun cache_exec :: "(string \<Rightarrow> u64) \<Rightarrow> cache_op \<Rightarrow> Cache \<Rightarrow> (cache_error option \<times> Cache) option" where
  "cache_exec hash (OpWrite key values) c = Some (Cache_Write hash c key values)"
| "cache_exec hash (OpWriteMulti values) c = Some (Cache_WriteMulti hash c values)"
| "cache_exec hash OpSnapshot c = Some (Cache_Snapshot c)"
| "cache_exec hash (OpClearSnapshot success) c = map_option (\<lambda>c'. (None, c')) (Cache_ClearSnapshot success c)"
| "cache_exec hash OpDeduplicate c = Some (None, Cache_Deduplicate c)"
| "cache_exec hash OpSnapshotDeduplicate c = Some (None, snapshot_Deduplicate c)"
| "cache_exec hash (OpValues key) c = Some (None, snd (Cache_Values hash c key))"
| "cache_exec hash (OpDeleteRange keys mn mx) c = Some (None, Cache_DeleteRange hash c keys mn mx)"
| "cache_exec hash (OpSetMaxSize sz) c = Some (None, Cache_SetMaxSize sz c)"
| "cache_exec hash OpFree c = Some (None, Cache_Free c)"

fun cache_run :: "(string \<Rightarrow> u64) \<Rightarrow> cache_op list \<Rightarrow> Cache \<Rightarrow> Cache option" where
  "cache_run hash [] c = Some c"
| "cache_run hash (op # ops) c =
     (case cache_exec hash op c of None \<Rightarrow> None | Some (_, c') \<Rightarrow> cache_run hash ops c')"

end
