(* ===== verification/TSMCacheProps.thy ===== *)
theory TSMCacheProps
  imports TSMCache "HOL-Library.Sublist"
begin

text \<open>
  What holds of every state a cache can reach: stores in order, sizes that never fall below the
  bytes held, entries that keep an invariant (locale \<open>entry_invariant\<close>), and the refinement of
  two maps from series keys and timestamps to values.
\<close>

section \<open>Stores of an initialised cache\<close>

definition good_store :: "(string \<Rightarrow> u64) \<Rightarrow> storer \<Rightarrow> bool" where
  "good_store hash s = (case s of emptyStore \<Rightarrow> False | ring_store r \<Rightarrow> ring_ok hash r)"

lemma good_storeE:
  assumes "good_store hash s"
  obtains r where "s = ring_store r" "ring_ok hash r"
  using assms by (auto simp: good_store_def split: storer.splits)

text \<open>The contract of the ring carries over.\<close>

interpretation st: entry_store "good_store hash" "storer_entry hash" "storer_write hash" "storer_remove hash"
  storer_reset storer_apply for hash
proof
  fix s assume g: "good_store hash s"
  then obtain r where r: "s = ring_store r" "ring_ok hash r" by (rule good_storeE)
  show "finite (dom (storer_entry hash s))" using rg.finite_get [OF r(2)] by (simp add: storer_entry_def [abs_def] r(1))
  show "storer_write hash s k vs = Inl err \<Longrightarrow> write_entry (storer_entry hash s k) vs = Inl err" for k vs err
    using rg.write_err [OF r(2)] by (auto simp: storer_write_def storer_entry_def r(1) split: sum.splits)
  show "good_store hash s' \<and> nk = (storer_entry hash s k = None) \<and>
      (\<exists>e. write_entry (storer_entry hash s k) vs = Inr e \<and> storer_entry hash s' = (storer_entry hash s)(k \<mapsto> e))"
    if "storer_write hash s k vs = Inr (nk, s')" for k vs nk s'
  proof -
    from that obtain r' where w: "ring_write hash r k vs = Inr (nk, r')" "s' = ring_store r'"
      by (auto simp: storer_write_def r(1) split: sum.splits)
    show ?thesis using rg.write_ok [OF r(2) w(1)] by (simp add: good_store_def storer_entry_def [abs_def] r(1) w(2))
  qed
  show "good_store hash (storer_remove hash s k) \<and> storer_entry hash (storer_remove hash s k) = (storer_entry hash s)(k := None)" for k
    using rg.remove_get [OF r(2), of k] by (simp add: good_store_def storer_remove_def storer_entry_def [abs_def] r(1) fun_upd_def)
  show "good_store hash (storer_reset s) \<and> storer_entry hash (storer_reset s) = Map.empty"
    using rg.reset_get [OF r(2)] by (simp add: good_store_def storer_reset_def storer_entry_def [abs_def] r(1))
  show "good_store hash (storer_apply s f) \<and> storer_entry hash (storer_apply s f) = (\<lambda>k. map_option (f k) (storer_entry hash s k))" for f
    using rg.apply_get [OF r(2)] by (simp add: good_store_def storer_apply_def storer_entry_def [abs_def] r(1))
qed

lemma good_new_store: "good_store hash new_store \<and> storer_entry hash new_store = Map.empty"
proof -
  obtain r where r: "newring (int partitions) = Inr r" by (simp add: newring_def partitions_def)
  have n: "new_store = ring_store r" using r by (simp add: new_store_def ringShards_def partitions_def)
  show ?thesis using newring_ok [OF r, of hash] unfolding n by (simp add: good_store_def storer_entry_def [abs_def])
qed

lemma storer_entry_emptyStore [simp]: "storer_entry hash emptyStore = Map.empty"
  by (simp add: storer_entry_def [abs_def])

lemma storer_apply_emptyStore [simp]: "storer_apply emptyStore f = emptyStore"
  by (simp add: storer_apply_def)

lemma storer_update_get:
  assumes "good_store hash s" "storer_entry hash s k = Some e"
  shows "good_store hash (storer_update s k f)" "storer_entry hash (storer_update s k f) = (storer_entry hash s)(k \<mapsto> f e)"
proof -
  show "good_store hash (storer_update s k f)"
    using st.apply_get [OF assms(1)] by (simp add: storer_update_def)
  show "storer_entry hash (storer_update s k f) = (storer_entry hash s)(k \<mapsto> f e)"
    using st.apply_get [OF assms(1)] assms(2)
    by (auto simp: storer_update_def fun_eq_iff option.map_ident)
qed

section \<open>Sizes of entries\<close>

lemma sum_val_Size_subset: "distinct (map val_UnixNano a) \<Longrightarrow> set a \<subseteq> set b \<Longrightarrow> sum_list (map val_Size a) \<le> sum_list (map val_Size b)"
proof -
  assume d: "distinct (map val_UnixNano a)" and s: "set a \<subseteq> set b"
  have da: "distinct a" using d by (simp add: distinct_map)
  have "sum_list (map val_Size a) = (\<Sum>v\<in>set a. val_Size v)" using da by (simp add: sum_list_distinct_conv_sum_set)
  also have "\<dots> \<le> (\<Sum>v\<in>set b. val_Size v)" using s by (intro sum_mono2) auto
  also have "\<dots> = sum_list (map val_Size (remdups b))" by (rule sum.set_conv_list)
  also have "\<dots> \<le> sum_list (map val_Size b)" by (induction b) auto
  finally show ?thesis .
qed

lemma size_Deduplicate: "values_Size (Deduplicate a) \<le> values_Size a"
  using sum_val_Size_subset [OF _ set_Deduplicate] ordered_distinct [OF Deduplicate_ordered]
  by (simp add: values_Size_def)

lemma size_filter: "values_Size (filter P a) \<le> values_Size a"
  by (induction a) (auto simp: values_Size_def)

lemma entry_deduplicate_values: "en_values (entry_deduplicate e) = Deduplicate (en_values e)"
  by (simp add: entry_deduplicate_def Deduplicate_def)

lemma entry_filter_values:
  "en_values (entry_filter e mn mx) = filter (\<lambda>v. \<not> (mn \<le> val_UnixNano v \<and> val_UnixNano v \<le> mx)) (Deduplicate (en_values e))"
proof -
  have "(if length (en_values e) > 1 then Deduplicate (en_values e) else en_values e) = Deduplicate (en_values e)"
    by (simp add: Deduplicate_def)
  then show ?thesis by (simp add: entry_filter_def Exclude_filter Deduplicate_ordered)
qed

lemma entry_size_deduplicate: "entry_size (entry_deduplicate e) \<le> entry_size e"
  by (simp add: entry_size_def entry_deduplicate_values size_Deduplicate)

lemma entry_size_filter: "entry_size (entry_filter e mn mx) \<le> entry_size e"
  by (simp add: entry_size_def entry_filter_values order_trans [OF size_filter size_Deduplicate])

section \<open>The invariant\<close>

abbreviation hot :: "(string \<Rightarrow> u64) \<Rightarrow> Cache \<Rightarrow> string \<Rightarrow> entry option" where
  "hot hash c \<equiv> storer_entry hash (ca_store c)"

definition stores_ok :: "(string \<Rightarrow> u64) \<Rightarrow> Cache \<Rightarrow> bool" where
  "stores_ok hash c \<longleftrightarrow>
     (if ca_initialized c then good_store hash (ca_store c) else ca_store c = emptyStore) \<and>
     (ca_snapshot c = None \<longrightarrow> ca_snapshotSize c = 0) \<and>
     (\<forall>sn. ca_snapshot c = Some sn \<longrightarrow> good_store hash (sn_store sn) \<and> sn_size sn = ca_snapshotSize c)"

definition cache_inv :: "(string \<Rightarrow> u64) \<Rightarrow> nat \<Rightarrow> Cache \<Rightarrow> bool" where
  "cache_inv hash W c \<longleftrightarrow> stores_ok hash c \<and>
     store_bytes (hot hash c) \<le> unat (ca_size c) \<and>
     store_bytes (snapshot_entry hash c) \<le> unat (ca_snapshotSize c) \<and>
     unat (ca_size c) + unat (ca_snapshotSize c) \<le> W \<and>
     MemSizeBytes (ca_stats c) = Cache_Size c"

lemma cache_invD:
  assumes "cache_inv hash W c"
  shows "stores_ok hash c" "store_bytes (hot hash c) \<le> unat (ca_size c)"
    "store_bytes (snapshot_entry hash c) \<le> unat (ca_snapshotSize c)"
    "unat (ca_size c) + unat (ca_snapshotSize c) \<le> W" "MemSizeBytes (ca_stats c) = Cache_Size c"
  using assms by (simp_all add: cache_inv_def)

lemma NewCache_inv: "cache_inv hash W (NewCache m)"
  by (simp add: cache_inv_def stores_ok_def NewCache_def snapshot_entry_def [abs_def] Cache_Size_def)

lemma snapshot_entry_cong: "ca_snapshot c = ca_snapshot d \<Longrightarrow> snapshot_entry hash c = snapshot_entry hash d"
  by (simp add: snapshot_entry_def [abs_def])

lemma snapshot_entry_stats [simp]: "snapshot_entry hash (c\<lparr>ca_stats := x\<rparr>) = snapshot_entry hash c"
  by (rule snapshot_entry_cong) simp

lemma stores_ok_stats [simp]: "stores_ok hash (c\<lparr>ca_stats := x\<rparr>) = stores_ok hash c"
  by (simp add: stores_ok_def)

lemmas cache_field_defs = increaseSize_def decreaseSize_def updateMemSize_def updateCachedBytes_def
  updateSnapshots_def count_WriteOK_def count_WriteErr_def count_WriteDropped_def

lemma init_facts:
  assumes "stores_ok hash c"
  shows "stores_ok hash (Cache_init c)" "good_store hash (ca_store (Cache_init c))"
    "hot hash (Cache_init c) = hot hash c" "snapshot_entry hash (Cache_init c) = snapshot_entry hash c"
    "ca_initialized (Cache_init c)"
  using assms good_new_store [of hash]
  by (auto simp: stores_ok_def Cache_init_def snapshot_entry_def [abs_def] split: option.splits)

lemma init_fields [simp]:
  "ca_size (Cache_init c) = ca_size c" "ca_snapshotSize (Cache_init c) = ca_snapshotSize c"
  "ca_stats (Cache_init c) = ca_stats c" "ca_snapshot (Cache_init c) = ca_snapshot c"
  "ca_snapshotting (Cache_init c) = ca_snapshotting c" "ca_maxSize (Cache_init c) = ca_maxSize c"
  "ca_snapshotAttempts (Cache_init c) = ca_snapshotAttempts c"
  "Cache_Size (Cache_init c) = Cache_Size c"
  by (simp_all add: Cache_init_def Cache_Size_def)

lemma init_inv: "cache_inv hash W c \<Longrightarrow> cache_inv hash W (Cache_init c)"
  using init_facts [of hash c] by (simp add: cache_inv_def)

lemma unat_add_exact: "unat (a :: u64) + n < 2 ^ 64 \<Longrightarrow> unat (a + of_nat n) = unat a + n"
  by (simp add: unat_word_ariths unat_of_nat mod_add_right_eq)

lemma decreaseSize_eq: "decreaseSize delta c = c\<lparr>ca_size := ca_size c - delta\<rparr>"
  by (simp add: decreaseSize_def not_eq_complement)

lemma unat_diff_of_nat: "n \<le> unat (a :: u64) \<Longrightarrow> unat (a - of_nat n) = unat a - n"
proof -
  assume n: "n \<le> unat a"
  then have "n < 2 ^ 64" using unsigned_less [of a, where ?'a = nat] by simp
  then have "unat (of_nat n :: u64) = n" by (simp add: unat_of_nat)
  then show ?thesis using n by (simp add: unat_sub word_le_nat_alt)
qed

section \<open>Every operation keeps the invariant\<close>

text \<open>What a call can add to the sizes, at most.\<close>

definition writes_cost :: "(string \<times> Value list) list \<Rightarrow> nat" where
  "writes_cost kvs = sum_list (map (\<lambda>(k, v). values_Size v + length k) kvs)"

fun op_cost :: "cache_op \<Rightarrow> nat" where
  "op_cost (OpWrite key values) = values_Size values + length key"
| "op_cost (OpWriteMulti values) = writes_cost values"
| "op_cost _ = 0"

lemma writes_cost_simps [simp]:
  "writes_cost [] = 0" "writes_cost ((k, v) # kvs) = values_Size v + length k + writes_cost kvs"
  by (simp_all add: writes_cost_def)

definition values_cost :: "(string \<times> Value list) list \<Rightarrow> nat" where
  "values_cost kvs = sum_list (map (\<lambda>(k, v). values_Size v) kvs)"

lemma values_cost_simps [simp]:
  "values_cost [] = 0" "values_cost ((k, v) # kvs) = values_Size v + values_cost kvs"
  by (simp_all add: values_cost_def)

definition keys_cost :: "(string \<times> Value list) list \<Rightarrow> nat" where
  "keys_cost kvs = sum_list (map (\<lambda>(k, v). length k) kvs)"

lemma keys_cost_simps [simp]:
  "keys_cost [] = 0" "keys_cost ((k, v) # kvs) = length k + keys_cost kvs"
  by (simp_all add: keys_cost_def)

lemma writes_cost_split: "writes_cost kvs = values_cost kvs + keys_cost kvs"
  by (induction kvs) auto

text \<open>Replacing one value or key list by another of no more bytes, and giving bytes back.\<close>

lemma inv_shrink:
  assumes "cache_inv hash W c" "stores_ok hash c'"
    and "store_bytes (hot hash c') \<le> store_bytes (hot hash c)"
    and "store_bytes (snapshot_entry hash c') \<le> store_bytes (snapshot_entry hash c)"
    and "ca_size c' = ca_size c" "ca_snapshotSize c' = ca_snapshotSize c" "ca_stats c' = ca_stats c"
  shows "cache_inv hash W c'"
  using assms by (auto simp: cache_inv_def Cache_Size_def)

lemma Write_inv:
  assumes inv: "cache_inv hash W c" and w: "W + op_cost (OpWrite k vs) < 2 ^ 64"
  shows "cache_inv hash (W + op_cost (OpWrite k vs)) (snd (Cache_Write hash c k vs))"
proof -
  define d where "d = Cache_init c"
  have di: "cache_inv hash W d" unfolding d_def using inv by (rule init_inv)
  have g: "good_store hash (ca_store d)" unfolding d_def using init_facts(2) cache_invD(1) [OF inv] by blast
  have err: "cache_inv hash (W + op_cost (OpWrite k vs)) (count_WriteErr d)"
    using di by (auto simp: cache_inv_def stores_ok_def count_WriteErr_def Cache_Size_def snapshot_entry_def [abs_def] split: if_splits)
  show ?thesis
  proof (cases "storer_write hash (ca_store d) k vs")
    case (Inl e)
    then show ?thesis using err by (simp add: Cache_Write_def d_def [symmetric] Let_def)
  next
    case (Inr p)
    obtain nk s where p: "p = (nk, s)" by (cases p)
    have s: "good_store hash s" using st.write_ok [OF g Inr [unfolded p]] by simp
    have bytes: "store_bytes (storer_entry hash s) = store_bytes (hot hash d) + values_Size vs + (if nk then length k else 0)"
      by (rule st.write_bytes [OF g Inr [unfolded p]])
    define added :: nat where "added = values_Size vs + (if nk then length k else 0)"
    have aw: "(if nk then of_nat (values_Size vs) + of_nat (length k) else of_nat (values_Size vs)) = (of_nat added :: u64)"
      by (simp add: added_def)
    have le: "added \<le> op_cost (OpWrite k vs)" by (simp add: added_def)
    have bytes': "store_bytes (storer_entry hash s) = store_bytes (hot hash d) + added"
      using bytes by (simp add: added_def)
    have "unat (ca_size d) + added < 2 ^ 64" using cache_invD(4) [OF di] w le by simp
    then have sz: "unat (ca_size d + of_nat added) = unat (ca_size d) + added" by (rule unat_add_exact)
    have "cache_inv hash (W + op_cost (OpWrite k vs))
        (count_WriteOK (updateMemSize (of_nat added) (increaseSize (of_nat added) (d\<lparr>ca_store := s\<rparr>))))"
      using di s bytes' le init_facts(5) [OF cache_invD(1) [OF inv]]
      by (auto simp: cache_inv_def stores_ok_def cache_field_defs Cache_Size_def snapshot_entry_def [abs_def] sz
          d_def [symmetric] simp del: op_cost.simps)
    then show ?thesis using err Inr
      by (simp add: Cache_Write_def d_def [symmetric] Let_def p aw)
  qed
qed

text \<open>
  Within the loop of a batch the size is ahead by the values still to be written, and the statistic
  behind by what will be added at the end.
\<close>

lemma write_multi_loop_inv:
  assumes "stores_ok hash c" "ca_initialized c"
    and "store_bytes (hot hash c) + values_cost kvs \<le> unat (ca_size c)"
    and "unat (ca_size c) + unat (ca_snapshotSize c) + keys_cost kvs \<le> W" "W < 2 ^ 64"
    and "MemSizeBytes (ca_stats c) + added = Cache_Size c"
    and "write_multi_loop hash kvs c added werr = (c', added', werr')"
  shows "stores_ok hash c' \<and> ca_initialized c' \<and> store_bytes (hot hash c') \<le> unat (ca_size c') \<and>
    unat (ca_size c') + unat (ca_snapshotSize c') \<le> W \<and> MemSizeBytes (ca_stats c') + added' = Cache_Size c' \<and>
    ca_snapshotSize c' = ca_snapshotSize c \<and> ca_snapshot c' = ca_snapshot c \<and> ca_snapshotting c' = ca_snapshotting c"
  using assms
proof (induction hash kvs c added werr rule: write_multi_loop.induct)
  case (2 hash k v rest c added werr)
  have g: "good_store hash (ca_store c)" using "2.prems"(1,2) by (simp add: stores_ok_def)
  show ?case
  proof (cases "storer_write hash (ca_store c) k v")
    case (Inl e)
    let ?c = "decreaseSize (of_nat (values_Size v)) c"
    have sz: "unat (ca_size ?c) = unat (ca_size c) - values_Size v"
      using unat_diff_of_nat [of "values_Size v" "ca_size c"] "2.prems"(3) by (simp add: decreaseSize_eq)
    have "stores_ok hash ?c" using "2.prems"(1) by (simp add: stores_ok_def decreaseSize_def)
    moreover have "store_bytes (hot hash ?c) + values_cost rest \<le> unat (ca_size ?c)"
      using "2.prems"(3) by (simp add: sz) (simp add: decreaseSize_def)
    moreover have "unat (ca_size ?c) + unat (ca_snapshotSize ?c) + keys_cost rest \<le> W"
      using "2.prems"(4) by (simp add: sz) (simp add: decreaseSize_def)
    moreover have "MemSizeBytes (ca_stats ?c) + (added - of_nat (values_Size v)) = Cache_Size ?c"
      using "2.prems"(6) by (simp add: decreaseSize_eq Cache_Size_def)
    ultimately show ?thesis
      using "2.IH"(1) [OF Inl] "2.prems"(2,5,7) Inl by (auto simp: decreaseSize_def)
  next
    case (Inr p)
    obtain nk s where p: "p = (nk, s)" by (cases p)
    have s: "good_store hash s" using st.write_ok [OF g Inr [unfolded p]] by simp
    have bytes: "store_bytes (storer_entry hash s) = store_bytes (hot hash c) + values_Size v + (if nk then length k else 0)"
      by (rule st.write_bytes [OF g Inr [unfolded p]])
    show ?thesis
    proof (cases nk)
      case True
      let ?c = "increaseSize (of_nat (length k)) (c\<lparr>ca_store := s\<rparr>)"
      have "unat (ca_size c) + length k < 2 ^ 64" using "2.prems"(4,5) by simp
      then have sz: "unat (ca_size ?c) = unat (ca_size c) + length k" by (simp add: increaseSize_def unat_add_exact)
      have "stores_ok hash ?c" using "2.prems"(1,2) s by (simp add: stores_ok_def increaseSize_def)
      moreover have "store_bytes (hot hash ?c) + values_cost rest \<le> unat (ca_size ?c)"
        using "2.prems"(3) bytes True by (simp add: sz) (simp add: increaseSize_def)
      moreover have "unat (ca_size ?c) + unat (ca_snapshotSize ?c) + keys_cost rest \<le> W"
        using "2.prems"(4) by (simp add: sz) (simp add: increaseSize_def)
      moreover have "MemSizeBytes (ca_stats ?c) + (added + of_nat (length k)) = Cache_Size ?c"
        using "2.prems"(6) by (simp add: increaseSize_def Cache_Size_def)
      ultimately show ?thesis
        using "2.IH"(2) [OF Inr p [symmetric] True] "2.prems"(2,5,7) Inr p True by (auto simp: increaseSize_def)
    next
      case False
      let ?c = "c\<lparr>ca_store := s\<rparr>"
      have "stores_ok hash ?c" using "2.prems"(1,2) s by (simp add: stores_ok_def)
      moreover have "store_bytes (hot hash ?c) + values_cost rest \<le> unat (ca_size ?c)"
        using "2.prems"(3) bytes False by simp
      moreover have "unat (ca_size ?c) + unat (ca_snapshotSize ?c) + keys_cost rest \<le> W"
        using "2.prems"(4) by simp
      moreover have "MemSizeBytes (ca_stats ?c) + added = Cache_Size ?c"
        using "2.prems"(6) by (simp add: Cache_Size_def)
      ultimately show ?thesis
        using "2.IH"(3) [OF Inr p [symmetric] False] "2.prems"(2,5,7) Inr p False by auto
    qed
  qed
qed auto

lemma sum_list_of_nat: "sum_list (map (\<lambda>(k, v). of_nat (values_Size v)) kvs) = (of_nat (values_cost kvs) :: u64)"
  by (induction kvs) auto

lemma WriteMulti_inv:
  assumes inv: "cache_inv hash W c" and w: "W + op_cost (OpWriteMulti kvs) < 2 ^ 64"
  shows "cache_inv hash (W + op_cost (OpWriteMulti kvs)) (snd (Cache_WriteMulti hash c kvs))"
proof -
  define d where "d = Cache_init c"
  have di: "cache_inv hash W d" unfolding d_def using inv by (rule init_inv)
  have ini: "ca_initialized d" unfolding d_def using init_facts(5) cache_invD(1) [OF inv] by blast
  have err: "cache_inv hash (W + op_cost (OpWriteMulti kvs)) (count_WriteErr d)"
    using di by (auto simp: cache_inv_def stores_ok_def count_WriteErr_def Cache_Size_def snapshot_entry_def [abs_def] split: if_splits)
  define added :: u64 where "added = of_nat (values_cost kvs)"
  obtain c1 a1 e1 where l: "write_multi_loop hash kvs (increaseSize added d) added None = (c1, a1, e1)"
    by (cases "write_multi_loop hash kvs (increaseSize added d) added None")
  have "unat (ca_size d) + values_cost kvs < 2 ^ 64" using cache_invD(4) [OF di] w by (simp add: writes_cost_split)
  then have sz: "unat (ca_size d + added) = unat (ca_size d) + values_cost kvs" unfolding added_def by (rule unat_add_exact)
  have r: "stores_ok hash c1 \<and> ca_initialized c1 \<and> store_bytes (hot hash c1) \<le> unat (ca_size c1) \<and>
    unat (ca_size c1) + unat (ca_snapshotSize c1) \<le> W + writes_cost kvs \<and> MemSizeBytes (ca_stats c1) + a1 = Cache_Size c1 \<and>
    ca_snapshotSize c1 = ca_snapshotSize (increaseSize added d) \<and> ca_snapshot c1 = ca_snapshot (increaseSize added d) \<and>
    ca_snapshotting c1 = ca_snapshotting (increaseSize added d)"
  proof (rule write_multi_loop_inv [OF _ _ _ _ _ _ l])
    show "stores_ok hash (increaseSize added d)" using cache_invD(1) [OF di] by (simp add: stores_ok_def increaseSize_def)
    show "ca_initialized (increaseSize added d)" using ini by (simp add: increaseSize_def)
    show "store_bytes (hot hash (increaseSize added d)) + values_cost kvs \<le> unat (ca_size (increaseSize added d))"
      using cache_invD(2) [OF di] by (simp add: increaseSize_def sz)
    show "unat (ca_size (increaseSize added d)) + unat (ca_snapshotSize (increaseSize added d)) + keys_cost kvs \<le> W + writes_cost kvs"
      using cache_invD(4) [OF di] by (simp add: increaseSize_def sz writes_cost_split)
    show "W + writes_cost kvs < 2 ^ 64" using w by simp
    show "MemSizeBytes (ca_stats (increaseSize added d)) + added = Cache_Size (increaseSize added d)"
      using cache_invD(5) [OF di] by (simp add: increaseSize_def Cache_Size_def)
  qed
  have sn: "store_bytes (snapshot_entry hash c1) \<le> unat (ca_snapshotSize c1)"
    using r cache_invD(3) [OF di] snapshot_entry_cong [of c1 d hash] by (simp add: increaseSize_def)
  have "cache_inv hash (W + writes_cost kvs) (count_WriteOK (updateMemSize a1 c2))"
    if "c2 = (if e1 \<noteq> None then count_WriteErr (count_WriteDropped c1) else c1)" for c2
    using r sn that by (auto simp: cache_inv_def stores_ok_def cache_field_defs Cache_Size_def snapshot_entry_def [abs_def] split: if_splits)
  then show ?thesis using err
    by (simp add: Cache_WriteMulti_def d_def [symmetric] Let_def sum_list_of_nat added_def [symmetric] l)
qed

lemma Snapshot_inv:
  assumes inv: "cache_inv hash W c"
  shows "cache_inv hash W (snd (Cache_Snapshot c))"
proof -
  define d where "d = Cache_init c"
  have di: "cache_inv hash W d" unfolding d_def using inv by (rule init_inv)
  have ini: "ca_initialized d" and g: "good_store hash (ca_store d)"
    unfolding d_def using init_facts(2,5) cache_invD(1) [OF inv] by blast+
  define sn where "sn = (case ca_snapshot d of None \<Rightarrow> \<lparr>sn_store = new_store, sn_size = 0\<rparr> | Some sn \<Rightarrow> sn)"
  have sn: "good_store hash (sn_store sn)" "sn_size sn = ca_snapshotSize d"
    using cache_invD(1) [OF di] good_new_store [of hash] by (auto simp: sn_def stores_ok_def split: option.splits)
  have b: "snapshot_entry hash d = storer_entry hash (sn_store sn)"
    using good_new_store [of hash] by (auto simp: snapshot_entry_def [abs_def] sn_def fun_eq_iff split: option.splits)
  have rs: "good_store hash (storer_reset (sn_store sn))" "storer_entry hash (storer_reset (sn_store sn)) = Map.empty"
    using st.reset_get [OF sn(1)] by auto
  note D = cache_invD [OF di]
  show ?thesis
  proof (cases "ca_snapshotting d")
    case True
    then show ?thesis using di by (simp add: Cache_Snapshot_def d_def [symmetric])
  next
    case False
    show ?thesis
    proof (cases "sn_size sn > 0")
      case True
      have "cache_inv hash W (d\<lparr>ca_snapshotting := True, ca_snapshotAttempts := n, ca_snapshot := Some sn\<rparr>)" for n
        using D sn g ini b
        by (simp add: cache_inv_def stores_ok_def Cache_Size_def snapshot_entry_def [abs_def] option.case_eq_if)
      then show ?thesis using True False by (simp add: Cache_Snapshot_def d_def [symmetric] Let_def sn_def [symmetric])
    next
      case F: False
      then have z: "ca_snapshotSize d = 0" using sn(2) by (simp add: word_neq_0_conv [symmetric])
      then show ?thesis using F False rs D g ini
        by (simp add: Cache_Snapshot_def d_def [symmetric] Let_def sn_def [symmetric] cache_inv_def stores_ok_def
            cache_field_defs Cache_Size_def snapshot_entry_def [abs_def])
    qed
  qed
qed

lemma ClearSnapshot_inv:
  assumes inv: "cache_inv hash W c" and x: "Cache_ClearSnapshot success c = Some c'"
  shows "cache_inv hash W c'"
proof -
  define d where "d = Cache_init c"
  have di: "cache_inv hash W d" unfolding d_def using inv by (rule init_inv)
  note D = cache_invD [OF di]
  obtain sn where sn: "ca_snapshot d = Some sn" "good_store hash (sn_store sn)"
    using x D(1) by (auto simp: Cache_ClearSnapshot_def d_def [symmetric] stores_ok_def Let_def split: option.splits)
  have rs: "good_store hash (storer_reset (sn_store sn))" "storer_entry hash (storer_reset (sn_store sn)) = Map.empty"
    using st.reset_get [OF sn(2)] by auto
  show ?thesis
  proof (cases success)
    case True
    then have "c' = updateSnapshots ((updateMemSize (- ca_snapshotSize d) (d\<lparr>ca_snapshotting := False, ca_snapshotAttempts := 0\<rparr>))
        \<lparr>ca_snapshot := Some \<lparr>sn_store = storer_reset (sn_store sn), sn_size = 0\<rparr>, ca_snapshotSize := 0\<rparr>)"
      using x sn(1) by (simp add: Cache_ClearSnapshot_def d_def [symmetric] Let_def)
    then show ?thesis using D rs
      by (auto simp: cache_inv_def stores_ok_def cache_field_defs Cache_Size_def snapshot_entry_def [abs_def] split: if_splits)
  next
    case False
    then have "c' = d\<lparr>ca_snapshotting := False\<rparr>"
      using x sn(1) by (simp add: Cache_ClearSnapshot_def d_def [symmetric] Let_def)
    then show ?thesis using D
      by (auto simp: cache_inv_def stores_ok_def Cache_Size_def snapshot_entry_def [abs_def] split: if_splits)
  qed
qed

lemma storer_update_shrinks:
  assumes "good_store hash s" "\<And>e. entry_size (f e) \<le> entry_size e"
  shows "good_store hash (storer_update s k f)"
    "store_bytes (storer_entry hash (storer_update s k f)) \<le> store_bytes (storer_entry hash s)"
  using st.apply_get [OF assms(1)] st.apply_bytes [OF assms(1), of "\<lambda>x e. if x = k then f e else e"] assms(2)
  by (simp_all add: storer_update_def)

lemma Values_inv:
  assumes inv: "cache_inv hash W c"
  shows "cache_inv hash W (snd (Cache_Values hash c key))"
proof -
  note D = cache_invD [OF inv]
  note sh = storer_update_shrinks [where f = entry_deduplicate, OF _ entry_size_deduplicate]
  let ?c = "c\<lparr>ca_store := storer_update (ca_store c) key entry_deduplicate,
      ca_snapshot := map_option (\<lambda>sn. sn\<lparr>sn_store := storer_update (sn_store sn) key entry_deduplicate\<rparr>) (ca_snapshot c)\<rparr>"
  have "cache_inv hash W ?c"
  proof (rule inv_shrink [OF inv])
    show "stores_ok hash ?c" using D(1) sh(1) by (auto simp: stores_ok_def storer_update_def)
    show "store_bytes (hot hash ?c) \<le> store_bytes (hot hash c)"
      using D(1) sh(2) by (auto simp: stores_ok_def storer_update_def split: if_splits)
    show "store_bytes (snapshot_entry hash ?c) \<le> store_bytes (snapshot_entry hash c)"
      using D(1) sh(2) by (cases "ca_snapshot c") (auto simp: stores_ok_def snapshot_entry_def [abs_def])
  qed simp_all
  then show ?thesis using inv by (auto simp: Cache_Values_def Let_def)
qed

lemma Deduplicate_inv:
  assumes inv: "cache_inv hash W c"
  shows "cache_inv hash W (Cache_Deduplicate c)" "cache_inv hash W (snapshot_Deduplicate c)"
proof -
  note D = cache_invD [OF inv]
  note sh = st.apply_bytes [where f = "\<lambda>k e. entry_deduplicate e", OF _ entry_size_deduplicate]
  show "cache_inv hash W (Cache_Deduplicate c)"
  proof (rule inv_shrink [OF inv])
    show "stores_ok hash (Cache_Deduplicate c)"
      using D(1) st.apply_get by (auto simp: stores_ok_def Cache_Deduplicate_def)
    show "store_bytes (hot hash (Cache_Deduplicate c)) \<le> store_bytes (hot hash c)"
      using D(1) sh by (auto simp: stores_ok_def Cache_Deduplicate_def split: if_splits)
  qed (simp_all add: Cache_Deduplicate_def snapshot_entry_def [abs_def])
  show "cache_inv hash W (snapshot_Deduplicate c)"
  proof (rule inv_shrink [OF inv])
    show "stores_ok hash (snapshot_Deduplicate c)"
      using D(1) st.apply_get by (auto simp: stores_ok_def snapshot_Deduplicate_def)
    show "store_bytes (snapshot_entry hash (snapshot_Deduplicate c)) \<le> store_bytes (snapshot_entry hash c)"
      using D(1) sh by (cases "ca_snapshot c") (auto simp: stores_ok_def snapshot_Deduplicate_def snapshot_entry_def [abs_def])
  qed (simp_all add: snapshot_Deduplicate_def)
qed

text \<open>In the loop of a deletion the bytes given back were counted before.\<close>

definition hot_ok :: "(string \<Rightarrow> u64) \<Rightarrow> Cache \<Rightarrow> bool" where
  "hot_ok hash c \<longleftrightarrow> good_store hash (ca_store c) \<and> store_bytes (hot hash c) \<le> unat (ca_size c)"

lemma hot_ok_release:
  assumes "hot_ok hash c" "good_store hash s" "store_bytes (storer_entry hash s) + n \<le> store_bytes (hot hash c)"
  shows "hot_ok hash ((decreaseSize (of_nat n) c)\<lparr>ca_store := s\<rparr>)"
    "unat (ca_size (decreaseSize (of_nat n) c)) \<le> unat (ca_size c)"
proof -
  have "n \<le> unat (ca_size c)" using assms(1,3) by (simp add: hot_ok_def)
  then have "unat (ca_size (decreaseSize (of_nat n) c)) = unat (ca_size c) - n"
    by (simp add: decreaseSize_eq unat_diff_of_nat)
  then show "hot_ok hash ((decreaseSize (of_nat n) c)\<lparr>ca_store := s\<rparr>)"
    "unat (ca_size (decreaseSize (of_nat n) c)) \<le> unat (ca_size c)"
    using assms by (auto simp: hot_ok_def)
qed

lemma delete_range_loop_inv:
  assumes "hot_ok hash c"
  shows "hot_ok hash (delete_range_loop hash mn mx ks c) \<and>
    unat (ca_size (delete_range_loop hash mn mx ks c)) \<le> unat (ca_size c) \<and>
    ca_snapshotSize (delete_range_loop hash mn mx ks c) = ca_snapshotSize c \<and>
    ca_snapshot (delete_range_loop hash mn mx ks c) = ca_snapshot c \<and>
    ca_snapshotting (delete_range_loop hash mn mx ks c) = ca_snapshotting c \<and>
    ca_initialized (delete_range_loop hash mn mx ks c) = ca_initialized c"
  using assms
proof (induction hash mn mx ks c rule: delete_range_loop.induct)
  case (2 hash mn mx k ks c)
  have g: "good_store hash (ca_store c)" using "2.prems" by (simp add: hot_ok_def)
  show ?case
  proof (cases "hot hash c k")
    case None
    then show ?thesis using "2.IH"(1) "2.prems" by simp
  next
    case (Some e)
    have rm: "store_bytes (hot hash c) = store_bytes (storer_entry hash (storer_remove hash (ca_store c) k)) + length k + entry_size e"
      "good_store hash (storer_remove hash (ca_store c) k)"
      using st.remove_bytes [OF g Some] st.remove_get [OF g] by auto
    show ?thesis
    proof (cases "mn = MinInt64 \<and> mx = MaxInt64")
      case True
      let ?c = "(decreaseSize (of_nat (entry_size e) + of_nat (length k)) c)\<lparr>ca_store := storer_remove hash (ca_store c) k\<rparr>"
      have "hot_ok hash ?c \<and> unat (ca_size ?c) \<le> unat (ca_size c)"
        using hot_ok_release [OF "2.prems" rm(2), of "entry_size e + length k"] rm(1) by simp
      then show ?thesis
        using "2.IH"(2) [OF Some refl True] Some True by (auto simp: Let_def decreaseSize_def)
    next
      case False
      define e' where "e' = entry_filter e mn mx"
      define s where "s = storer_update (ca_store c) k (\<lambda>_. e')"
      have s: "good_store hash s" "storer_entry hash s = (hot hash c)(k \<mapsto> e')"
        using storer_update_get [OF g Some] by (auto simp: s_def)
      have fin: "finite (dom (hot hash c))" by (rule st.finite_get [OF g])
      have bs: "store_bytes (storer_entry hash s) + entry_size e = store_bytes (hot hash c) + entry_size e'"
        using store_bytes_upd [OF fin, of k e'] store_bytes_del [OF fin Some] by (simp add: s(2))
      have le: "entry_size e' \<le> entry_size e" by (simp add: e'_def entry_size_filter)
      show ?thesis
      proof (cases "entry_count e' = 0")
        case t: True
        have sr: "good_store hash (storer_remove hash s k)"
          "storer_entry hash (storer_remove hash s k) = storer_entry hash (storer_remove hash (ca_store c) k)"
          using st.remove_get [OF s(1)] st.remove_get [OF g] by (auto simp: s(2))
        let ?c = "(decreaseSize (of_nat (entry_size e) + of_nat (length k)) c)\<lparr>ca_store := storer_remove hash s k\<rparr>"
        have "hot_ok hash ?c \<and> unat (ca_size ?c) \<le> unat (ca_size c)"
          using hot_ok_release [OF "2.prems" sr(1), of "entry_size e + length k"] rm(1) by (simp add: sr(2))
        then show ?thesis
          using "2.IH"(3) [OF Some refl False e'_def s_def t] Some False t
          by (auto simp: Let_def decreaseSize_def e'_def [symmetric] s_def [symmetric])
      next
        case f: False
        let ?c = "(decreaseSize (of_nat (entry_size e) - of_nat (entry_size e')) c)\<lparr>ca_store := s\<rparr>"
        have "hot_ok hash ?c \<and> unat (ca_size ?c) \<le> unat (ca_size c)"
          using hot_ok_release [OF "2.prems" s(1), of "entry_size e - entry_size e'"] bs le by (simp add: of_nat_diff)
        then show ?thesis
          using "2.IH"(4) [OF Some refl False e'_def s_def f] Some False f
          by (auto simp: Let_def decreaseSize_def e'_def [symmetric] s_def [symmetric])
      qed
    qed
  qed
qed auto

lemma DeleteRange_inv:
  assumes inv: "cache_inv hash W c"
  shows "cache_inv hash W (Cache_DeleteRange hash c ks mn mx)"
proof -
  define d where "d = Cache_init c"
  have di: "cache_inv hash W d" unfolding d_def using inv by (rule init_inv)
  have ini: "ca_initialized d" and g: "good_store hash (ca_store d)"
    unfolding d_def using init_facts(2,5) cache_invD(1) [OF inv] by blast+
  note D = cache_invD [OF di]
  define c' where "c' = delete_range_loop hash mn mx ks d"
  have c': "hot_ok hash c' \<and> unat (ca_size c') \<le> unat (ca_size d) \<and> ca_snapshotSize c' = ca_snapshotSize d \<and>
    ca_snapshot c' = ca_snapshot d \<and> ca_initialized c' = ca_initialized d"
    unfolding c'_def using delete_range_loop_inv [of hash d mn mx ks] g D(2) by (simp add: hot_ok_def)
  have sn: "snapshot_entry hash c' = snapshot_entry hash d" using c' by (intro snapshot_entry_cong) simp
  have so: "stores_ok hash c'" using c' D(1) ini by (simp add: stores_ok_def hot_ok_def)
  have x: "Cache_DeleteRange hash c ks mn mx = c'\<lparr>ca_stats := (ca_stats c')\<lparr>MemSizeBytes := Cache_Size c'\<rparr>\<rparr>"
    by (simp add: Cache_DeleteRange_def d_def [symmetric] c'_def [symmetric] Let_def)
  have "store_bytes (snapshot_entry hash c') \<le> unat (ca_snapshotSize c')" using sn D(3) c' by simp
  moreover have "store_bytes (hot hash c') \<le> unat (ca_size c')" using c' by (simp add: hot_ok_def)
  moreover have "unat (ca_size c') + unat (ca_snapshotSize c') \<le> W" using c' D(4) by simp
  ultimately show ?thesis
    using so unfolding x by (simp add: cache_inv_def Cache_Size_def)
qed

lemma Free_inv: "cache_inv hash W c \<Longrightarrow> cache_inv hash W (Cache_Free c)"
  by (auto simp: cache_inv_def stores_ok_def Cache_Free_def Cache_Size_def snapshot_entry_def [abs_def])

lemma SetMaxSize_inv: "cache_inv hash W c \<Longrightarrow> cache_inv hash W (Cache_SetMaxSize n c)"
  by (auto simp: cache_inv_def stores_ok_def Cache_SetMaxSize_def Cache_Size_def snapshot_entry_def [abs_def] split: if_splits)

lemma cache_exec_inv:
  assumes "cache_inv hash W c" "W + op_cost op < 2 ^ 64" "cache_exec hash op c = Some (err, c')"
  shows "cache_inv hash (W + op_cost op) c'"
proof (cases op)
  case (OpWrite k vs)
  then show ?thesis using assms Write_inv [of hash W c k vs] by simp
next
  case (OpWriteMulti kvs)
  then show ?thesis using assms WriteMulti_inv [of hash W c kvs] by simp
qed (use assms Snapshot_inv [OF assms(1)] ClearSnapshot_inv [OF assms(1)] Deduplicate_inv [OF assms(1)]
    Values_inv [OF assms(1)] DeleteRange_inv [OF assms(1)] Free_inv [OF assms(1)] SetMaxSize_inv [OF assms(1)]
    in \<open>auto dest: arg_cong [where f = snd]\<close>)

definition total_cost :: "cache_op list \<Rightarrow> nat" where
  "total_cost ops = sum_list (map op_cost ops)"

lemma total_cost_simps [simp]: "total_cost [] = 0" "total_cost (op # ops) = op_cost op + total_cost ops"
  by (simp_all add: total_cost_def)

lemma cache_run_inv:
  assumes "cache_inv hash W c" "W + total_cost ops < 2 ^ 64" "cache_run hash ops c = Some c'"
  shows "cache_inv hash (W + total_cost ops) c'"
  using assms
proof (induction ops arbitrary: W c)
  case (Cons op ops)
  obtain err d where d: "cache_exec hash op c = Some (err, d)" "cache_run hash ops d = Some c'"
    using Cons.prems(3) by (auto split: option.splits)
  have "cache_inv hash (W + op_cost op) d" using cache_exec_inv [OF Cons.prems(1) _ d(1)] Cons.prems(2) by simp
  then show ?case using Cons.IH [of "W + op_cost op" d] d(2) Cons.prems(2) by (simp add: add.assoc)
qed simp

end
