(* ===== verification/TSMCacheRefine.thy ===== *)
theory TSMCacheRefine
  imports TSMCacheProps
begin

text \<open>
  Two views of a cache that its operations keep: every entry satisfies an invariant of entries
  (locale \<open>entry_invariant\<close>: typing, timestamps in range), and the cache refines an abstract one,
  which is just two maps from series keys and timestamps to values and a flag.
\<close>

section \<open>What the operations do to the entries\<close>

text \<open>A batch, and a deletion, on the map of the entries.\<close>

fun apply_batch :: "(string \<Rightarrow> entry option) \<Rightarrow> (string \<times> Value list) list \<Rightarrow> string \<Rightarrow> entry option" where
  "apply_batch m [] = m"
| "apply_batch m ((k, v) # kvs) =
     (case write_entry (m k) v of Inl err \<Rightarrow> apply_batch m kvs | Inr e \<Rightarrow> apply_batch (m(k \<mapsto> e)) kvs)"

fun apply_delete :: "int \<Rightarrow> int \<Rightarrow> (string \<Rightarrow> entry option) \<Rightarrow> string list \<Rightarrow> string \<Rightarrow> entry option" where
  "apply_delete mn mx m [] = m"
| "apply_delete mn mx m (k # ks) =
     (case m k of
        None \<Rightarrow> apply_delete mn mx m ks
      | Some e \<Rightarrow>
          if (mn = MinInt64 \<and> mx = MaxInt64) \<or> en_values (entry_filter e mn mx) = []
          then apply_delete mn mx (m(k := None)) ks
          else apply_delete mn mx (m(k \<mapsto> entry_filter e mn mx)) ks)"

lemma storer_write_cases:
  assumes "good_store hash s"
  shows "(\<exists>err. storer_write hash s k vs = Inl err \<and> write_entry (storer_entry hash s k) vs = Inl err) \<or>
    (\<exists>nk s' e. storer_write hash s k vs = Inr (nk, s') \<and> good_store hash s' \<and>
       write_entry (storer_entry hash s k) vs = Inr e \<and> storer_entry hash s' = (storer_entry hash s)(k \<mapsto> e))"
proof (cases "storer_write hash s k vs")
  case (Inl err)
  then show ?thesis using st.write_err [OF assms] by blast
next
  case (Inr p)
  moreover obtain nk s' where "p = (nk, s')" by (cases p)
  ultimately show ?thesis using st.write_ok [OF assms, of k vs nk s'] by auto
qed

text \<open>The writes of a batch that are not refused.\<close>

fun batch_accepted :: "(string \<Rightarrow> entry option) \<Rightarrow> (string \<times> Value list) list \<Rightarrow> (string \<times> Value list) list" where
  "batch_accepted m [] = []"
| "batch_accepted m ((k, v) # kvs) =
     (case write_entry (m k) v of Inl err \<Rightarrow> batch_accepted m kvs | Inr e \<Rightarrow> (k, v) # batch_accepted (m(k \<mapsto> e)) kvs)"

lemma subseq_batch_accepted: "subseq (batch_accepted m kvs) kvs"
  by (induction m kvs rule: batch_accepted.induct) (auto simp: fun_upd_def split: sum.splits intro: list_emb_Cons)

lemma batch_accepted_less: "batch_accepted m kvs \<noteq> (k, v) # kvs"
  using list_emb_length [OF subseq_batch_accepted [of m kvs]] by auto

lemma write_multi_loop_entries:
  assumes "good_store hash (ca_store c)" "write_multi_loop hash kvs c added werr = (c', added', werr')"
  shows "hot hash c' = apply_batch (hot hash c) kvs \<and>
    (werr' = None) = (werr = None \<and> batch_accepted (hot hash c) kvs = kvs) \<and>
    ca_snapshot c' = ca_snapshot c \<and> ca_snapshotting c' = ca_snapshotting c"
  using assms
proof (induction hash kvs c added werr rule: write_multi_loop.induct)
  case (2 hash k v rest c added werr)
  show ?case
    using storer_write_cases [OF "2.prems"(1), of k v] "2.IH" "2.prems"
    by (elim disjE exE conjE) (auto simp: cache_field_defs batch_accepted_less split: if_splits)
qed simp

lemma delete_range_loop_entries:
  assumes "good_store hash (ca_store c)"
  shows "hot hash (delete_range_loop hash mn mx ks c) = apply_delete mn mx (hot hash c) ks"
  using assms
proof (induction hash mn mx ks c rule: delete_range_loop.induct)
  case (2 hash mn mx k ks c)
  note g = "2.prems"
  show ?case
  proof (cases "hot hash c k")
    case None
    then show ?thesis using "2.IH"(1) g by simp
  next
    case (Some e)
    define e' where "e' = entry_filter e mn mx"
    define s where "s = storer_update (ca_store c) k (\<lambda>_. e')"
    have s: "good_store hash s" "storer_entry hash s = (hot hash c)(k \<mapsto> e')"
      using storer_update_get [OF g Some] by (auto simp: s_def)
    have r: "good_store hash (storer_remove hash (ca_store c) k)" "good_store hash (storer_remove hash s k)"
      "storer_entry hash (storer_remove hash (ca_store c) k) = (hot hash c)(k := None)"
      "storer_entry hash (storer_remove hash s k) = (hot hash c)(k := None)"
      using st.remove_get [OF g] st.remove_get [OF s(1)] by (auto simp: s(2))
    consider "mn = MinInt64 \<and> mx = MaxInt64" | "\<not> (mn = MinInt64 \<and> mx = MaxInt64)" "entry_count e' = 0"
      | "\<not> (mn = MinInt64 \<and> mx = MaxInt64)" "entry_count e' \<noteq> 0" by blast
    then show ?thesis
    proof cases
      case 1
      then show ?thesis using "2.IH"(2) [OF Some refl 1] Some r 1 by (simp add: Let_def decreaseSize_def fun_upd_def)
    next
      case 2
      then show ?thesis using "2.IH"(3) [OF Some refl 2(1) e'_def s_def 2(2)] Some r
        by (auto simp: Let_def decreaseSize_def fun_upd_def e'_def [symmetric] s_def [symmetric] entry_count_def)
    next
      case 3
      then show ?thesis using "2.IH"(4) [OF Some refl 3(1) e'_def s_def 3(2)] Some s
        by (auto simp: Let_def decreaseSize_def fun_upd_def e'_def [symmetric] s_def [symmetric] entry_count_def)
    qed
  qed
qed simp

lemma Write_entries:
  assumes "stores_ok hash c" "Cache_Write hash c k vs = (err, c')"
  shows "ca_snapshot c' = ca_snapshot c \<and> ca_snapshotting c' = ca_snapshotting c \<and>
    (case err of
       None \<Rightarrow> \<exists>e. write_entry (hot hash c k) vs = Inr e \<and> hot hash c' = (hot hash c)(k \<mapsto> e)
     | Some _ \<Rightarrow> hot hash c' = hot hash c)"
proof -
  define d where "d = Cache_init c"
  have d: "good_store hash (ca_store d)" "hot hash d = hot hash c" "ca_snapshot d = ca_snapshot c" "ca_snapshotting d = ca_snapshotting c"
    unfolding d_def using init_facts [OF assms(1)] by auto
  show ?thesis
    using storer_write_cases [OF d(1), of k vs] assms(2) d(2-4)
    by (elim disjE exE conjE) (auto simp: Cache_Write_def d_def [symmetric] Let_def cache_field_defs split: if_splits)
qed

lemma WriteMulti_entries:
  assumes "stores_ok hash c" "Cache_WriteMulti hash c kvs = (err, c')"
  shows "ca_snapshot c' = ca_snapshot c \<and> ca_snapshotting c' = ca_snapshotting c \<and>
    ((\<exists>e. err = Some e \<and> hot hash c' = hot hash c) \<or>
     (hot hash c' = apply_batch (hot hash c) kvs \<and> (err = None) = (batch_accepted (hot hash c) kvs = kvs)))"
proof -
  define d where "d = Cache_init c"
  have d: "good_store hash (ca_store d)" "hot hash d = hot hash c" "ca_snapshot d = ca_snapshot c" "ca_snapshotting d = ca_snapshotting c"
    unfolding d_def using init_facts [OF assms(1)] by auto
  define a :: u64 where "a = sum_list (map (\<lambda>(k, v). of_nat (values_Size v)) kvs)"
  obtain c1 a1 e1 where l: "write_multi_loop hash kvs (increaseSize a d) a None = (c1, a1, e1)"
    by (cases "write_multi_loop hash kvs (increaseSize a d) a None")
  have g: "good_store hash (ca_store (increaseSize a d))" using d(1) by (simp add: increaseSize_def)
  have w: "hot hash c1 = apply_batch (hot hash c) kvs" "(e1 = None) = (batch_accepted (hot hash c) kvs = kvs)"
    "ca_snapshot c1 = ca_snapshot c" "ca_snapshotting c1 = ca_snapshotting c"
    using write_multi_loop_entries [OF g l] d(2-4) by (auto simp: increaseSize_def)
  have "\<exists>e. err = Some e \<and> c' = count_WriteErr d \<or>
      err = e1 \<and> c' = count_WriteOK (updateMemSize a1 (if e1 \<noteq> None then count_WriteErr (count_WriteDropped c1) else c1))"
    using assms(2) by (auto simp: Cache_WriteMulti_def d_def [symmetric] a_def [symmetric] Let_def l split: if_splits)
  then show ?thesis
    using w d(2-4) by (elim exE disjE conjE) (auto simp: cache_field_defs)
qed

lemma DeleteRange_entries:
  assumes "stores_ok hash c"
  shows "hot hash (Cache_DeleteRange hash c ks mn mx) = apply_delete mn mx (hot hash c) ks"
    "ca_snapshot (Cache_DeleteRange hash c ks mn mx) = ca_snapshot c"
    "ca_snapshotting (Cache_DeleteRange hash c ks mn mx) = ca_snapshotting c"
proof -
  define d where "d = Cache_init c"
  have d: "good_store hash (ca_store d)" "hot hash d = hot hash c" "ca_snapshot d = ca_snapshot c" "ca_snapshotting d = ca_snapshotting c"
    unfolding d_def using init_facts [OF assms(1)] by auto
  have x: "ca_snapshot (delete_range_loop hash mn mx ks e) = ca_snapshot e \<and>
      ca_snapshotting (delete_range_loop hash mn mx ks e) = ca_snapshotting e" for e
    by (induction hash mn mx ks e rule: delete_range_loop.induct)
      (auto simp: Let_def decreaseSize_def split: option.splits)
  show "hot hash (Cache_DeleteRange hash c ks mn mx) = apply_delete mn mx (hot hash c) ks"
    using delete_range_loop_entries [OF d(1), of mn mx ks] d(2) by (simp add: Cache_DeleteRange_def d_def [symmetric] Let_def)
  show "ca_snapshot (Cache_DeleteRange hash c ks mn mx) = ca_snapshot c"
    "ca_snapshotting (Cache_DeleteRange hash c ks mn mx) = ca_snapshotting c"
    using x d(3,4) by (simp_all add: Cache_DeleteRange_def d_def [symmetric] Let_def)
qed

text \<open>A snapshot either keeps both stores, or moves the hot entries to an empty snapshot.\<close>

lemma Snapshot_entries:
  assumes "stores_ok hash c" "Cache_Snapshot c = (err, c')"
  shows "(err = Some ErrSnapshotInProgress \<and> ca_snapshotting c \<and> ca_snapshotting c' \<and>
        hot hash c' = hot hash c \<and> snapshot_entry hash c' = snapshot_entry hash c) \<or>
    (err = None \<and> \<not> ca_snapshotting c \<and> ca_snapshotting c' \<and> ca_snapshotSize c > 0 \<and>
        hot hash c' = hot hash c \<and> snapshot_entry hash c' = snapshot_entry hash c) \<or>
    (err = None \<and> \<not> ca_snapshotting c \<and> ca_snapshotting c' \<and> ca_snapshotSize c = 0 \<and>
        hot hash c' = Map.empty \<and> snapshot_entry hash c' = hot hash c)"
proof -
  define d where "d = Cache_init c"
  have d: "hot hash d = hot hash c" "ca_snapshot d = ca_snapshot c" "ca_snapshotting d = ca_snapshotting c"
      "snapshot_entry hash d = snapshot_entry hash c" "stores_ok hash d"
    unfolding d_def using init_facts [OF assms(1)] by auto
  define sn where "sn = (case ca_snapshot d of None \<Rightarrow> \<lparr>sn_store = new_store, sn_size = 0\<rparr> | Some sn \<Rightarrow> sn)"
  have sn: "good_store hash (sn_store sn)" "sn_size sn = ca_snapshotSize c"
    using d(5) good_new_store [of hash] by (auto simp: sn_def stores_ok_def d_def split: option.splits)
  have b: "snapshot_entry hash d = storer_entry hash (sn_store sn)"
    using good_new_store [of hash] by (auto simp: snapshot_entry_def [abs_def] sn_def fun_eq_iff split: option.splits)
  have rs: "storer_entry hash (storer_reset (sn_store sn)) = Map.empty"
    using st.reset_get [OF sn(1)] by auto
  show ?thesis
  proof (cases "ca_snapshotting d")
    case True
    then show ?thesis using assms(2) d by (auto simp: Cache_Snapshot_def d_def [symmetric])
  next
    case False
    show ?thesis
    proof (cases "sn_size sn > 0")
      case True
      then have "err = None" "c' = d\<lparr>ca_snapshotting := True, ca_snapshotAttempts := ca_snapshotAttempts d + 1, ca_snapshot := Some sn\<rparr>"
        using assms(2) False by (simp_all add: Cache_Snapshot_def d_def [symmetric] Let_def sn_def [symmetric])
      then show ?thesis using False True d b sn(2) by (simp add: snapshot_entry_def [abs_def])
    next
      case F: False
      then have z: "ca_snapshotSize c = 0" using sn(2) by (simp add: word_neq_0_conv [symmetric])
      have "err = None" "hot hash c' = Map.empty" "ca_snapshotting c'"
          "ca_snapshot c' = Some \<lparr>sn_store = ca_store d, sn_size = Cache_Size d\<rparr>"
        using assms(2) False F rs
        by (auto simp: Cache_Snapshot_def d_def [symmetric] Let_def sn_def [symmetric] cache_field_defs Cache_Size_def)
      then show ?thesis using False z d by (simp add: snapshot_entry_def [abs_def])
    qed
  qed
qed

lemma ClearSnapshot_entries:
  assumes "stores_ok hash c" "Cache_ClearSnapshot success c = Some c'"
  shows "hot hash c' = hot hash c \<and> \<not> ca_snapshotting c' \<and>
    snapshot_entry hash c' = (if success then Map.empty else snapshot_entry hash c)"
proof -
  define d where "d = Cache_init c"
  have d: "hot hash d = hot hash c" "ca_snapshot d = ca_snapshot c" "snapshot_entry hash d = snapshot_entry hash c" "stores_ok hash d"
    unfolding d_def using init_facts [OF assms(1)] by auto
  obtain sn where sn: "ca_snapshot d = Some sn" "good_store hash (sn_store sn)"
    using assms(2) d(4) by (auto simp: Cache_ClearSnapshot_def d_def [symmetric] stores_ok_def Let_def split: option.splits)
  have "storer_entry hash (storer_reset (sn_store sn)) = Map.empty" using st.reset_get [OF sn(2)] by auto
  then show ?thesis
    using assms(2) sn(1) d by (auto simp: Cache_ClearSnapshot_def d_def [symmetric] Let_def cache_field_defs snapshot_entry_def [abs_def] split: if_splits)
qed

lemma storer_apply_get:
  assumes "s = emptyStore \<or> good_store hash s"
  shows "storer_entry hash (storer_apply s f) = (\<lambda>k. map_option (f k) (storer_entry hash s k))"
  using assms st.apply_get by auto

lemma stores_ok_cases:
  assumes "stores_ok hash c"
  shows "ca_store c = emptyStore \<or> good_store hash (ca_store c)"
    "ca_snapshot c = Some sn \<Longrightarrow> good_store hash (sn_store sn)"
  using assms by (auto simp: stores_ok_def split: if_splits)

lemma Deduplicate_entries:
  assumes "stores_ok hash c"
  shows "hot hash (Cache_Deduplicate c) = (\<lambda>k. map_option entry_deduplicate (hot hash c k))"
    "snapshot_entry hash (snapshot_Deduplicate c) = (\<lambda>k. map_option entry_deduplicate (snapshot_entry hash c k))"
proof -
  show "hot hash (Cache_Deduplicate c) = (\<lambda>k. map_option entry_deduplicate (hot hash c k))"
    using storer_apply_get [OF stores_ok_cases(1) [OF assms]] by (simp add: Cache_Deduplicate_def)
  show "snapshot_entry hash (snapshot_Deduplicate c) = (\<lambda>k. map_option entry_deduplicate (snapshot_entry hash c k))"
    using storer_apply_get [OF disjI2 [OF stores_ok_cases(2) [OF assms]]]
    by (cases "ca_snapshot c") (simp_all add: snapshot_Deduplicate_def snapshot_entry_def [abs_def])
qed

lemma Values_entries:
  assumes "stores_ok hash c" "Cache_Values hash c key = (vs, c')"
  shows "hot hash c' = (\<lambda>k. map_option (if k = key then entry_deduplicate else id) (hot hash c k))"
    "snapshot_entry hash c' = (\<lambda>k. map_option (if k = key then entry_deduplicate else id) (snapshot_entry hash c k))"
    "ca_snapshotting c' = ca_snapshotting c"
proof -
  let ?f = "\<lambda>k. if k = key then entry_deduplicate else id"
  have f: "(\<lambda>k e. if k = key then entry_deduplicate e else e) = ?f" by (auto simp: fun_eq_iff)
  have h: "storer_entry hash (storer_update (ca_store c) key entry_deduplicate) = (\<lambda>k. map_option (?f k) (hot hash c k))"
    using storer_apply_get [OF stores_ok_cases(1) [OF assms(1)]] by (simp add: storer_update_def f)
  have s: "storer_entry hash (storer_update (sn_store sn) key entry_deduplicate) = (\<lambda>k. map_option (?f k) (storer_entry hash (sn_store sn) k))"
    if "ca_snapshot c = Some sn" for sn
    using storer_apply_get [OF disjI2 [OF stores_ok_cases(2) [OF assms(1) that]]] by (simp add: storer_update_def f)
  have id: "hot hash c key = None \<Longrightarrow> (\<lambda>k. map_option (?f k) (hot hash c k)) = hot hash c"
    "snapshot_entry hash c key = None \<Longrightarrow> (\<lambda>k. map_option (?f k) (snapshot_entry hash c k)) = snapshot_entry hash c"
    by (auto simp: fun_eq_iff option.map_id)
  show "hot hash c' = (\<lambda>k. map_option (?f k) (hot hash c k))" "ca_snapshotting c' = ca_snapshotting c"
    using assms(2) h id(1) by (auto simp: Cache_Values_def Let_def split: if_splits)
  show "snapshot_entry hash c' = (\<lambda>k. map_option (?f k) (snapshot_entry hash c k))"
    using assms(2) s id(2)
    by (cases "ca_snapshot c") (auto simp: Cache_Values_def Let_def snapshot_entry_def [abs_def] split: if_splits)
qed

section \<open>Invariants of entries\<close>

fun op_batches :: "cache_op \<Rightarrow> (string \<times> Value list) list" where
  "op_batches (OpWrite k vs) = [(k, vs)]"
| "op_batches (OpWriteMulti kvs) = kvs"
| "op_batches _ = []"

definition entries_ok :: "(string \<Rightarrow> entry \<Rightarrow> bool) \<Rightarrow> (string \<Rightarrow> entry option) \<Rightarrow> bool" where
  "entries_ok P m \<longleftrightarrow> (\<forall>k e. m k = Some e \<longrightarrow> P k e)"

lemma entries_okD: "entries_ok P m \<Longrightarrow> m k = Some e \<Longrightarrow> P k e"
  by (simp add: entries_ok_def)

lemma entries_ok_empty [simp]: "entries_ok P Map.empty"
  by (simp add: entries_ok_def)

lemma entries_ok_upd: "entries_ok P m \<Longrightarrow> P k e \<Longrightarrow> entries_ok P (m(k \<mapsto> e))"
  by (simp add: entries_ok_def)

lemma entries_ok_del: "entries_ok P m \<Longrightarrow> entries_ok P (m(k := None))"
  by (simp add: entries_ok_def)

lemma entries_ok_map: "entries_ok P m \<Longrightarrow> (\<And>k e. P k e \<Longrightarrow> P k (f k e)) \<Longrightarrow> entries_ok P (\<lambda>k. map_option (f k) (m k))"
  by (auto simp: entries_ok_def)

text \<open>
  A property of entries that holds of new entries, and that appending an acceptable batch,
  removing duplicates and cutting out a range keep, holds of every entry of the cache.
\<close>

locale entry_invariant =
  fixes P :: "string \<Rightarrow> entry \<Rightarrow> bool" and Q :: "string \<Rightarrow> Value list \<Rightarrow> bool"
  assumes new_ok: "Q k vs \<Longrightarrow> newEntryValues vs = Inr e \<Longrightarrow> P k e"
    and add_ok: "Q k vs \<Longrightarrow> P k e \<Longrightarrow> entry_add e vs = Inr e' \<Longrightarrow> P k e'"
    and dedup_ok: "P k e \<Longrightarrow> P k (entry_deduplicate e)"
    and filter_ok: "P k e \<Longrightarrow> en_values (entry_filter e mn mx) \<noteq> [] \<Longrightarrow> P k (entry_filter e mn mx)"
begin

lemma write_ok: "(\<And>e. eo = Some e \<Longrightarrow> P k e) \<Longrightarrow> Q k vs \<Longrightarrow> write_entry eo vs = Inr e' \<Longrightarrow> P k e'"
  by (cases eo) (simp_all add: write_entry_def new_ok add_ok)

lemma batch_ok: "entries_ok P m \<Longrightarrow> (\<And>k vs. (k, vs) \<in> set kvs \<Longrightarrow> Q k vs) \<Longrightarrow> entries_ok P (apply_batch m kvs)"
proof (induction m kvs rule: apply_batch.induct)
  case (2 m k v kvs)
  show ?case
  proof (cases "write_entry (m k) v")
    case (Inl err)
    then show ?thesis using "2.IH"(1) "2.prems" by simp
  next
    case (Inr e)
    have "P k e" by (rule write_ok [OF _ _ Inr]) (use "2.prems" entries_okD in auto)
    then have "entries_ok P (m(k \<mapsto> e))" using "2.prems"(1) by (simp add: entries_ok_upd)
    then show ?thesis using "2.IH"(2) [OF Inr] "2.prems"(2) Inr by (simp add: fun_upd_def)
  qed
qed simp

lemma delete_ok: "entries_ok P m \<Longrightarrow> entries_ok P (apply_delete mn mx m ks)"
proof (induction mn mx m ks rule: apply_delete.induct)
  case (2 mn mx m k ks)
  show ?case
  proof (cases "m k")
    case None
    then show ?thesis using "2.IH"(1) "2.prems" by simp
  next
    case (Some e)
    show ?thesis
    proof (cases "(mn = MinInt64 \<and> mx = MaxInt64) \<or> en_values (entry_filter e mn mx) = []")
      case True
      show ?thesis using "2.IH"(2) [OF Some True entries_ok_del [OF "2.prems"]] Some True
        by (simp only: apply_delete.simps option.case if_True)
    next
      case False
      have "P k (entry_filter e mn mx)" using filter_ok entries_okD [OF "2.prems" Some] False by simp
      then have e: "entries_ok P (m(k \<mapsto> entry_filter e mn mx))" using "2.prems" by (simp add: entries_ok_upd)
      show ?thesis using "2.IH"(3) [OF Some False e] Some False
        by (simp only: apply_delete.simps option.case if_False)
    qed
  qed
qed simp

definition cache_ok :: "(string \<Rightarrow> u64) \<Rightarrow> Cache \<Rightarrow> bool" where
  "cache_ok hash c \<longleftrightarrow> entries_ok P (hot hash c) \<and> entries_ok P (snapshot_entry hash c)"

lemma cache_okD: "cache_ok hash c \<Longrightarrow> entries_ok P (hot hash c)" "cache_ok hash c \<Longrightarrow> entries_ok P (snapshot_entry hash c)"
  by (simp_all add: cache_ok_def)

lemma exec_ok:
  assumes ok: "stores_ok hash c" and c: "cache_ok hash c" and q: "\<And>k vs. (k, vs) \<in> set (op_batches op) \<Longrightarrow> Q k vs"
    and x: "cache_exec hash op c = Some (err, c')"
  shows "cache_ok hash c'"
proof (cases op)
  case (OpWrite k vs)
  have w: "Cache_Write hash c k vs = (err, c')" using x OpWrite by simp
  have "entries_ok P (hot hash c')"
  proof (cases err)
    case None
    then obtain e where e: "write_entry (hot hash c k) vs = Inr e" "hot hash c' = (hot hash c)(k \<mapsto> e)"
      using Write_entries [OF ok w] by auto
    have "P k e" by (rule write_ok [OF _ _ e(1)]) (use q OpWrite entries_okD [OF cache_okD(1) [OF c]] in auto)
    then show ?thesis using e(2) cache_okD(1) [OF c] by (simp add: entries_ok_upd)
  next
    case Some
    then show ?thesis using Write_entries [OF ok w] cache_okD(1) [OF c] by simp
  qed
  moreover have "snapshot_entry hash c' = snapshot_entry hash c"
    using Write_entries [OF ok w] by (intro snapshot_entry_cong) simp
  ultimately show ?thesis using c by (simp add: cache_ok_def)
next
  case (OpWriteMulti kvs)
  have w: "Cache_WriteMulti hash c kvs = (err, c')" using x OpWriteMulti by simp
  have "entries_ok P (apply_batch (hot hash c) kvs)"
    using batch_ok [OF cache_okD(1) [OF c]] q OpWriteMulti by simp
  then have "entries_ok P (hot hash c')"
    using WriteMulti_entries [OF ok w] cache_okD(1) [OF c] by auto
  moreover have "snapshot_entry hash c' = snapshot_entry hash c"
    using WriteMulti_entries [OF ok w] by (intro snapshot_entry_cong) simp
  ultimately show ?thesis using c by (simp add: cache_ok_def)
next
  case OpSnapshot
  then have "Cache_Snapshot c = (err, c')" using x by simp
  then show ?thesis using Snapshot_entries [OF ok] c by (fastforce simp: cache_ok_def)
next
  case (OpClearSnapshot b)
  then have "Cache_ClearSnapshot b c = Some c'" using x by auto
  then show ?thesis using ClearSnapshot_entries [OF ok] c by (simp add: cache_ok_def)
next
  case OpDeduplicate
  then have "c' = Cache_Deduplicate c" using x by simp
  then show ?thesis using Deduplicate_entries(1) [OF ok] c snapshot_entry_cong [of c' c hash]
    by (simp add: cache_ok_def entries_ok_map dedup_ok Cache_Deduplicate_def)
next
  case OpSnapshotDeduplicate
  then have "c' = snapshot_Deduplicate c" using x by simp
  then show ?thesis using Deduplicate_entries(2) [OF ok] c
    by (simp add: cache_ok_def entries_ok_map dedup_ok) (simp add: snapshot_Deduplicate_def)
next
  case (OpValues key)
  then obtain vs where v: "Cache_Values hash c key = (vs, c')" using x by (cases "Cache_Values hash c key") auto
  show ?thesis using c by (auto simp: cache_ok_def Values_entries(1,2) [OF ok v] intro!: entries_ok_map dedup_ok split: if_splits)
next
  case (OpDeleteRange ks mn mx)
  then have c': "c' = Cache_DeleteRange hash c ks mn mx" using x by simp
  have "snapshot_entry hash c' = snapshot_entry hash c"
    unfolding c' using DeleteRange_entries(2) [OF ok] by (intro snapshot_entry_cong) simp
  then show ?thesis using c by (simp add: cache_ok_def delete_ok) (simp add: c' DeleteRange_entries(1) [OF ok] delete_ok)
next
  case (OpSetMaxSize n)
  then show ?thesis using x c by (auto simp: cache_ok_def Cache_SetMaxSize_def snapshot_entry_def [abs_def])
next
  case OpFree
  then show ?thesis using x c by (auto simp: cache_ok_def Cache_Free_def snapshot_entry_def [abs_def])
qed

lemma run_ok:
  assumes "cache_inv hash W c" "W + total_cost ops < 2 ^ 64" "cache_ok hash c"
    and "\<And>op k vs. op \<in> set ops \<Longrightarrow> (k, vs) \<in> set (op_batches op) \<Longrightarrow> Q k vs" and "cache_run hash ops c = Some c'"
  shows "cache_ok hash c'"
  using assms
proof (induction ops arbitrary: W c)
  case (Cons op ops)
  obtain err d where d: "cache_exec hash op c = Some (err, d)" "cache_run hash ops d = Some c'"
    using Cons.prems(5) by (auto split: option.splits)
  have i: "cache_inv hash (W + op_cost op) d" using cache_exec_inv [OF Cons.prems(1) _ d(1)] Cons.prems(2) by simp
  have k: "cache_ok hash d"
    by (rule exec_ok [OF cache_invD(1) [OF Cons.prems(1)] Cons.prems(3) _ d(1)]) (rule Cons.prems(4) [OF list.set_intros(1)])
  show ?case
    by (rule Cons.IH [OF i _ k _ d(2)]) (use Cons.prems(2) in \<open>simp add: add.assoc\<close>,
        rule Cons.prems(4) [OF list.set_intros(2)])
qed simp

lemma reachable_ok:
  assumes "total_cost ops < 2 ^ 64" "\<And>op k vs. op \<in> set ops \<Longrightarrow> (k, vs) \<in> set (op_batches op) \<Longrightarrow> Q k vs"
    and "cache_run hash ops (NewCache m) = Some c"
  shows "cache_ok hash c"
  using run_ok [OF NewCache_inv [of hash 0 m] _ _ assms(2,3)] assms(1)
  by (simp add: cache_ok_def NewCache_def snapshot_entry_def [abs_def])

end

text \<open>Entries of one type.\<close>

definition typed_entry :: "entry \<Rightarrow> bool" where
  "typed_entry e \<longleftrightarrow> en_values e \<noteq> [] \<and> en_vtype e \<noteq> 0 \<and> (\<forall>v\<in>set (en_values e). valueType v = en_vtype e)"

definition typed_batch :: "Value list \<Rightarrow> bool" where
  "typed_batch vs \<longleftrightarrow> vs \<noteq> [] \<and> (\<forall>v\<in>set vs. valueType v \<noteq> 0)"

text \<open>Timestamps that are \<open>int64\<close>, and no \<open>EmptyValue\<close>, which stands for a type the code does not know.\<close>

definition val_ok :: "Value \<Rightarrow> bool" where
  "val_ok v \<longleftrightarrow> v \<noteq> EmptyValue \<and> MinInt64 \<le> val_UnixNano v \<and> val_UnixNano v \<le> MaxInt64"

lemma set_entry_deduplicate: "set (en_values (entry_deduplicate e)) \<subseteq> set (en_values e)"
  by (simp add: entry_deduplicate_values set_Deduplicate)

lemma set_entry_filter: "set (en_values (entry_filter e mn mx)) \<subseteq> set (en_values e)"
  using set_Deduplicate [of "en_values e"] by (auto simp: entry_filter_values)

lemma entry_vtype_simps [simp]:
  "en_vtype (entry_deduplicate e) = en_vtype e" "en_vtype (entry_filter e mn mx) = en_vtype e"
  by (simp_all add: entry_deduplicate_def entry_filter_def Let_def)

interpretation typed: entry_invariant "\<lambda>k. typed_entry" "\<lambda>k. typed_batch"
proof
  show "typed_entry e" if "typed_batch vs" "newEntryValues vs = Inr e" for vs e
    using that by (auto simp: typed_batch_def newEntryValues_def typed_entry_def Let_def list_ex_iff split: if_splits)
  show "typed_entry e'" if "typed_batch vs" "typed_entry e" "entry_add e vs = Inr e'" for vs e e'
    using that by (auto simp: typed_batch_def entry_add_def typed_entry_def list_ex_iff split: if_splits)
  show "typed_entry (entry_deduplicate e)" if "typed_entry e" for e
    using that set_entry_deduplicate [of e] by (auto simp: typed_entry_def entry_deduplicate_values)
  show "typed_entry (entry_filter e mn mx)" if "typed_entry e" "en_values (entry_filter e mn mx) \<noteq> []" for e mn mx
    using that set_entry_filter [of e mn mx] by (auto simp: typed_entry_def)
qed

interpretation stamped: entry_invariant "\<lambda>k e. list_all val_ok (en_values e)" "\<lambda>k. list_all val_ok"
proof
  show "list_all val_ok (en_values e)" if "list_all val_ok vs" "newEntryValues vs = Inr e" for vs e
    using that by (auto simp: newEntryValues_def Let_def split: if_splits)
  show "list_all val_ok (en_values e')" if "list_all val_ok vs" "list_all val_ok (en_values e)" "entry_add e vs = Inr e'" for vs e e'
    using that by (auto simp: entry_add_def split: if_splits)
  show "list_all val_ok (en_values (entry_deduplicate e))" if "list_all val_ok (en_values e)" for e
    using that set_entry_deduplicate [of e] by (auto simp: list_all_iff)
  show "list_all val_ok (en_values (entry_filter e mn mx))" if "list_all val_ok (en_values e)" for e mn mx
    using that set_entry_filter [of e mn mx] by (auto simp: list_all_iff)
qed

text \<open>Entries of the type a schema gives their series; an unsigned one has type \<open>0\<close>.\<close>

definition schema_entry :: "(string \<Rightarrow> nat) \<Rightarrow> string \<Rightarrow> entry \<Rightarrow> bool" where
  "schema_entry ty k e \<longleftrightarrow> en_vtype e = 0 \<or> en_vtype e = ty k"

definition schema_batch :: "(string \<Rightarrow> nat) \<Rightarrow> string \<Rightarrow> Value list \<Rightarrow> bool" where
  "schema_batch ty k vs \<longleftrightarrow> (\<forall>v\<in>set vs. valueType v = ty k)"

interpretation schema: entry_invariant "schema_entry ty" "schema_batch ty" for ty
proof
  show "schema_entry ty k e" if "schema_batch ty k vs" "newEntryValues vs = Inr e" for k vs e
    using that by (auto simp: schema_batch_def newEntryValues_def schema_entry_def Let_def split: if_splits)
  show "schema_entry ty k e'" if "schema_batch ty k vs" "schema_entry ty k e" "entry_add e vs = Inr e'" for k vs e e'
    using that by (auto simp: schema_batch_def entry_add_def schema_entry_def split: if_splits)
qed (simp_all add: schema_entry_def)

text \<open>Then no write is refused for its type.\<close>

lemma schema_write:
  assumes "\<And>e. eo = Some e \<Longrightarrow> schema_entry ty k e" "schema_batch ty k vs"
  shows "\<exists>e. write_entry eo vs = Inr e"
proof (cases eo)
  case None
  have "valueType (hd vs) = valueType v" if "v \<in> set vs" for v
    using assms(2) that by (cases vs) (auto simp: schema_batch_def)
  then show ?thesis using None by (auto simp: write_entry_def newEntryValues_def Let_def list_ex_iff)
next
  case (Some e)
  then show ?thesis using assms
    by (auto simp: write_entry_def entry_add_def schema_entry_def schema_batch_def list_ex_iff)
qed

lemma schema_batch_accepted:
  assumes "entries_ok (schema_entry ty) m" "\<And>k vs. (k, vs) \<in> set kvs \<Longrightarrow> schema_batch ty k vs"
  shows "batch_accepted m kvs = kvs"
  using assms
proof (induction m kvs rule: batch_accepted.induct)
  case (2 m k v kvs)
  obtain e where e: "write_entry (m k) v = Inr e"
    using schema_write [of "m k" ty k v] entries_okD [OF "2.prems"(1)] "2.prems"(2) by auto
  have "schema_entry ty k e"
    by (rule schema.write_ok [OF _ _ e]) (use entries_okD [OF "2.prems"(1)] "2.prems"(2) in auto)
  then have "entries_ok (schema_entry ty) (m(k \<mapsto> e))" using "2.prems"(1) by (simp add: entries_ok_upd)
  then have "batch_accepted (m(k \<mapsto> e)) kvs = kvs" by (rule "2.IH"(2) [OF e]) (use "2.prems"(2) in auto)
  then show ?case using e by simp
qed simp

end
