(* ===== verification/TSMCacheSpec.thy ===== *)
theory TSMCacheSpec
  imports TSMCacheRefine
begin

text \<open>
  The abstract cache: two maps from series keys and timestamps to values, the hot one and the
  snapshot, and whether a snapshot is being written.  \<open>acache_step\<close> says what a call may do to
  them; every call of the model does that.
\<close>

type_synonym series_map = "string \<Rightarrow> int \<Rightarrow> Value option"

record acache =
  a_hot :: series_map
  a_snap :: series_map
  a_busy :: bool

definition overlay :: "(string \<times> Value list) list \<Rightarrow> series_map \<Rightarrow> series_map" where
  "overlay kvs m = foldl (\<lambda>m (k, vs). m(k := m k ++ vmap vs)) m kvs"

definition cut :: "string list \<Rightarrow> int \<Rightarrow> int \<Rightarrow> series_map \<Rightarrow> series_map" where
  "cut ks mn mx m = (\<lambda>k. if k \<in> set ks then m k |` {t. \<not> (mn \<le> t \<and> t \<le> mx)} else m k)"

inductive acache_step :: "cache_op \<Rightarrow> cache_error option \<Rightarrow> acache \<Rightarrow> acache \<Rightarrow> bool" where
  a_write: "acache_step (OpWrite k vs) None s (s\<lparr>a_hot := overlay [(k, vs)] (a_hot s)\<rparr>)"
| a_refuse: "acache_step (OpWrite k vs) (Some err) s s"
| a_batch: "acache_step (OpWriteMulti kvs) None s (s\<lparr>a_hot := overlay kvs (a_hot s)\<rparr>)"
| a_part: "subseq kvs' kvs \<Longrightarrow> acache_step (OpWriteMulti kvs) (Some err) s (s\<lparr>a_hot := overlay kvs' (a_hot s)\<rparr>)"
| a_busy: "a_busy s \<Longrightarrow> acache_step OpSnapshot (Some ErrSnapshotInProgress) s s"
| a_retry: "\<not> a_busy s \<Longrightarrow> acache_step OpSnapshot None s (s\<lparr>a_busy := True\<rparr>)"
| a_take: "\<not> a_busy s \<Longrightarrow> a_snap s = (\<lambda>_. Map.empty) \<Longrightarrow>
    acache_step OpSnapshot None s \<lparr>a_hot = (\<lambda>_. Map.empty), a_snap = a_hot s, a_busy = True\<rparr>"
| a_clear: "acache_step (OpClearSnapshot True) None s (s\<lparr>a_snap := \<lambda>_. Map.empty, a_busy := False\<rparr>)"
| a_failed: "acache_step (OpClearSnapshot False) None s (s\<lparr>a_busy := False\<rparr>)"
| a_dedup: "acache_step OpDeduplicate None s s"
| a_dedup_snap: "acache_step OpSnapshotDeduplicate None s s"
| a_values: "acache_step (OpValues k) None s s"
| a_delete: "acache_step (OpDeleteRange ks mn mx) None s (s\<lparr>a_hot := cut ks mn mx (a_hot s)\<rparr>)"
| a_limit: "acache_step (OpSetMaxSize n) None s s"
| a_free: "acache_step OpFree None s (s\<lparr>a_hot := \<lambda>_. Map.empty\<rparr>)"

inductive_cases acache_writeE: "acache_step (OpWrite k vs) err s s'"
inductive_simps acache_free_simps: "acache_step OpFree err s s'"

section \<open>The abstraction\<close>

definition entry_map :: "(string \<Rightarrow> entry option) \<Rightarrow> series_map" where
  "entry_map m k = (case m k of None \<Rightarrow> Map.empty | Some e \<Rightarrow> vmap (en_values e))"

definition cache_abs :: "(string \<Rightarrow> u64) \<Rightarrow> Cache \<Rightarrow> acache" where
  "cache_abs hash c =
     \<lparr>a_hot = entry_map (hot hash c), a_snap = entry_map (snapshot_entry hash c), a_busy = ca_snapshotting c\<rparr>"

lemma entry_map_empty [simp]: "entry_map Map.empty = (\<lambda>_. Map.empty)"
  by (simp add: entry_map_def fun_eq_iff)

lemma entry_map_upd: "entry_map (m(k \<mapsto> e)) = (entry_map m)(k := vmap (en_values e))"
  by (simp add: entry_map_def fun_eq_iff)

lemma entry_map_del: "entry_map (m(k := None)) = (entry_map m)(k := Map.empty)"
  by (simp add: entry_map_def fun_eq_iff)

lemma overlay_simps [simp]:
  "overlay [] m = m" "overlay ((k, vs) # kvs) m = overlay kvs (m(k := m k ++ vmap vs))"
  by (simp_all add: overlay_def)

lemma write_entry_map:
  assumes "write_entry (m k) vs = Inr e"
  shows "vmap (en_values e) = entry_map m k ++ vmap vs"
  using assms
  by (auto simp: write_entry_def entry_map_def newEntryValues_def entry_add_def vmap_append Let_def
      split: option.splits if_splits)

lemma apply_batch_map: "entry_map (apply_batch m kvs) = overlay (batch_accepted m kvs) (entry_map m)"
proof (induction m kvs rule: apply_batch.induct)
  case (2 m k v kvs)
  show ?case
  proof (cases "write_entry (m k) v")
    case (Inl err)
    then show ?thesis using "2.IH"(1) by simp
  next
    case (Inr e)
    have "entry_map (apply_batch (m(k \<mapsto> e)) kvs) = overlay (batch_accepted (m(k \<mapsto> e)) kvs) (entry_map (m(k \<mapsto> e)))"
      using "2.IH"(2) [OF Inr] .
    then show ?thesis using Inr by (simp add: entry_map_upd write_entry_map [where m = m and k = k, OF Inr])
  qed
qed simp

lemma entry_filter_map:
  "vmap (en_values (entry_filter e mn mx)) = vmap (en_values e) |` {t. \<not> (mn \<le> t \<and> t \<le> mx)}"
  using vmap_filter_ordered [OF Deduplicate_ordered, of "\<lambda>t. \<not> (mn \<le> t \<and> t \<le> mx)" "en_values e"]
  by (simp add: entry_filter_values Deduplicate_vmap)

lemma cut_Cons:
  "cut (k # ks) mn mx m = cut ks mn mx (m(k := m k |` {t. \<not> (mn \<le> t \<and> t \<le> mx)}))"
  by (auto simp: cut_def fun_eq_iff restrict_map_def)

lemma cut_same: "m k = Map.empty \<Longrightarrow> m(k := m k |` S) = m"
  by (auto simp: fun_eq_iff restrict_map_def)

text \<open>Cutting out all of \<open>int64\<close> leaves nothing.\<close>

lemma all_cut:
  assumes "list_all val_ok vs"
  shows "vmap vs |` {t. \<not> (MinInt64 \<le> t \<and> t \<le> MaxInt64)} = Map.empty"
proof
  fix t
  show "(vmap vs |` {t. \<not> (MinInt64 \<le> t \<and> t \<le> MaxInt64)}) t = None"
    using assms vmap_UnixNano [of vs t]
    by (cases "vmap vs t") (auto simp: restrict_map_def list_all_iff val_ok_def)
qed

lemma apply_delete_map:
  assumes "entries_ok (\<lambda>k e. list_all val_ok (en_values e)) m"
  shows "entry_map (apply_delete mn mx m ks) = cut ks mn mx (entry_map m)"
  using assms
proof (induction mn mx m ks rule: apply_delete.induct)
  case (2 mn mx m k ks)
  let ?S = "{t. \<not> (mn \<le> t \<and> t \<le> mx)}"
  show ?case
  proof (cases "m k")
    case None
    then have "entry_map m k = Map.empty" by (simp add: entry_map_def)
    then show ?thesis using "2.IH"(1) [OF None] "2.prems" None cut_same [where m = "entry_map m" and k = k and S = ?S] by (simp only: apply_delete.simps option.case cut_Cons)
  next
    case (Some e)
    have m: "entry_map m k |` ?S = vmap (en_values (entry_filter e mn mx))"
      using Some by (simp add: entry_map_def entry_filter_map)
    show ?thesis
    proof (cases "(mn = MinInt64 \<and> mx = MaxInt64) \<or> en_values (entry_filter e mn mx) = []")
      case True
      have z: "entry_map m k |` ?S = Map.empty"
      proof (cases "en_values (entry_filter e mn mx) = []")
        case True
        then show ?thesis using m by simp
      next
        case False
        then show ?thesis
          using True all_cut [OF entries_okD [OF "2.prems" Some]] Some by (simp add: entry_map_def)
      qed
      have "entry_map (apply_delete mn mx (m(k := None)) ks) = cut ks mn mx (entry_map (m(k := None)))"
        using "2.IH"(2) [OF Some True entries_ok_del [OF "2.prems"]] .
      then show ?thesis using Some True z by (simp only: apply_delete.simps option.case if_True cut_Cons entry_map_del)
    next
      case False
      have "list_all val_ok (en_values (entry_filter e mn mx))"
        using entries_okD [OF "2.prems" Some] set_entry_filter [of e mn mx] by (auto simp: list_all_iff)
      then have e: "entries_ok (\<lambda>k e. list_all val_ok (en_values e)) (m(k \<mapsto> entry_filter e mn mx))"
        using "2.prems" by (simp add: entries_ok_upd)
      have "entry_map (apply_delete mn mx (m(k \<mapsto> entry_filter e mn mx)) ks) = cut ks mn mx (entry_map (m(k \<mapsto> entry_filter e mn mx)))"
        using "2.IH"(3) [OF Some False e] .
      then show ?thesis using Some False m by (simp only: apply_delete.simps option.case if_False cut_Cons entry_map_upd)
    qed
  qed
qed (simp add: cut_def)

lemma entry_map_dedup: "(\<And>k. f k = entry_deduplicate \<or> f k = id) \<Longrightarrow> entry_map (\<lambda>k. map_option (f k) (m k)) = entry_map m"
proof
  fix k assume f: "\<And>k. f k = entry_deduplicate \<or> f k = id"
  show "entry_map (\<lambda>k. map_option (f k) (m k)) k = entry_map m k"
    using f [of k] by (cases "m k") (auto simp: entry_map_def entry_deduplicate_values Deduplicate_vmap)
qed

text \<open>A snapshot of size zero holds no value.\<close>

lemma val_Size_pos: "val_ok v \<Longrightarrow> 0 < val_Size v"
  by (cases v) (auto simp: val_ok_def)

lemma no_bytes_no_values:
  assumes "finite (dom m)" "store_bytes m = 0" "entries_ok (\<lambda>k e. list_all val_ok (en_values e)) m"
  shows "entry_map m = (\<lambda>_. Map.empty)"
proof
  fix k
  show "entry_map m k = Map.empty"
  proof (cases "m k")
    case (Some e)
    then have "entry_size e = 0" using store_bytes_del [OF assms(1) Some] assms(2) by simp
    moreover have "list_all val_ok (en_values e)" using entries_okD [OF assms(3) Some] .
    ultimately have "en_values e = []"
      by (cases "en_values e") (auto simp: entry_size_def values_Size_def dest: val_Size_pos)
    then show ?thesis using Some by (simp add: entry_map_def)
  qed (simp add: entry_map_def)
qed

lemma finite_snapshot: "stores_ok hash c \<Longrightarrow> finite (dom (snapshot_entry hash c))"
  using st.finite_get by (cases "ca_snapshot c") (auto simp: stores_ok_def snapshot_entry_def [abs_def])

section \<open>The simulation\<close>

lemma cache_exec_simulates:
  assumes inv: "cache_inv hash W c" and ok: "stamped.cache_ok hash c"
    and x: "cache_exec hash op c = Some (err, c')"
  shows "acache_step op err (cache_abs hash c) (cache_abs hash c')"
proof -
  note so = cache_invD(1) [OF inv]
  have same: "acache_step op err (cache_abs hash c) (cache_abs hash c')"
    if "acache_step op err (cache_abs hash c) (cache_abs hash c\<lparr>a_hot := h\<rparr>)"
      "entry_map (hot hash c') = h" "ca_snapshot c' = ca_snapshot c" "ca_snapshotting c' = ca_snapshotting c" for h
    using that snapshot_entry_cong [OF that(3), of hash] by (simp add: cache_abs_def)
  show ?thesis
  proof (cases op)
    case (OpWrite k vs)
    have w: "Cache_Write hash c k vs = (err, c')" using x OpWrite by simp
    show ?thesis
    proof (cases err)
      case None
      then obtain e where e: "write_entry (hot hash c k) vs = Inr e" "hot hash c' = (hot hash c)(k \<mapsto> e)"
        using Write_entries [OF so w] by auto
      show ?thesis
        by (rule same [where h = "overlay [(k, vs)] (entry_map (hot hash c))"])
          (use Write_entries [OF so w] None OpWrite e acache_step.a_write [of k vs "cache_abs hash c"] in
            \<open>simp_all add: entry_map_upd write_entry_map [where m = "hot hash c" and k = k, OF e(1)] cache_abs_def\<close>)
    next
      case (Some e)
      show ?thesis
        by (rule same [where h = "entry_map (hot hash c)"])
          (use Write_entries [OF so w] Some OpWrite acache_step.a_refuse [of k vs e "cache_abs hash c"] in
            \<open>simp_all add: cache_abs_def\<close>)
    qed
  next
    case (OpWriteMulti kvs)
    have w: "Cache_WriteMulti hash c kvs = (err, c')" using x OpWriteMulti by simp
    note W = WriteMulti_entries [OF so w]
    show ?thesis
    proof (cases err)
      case None
      show ?thesis
        by (rule same [where h = "overlay kvs (entry_map (hot hash c))"])
          (use W None OpWriteMulti acache_step.a_batch [of kvs "cache_abs hash c"] in
            \<open>auto simp: apply_batch_map cache_abs_def\<close>)
    next
      case (Some e)
      obtain kvs' where k: "subseq kvs' kvs" "entry_map (hot hash c') = overlay kvs' (entry_map (hot hash c))"
      proof (cases "hot hash c' = hot hash c")
        case True
        then show ?thesis using that [of "[]"] by simp
      next
        case False
        then have "hot hash c' = apply_batch (hot hash c) kvs" using W by auto
        then show ?thesis using that [OF subseq_batch_accepted [of "hot hash c" kvs]] by (simp add: apply_batch_map)
      qed
      show ?thesis
        by (rule same [where h = "overlay kvs' (entry_map (hot hash c))"])
          (use W Some k(2) OpWriteMulti acache_step.a_part [OF k(1), of e "cache_abs hash c"] in
            \<open>simp_all add: cache_abs_def\<close>)
    qed
  next
    case OpSnapshot
    have w: "Cache_Snapshot c = (err, c')" using x OpSnapshot by simp
    consider (busy) "err = Some ErrSnapshotInProgress" "ca_snapshotting c" "ca_snapshotting c'"
        "hot hash c' = hot hash c" "snapshot_entry hash c' = snapshot_entry hash c"
      | (retry) "err = None" "\<not> ca_snapshotting c" "ca_snapshotting c'"
        "hot hash c' = hot hash c" "snapshot_entry hash c' = snapshot_entry hash c"
      | (take) "err = None" "\<not> ca_snapshotting c" "ca_snapshotting c'" "ca_snapshotSize c = 0"
        "hot hash c' = Map.empty" "snapshot_entry hash c' = hot hash c"
      using Snapshot_entries [OF so w] by blast
    then show ?thesis
    proof cases
      case busy
      then show ?thesis using acache_step.a_busy [of "cache_abs hash c"] OpSnapshot by (simp add: cache_abs_def)
    next
      case retry
      then show ?thesis using acache_step.a_retry [of "cache_abs hash c"] OpSnapshot by (simp add: cache_abs_def)
    next
      case take
      have "store_bytes (snapshot_entry hash c) = 0" using cache_invD(3) [OF inv] take(4) by simp
      then have "entry_map (snapshot_entry hash c) = (\<lambda>_. Map.empty)"
        using finite_snapshot [OF so] stamped.cache_okD(2) [OF ok] by (intro no_bytes_no_values)
      then show ?thesis using take acache_step.a_take [of "cache_abs hash c"] OpSnapshot by (simp add: cache_abs_def)
    qed
  next
    case (OpClearSnapshot b)
    then have "Cache_ClearSnapshot b c = Some c'" "err = None" using x by auto
    then show ?thesis
      using ClearSnapshot_entries [OF so, of b c'] acache_step.a_clear [of "cache_abs hash c"]
        acache_step.a_failed [of "cache_abs hash c"] OpClearSnapshot
      by (cases b) (simp_all add: cache_abs_def)
  next
    case OpDeduplicate
    then have "c' = Cache_Deduplicate c" "err = None" using x by auto
    then show ?thesis
      using Deduplicate_entries(1) [OF so] acache_step.a_dedup [of "cache_abs hash c"] OpDeduplicate
        snapshot_entry_cong [of c' c hash] entry_map_dedup [of "\<lambda>_. entry_deduplicate"]
      by (simp add: cache_abs_def Cache_Deduplicate_def)
  next
    case OpSnapshotDeduplicate
    then have "c' = snapshot_Deduplicate c" "err = None" using x by auto
    then show ?thesis
      using Deduplicate_entries(2) [OF so] acache_step.a_dedup_snap [of "cache_abs hash c"] OpSnapshotDeduplicate
        entry_map_dedup [of "\<lambda>_. entry_deduplicate" "snapshot_entry hash c"]
      by (simp add: cache_abs_def) (simp add: snapshot_Deduplicate_def)
  next
    case (OpValues key)
    then obtain vs where v: "Cache_Values hash c key = (vs, c')" "err = None" using x by (cases "Cache_Values hash c key") auto
    have "cache_abs hash c' = cache_abs hash c"
      using Values_entries(3) [OF so v(1)] by (simp add: cache_abs_def Values_entries(1,2) [OF so v(1)] entry_map_dedup)
    then show ?thesis using acache_step.a_values [of key "cache_abs hash c"] OpValues v(2) by simp
  next
    case (OpDeleteRange ks mn mx)
    then have c': "c' = Cache_DeleteRange hash c ks mn mx" "err = None" using x by auto
    show ?thesis
      by (rule same [where h = "cut ks mn mx (entry_map (hot hash c))"])
        (use acache_step.a_delete [of ks mn mx "cache_abs hash c"] OpDeleteRange c' DeleteRange_entries [OF so]
          apply_delete_map [OF stamped.cache_okD(1) [OF ok]] in \<open>simp_all add: cache_abs_def\<close>)
  next
    case (OpSetMaxSize n)
    then show ?thesis using x acache_step.a_limit [of n "cache_abs hash c"]
      by (auto simp: cache_abs_def Cache_SetMaxSize_def snapshot_entry_def [abs_def])
  next
    case OpFree
    have "cache_abs hash (Cache_Free c) = cache_abs hash c\<lparr>a_hot := \<lambda>_. Map.empty\<rparr>"
      using so by (auto simp: cache_abs_def Cache_Free_def snapshot_entry_def [abs_def] stores_ok_def)
    then show ?thesis using x OpFree acache_step.a_free [of "cache_abs hash c"] by auto
  qed
qed

section \<open>Reading a series\<close>

text \<open>The values returned are the slice in order of the snapshot overlaid with the hot values.\<close>

lemma Cache_Values_map:
  "ordered (fst (Cache_Values hash c key)) \<and>
   vmap (fst (Cache_Values hash c key)) = a_snap (cache_abs hash c) key ++ a_hot (cache_abs hash c) key"
proof -
  let ?s = "case snapshot_entry hash c key of None \<Rightarrow> [] | Some s \<Rightarrow> [entry_deduplicate s]"
  let ?h = "case hot hash c key of None \<Rightarrow> [] | Some h \<Rightarrow> [entry_deduplicate h]"
  have o: "vmap (concat (map en_values (case eo of None \<Rightarrow> [] | Some e \<Rightarrow> [entry_deduplicate e])))
      = (case eo of None \<Rightarrow> Map.empty | Some e \<Rightarrow> vmap (en_values e))" for eo
    by (cases eo) (simp_all add: entry_deduplicate_values Deduplicate_vmap)
  have v: "vmap (concat (map en_values (?s @ ?h))) = a_snap (cache_abs hash c) key ++ a_hot (cache_abs hash c) key"
    by (simp add: vmap_append o cache_abs_def entry_map_def)
  have r: "fst (Cache_Values hash c key) = Deduplicate (concat (map en_values (?s @ ?h)))"
    by (cases "snapshot_entry hash c key"; cases "hot hash c key")
      (simp_all add: Cache_Values_def Let_def entry_count_def)
  show ?thesis unfolding r by (simp add: Deduplicate_ordered Deduplicate_vmap v del: map_append concat_append)
qed

lemma cache_abs_New: "cache_abs hash (NewCache m) = \<lparr>a_hot = \<lambda>_. Map.empty, a_snap = \<lambda>_. Map.empty, a_busy = False\<rparr>"
  by (simp add: cache_abs_def NewCache_def snapshot_entry_def [abs_def])

end
