(* ===== verification/TSMEngine.thy ===== *)
theory TSMEngine
  imports TSMCacheSpec
begin

text \<open>
  The write path of a shard (\<open>tsdb/engine/tsm1/engine.go\<close>, \<open>wal.go\<close>, the loader of \<open>cache.go\<close>): points go
  to the cache and then to the write-ahead log, a snapshot of the cache is written to TSM files
  and its log segments are removed, and opening the shard replays the log.  The log is its
  segment files with the entries they hold; how an entry is encoded is left out, and the length of
  its compressed form is a parameter.  The TSM files are what they hold, a map from series keys and
  timestamps to values: writing a snapshot overlays it, a deletion cuts it out.  Disks do not fail.
\<close>

section \<open>The log\<close>

datatype wal_entry =
    WriteWALEntry "(string \<times> Value list) list"
  | DeleteWALEntry "string list"
  | DeleteRangeWALEntry "string list" int int

text \<open>
  The segment files with their ids, in the order their names are listed, and the writer: the bytes it
  has written to the file of \<open>wl_id\<close> since that was opened.
\<close>

record WAL =
  wl_files :: "(nat \<times> wal_entry list) list"
  wl_id :: nat
  wl_writer :: "int option"

definition DefaultSegmentSize :: int where "DefaultSegmentSize = 10 * 1024 * 1024"

text \<open>The name of a segment file, with the format \<open>_%05d.wal\<close>.\<close>

fun dec_digits :: "nat \<Rightarrow> nat list" where
  "dec_digits n = (if n < 10 then [n] else dec_digits (n div 10) @ [n mod 10])"

definition segment_file_name :: "nat \<Rightarrow> string" where
  "segment_file_name n =
     (let ds = dec_digits n
      in ''_'' @ map (\<lambda>d. char_of (48 + d)) (replicate (5 - length ds) 0 @ ds) @ ''.wal'')"

declare dec_digits.simps [simp del]

definition newSegmentFile :: "WAL \<Rightarrow> WAL" where
  "newSegmentFile w =
     w\<lparr>wl_id := wl_id w + 1, wl_files := wl_files w @ [(wl_id w + 1, [])], wl_writer := Some 0\<rparr>"

definition rollSegment :: "WAL \<Rightarrow> WAL" where
  "rollSegment w =
     (case wl_writer w of
        None \<Rightarrow> newSegmentFile w
      | Some sz \<Rightarrow> if sz > DefaultSegmentSize then newSegmentFile w else w)"

definition CloseSegment :: "WAL \<Rightarrow> WAL" where
  "CloseSegment w =
     (case wl_writer w of
        None \<Rightarrow> newSegmentFile w
      | Some sz \<Rightarrow> if sz > 0 then newSegmentFile w else w)"

definition writeToLog :: "(wal_entry \<Rightarrow> nat) \<Rightarrow> wal_entry \<Rightarrow> WAL \<Rightarrow> WAL" where
  "writeToLog clen entry w0 =
     (let w = rollSegment w0 in
      w\<lparr>wl_files := map (\<lambda>(i, es). (i, if i = wl_id w then es @ [entry] else es)) (wl_files w),
        wl_writer := map_option (\<lambda>sz. sz + 5 + int (clen entry)) (wl_writer w)\<rparr>)"

definition WAL_WriteMulti :: "(wal_entry \<Rightarrow> nat) \<Rightarrow> (string \<times> Value list) list \<Rightarrow> WAL \<Rightarrow> WAL" where
  "WAL_WriteMulti clen values w = writeToLog clen (WriteWALEntry values) w"

definition WAL_Delete :: "(wal_entry \<Rightarrow> nat) \<Rightarrow> string list \<Rightarrow> WAL \<Rightarrow> WAL" where
  "WAL_Delete clen keys w = (if keys = [] then w else writeToLog clen (DeleteWALEntry keys) w)"

definition WAL_DeleteRange :: "(wal_entry \<Rightarrow> nat) \<Rightarrow> string list \<Rightarrow> int \<Rightarrow> int \<Rightarrow> WAL \<Rightarrow> WAL" where
  "WAL_DeleteRange clen keys mn mx w = (if keys = [] then w else writeToLog clen (DeleteRangeWALEntry keys mn mx) w)"

definition ClosedSegments :: "WAL \<Rightarrow> nat list" where
  "ClosedSegments w = map fst (filter (\<lambda>(i, es). \<not> (wl_writer w \<noteq> None \<and> i = wl_id w)) (wl_files w))"

definition WAL_Remove :: "nat list \<Rightarrow> WAL \<Rightarrow> WAL" where
  "WAL_Remove ids w = w\<lparr>wl_files := filter (\<lambda>(i, es). i \<notin> set ids) (wl_files w)\<rparr>"

text \<open>Opening the log over the files found: an empty last segment is removed, another one written on.\<close>

definition WAL_Open :: "(nat \<times> wal_entry list) list \<Rightarrow> WAL" where
  "WAL_Open segments =
     (if segments = [] then \<lparr>wl_files = [], wl_id = 0, wl_writer = None\<rparr>
      else
        let (lid, es) = last segments
        in if es = [] then \<lparr>wl_files = butlast segments, wl_id = lid, wl_writer = None\<rparr>
           else \<lparr>wl_files = segments, wl_id = lid, wl_writer = Some 0\<rparr>)"

section \<open>Replaying the log\<close>

definition load_entry :: "(string \<Rightarrow> u64) \<Rightarrow> wal_entry \<Rightarrow> Cache \<Rightarrow> cache_error option \<times> Cache" where
  "load_entry hash t c =
     (case t of
        WriteWALEntry values \<Rightarrow> Cache_WriteMulti hash c values
      | DeleteRangeWALEntry keys mn mx \<Rightarrow> (None, Cache_DeleteRange hash c keys mn mx)
      | DeleteWALEntry keys \<Rightarrow> (None, Cache_Delete hash c keys))"

fun load_entries :: "(string \<Rightarrow> u64) \<Rightarrow> wal_entry list \<Rightarrow> Cache \<Rightarrow> cache_error option \<times> Cache" where
  "load_entries hash [] c = (None, c)"
| "load_entries hash (t # ts) c =
     (case load_entry hash t c of
        (Some err, c') \<Rightarrow> (Some err, c')
      | (None, c') \<Rightarrow> load_entries hash ts c')"

fun CacheLoader_Load :: "(string \<Rightarrow> u64) \<Rightarrow> (nat \<times> wal_entry list) list \<Rightarrow> Cache \<Rightarrow> cache_error option \<times> Cache" where
  "CacheLoader_Load hash [] c = (None, c)"
| "CacheLoader_Load hash ((i, es) # files) c =
     (case load_entries hash es c of
        (Some err, c') \<Rightarrow> (Some err, c')
      | (None, c') \<Rightarrow> CacheLoader_Load hash files c')"

definition reloadCache :: "(string \<Rightarrow> u64) \<Rightarrow> WAL \<Rightarrow> Cache \<Rightarrow> cache_error option \<times> Cache" where
  "reloadCache hash w c =
     (let limit = ca_maxSize c;
          (err, c') = CacheLoader_Load hash (wl_files w) (Cache_SetMaxSize 0 c)
      in (err, Cache_SetMaxSize limit c'))"

section \<open>The engine\<close>

text \<open>\<open>eg_closed\<close> is the list of segments a running \<open>WriteSnapshot\<close> will remove.\<close>

record Engine =
  eg_cache :: Cache
  eg_wal :: WAL
  eg_files :: series_map
  eg_closed :: "nat list option"

definition NewEngine :: "u64 \<Rightarrow> Engine" where
  "NewEngine maxSize =
     \<lparr>eg_cache = NewCache maxSize, eg_wal = WAL_Open [], eg_files = (\<lambda>_. Map.empty), eg_closed = None\<rparr>"

text \<open>The end of \<open>WritePoints\<close>, once the values are sorted by their keys.\<close>

definition WritePoints :: "(string \<Rightarrow> u64) \<Rightarrow> (wal_entry \<Rightarrow> nat) \<Rightarrow> (string \<times> Value list) list \<Rightarrow> Engine
    \<Rightarrow> cache_error option \<times> Engine" where
  "WritePoints hash clen values e =
     (case Cache_WriteMulti hash (eg_cache e) values of
        (Some err, c) \<Rightarrow> (Some err, e\<lparr>eg_cache := c\<rparr>)
      | (None, c) \<Rightarrow> (None, e\<lparr>eg_cache := c, eg_wal := WAL_WriteMulti clen values (eg_wal e)\<rparr>))"

text \<open>\<open>WriteSnapshot\<close> up to the writing of the files; \<open>None\<close> is the panic.\<close>

definition WriteSnapshot :: "Engine \<Rightarrow> (cache_error option \<times> Engine) option" where
  "WriteSnapshot e =
     (let w = CloseSegment (eg_wal e);
          segments = ClosedSegments w;
          (err, c) = Cache_Snapshot (eg_cache e);
          e' = e\<lparr>eg_wal := w, eg_cache := c\<rparr>
      in if err \<noteq> None then Some (err, e')
         else case ca_snapshot c of
                None \<Rightarrow> None
              | Some sn \<Rightarrow>
                  if sn_size sn = 0 then
                    (case Cache_ClearSnapshot True c of
                       None \<Rightarrow> None
                     | Some c' \<Rightarrow> Some (None, e'\<lparr>eg_cache := c'\<rparr>))
                  else Some (None, e'\<lparr>eg_cache := snapshot_Deduplicate c, eg_closed := Some segments\<rparr>))"

text \<open>
  \<open>writeSnapshotAndCommit\<close>: the files get the values of the snapshot and the segments are removed, or,
  when the compactor or the file store failed, the snapshot is kept for another attempt.
\<close>

definition writeSnapshotAndCommit :: "(string \<Rightarrow> u64) \<Rightarrow> bool \<Rightarrow> Engine \<Rightarrow> Engine option" where
  "writeSnapshotAndCommit hash ok e =
     (case eg_closed e of
        None \<Rightarrow> None
      | Some closedFiles \<Rightarrow>
          (case Cache_ClearSnapshot ok (eg_cache e) of
             None \<Rightarrow> None
           | Some c \<Rightarrow>
               if ok then
                 let files = (case ca_snapshot (eg_cache e) of
                                None \<Rightarrow> eg_files e
                              | Some sn \<Rightarrow> (\<lambda>k. eg_files e k ++ vmap (cache_values hash sn k)))
                 in Some (e\<lparr>eg_files := files, eg_cache := c, eg_wal := WAL_Remove closedFiles (eg_wal e), eg_closed := None\<rparr>)
               else Some (e\<lparr>eg_cache := c, eg_closed := None\<rparr>)))"

definition keyFieldSeparator :: string where "keyFieldSeparator = ''#!~#''"

fun is_prefix :: "string \<Rightarrow> string \<Rightarrow> bool" where
  "is_prefix [] ys = True"
| "is_prefix (x # xs) [] = False"
| "is_prefix (x # xs) (y # ys) = (x = y \<and> is_prefix xs ys)"

fun series_of :: "string \<Rightarrow> string" where
  "series_of [] = []"
| "series_of (x # key) = (if is_prefix keyFieldSeparator (x # key) then [] else x # series_of key)"

definition influxql_MinTime :: int where "influxql_MinTime = MinInt64 + 2"
definition influxql_MaxTime :: int where "influxql_MaxTime = MaxInt64 - 1"

text \<open>\<open>deleteSeriesRange\<close> without the index: the TSM files, the keys found in the cache, the log.\<close>

definition deleteSeriesRange :: "(string \<Rightarrow> u64) \<Rightarrow> (wal_entry \<Rightarrow> nat) \<Rightarrow> string list \<Rightarrow> int \<Rightarrow> int \<Rightarrow> Engine \<Rightarrow> Engine" where
  "deleteSeriesRange hash clen seriesKeys mn0 mx0 e =
     (if seriesKeys = [] then e
      else
        let mn = (if mn0 = influxql_MinTime then MinInt64 else mn0);
            mx = (if mx0 = influxql_MaxTime then MaxInt64 else mx0);
            files = (\<lambda>k t. if series_of k \<in> set seriesKeys \<and> mn \<le> t \<and> t \<le> mx then None else eg_files e k t);
            deleteKeys = filter (\<lambda>k. series_of k \<in> set seriesKeys) (storer_keys (ca_store (eg_cache e)) True)
        in e\<lparr>eg_files := files,
             eg_cache := Cache_DeleteRange hash (eg_cache e) deleteKeys mn mx,
             eg_wal := WAL_DeleteRange clen deleteKeys mn mx (eg_wal e)\<rparr>)"

text \<open>A crash or a close, and \<open>Open\<close>: what the files hold stays, the cache is loaded from the log.\<close>

definition reopen :: "(string \<Rightarrow> u64) \<Rightarrow> Engine \<Rightarrow> cache_error option \<times> Engine" where
  "reopen hash e =
     (let w = WAL_Open (wl_files (eg_wal e));
          (err, c) = reloadCache hash w (NewCache (ca_maxSize (eg_cache e)))
      in (err, e\<lparr>eg_wal := w, eg_cache := c, eg_closed := None\<rparr>))"

text \<open>What a query of the shard sees: the files, overlaid with the snapshot and the hot values.\<close>

definition engine_view :: "(string \<Rightarrow> u64) \<Rightarrow> Engine \<Rightarrow> series_map" where
  "engine_view hash e =
     (\<lambda>k. eg_files e k ++ vmap (fst (Cache_Values hash (eg_cache e) k)))"

datatype engine_op =
    EWrite "(string \<times> Value list) list"
  | EBegin
  | ECommit bool
  | EDelete "string list" int int
  | EReopen

text \<open>A step; there is none when an open fails, on the panic, or to commit what was not begun.\<close>

fun engine_exec :: "(string \<Rightarrow> u64) \<Rightarrow> (wal_entry \<Rightarrow> nat) \<Rightarrow> engine_op \<Rightarrow> Engine \<Rightarrow> (cache_error option \<times> Engine) option" where
  "engine_exec hash clen (EWrite values) e = Some (WritePoints hash clen values e)"
| "engine_exec hash clen EBegin e = WriteSnapshot e"
| "engine_exec hash clen (ECommit ok) e = map_option (\<lambda>e'. (None, e')) (writeSnapshotAndCommit hash ok e)"
| "engine_exec hash clen (EDelete keys mn mx) e = Some (None, deleteSeriesRange hash clen keys mn mx e)"
| "engine_exec hash clen EReopen e = (case reopen hash e of (Some err, e') \<Rightarrow> None | (None, e') \<Rightarrow> Some (None, e'))"

fun engine_run :: "(string \<Rightarrow> u64) \<Rightarrow> (wal_entry \<Rightarrow> nat) \<Rightarrow> engine_op list \<Rightarrow> Engine \<Rightarrow> Engine option" where
  "engine_run hash clen [] e = Some e"
| "engine_run hash clen (op # ops) e =
     (case engine_exec hash clen op e of None \<Rightarrow> None | Some (_, e') \<Rightarrow> engine_run hash clen ops e')"

end
