(* ===== verification/TSMEngineProps.thy ===== *)
theory TSMEngineProps
  imports TSMEngine
begin

text \<open>
  What survives in a shard: as long as no snapshot fails and nothing is deleted, what a query sees
  is the acknowledged writes overlaid in their order, through snapshots and restarts at any time.
\<close>

section \<open>The log as a list of entries\<close>

definition wal_entries :: "(nat \<times> wal_entry list) list \<Rightarrow> wal_entry list" where
  "wal_entries files = concat (map snd files)"

lemma wal_entries_simps [simp]:
  "wal_entries [] = []" "wal_entries ((i, es) # files) = es @ wal_entries files"
  "wal_entries (fs @ gs) = wal_entries fs @ wal_entries gs"
  by (simp_all add: wal_entries_def)

text \<open>Ids ascend up to the current one; an open writer writes the last file.\<close>

definition wal_ok :: "WAL \<Rightarrow> bool" where
  "wal_ok w \<longleftrightarrow> sorted_wrt (<) (map fst (wl_files w)) \<and> (\<forall>i\<in>fst ` set (wl_files w). i \<le> wl_id w) \<and>
     (wl_writer w \<noteq> None \<longrightarrow> wl_files w \<noteq> [] \<and> fst (last (wl_files w)) = wl_id w)"

lemma wal_ok_distinct: "wal_ok w \<Longrightarrow> distinct (map fst (wl_files w))"
  by (simp add: wal_ok_def strict_sorted_iff)

lemma newSegmentFile_ok:
  assumes "wal_ok w"
  shows "wal_ok (newSegmentFile w)"
  using assms by (auto simp: wal_ok_def newSegmentFile_def sorted_wrt_append less_Suc_eq_le intro: le_SucI)

lemma rollSegment_ok:
  assumes "wal_ok w"
  shows "wal_ok (rollSegment w) \<and> wl_writer (rollSegment w) \<noteq> None \<and>
    (\<exists>N. wl_files (rollSegment w) = wl_files w @ N \<and> wal_entries N = [])"
  using assms newSegmentFile_ok [OF assms]
  by (auto simp: rollSegment_def newSegmentFile_def split: option.splits)

lemma CloseSegment_ok:
  assumes "wal_ok w"
  shows "wal_ok (CloseSegment w) \<and> wl_writer (CloseSegment w) \<noteq> None \<and>
    (\<exists>N. wl_files (CloseSegment w) = wl_files w @ N \<and> wal_entries N = [])"
  using assms newSegmentFile_ok [OF assms]
  by (auto simp: CloseSegment_def newSegmentFile_def split: option.splits)

lemma map_last_file:
  assumes "distinct (map fst (fs @ [(i, es)]))"
  shows "map (\<lambda>(j, xs). (j, if j = i then xs @ [t] else xs)) (fs @ [(i, es)]) = fs @ [(i, es @ [t])]"
proof -
  have "map (\<lambda>(j, xs). (j, if j = i then xs @ [t] else xs)) fs = map (\<lambda>x. x) fs"
    by (rule map_cong [OF refl]) (use assms in \<open>force split: prod.split\<close>)
  then show ?thesis by simp
qed

text \<open>Appending an entry changes nothing but the last file, and keeps every prefix of the files.\<close>

lemma writeToLog_ok:
  assumes ok: "wal_ok w"
  shows "wal_ok (writeToLog clen t w) \<and>
    (\<forall>F B. wl_files w = F @ B \<longrightarrow> (B = [] \<longrightarrow> wl_writer w = None) \<longrightarrow>
       (\<exists>B'. wl_files (writeToLog clen t w) = F @ B' \<and> B' \<noteq> [] \<and> wal_entries B' = wal_entries B @ [t]))"
proof -
  let ?r = "rollSegment w"
  have r: "wal_ok ?r" "wl_writer ?r \<noteq> None" using rollSegment_ok [OF ok] by auto
  obtain N where N: "wl_files ?r = wl_files w @ N" "wal_entries N = []" using rollSegment_ok [OF ok] by auto
  obtain fs es where f: "wl_files ?r = fs @ [(wl_id ?r, es)]"
    using r by (cases "wl_files ?r" rule: rev_cases) (auto simp: wal_ok_def)
  have d: "distinct (map fst (fs @ [(wl_id ?r, es)]))" using wal_ok_distinct [OF r(1)] f by simp
  have x: "wl_files (writeToLog clen t w) = fs @ [(wl_id ?r, es @ [t])]"
    using map_last_file [OF d, of t] by (simp add: writeToLog_def Let_def f)
  have i: "wl_id (writeToLog clen t w) = wl_id ?r" "wl_writer (writeToLog clen t w) \<noteq> None"
    using r(2) by (auto simp: writeToLog_def Let_def)
  have "wal_ok (writeToLog clen t w)" using r(1) x i f by (auto simp: wal_ok_def)
  moreover have "\<exists>B'. wl_files (writeToLog clen t w) = F @ B' \<and> B' \<noteq> [] \<and> wal_entries B' = wal_entries B @ [t]"
    if "wl_files w = F @ B" "B = [] \<longrightarrow> wl_writer w = None" for F B
  proof -
    have b: "fs @ [(wl_id ?r, es)] = F @ B @ N" using N(1) f that(1) by simp
    have "B @ N \<noteq> []"
    proof (cases "B = []")
      case True
      then have "wl_files ?r = wl_files w @ [(wl_id w + 1, [])]" using that(2) by (simp add: rollSegment_def newSegmentFile_def)
      then show ?thesis using N(1) by auto
    qed simp
    then obtain B0 where B0: "B @ N = B0 @ [(wl_id ?r, es)]" "fs = F @ B0"
      using b by (cases "B @ N" rule: rev_cases) auto
    have "wal_entries (B @ N) = wal_entries B" using N(2) by simp
    then show ?thesis using x B0 by (intro exI [of _ "B0 @ [(wl_id ?r, es @ [t])]"]) auto
  qed
  ultimately show ?thesis by blast
qed

lemma WAL_Open_ok:
  assumes "wal_ok w"
  shows "wal_ok (WAL_Open (wl_files w))" "wal_entries (wl_files (WAL_Open (wl_files w))) = wal_entries (wl_files w)"
proof -
  show "wal_ok (WAL_Open (wl_files w))"
    using assms
    by (cases "wl_files w" rule: rev_cases)
      (auto simp: WAL_Open_def wal_ok_def sorted_wrt_append split: prod.splits intro: less_imp_le)
  show "wal_entries (wl_files (WAL_Open (wl_files w))) = wal_entries (wl_files w)"
    by (cases "wl_files w" rule: rev_cases) (auto simp: WAL_Open_def)
qed

text \<open>Closed segments are a prefix of the files; the current file stays.\<close>

lemma ClosedSegments_prefix:
  assumes ok: "wal_ok w" and wr: "wl_writer w \<noteq> None"
  shows "\<exists>F B. wl_files w = F @ B \<and> B \<noteq> [] \<and> ClosedSegments w = map fst F"
proof -
  obtain fs es where f: "wl_files w = fs @ [(wl_id w, es)]"
    using ok wr by (cases "wl_files w" rule: rev_cases) (auto simp: wal_ok_def)
  have "filter (\<lambda>(i, es). i \<noteq> wl_id w) fs = fs"
    using wal_ok_distinct [OF ok] f by (force simp: filter_id_conv)
  then have "ClosedSegments w = map fst fs" using wr by (simp add: ClosedSegments_def f)
  then show ?thesis using f by blast
qed

lemma WAL_Remove_prefix:
  assumes "wal_ok w" "wl_files w = F @ B" "B \<noteq> []"
  shows "wl_files (WAL_Remove (map fst F) w) = B" "wal_ok (WAL_Remove (map fst F) w)"
proof -
  have "filter (\<lambda>(i, es). i \<notin> set (map fst F)) F = []" by (force simp: filter_empty_conv)
  moreover have "filter (\<lambda>(i, es). i \<notin> set (map fst F)) B = B"
    using wal_ok_distinct [OF assms(1)] assms(2) by (force simp: filter_id_conv)
  ultimately show f: "wl_files (WAL_Remove (map fst F) w) = B" by (simp add: WAL_Remove_def assms(2))
  show "wal_ok (WAL_Remove (map fst F) w)"
  proof -
    have "wl_id (WAL_Remove (map fst F) w) = wl_id w" "wl_writer (WAL_Remove (map fst F) w) = wl_writer w"
      by (simp_all add: WAL_Remove_def)
    then show ?thesis using assms unfolding wal_ok_def f by (simp add: sorted_wrt_append)
  qed
qed

section \<open>Replaying writes\<close>

definition under :: "series_map \<Rightarrow> series_map \<Rightarrow> series_map" where
  "under m n = (\<lambda>k. m k ++ n k)"

lemma under_simps [simp]:
  "under m (\<lambda>_. Map.empty) = m" "under (\<lambda>_. Map.empty) m = m" "under (under a b) c = under a (under b c)"
  by (simp_all add: under_def)

lemma overlay_under: "overlay kvs (under m n) = under m (overlay kvs n)"
proof (induction kvs arbitrary: n)
  case (Cons kv kvs)
  obtain k vs where kv: "kv = (k, vs)" by (cases kv)
  have "(under m n)(k := under m n k ++ vmap vs) = under m (n(k := n k ++ vmap vs))"
    by (simp add: under_def fun_eq_iff)
  then show ?case using Cons.IH by (simp add: kv fun_upd_def)
qed simp

fun log_batch :: "wal_entry \<Rightarrow> (string \<times> Value list) list" where
  "log_batch (WriteWALEntry kvs) = kvs"
| "log_batch _ = []"

definition log_batches :: "wal_entry list \<Rightarrow> (string \<times> Value list) list" where
  "log_batches es = concat (map log_batch es)"

definition replay :: "wal_entry list \<Rightarrow> series_map" where
  "replay es = overlay (log_batches es) (\<lambda>_. Map.empty)"

lemma log_batches_simps [simp]:
  "log_batches [] = []" "log_batches (t # ts) = log_batch t @ log_batches ts" "log_batches (as @ bs) = log_batches as @ log_batches bs"
  by (simp_all add: log_batches_def)

lemma overlay_append: "overlay (as @ bs) m = overlay bs (overlay as m)"
  by (simp add: overlay_def)

lemma replay_Nil [simp]: "replay [] = (\<lambda>_. Map.empty)"
  by (simp add: replay_def)

lemma replay_append: "replay (as @ bs) = under (replay as) (replay bs)"
  using overlay_under [of "log_batches bs" "replay as" "\<lambda>_. Map.empty"] by (simp add: replay_def overlay_append)

lemma replay_snoc: "replay (es @ [WriteWALEntry kvs]) = overlay kvs (replay es)"
  by (simp add: replay_def overlay_append)

lemma writes_cost_append [simp]: "writes_cost (as @ bs) = writes_cost as + writes_cost bs"
  by (simp add: writes_cost_def)

text \<open>Batches of the types of the schema, and of real values.\<close>

definition batches_ok :: "(string \<Rightarrow> nat) \<Rightarrow> (string \<times> Value list) list \<Rightarrow> bool" where
  "batches_ok ty kvs \<longleftrightarrow> (\<forall>(k, vs)\<in>set kvs. schema_batch ty k vs \<and> list_all val_ok vs)"

definition is_write :: "wal_entry \<Rightarrow> bool" where
  "is_write t \<longleftrightarrow> (\<exists>kvs. t = WriteWALEntry kvs)"

lemma batches_ok_append [simp]: "batches_ok ty (as @ bs) \<longleftrightarrow> batches_ok ty as \<and> batches_ok ty bs"
  by (auto simp: batches_ok_def)

lemma batches_okD: "batches_ok ty kvs \<Longrightarrow> (k, vs) \<in> set kvs \<Longrightarrow> schema_batch ty k vs"
  "batches_ok ty kvs \<Longrightarrow> (k, vs) \<in> set kvs \<Longrightarrow> list_all val_ok vs"
  by (auto simp: batches_ok_def)

text \<open>The three invariants of a cache in one.\<close>

definition cache_good :: "(string \<Rightarrow> u64) \<Rightarrow> (string \<Rightarrow> nat) \<Rightarrow> nat \<Rightarrow> Cache \<Rightarrow> bool" where
  "cache_good hash ty W c \<longleftrightarrow> cache_inv hash W c \<and> stamped.cache_ok hash c \<and> schema.cache_ok ty hash c"

lemma cache_good_exec:
  assumes "cache_good hash ty W c" "batches_ok ty (op_batches op)" "W + op_cost op < 2 ^ 64"
    and "cache_exec hash op c = Some (err, c')"
  shows "cache_good hash ty (W + op_cost op) c'"
proof -
  have inv: "cache_inv hash W c" and so: "stores_ok hash c" using assms(1) cache_invD(1) by (auto simp: cache_good_def)
  have "stamped.cache_ok hash c'"
    by (rule stamped.exec_ok [OF so _ _ assms(4)]) (use assms(1,2) batches_okD in \<open>auto simp: cache_good_def\<close>)
  moreover have "schema.cache_ok ty hash c'"
    by (rule schema.exec_ok [OF so _ _ assms(4)]) (use assms(1,2) batches_okD in \<open>auto simp: cache_good_def\<close>)
  ultimately show ?thesis using cache_exec_inv [OF inv assms(3,4)] by (simp add: cache_good_def)
qed

lemma cache_good_mono: "cache_good hash ty W c \<Longrightarrow> W \<le> W' \<Longrightarrow> cache_good hash ty W' c"
  by (auto simp: cache_good_def cache_inv_def)

lemma cache_good_New: "cache_good hash ty 0 (NewCache m)"
  using NewCache_inv by (simp add: cache_good_def stamped.cache_ok_def schema.cache_ok_def NewCache_def snapshot_entry_def [abs_def])

text \<open>A batch is refused as a whole, for want of room, or written as a whole.\<close>

lemma WriteMulti_good:
  assumes g: "cache_good hash ty W c" and b: "batches_ok ty kvs" and w: "Cache_WriteMulti hash c kvs = (err, c')"
    and cost: "W + writes_cost kvs < 2 ^ 64"
  shows "cache_good hash ty (W + writes_cost kvs) c'" "ca_snapshot c' = ca_snapshot c" "ca_snapshotting c' = ca_snapshotting c"
    "a_hot (cache_abs hash c') = (if err = None then overlay kvs (a_hot (cache_abs hash c)) else a_hot (cache_abs hash c))"
proof -
  have so: "stores_ok hash c" using g cache_invD(1) by (auto simp: cache_good_def)
  show "cache_good hash ty (W + writes_cost kvs) c'"
    using cache_good_exec [OF g, of "OpWriteMulti kvs" err c'] b cost w by simp
  have acc: "batch_accepted (hot hash c) kvs = kvs"
    by (rule schema_batch_accepted [where ty = ty]) (use g b batches_okD in \<open>auto simp: cache_good_def schema.cache_ok_def\<close>)
  note E = WriteMulti_entries [OF so w]
  show "ca_snapshot c' = ca_snapshot c" "ca_snapshotting c' = ca_snapshotting c" using E by auto
  show "a_hot (cache_abs hash c') = (if err = None then overlay kvs (a_hot (cache_abs hash c)) else a_hot (cache_abs hash c))"
    using E acc by (auto simp: cache_abs_def apply_batch_map)
qed

lemma write_multi_loop_maxSize:
  "write_multi_loop hash kvs c a e = (c', a', e') \<Longrightarrow> ca_maxSize c' = ca_maxSize c"
  by (induction hash kvs c a e rule: write_multi_loop.induct)
    (auto simp: cache_field_defs split: sum.splits if_splits)

lemma WriteMulti_unlimited:
  assumes g: "cache_good hash ty W c" and b: "batches_ok ty kvs" and z: "ca_maxSize c = 0"
  shows "fst (Cache_WriteMulti hash c kvs) = None" "ca_maxSize (snd (Cache_WriteMulti hash c kvs)) = 0"
proof -
  have so: "stores_ok hash c" using g cache_invD(1) by (auto simp: cache_good_def)
  have acc: "batch_accepted (hot hash c) kvs = kvs"
    by (rule schema_batch_accepted [where ty = ty]) (use g b batches_okD in \<open>auto simp: cache_good_def schema.cache_ok_def\<close>)
  define d where "d = Cache_init c"
  define a :: u64 where "a = sum_list (map (\<lambda>(k, v). of_nat (values_Size v)) kvs)"
  obtain c1 a1 e1 where l: "write_multi_loop hash kvs (increaseSize a d) a None = (c1, a1, e1)"
    by (cases "write_multi_loop hash kvs (increaseSize a d) a None")
  have d: "good_store hash (ca_store (increaseSize a d))" "hot hash (increaseSize a d) = hot hash c" "ca_maxSize d = 0"
    using init_facts [OF so] z by (simp_all add: d_def increaseSize_def)
  have "e1 = None" using write_multi_loop_entries [OF d(1) l] acc d(2) by simp
  moreover have "ca_maxSize c1 = 0" using write_multi_loop_maxSize [OF l] d(3) by (simp add: increaseSize_def)
  moreover have "Cache_WriteMulti hash c kvs = (e1, count_WriteOK (updateMemSize a1 (if e1 \<noteq> None then count_WriteErr (count_WriteDropped c1) else c1)))"
    by (simp add: Cache_WriteMulti_def d_def [symmetric] a_def [symmetric] Let_def l d(3))
  ultimately show "fst (Cache_WriteMulti hash c kvs) = None" "ca_maxSize (snd (Cache_WriteMulti hash c kvs)) = 0"
    by (simp_all add: cache_field_defs)
qed

lemma load_entries_good:
  assumes "cache_good hash ty W c" "list_all is_write es" "batches_ok ty (log_batches es)"
    and "W + writes_cost (log_batches es) < 2 ^ 64" "ca_maxSize c = 0"
  shows "\<exists>c'. load_entries hash es c = (None, c') \<and> cache_good hash ty (W + writes_cost (log_batches es)) c' \<and>
    ca_maxSize c' = 0 \<and> ca_snapshot c' = ca_snapshot c \<and> ca_snapshotting c' = ca_snapshotting c \<and>
    a_hot (cache_abs hash c') = overlay (log_batches es) (a_hot (cache_abs hash c))"
  using assms
proof (induction es arbitrary: W c)
  case (Cons t es)
  obtain kvs where t: "t = WriteWALEntry kvs" using Cons.prems(2) by (auto simp: is_write_def)
  have b: "batches_ok ty kvs" "batches_ok ty (log_batches es)" using Cons.prems(3) by (simp_all add: t)
  obtain d where w: "Cache_WriteMulti hash c kvs = (None, d)" "ca_maxSize d = 0"
    using WriteMulti_unlimited [OF Cons.prems(1) b(1) Cons.prems(5)] by (cases "Cache_WriteMulti hash c kvs") auto
  have cost: "W + writes_cost kvs < 2 ^ 64" using Cons.prems(4) by (simp add: t)
  note D = WriteMulti_good [OF Cons.prems(1) b(1) w(1) cost]
  obtain c' where c': "load_entries hash es d = (None, c')"
      "cache_good hash ty (W + writes_cost kvs + writes_cost (log_batches es)) c'" "ca_maxSize c' = 0"
      "ca_snapshot c' = ca_snapshot d" "ca_snapshotting c' = ca_snapshotting d"
      "a_hot (cache_abs hash c') = overlay (log_batches es) (a_hot (cache_abs hash d))"
    using Cons.IH [OF D(1) _ b(2) _ w(2)] Cons.prems(2,4) by (auto simp: t)
  show ?case using c' D w(1) by (simp add: t load_entry_def overlay_append add.assoc)
qed simp

lemma CacheLoader_Load_entries: "CacheLoader_Load hash files c = load_entries hash (wal_entries files) c"
proof (induction hash files c rule: CacheLoader_Load.induct)
  case (2 hash i es files c)
  have "load_entries hash (es @ fs) c = (case load_entries hash es c of (Some err, c') \<Rightarrow> (Some err, c') | (None, c') \<Rightarrow> load_entries hash fs c')" for fs
    by (induction es arbitrary: c) (auto split: prod.splits option.splits)
  then show ?case using "2.IH" by (auto split: prod.splits option.splits)
qed simp

lemma SetMaxSize_good: "cache_good hash ty W c \<Longrightarrow> cache_good hash ty W (Cache_SetMaxSize n c)"
  using SetMaxSize_inv [of hash W c n]
  by (simp add: cache_good_def stamped.cache_ok_def schema.cache_ok_def Cache_SetMaxSize_def snapshot_entry_def [abs_def])

lemma reloadCache_good:
  assumes "list_all is_write (wal_entries (wl_files w))" "batches_ok ty (log_batches (wal_entries (wl_files w)))"
    and "writes_cost (log_batches (wal_entries (wl_files w))) < 2 ^ 64"
  shows "\<exists>c. reloadCache hash w (NewCache m) = (None, c) \<and>
    cache_good hash ty (writes_cost (log_batches (wal_entries (wl_files w)))) c \<and>
    ca_snapshot c = None \<and> \<not> ca_snapshotting c \<and> ca_maxSize c = m \<and>
    a_hot (cache_abs hash c) = replay (wal_entries (wl_files w)) \<and> a_snap (cache_abs hash c) = (\<lambda>_. Map.empty)"
proof -
  let ?n = "Cache_SetMaxSize 0 (NewCache m)"
  have n: "?n = NewCache 0" by (simp add: Cache_SetMaxSize_def NewCache_def)
  obtain c where c: "load_entries hash (wal_entries (wl_files w)) (NewCache 0) = (None, c)"
      "cache_good hash ty (writes_cost (log_batches (wal_entries (wl_files w)))) c" "ca_maxSize c = 0"
      "ca_snapshot c = None" "\<not> ca_snapshotting c"
      "a_hot (cache_abs hash c) = overlay (log_batches (wal_entries (wl_files w))) (\<lambda>_. Map.empty)"
    using load_entries_good [OF cache_good_New [of hash ty 0] assms(1,2)] assms(3)
    by (auto simp: cache_abs_New) (auto simp: NewCache_def)
  let ?c = "Cache_SetMaxSize m c"
  have "reloadCache hash w (NewCache m) = (None, ?c)"
    by (simp add: reloadCache_def n CacheLoader_Load_entries c(1) Let_def) (simp add: NewCache_def)
  moreover have "a_hot (cache_abs hash ?c) = a_hot (cache_abs hash c)" by (simp add: cache_abs_def Cache_SetMaxSize_def)
  moreover have "a_snap (cache_abs hash ?c) = (\<lambda>_. Map.empty)"
    using c(4) by (simp add: cache_abs_def Cache_SetMaxSize_def snapshot_entry_def [abs_def])
  moreover have "ca_snapshot ?c = None" "\<not> ca_snapshotting ?c" "ca_maxSize ?c = m"
    using c(4,5) by (simp_all add: Cache_SetMaxSize_def)
  ultimately show ?thesis using SetMaxSize_good [OF c(2), of m] c(6) by (simp add: replay_def)
qed

section \<open>The invariant of the engine\<close>

text \<open>
  The log is what is already in the files (\<open>D\<close>), what the running snapshot holds (\<open>S\<close>) and what is
  hot (\<open>L\<close>); the segments to be removed end within \<open>D\<close> and \<open>S\<close>.
\<close>

definition engine_inv :: "(string \<Rightarrow> u64) \<Rightarrow> (string \<Rightarrow> nat) \<Rightarrow> nat \<Rightarrow> Engine \<Rightarrow> bool" where
  "engine_inv hash ty T e \<longleftrightarrow>
     wal_ok (eg_wal e) \<and> cache_good hash ty T (eg_cache e) \<and>
     list_all is_write (wal_entries (wl_files (eg_wal e))) \<and>
     batches_ok ty (log_batches (wal_entries (wl_files (eg_wal e)))) \<and>
     writes_cost (log_batches (wal_entries (wl_files (eg_wal e)))) \<le> T \<and>
     (\<exists>D S L. wal_entries (wl_files (eg_wal e)) = D @ S @ L \<and>
        under (eg_files e) (replay D) = eg_files e \<and>
        a_snap (cache_abs hash (eg_cache e)) = replay S \<and>
        a_hot (cache_abs hash (eg_cache e)) = replay L \<and>
        ca_snapshotting (eg_cache e) = (eg_closed e \<noteq> None) \<and>
        (eg_closed e = None \<longrightarrow> S = [] \<and> ca_snapshotSize (eg_cache e) = 0) \<and>
        (\<forall>ids. eg_closed e = Some ids \<longrightarrow>
           (\<exists>F B R. wl_files (eg_wal e) = F @ B \<and> B \<noteq> [] \<and> ids = map fst F \<and> D @ S = wal_entries F @ R)))"

lemma engine_view_under:
  "engine_view hash e = under (eg_files e) (under (a_snap (cache_abs hash (eg_cache e))) (a_hot (cache_abs hash (eg_cache e))))"
  by (simp add: engine_view_def under_def Cache_Values_map)

lemma NewEngine_inv: "engine_inv hash ty 0 (NewEngine m)"
  unfolding engine_inv_def
  by (intro conjI exI [of _ "[]"])
    (simp_all add: NewEngine_def WAL_Open_def wal_ok_def batches_ok_def cache_good_New cache_abs_New, simp_all add: NewCache_def)

lemma engine_invE:
  assumes "engine_inv hash ty T e"
  obtains D S L where "wal_ok (eg_wal e)" "cache_good hash ty T (eg_cache e)"
    "list_all is_write (wal_entries (wl_files (eg_wal e)))"
    "batches_ok ty (log_batches (wal_entries (wl_files (eg_wal e))))"
    "writes_cost (log_batches (wal_entries (wl_files (eg_wal e)))) \<le> T"
    "wal_entries (wl_files (eg_wal e)) = D @ S @ L"
    "under (eg_files e) (replay D) = eg_files e"
    "a_snap (cache_abs hash (eg_cache e)) = replay S" "a_hot (cache_abs hash (eg_cache e)) = replay L"
    "ca_snapshotting (eg_cache e) = (eg_closed e \<noteq> None)"
    "eg_closed e = None \<Longrightarrow> S = [] \<and> ca_snapshotSize (eg_cache e) = 0"
    "\<And>ids. eg_closed e = Some ids \<Longrightarrow>
       \<exists>F B R. wl_files (eg_wal e) = F @ B \<and> B \<noteq> [] \<and> ids = map fst F \<and> D @ S = wal_entries F @ R"
  using assms unfolding engine_inv_def by (elim conjE exE) (rule that; blast)

lemma engine_invI:
  assumes "wal_ok (eg_wal e)" "cache_good hash ty T (eg_cache e)"
    and "list_all is_write (wal_entries (wl_files (eg_wal e)))"
    and "batches_ok ty (log_batches (wal_entries (wl_files (eg_wal e))))"
    and "writes_cost (log_batches (wal_entries (wl_files (eg_wal e)))) \<le> T"
    and "wal_entries (wl_files (eg_wal e)) = D @ S @ L"
    and "under (eg_files e) (replay D) = eg_files e"
    and "a_snap (cache_abs hash (eg_cache e)) = replay S" "a_hot (cache_abs hash (eg_cache e)) = replay L"
    and "ca_snapshotting (eg_cache e) = (eg_closed e \<noteq> None)"
    and "eg_closed e = None \<Longrightarrow> S = [] \<and> ca_snapshotSize (eg_cache e) = 0"
    and "\<And>ids. eg_closed e = Some ids \<Longrightarrow>
       \<exists>F B R. wl_files (eg_wal e) = F @ B \<and> B \<noteq> [] \<and> ids = map fst F \<and> D @ S = wal_entries F @ R"
  shows "engine_inv hash ty T e"
proof -
  have c: "(eg_closed e = None \<longrightarrow> S = [] \<and> ca_snapshotSize (eg_cache e) = 0) \<and>
      (\<forall>ids. eg_closed e = Some ids \<longrightarrow>
         (\<exists>F B R. wl_files (eg_wal e) = F @ B \<and> B \<noteq> [] \<and> ids = map fst F \<and> D @ S = wal_entries F @ R))"
    by (rule conjI, rule impI, erule assms(11), rule allI, rule impI, erule assms(12))
  show ?thesis
    unfolding engine_inv_def
    by (intro conjI assms(1-5), rule exI [of _ D], rule exI [of _ S], rule exI [of _ L])
      (intro conjI assms(6-10) conjunct1 [OF c] conjunct2 [OF c])
qed

lemma write_multi_loop_snapshotSize:
  "write_multi_loop hash kvs c a e = (c', a', e') \<Longrightarrow> ca_snapshotSize c' = ca_snapshotSize c"
  by (induction hash kvs c a e rule: write_multi_loop.induct)
    (auto simp: cache_field_defs split: sum.splits if_splits)

lemma WriteMulti_snapshotSize: "ca_snapshotSize (snd (Cache_WriteMulti hash c kvs)) = ca_snapshotSize c"
  by (auto simp: Cache_WriteMulti_def Let_def cache_field_defs split: prod.splits dest: write_multi_loop_snapshotSize)

lemma engine_write:
  assumes inv: "engine_inv hash ty T e" and b: "batches_ok ty kvs" and cost: "T + writes_cost kvs < 2 ^ 64"
    and x: "WritePoints hash clen kvs e = (err, e')"
  shows "engine_inv hash ty (T + writes_cost kvs) e' \<and>
    engine_view hash e' = (if err = None then overlay kvs (engine_view hash e) else engine_view hash e)"
proof -
  obtain D S L where I: "wal_ok (eg_wal e)" "cache_good hash ty T (eg_cache e)"
    "list_all is_write (wal_entries (wl_files (eg_wal e)))"
    "batches_ok ty (log_batches (wal_entries (wl_files (eg_wal e))))"
    "writes_cost (log_batches (wal_entries (wl_files (eg_wal e)))) \<le> T"
    "wal_entries (wl_files (eg_wal e)) = D @ S @ L"
    "under (eg_files e) (replay D) = eg_files e"
    "a_snap (cache_abs hash (eg_cache e)) = replay S" "a_hot (cache_abs hash (eg_cache e)) = replay L"
    "ca_snapshotting (eg_cache e) = (eg_closed e \<noteq> None)"
    "eg_closed e = None \<Longrightarrow> S = [] \<and> ca_snapshotSize (eg_cache e) = 0"
    "\<And>ids. eg_closed e = Some ids \<Longrightarrow>
       \<exists>F B R. wl_files (eg_wal e) = F @ B \<and> B \<noteq> [] \<and> ids = map fst F \<and> D @ S = wal_entries F @ R"
    using engine_invE [OF inv] by blast
  obtain c where c: "Cache_WriteMulti hash (eg_cache e) kvs = (err, c)"
    using x by (auto simp: WritePoints_def split: prod.splits option.splits)
  note W = WriteMulti_good [OF I(2) b c cost]
  have snap: "a_snap (cache_abs hash c) = a_snap (cache_abs hash (eg_cache e))"
    using snapshot_entry_cong [OF W(2), of hash] by (simp add: cache_abs_def)
  have sz: "ca_snapshotSize c = ca_snapshotSize (eg_cache e)" using WriteMulti_snapshotSize [of hash "eg_cache e" kvs] c by simp
  show ?thesis
  proof (cases err)
    case (Some r)
    then have e': "e' = e\<lparr>eg_cache := c\<rparr>" using x c by (simp add: WritePoints_def)
    have "engine_inv hash ty (T + writes_cost kvs) e'"
      by (rule engine_invI [where D = D and S = S and L = L])
        (use I(1-11) W Some snap sz in \<open>simp_all add: e'\<close>, use I(12) in \<open>simp add: e'\<close>)
    then show ?thesis using W(4) snap Some by (simp add: engine_view_under e')
  next
    case None
    define w where "w = writeToLog clen (WriteWALEntry kvs) (eg_wal e)"
    have e': "e' = e\<lparr>eg_cache := c, eg_wal := w\<rparr>" using x c None by (simp add: WritePoints_def WAL_WriteMulti_def w_def)
    note wk = writeToLog_ok [OF I(1), of clen "WriteWALEntry kvs", folded w_def]
    have ents: "wal_entries (wl_files w) = wal_entries (wl_files (eg_wal e)) @ [WriteWALEntry kvs]"
    proof -
      have "wl_files (eg_wal e) = [] \<longrightarrow> wl_writer (eg_wal e) = None" using I(1) by (auto simp: wal_ok_def)
      then show ?thesis using wk by (metis append_Nil)
    qed
    have cl: "\<exists>F B R. wl_files w = F @ B \<and> B \<noteq> [] \<and> ids = map fst F \<and> D @ S = wal_entries F @ R"
      if "eg_closed e = Some ids" for ids
    proof -
      from I(12) [OF that] obtain F B R
        where F: "wl_files (eg_wal e) = F @ B" "B \<noteq> []" "ids = map fst F" "D @ S = wal_entries F @ R" by blast
      then obtain B' where "wl_files w = F @ B'" "B' \<noteq> []" using wk by blast
      then show ?thesis using F(3,4) by blast
    qed
    have "engine_inv hash ty (T + writes_cost kvs) e'"
    proof (rule engine_invI [where D = D and S = S and L = "L @ [WriteWALEntry kvs]"])
      show "wal_ok (eg_wal e')" using wk by (simp add: e')
      show "wal_entries (wl_files (eg_wal e')) = D @ S @ L @ [WriteWALEntry kvs]" using ents I(6) by (simp add: e')
      show "a_hot (cache_abs hash (eg_cache e')) = replay (L @ [WriteWALEntry kvs])"
        using W(4) None I(9) by (simp add: e' replay_snoc)
      show "\<exists>F B R. wl_files (eg_wal e') = F @ B \<and> B \<noteq> [] \<and> ids = map fst F \<and> D @ S = wal_entries F @ R"
        if "eg_closed e' = Some ids" for ids
        using cl that by (simp add: e')
    qed (use I(1-11) W snap sz ents b in \<open>simp_all add: e' is_write_def\<close>)
    moreover have "engine_view hash e' = overlay kvs (engine_view hash e)"
      using W(4) snap None by (simp add: engine_view_under e' overlay_under)
    ultimately show ?thesis using None by simp
  qed
qed

lemma engine_inv_mono: "engine_inv hash ty T e \<Longrightarrow> T \<le> T' \<Longrightarrow> engine_inv hash ty T' e"
  using cache_good_mono [of hash ty T "eg_cache e" T'] by (auto simp: engine_inv_def)

text \<open>Without a snapshot in progress, taking one moves the hot values.\<close>

lemma Snapshot_take:
  assumes g: "cache_good hash ty W c" and "\<not> ca_snapshotting c" "ca_snapshotSize c = 0" "Cache_Snapshot c = (err, c1)"
    and W: "W < 2 ^ 64"
  shows "err = None" "cache_good hash ty W c1" "ca_snapshotting c1"
    "a_hot (cache_abs hash c1) = (\<lambda>_. Map.empty)" "a_snap (cache_abs hash c1) = a_hot (cache_abs hash c)"
proof -
  have so: "stores_ok hash c" using g cache_invD(1) by (auto simp: cache_good_def)
  have E: "err = None \<and> ca_snapshotting c1 \<and> hot hash c1 = Map.empty \<and> snapshot_entry hash c1 = hot hash c"
    using Snapshot_entries [OF so assms(4)] assms(2,3) by auto
  show "err = None" "ca_snapshotting c1" using E by auto
  show "cache_good hash ty W c1"
    using cache_good_exec [OF g, of OpSnapshot err c1] assms(4) W by (simp add: batches_ok_def)
  show "a_hot (cache_abs hash c1) = (\<lambda>_. Map.empty)" "a_snap (cache_abs hash c1) = a_hot (cache_abs hash c)"
    using E by (simp_all add: cache_abs_def)
qed

lemma ClearSnapshot_good:
  assumes g: "cache_good hash ty W c" and x: "Cache_ClearSnapshot True c = Some c'" and W: "W < 2 ^ 64"
  shows "cache_good hash ty W c'" "\<not> ca_snapshotting c'" "ca_snapshotSize c' = 0"
    "a_hot (cache_abs hash c') = a_hot (cache_abs hash c)" "a_snap (cache_abs hash c') = (\<lambda>_. Map.empty)"
proof -
  have so: "stores_ok hash c" using g cache_invD(1) by (auto simp: cache_good_def)
  note E = ClearSnapshot_entries [OF so x]
  show "cache_good hash ty W c'"
    using cache_good_exec [OF g, of "OpClearSnapshot True" None c'] x W by (simp add: batches_ok_def)
  show "\<not> ca_snapshotting c'" using E by simp
  show "ca_snapshotSize c' = 0"
    using x by (auto simp: Cache_ClearSnapshot_def Let_def cache_field_defs split: option.splits)
  show "a_hot (cache_abs hash c') = a_hot (cache_abs hash c)" "a_snap (cache_abs hash c') = (\<lambda>_. Map.empty)"
    using E by (simp_all add: cache_abs_def)
qed

lemma snapshot_Deduplicate_good:
  assumes g: "cache_good hash ty W c" and W: "W < 2 ^ 64"
  shows "cache_good hash ty W (snapshot_Deduplicate c)" "cache_abs hash (snapshot_Deduplicate c) = cache_abs hash c"
proof -
  have so: "stores_ok hash c" using g cache_invD(1) by (auto simp: cache_good_def)
  show "cache_good hash ty W (snapshot_Deduplicate c)"
    using cache_good_exec [OF g, of OpSnapshotDeduplicate None "snapshot_Deduplicate c"] W by (simp add: batches_ok_def)
  show "cache_abs hash (snapshot_Deduplicate c) = cache_abs hash c"
    using Deduplicate_entries(2) [OF so] entry_map_dedup [of "\<lambda>_. entry_deduplicate" "snapshot_entry hash c"]
    by (simp add: cache_abs_def) (simp add: snapshot_Deduplicate_def)
qed

lemma Snapshot_snapshot: "Cache_Snapshot c = (None, c1) \<Longrightarrow> ca_snapshot c1 \<noteq> None"
  by (auto simp: Cache_Snapshot_def Let_def cache_field_defs split: if_splits)

lemma ClearSnapshot_total: "ca_snapshot c \<noteq> None \<Longrightarrow> \<exists>c'. Cache_ClearSnapshot b c = Some c'"
  by (auto simp: Cache_ClearSnapshot_def Let_def)

lemma engine_begin:
  assumes inv: "engine_inv hash ty T e" and T: "T < 2 ^ 64" and x: "WriteSnapshot e = Some (err, e')"
  shows "engine_inv hash ty T e' \<and> engine_view hash e' = engine_view hash e"
proof -
  obtain D S L where I: "wal_ok (eg_wal e)" "cache_good hash ty T (eg_cache e)"
    "list_all is_write (wal_entries (wl_files (eg_wal e)))"
    "batches_ok ty (log_batches (wal_entries (wl_files (eg_wal e))))"
    "writes_cost (log_batches (wal_entries (wl_files (eg_wal e)))) \<le> T"
    "wal_entries (wl_files (eg_wal e)) = D @ S @ L"
    "under (eg_files e) (replay D) = eg_files e"
    "a_snap (cache_abs hash (eg_cache e)) = replay S" "a_hot (cache_abs hash (eg_cache e)) = replay L"
    "ca_snapshotting (eg_cache e) = (eg_closed e \<noteq> None)"
    "eg_closed e = None \<Longrightarrow> S = [] \<and> ca_snapshotSize (eg_cache e) = 0"
    "\<And>ids. eg_closed e = Some ids \<Longrightarrow>
       \<exists>F B R. wl_files (eg_wal e) = F @ B \<and> B \<noteq> [] \<and> ids = map fst F \<and> D @ S = wal_entries F @ R"
    using engine_invE [OF inv] by blast
  define w where "w = CloseSegment (eg_wal e)"
  have w: "wal_ok w" "wl_writer w \<noteq> None" using CloseSegment_ok [OF I(1)] by (auto simp: w_def)
  obtain N where N: "wl_files w = wl_files (eg_wal e) @ N" "wal_entries N = []" using CloseSegment_ok [OF I(1)] by (auto simp: w_def)
  have ents: "wal_entries (wl_files w) = D @ S @ L" using N I(6) by simp
  obtain err1 c where c: "Cache_Snapshot (eg_cache e) = (err1, c)" by (cases "Cache_Snapshot (eg_cache e)")
  have so: "stores_ok hash (eg_cache e)" using I(2) cache_invD(1) by (auto simp: cache_good_def)
  show ?thesis
  proof (cases "eg_closed e")
    case (Some ids)
    then have busy: "ca_snapshotting (eg_cache e)" using I(10) by simp
    then have c1: "err1 = Some ErrSnapshotInProgress" "c = Cache_init (eg_cache e)"
      using c by (auto simp: Cache_Snapshot_def)
    have e': "e' = e\<lparr>eg_wal := w, eg_cache := Cache_init (eg_cache e)\<rparr>"
      using x c c1 by (simp add: WriteSnapshot_def w_def [symmetric] Let_def)
    have g: "cache_good hash ty T (Cache_init (eg_cache e))"
      using I(2) init_inv init_facts(3,4) [OF so]
      by (auto simp: cache_good_def stamped.cache_ok_def schema.cache_ok_def)
    have a: "cache_abs hash (Cache_init (eg_cache e)) = cache_abs hash (eg_cache e)"
      using init_facts(3,4) [OF so] by (simp add: cache_abs_def)
    obtain F B R where F: "wl_files (eg_wal e) = F @ B" "B \<noteq> []" "ids = map fst F" "D @ S = wal_entries F @ R"
      using I(12) [OF Some] by blast
    have "engine_inv hash ty T e'"
      by (rule engine_invI [where D = D and S = S and L = L])
        (use I(1-11) w ents g a Some in \<open>simp_all add: e'\<close>, use F N in \<open>auto simp: e'\<close>)
    then show ?thesis by (simp add: engine_view_under e' a)
  next
    case None
    then have nb: "\<not> ca_snapshotting (eg_cache e)" "S = []" "ca_snapshotSize (eg_cache e) = 0" using I(10,11) by auto
    note K = Snapshot_take [OF I(2) nb(1,3) c T]
    have c: "Cache_Snapshot (eg_cache e) = (None, c)" using c K(1) by simp
    obtain sn where sn: "ca_snapshot c = Some sn" using Snapshot_snapshot [OF c] by auto
    obtain c2 where c2: "Cache_ClearSnapshot True c = Some c2" using ClearSnapshot_total sn by blast
    note C = ClearSnapshot_good [OF K(2) c2 T]
    show ?thesis
    proof (cases "sn_size sn = 0")
      case True
      then have e': "e' = e\<lparr>eg_wal := w, eg_cache := c2\<rparr>"
        using x c sn c2 by (simp add: WriteSnapshot_def w_def [symmetric] Let_def)
      have ci: "cache_inv hash T c" using K(2) by (simp add: cache_good_def)
      have "sn_size sn = ca_snapshotSize c" using cache_invD(1) [OF ci] sn by (simp add: stores_ok_def)
      then have "store_bytes (snapshot_entry hash c) = 0" using cache_invD(3) [OF ci] True by simp
      moreover have "stamped.cache_ok hash c" using K(2) by (simp add: cache_good_def)
      ultimately have "a_snap (cache_abs hash c) = (\<lambda>_. Map.empty)"
        using finite_snapshot [OF cache_invD(1) [OF ci]] stamped.cache_okD(2)
        by (simp add: cache_abs_def no_bytes_no_values)
      then have z: "replay L = (\<lambda>_. Map.empty)" using K(5) I(9) by simp
      have "engine_inv hash ty T e'"
          by (rule engine_invI [where D = D and S = "[]" and L = L])
          (use I(1-11) w N ents C K nb None z in \<open>simp_all add: e'\<close>)
      then show ?thesis using C K I(8,9) nb z by (simp add: engine_view_under e')
    next
      case False
      note Dd = snapshot_Deduplicate_good [OF K(2) T]
      have e': "e' = e\<lparr>eg_wal := w, eg_cache := snapshot_Deduplicate c, eg_closed := Some (ClosedSegments w)\<rparr>"
        using x c sn False by (simp add: WriteSnapshot_def w_def [symmetric] Let_def)
      obtain F B where F: "wl_files w = F @ B" "B \<noteq> []" "ClosedSegments w = map fst F"
        using ClosedSegments_prefix [OF w] by blast
      have "engine_inv hash ty T e'"
      proof (rule engine_invI [where D = D and S = L and L = "[]"])
        have "D @ L = wal_entries F @ wal_entries B" using ents F(1) nb(2) by simp
        then show "\<exists>F B R. wl_files (eg_wal e') = F @ B \<and> B \<noteq> [] \<and> ids = map fst F \<and> D @ L = wal_entries F @ R"
          if "eg_closed e' = Some ids" for ids
          using F that by (intro exI [of _ F] exI [of _ B] exI [of _ "wal_entries B"]) (simp add: e')
        show "ca_snapshotting (eg_cache e') = (eg_closed e' \<noteq> None)"
          using K(3) by (simp add: e' snapshot_Deduplicate_def)
      qed (use I(1-9) w N ents Dd K nb in \<open>simp_all add: e'\<close>)
      then show ?thesis using Dd(2) K(4,5) I(8,9) nb(2) by (simp add: engine_view_under e')
    qed
  qed
qed

text \<open>What the files hold already they absorb again.\<close>

lemma under_absorb: "x = under y (replay R) \<Longrightarrow> under x (replay R) = x"
  by (auto simp: under_def fun_eq_iff map_add_def split: option.splits)

lemma engine_commit:
  assumes inv: "engine_inv hash ty T e" and T: "T < 2 ^ 64" and x: "writeSnapshotAndCommit hash True e = Some e'"
  shows "engine_inv hash ty T e' \<and> engine_view hash e' = engine_view hash e"
proof -
  obtain D S L where I: "wal_ok (eg_wal e)" "cache_good hash ty T (eg_cache e)"
    "list_all is_write (wal_entries (wl_files (eg_wal e)))"
    "batches_ok ty (log_batches (wal_entries (wl_files (eg_wal e))))"
    "writes_cost (log_batches (wal_entries (wl_files (eg_wal e)))) \<le> T"
    "wal_entries (wl_files (eg_wal e)) = D @ S @ L"
    "under (eg_files e) (replay D) = eg_files e"
    "a_snap (cache_abs hash (eg_cache e)) = replay S" "a_hot (cache_abs hash (eg_cache e)) = replay L"
    "ca_snapshotting (eg_cache e) = (eg_closed e \<noteq> None)"
    "eg_closed e = None \<Longrightarrow> S = [] \<and> ca_snapshotSize (eg_cache e) = 0"
    "\<And>ids. eg_closed e = Some ids \<Longrightarrow>
       \<exists>F B R. wl_files (eg_wal e) = F @ B \<and> B \<noteq> [] \<and> ids = map fst F \<and> D @ S = wal_entries F @ R"
    using engine_invE [OF inv] by blast
  obtain ids c where ic: "eg_closed e = Some ids" "Cache_ClearSnapshot True (eg_cache e) = Some c"
    using x by (auto simp: writeSnapshotAndCommit_def split: option.splits)
  note C = ClearSnapshot_good [OF I(2) ic(2) T]
  obtain F B R where F: "wl_files (eg_wal e) = F @ B" "B \<noteq> []" "ids = map fst F" "D @ S = wal_entries F @ R"
    using I(12) [OF ic(1)] by blast
  define w where "w = WAL_Remove ids (eg_wal e)"
  have w: "wl_files w = B" "wal_ok w" using WAL_Remove_prefix [OF I(1) F(1,2)] by (simp_all add: w_def F(3))
  have B: "wal_entries B = R @ L" using I(6) F(1,4) by (metis append_assoc same_append_eq wal_entries_simps(3))
  define files where "files = under (eg_files e) (a_snap (cache_abs hash (eg_cache e)))"
  have "(case ca_snapshot (eg_cache e) of None \<Rightarrow> eg_files e
      | Some sn \<Rightarrow> (\<lambda>k. eg_files e k ++ vmap (cache_values hash sn k))) = files"
    by (auto simp: files_def under_def cache_abs_def entry_map_def snapshot_entry_def cache_values_def fun_eq_iff
        split: option.splits)
  then have e': "e' = e\<lparr>eg_files := files, eg_cache := c, eg_wal := w, eg_closed := None\<rparr>"
    using x ic by (simp add: writeSnapshotAndCommit_def w_def Let_def)
  have fl: "files = under (under (eg_files e) (replay (wal_entries F))) (replay R)"
  proof -
    have "files = under (under (eg_files e) (replay D)) (replay S)" using I(7,8) by (simp add: files_def)
    also have "\<dots> = under (eg_files e) (replay (D @ S))" by (simp add: replay_append)
    finally show ?thesis by (simp add: F(4) replay_append)
  qed
  have fr: "under files (replay R) = files" using fl under_absorb [of files "under (eg_files e) (replay (wal_entries F))" R] by auto
  have "engine_inv hash ty T e'"
    by (rule engine_invI [where D = R and S = "[]" and L = L])
      (use I(1-9) w B C F fr in \<open>simp_all add: e'\<close>)
  then show ?thesis using C(4,5) by (simp add: engine_view_under e' files_def)
qed

lemma engine_reopen:
  assumes inv: "engine_inv hash ty T e" and T: "T < 2 ^ 64"
  shows "\<exists>e'. reopen hash e = (None, e') \<and> engine_inv hash ty T e' \<and> engine_view hash e' = engine_view hash e"
proof -
  obtain D S L where I: "wal_ok (eg_wal e)" "cache_good hash ty T (eg_cache e)"
    "list_all is_write (wal_entries (wl_files (eg_wal e)))"
    "batches_ok ty (log_batches (wal_entries (wl_files (eg_wal e))))"
    "writes_cost (log_batches (wal_entries (wl_files (eg_wal e)))) \<le> T"
    "wal_entries (wl_files (eg_wal e)) = D @ S @ L"
    "under (eg_files e) (replay D) = eg_files e"
    "a_snap (cache_abs hash (eg_cache e)) = replay S" "a_hot (cache_abs hash (eg_cache e)) = replay L"
    by (rule engine_invE [OF inv]) (rule that)
  define w where "w = WAL_Open (wl_files (eg_wal e))"
  have w: "wal_ok w" "wal_entries (wl_files w) = D @ S @ L" using WAL_Open_ok [OF I(1)] I(6) by (simp_all add: w_def)
  obtain c where c: "reloadCache hash w (NewCache (ca_maxSize (eg_cache e))) = (None, c)"
    "cache_good hash ty (writes_cost (log_batches (wal_entries (wl_files w)))) c"
    "ca_snapshot c = None" "\<not> ca_snapshotting c"
    "a_hot (cache_abs hash c) = replay (wal_entries (wl_files w))" "a_snap (cache_abs hash c) = (\<lambda>_. Map.empty)"
    using reloadCache_good [of w ty hash "ca_maxSize (eg_cache e)"] I(3-6) w(2) T by auto
  have g: "cache_good hash ty T c" using cache_good_mono [OF c(2)] I(5,6) w(2) by simp
  have z: "ca_snapshotSize c = 0" using g c(3) cache_invD(1) [of hash T c] by (simp add: cache_good_def stores_ok_def)
  define e' where "e' = e\<lparr>eg_wal := w, eg_cache := c, eg_closed := None\<rparr>"
  have r: "reopen hash e = (None, e')" by (simp add: reopen_def w_def [symmetric] Let_def c(1) e'_def)
  have "engine_inv hash ty T e'"
    by (rule engine_invI [where D = "[]" and S = "[]" and L = "D @ S @ L"])
      (use I w c g z in \<open>simp_all add: e'_def\<close>)
  moreover have "engine_view hash e' = engine_view hash e"
  proof -
    have "engine_view hash e' = under (under (eg_files e) (replay D)) (under (replay S) (replay L))"
      using c(5,6) w(2) by (simp add: engine_view_under e'_def replay_append)
    then show ?thesis using I(7-9) by (simp add: engine_view_under)
  qed
  ultimately show ?thesis using r by blast
qed

section \<open>Runs\<close>

text \<open>Writes of the schema, snapshots that succeed and restarts, in any order; no deletion.\<close>

fun engine_op_ok :: "(string \<Rightarrow> nat) \<Rightarrow> engine_op \<Rightarrow> bool" where
  "engine_op_ok ty (EWrite kvs) = list_all (\<lambda>(k, vs). list_all (\<lambda>v. valueType v = ty k \<and> val_ok v) vs) kvs"
| "engine_op_ok ty (ECommit ok) = ok"
| "engine_op_ok ty (EDelete keys mn mx) = False"
| "engine_op_ok ty _ = True"

fun engine_op_cost :: "engine_op \<Rightarrow> nat" where
  "engine_op_cost (EWrite kvs) = writes_cost kvs"
| "engine_op_cost _ = 0"

definition engine_cost :: "engine_op list \<Rightarrow> nat" where
  "engine_cost ops = sum_list (map engine_op_cost ops)"

text \<open>The batches of a run that were acknowledged.\<close>

fun acknowledged :: "(string \<Rightarrow> u64) \<Rightarrow> (wal_entry \<Rightarrow> nat) \<Rightarrow> engine_op list \<Rightarrow> Engine \<Rightarrow> (string \<times> Value list) list" where
  "acknowledged hash clen [] e = []"
| "acknowledged hash clen (op # ops) e =
     (case engine_exec hash clen op e of
        None \<Rightarrow> []
      | Some (err, e') \<Rightarrow>
          (case op of EWrite kvs \<Rightarrow> if err = None then kvs else [] | _ \<Rightarrow> []) @ acknowledged hash clen ops e')"

lemma engine_op_ok_batches: "engine_op_ok ty (EWrite kvs) \<Longrightarrow> batches_ok ty kvs"
  by (auto simp: batches_ok_def schema_batch_def list_all_iff)

lemma engine_exec_view:
  assumes inv: "engine_inv hash ty T e" and ok: "engine_op_ok ty op" and T: "T + engine_op_cost op < 2 ^ 64"
    and x: "engine_exec hash clen op e = Some (err, e')"
  shows "engine_inv hash ty (T + engine_op_cost op) e' \<and>
    engine_view hash e' = overlay (case op of EWrite kvs \<Rightarrow> if err = None then kvs else [] | _ \<Rightarrow> []) (engine_view hash e)"
proof (cases op)
  case (EWrite kvs)
  show ?thesis
    using engine_write [OF inv engine_op_ok_batches, of kvs clen err e'] ok T x by (simp add: EWrite)
next
  case EBegin
  then show ?thesis using engine_begin [OF inv] T x by simp
next
  case (ECommit b)
  then show ?thesis using engine_commit [OF inv] T x ok by auto
next
  case EReopen
  then show ?thesis using engine_reopen [OF inv] T x by auto
qed (use ok in simp)

lemma engine_run_view:
  assumes "engine_inv hash ty T e" "list_all (engine_op_ok ty) ops" "T + engine_cost ops < 2 ^ 64"
    and "engine_run hash clen ops e = Some e'"
  shows "engine_inv hash ty (T + engine_cost ops) e' \<and>
    engine_view hash e' = overlay (acknowledged hash clen ops e) (engine_view hash e)"
  using assms
proof (induction ops arbitrary: T e)
  case (Cons op ops)
  obtain err d where d: "engine_exec hash clen op e = Some (err, d)" "engine_run hash clen ops d = Some e'"
    using Cons.prems(4) by (auto split: option.splits)
  have "engine_op_ok ty op" "T + engine_op_cost op < 2 ^ 64" using Cons.prems(2,3) by (simp_all add: engine_cost_def)
  note s = engine_exec_view [OF Cons.prems(1) this d(1)]
  show ?case
    using Cons.IH [of "T + engine_op_cost op" d] s Cons.prems(2,3) d
    by (simp add: engine_cost_def add.assoc overlay_append)
qed (simp add: engine_cost_def)

end
