(* ===== verification/TSMEngineReach.thy ===== *)
theory TSMEngineReach
  imports TSMEngineProps
begin

text \<open>
  What every run of the engine keeps, failed snapshots and deletions included: the invariants of
  the cache, and a log whose entries cost no more than was written.
\<close>

definition wal_sorted :: "WAL \<Rightarrow> bool" where
  "wal_sorted w \<longleftrightarrow> sorted_wrt (<) (map fst (wl_files w)) \<and> (\<forall>i\<in>fst ` set (wl_files w). i \<le> wl_id w)"

definition wal_bounded :: "(string \<Rightarrow> nat) \<Rightarrow> nat \<Rightarrow> WAL \<Rightarrow> bool" where
  "wal_bounded ty T w \<longleftrightarrow> wal_sorted w \<and> batches_ok ty (log_batches (wal_entries (wl_files w))) \<and>
     writes_cost (log_batches (wal_entries (wl_files w))) \<le> T"

lemma newSegmentFile_bounded: "wal_bounded ty T w \<Longrightarrow> wal_bounded ty T (newSegmentFile w)"
  by (auto simp: wal_bounded_def wal_sorted_def newSegmentFile_def sorted_wrt_append less_Suc_eq_le)

lemma rollSegment_bounded: "wal_bounded ty T w \<Longrightarrow> wal_bounded ty T (rollSegment w)"
  by (auto simp: rollSegment_def newSegmentFile_bounded split: option.splits)

lemma CloseSegment_bounded: "wal_bounded ty T w \<Longrightarrow> wal_bounded ty T (CloseSegment w)"
  by (auto simp: CloseSegment_def newSegmentFile_bounded split: option.splits)

lemma append_entry_bounded:
  fixes n :: nat
  assumes "distinct (map fst fs)" "batches_ok ty (log_batches (wal_entries fs))" "batches_ok ty (log_batch t)"
  defines "gs \<equiv> map (\<lambda>(i, es). (i, if i = n then es @ [t] else es)) fs"
  shows "batches_ok ty (log_batches (wal_entries gs)) \<and>
    writes_cost (log_batches (wal_entries gs)) \<le> writes_cost (log_batches (wal_entries fs)) + writes_cost (log_batch t) \<and>
    (n \<notin> fst ` set fs \<longrightarrow> gs = fs)"
  using assms(1,2) unfolding gs_def
proof (induction fs)
  case (Cons f fs)
  obtain i es where f: "f = (i, es)" by (cases f)
  show ?case
  proof (cases "i = n")
    case True
    then have "n \<notin> fst ` set fs" using Cons.prems(1) by (simp add: f)
    then show ?thesis using Cons assms(3) True by (simp add: f)
  next
    case False
    then show ?thesis using Cons by (simp add: f)
  qed
qed simp

lemma writeToLog_bounded:
  assumes "wal_bounded ty T w" "batches_ok ty (log_batch t)"
  shows "wal_bounded ty (T + writes_cost (log_batch t)) (writeToLog clen t w)"
proof -
  let ?r = "rollSegment w"
  have r: "wal_bounded ty T ?r" by (rule rollSegment_bounded [OF assms(1)])
  then have d: "distinct (map fst (wl_files ?r))" by (simp add: wal_bounded_def wal_sorted_def strict_sorted_iff)
  let ?gs = "map (\<lambda>(i, es). (i, if i = wl_id ?r then es @ [t] else es)) (wl_files ?r)"
  have m: "map fst ?gs = map fst (wl_files ?r)" by (induction "wl_files ?r") auto
  have g: "batches_ok ty (log_batches (wal_entries ?gs)) \<and>
      writes_cost (log_batches (wal_entries ?gs)) \<le> writes_cost (log_batches (wal_entries (wl_files ?r))) + writes_cost (log_batch t)"
    using append_entry_bounded [OF d _ assms(2)] r by (simp add: wal_bounded_def)
  have x: "wl_files (writeToLog clen t w) = ?gs" "wl_id (writeToLog clen t w) = wl_id ?r"
    by (simp_all add: writeToLog_def Let_def)
  have "wal_sorted (writeToLog clen t w)"
    using r unfolding wal_bounded_def wal_sorted_def x m by (auto simp del: map_map)
  then show ?thesis using g r by (auto simp: wal_bounded_def x)
qed

lemma filter_files_bounded:
  "batches_ok ty (log_batches (wal_entries fs)) \<Longrightarrow>
    batches_ok ty (log_batches (wal_entries (filter P fs))) \<and>
    writes_cost (log_batches (wal_entries (filter P fs))) \<le> writes_cost (log_batches (wal_entries fs))"
  by (induction fs) auto

lemma WAL_Remove_bounded: "wal_bounded ty T w \<Longrightarrow> wal_bounded ty T (WAL_Remove ids w)"
  using filter_files_bounded [of ty "wl_files w" "\<lambda>(i, es). i \<notin> set ids"]
  by (auto simp: wal_bounded_def wal_sorted_def WAL_Remove_def sorted_wrt_map sorted_wrt_filter)

lemma WAL_Open_bounded: "wal_bounded ty T w \<Longrightarrow> wal_bounded ty T (WAL_Open (wl_files w))"
  by (cases "wl_files w" rule: rev_cases)
    (auto simp: WAL_Open_def wal_bounded_def wal_sorted_def sorted_wrt_append batches_ok_def split: prod.splits intro: less_imp_le)

lemma load_entries_cache_good:
  assumes "cache_good hash ty W c" "batches_ok ty (log_batches es)" "W + writes_cost (log_batches es) < 2 ^ 64"
    and "load_entries hash es c = (None, c')"
  shows "cache_good hash ty (W + writes_cost (log_batches es)) c'"
  using assms
proof (induction es arbitrary: W c)
  case (Cons t es)
  obtain d where d: "load_entry hash t c = (None, d)" "load_entries hash es d = (None, c')"
    using Cons.prems(4) by (auto split: prod.splits option.splits)
  obtain op where op: "cache_exec hash op c = Some (None, d)" "op_batches op = log_batch t" "op_cost op = writes_cost (log_batch t)"
  proof (cases t)
    case (WriteWALEntry kvs)
    then show ?thesis using that [of "OpWriteMulti kvs"] d(1) by (simp add: load_entry_def)
  next
    case (DeleteWALEntry ks)
    then show ?thesis using that [of "OpDeleteRange ks MinInt64 MaxInt64"] d(1) by (simp add: load_entry_def Cache_Delete_def)
  next
    case (DeleteRangeWALEntry ks mn mx)
    then show ?thesis using that [of "OpDeleteRange ks mn mx"] d(1) by (simp add: load_entry_def)
  qed
  have "cache_good hash ty (W + writes_cost (log_batch t)) d"
    using cache_good_exec [OF Cons.prems(1) _ _ op(1)] Cons.prems(2,3) op(2,3) by simp
  then show ?case using Cons.IH [of "W + writes_cost (log_batch t)" d] Cons.prems(2,3) d(2) by (simp add: add.assoc)
qed simp

definition engine_good :: "(string \<Rightarrow> u64) \<Rightarrow> (string \<Rightarrow> nat) \<Rightarrow> nat \<Rightarrow> Engine \<Rightarrow> bool" where
  "engine_good hash ty T e \<longleftrightarrow> cache_good hash ty T (eg_cache e) \<and> wal_bounded ty T (eg_wal e)"

lemma wal_bounded_mono: "wal_bounded ty T w \<Longrightarrow> T \<le> T' \<Longrightarrow> wal_bounded ty T' w"
  by (auto simp: wal_bounded_def)

fun engine_op_typed :: "(string \<Rightarrow> nat) \<Rightarrow> engine_op \<Rightarrow> bool" where
  "engine_op_typed ty (EWrite kvs) = list_all (\<lambda>(k, vs). list_all (\<lambda>v. valueType v = ty k \<and> val_ok v) vs) kvs"
| "engine_op_typed ty _ = True"

lemma engine_op_typed_batches: "engine_op_typed ty (EWrite kvs) \<Longrightarrow> batches_ok ty kvs"
  by (auto simp: batches_ok_def schema_batch_def list_all_iff)

lemma engine_exec_good:
  assumes g: "engine_good hash ty T e" and ok: "engine_op_typed ty op" and T: "T + engine_op_cost op < 2 ^ 64"
    and x: "engine_exec hash clen op e = Some (err, e')"
  shows "engine_good hash ty (T + engine_op_cost op) e'"
proof -
  have c: "cache_good hash ty T (eg_cache e)" and w: "wal_bounded ty T (eg_wal e)" using g by (simp_all add: engine_good_def)
  have step: "cache_good hash ty T c'" if "cache_exec hash o' c0 = Some (er, c')" "op_batches o' = []" "op_cost o' = 0" "cache_good hash ty T c0"
    for o' er c' c0
    using cache_good_exec [OF that(4) _ _ that(1)] that(2,3) T by (simp add: batches_ok_def)
  show ?thesis
  proof (cases op)
    case (EWrite kvs)
    have b: "batches_ok ty kvs" by (rule engine_op_typed_batches) (use ok EWrite in simp)
    obtain c' where c': "Cache_WriteMulti hash (eg_cache e) kvs = (err, c')"
      using x by (auto simp: EWrite WritePoints_def split: prod.splits option.splits)
    have "cache_good hash ty (T + writes_cost kvs) c'"
      using WriteMulti_good(1) [OF c b c'] T EWrite by simp
    moreover have "wal_bounded ty (T + writes_cost kvs) (WAL_WriteMulti clen kvs (eg_wal e))"
      using writeToLog_bounded [OF w, of "WriteWALEntry kvs"] b by (simp add: WAL_WriteMulti_def)
    ultimately show ?thesis
      using x c' wal_bounded_mono [OF w, of "T + writes_cost kvs"]
      by (auto simp: EWrite WritePoints_def engine_good_def split: option.splits)
  next
    case EBegin
    obtain er c1 where c1: "Cache_Snapshot (eg_cache e) = (er, c1)" by (cases "Cache_Snapshot (eg_cache e)")
    have g1: "cache_good hash ty T c1" using step [of OpSnapshot "eg_cache e" er c1] c1 c by simp
    have g2: "cache_good hash ty T (snapshot_Deduplicate c1)" using step [of OpSnapshotDeduplicate c1] g1 by simp
    have g3: "cache_good hash ty T c2" if "Cache_ClearSnapshot True c1 = Some c2" for c2
      using step [of "OpClearSnapshot True" c1 None c2] g1 that by simp
    show ?thesis
      using x g1 g2 g3 CloseSegment_bounded [OF w]
      by (auto simp: EBegin WriteSnapshot_def Let_def c1 engine_good_def split: option.splits if_splits)
  next
    case (ECommit b)
    have g1: "cache_good hash ty T c2" if "Cache_ClearSnapshot b (eg_cache e) = Some c2" for c2
      using step [of "OpClearSnapshot b" "eg_cache e" None c2] c that by simp
    show ?thesis
      using x g1 w WAL_Remove_bounded [OF w]
      by (auto simp: ECommit writeSnapshotAndCommit_def Let_def engine_good_def split: option.splits if_splits)
  next
    case (EDelete ks mn mx)
    have g1: "cache_good hash ty T (Cache_DeleteRange hash (eg_cache e) ds a b)" for ds a b
      using step [of "OpDeleteRange ds a b" "eg_cache e"] c by simp
    have w1: "wal_bounded ty T (WAL_DeleteRange clen ds a b (eg_wal e))" for ds a b
      using writeToLog_bounded [OF w, of "DeleteRangeWALEntry ds a b"] w by (simp add: WAL_DeleteRange_def batches_ok_def)
    show ?thesis using x c w g1 w1 by (auto simp: EDelete deleteSeriesRange_def Let_def engine_good_def)
  next
    case EReopen
    define w' where "w' = WAL_Open (wl_files (eg_wal e))"
    have w': "wal_bounded ty T w'" unfolding w'_def by (rule WAL_Open_bounded [OF w])
    have n: "Cache_SetMaxSize 0 (NewCache m) = NewCache 0" for m by (simp add: Cache_SetMaxSize_def NewCache_def)
    obtain c1 where c1: "load_entries hash (wal_entries (wl_files w')) (NewCache 0) = (None, c1)"
        "e' = e\<lparr>eg_wal := w', eg_cache := Cache_SetMaxSize (ca_maxSize (NewCache (ca_maxSize (eg_cache e)))) c1, eg_closed := None\<rparr>"
      using x by (auto simp: EReopen reopen_def reloadCache_def n CacheLoader_Load_entries w'_def [symmetric] Let_def
          split: prod.splits option.splits)
    have "cache_good hash ty (writes_cost (log_batches (wal_entries (wl_files w')))) c1"
      using load_entries_cache_good [OF cache_good_New _ _ c1(1), of ty] w' T by (simp add: wal_bounded_def)
    then have "cache_good hash ty T c1" using w' by (auto simp: wal_bounded_def intro: cache_good_mono)
    then show ?thesis using w' c1(2) SetMaxSize_good by (simp add: EReopen engine_good_def)
  qed
qed

lemma engine_run_good:
  assumes "engine_good hash ty T e" "list_all (engine_op_typed ty) ops" "T + engine_cost ops < 2 ^ 64"
    and "engine_run hash clen ops e = Some e'"
  shows "engine_good hash ty (T + engine_cost ops) e'"
  using assms
proof (induction ops arbitrary: T e)
  case (Cons op ops)
  obtain err d where d: "engine_exec hash clen op e = Some (err, d)" "engine_run hash clen ops d = Some e'"
    using Cons.prems(4) by (auto split: option.splits)
  have "engine_good hash ty (T + engine_op_cost op) d"
    using engine_exec_good [OF Cons.prems(1) _ _ d(1)] Cons.prems(2,3) by (simp add: engine_cost_def)
  then show ?case using Cons.IH [of "T + engine_op_cost op" d] Cons.prems(2,3) d(2) by (simp add: engine_cost_def add.assoc)
qed (simp add: engine_cost_def)

lemma NewEngine_good: "engine_good hash ty 0 (NewEngine m)"
  by (simp add: engine_good_def NewEngine_def cache_good_New wal_bounded_def wal_sorted_def WAL_Open_def batches_ok_def)

section \<open>Deleting\<close>

lemma storer_keys_spec:
  assumes "s = emptyStore \<or> good_store hash s"
  shows "set (storer_keys s True) = {k. \<exists>e. storer_entry hash s k = Some e \<and> en_values e \<noteq> []}"
proof (cases s)
  case (ring_store r)
  then have "ring_ok hash r" using assms by (simp add: good_store_def)
  then show ?thesis using ring_keys_spec(1) by (simp add: ring_store storer_keys_def storer_entry_def [abs_def])
qed (simp add: storer_keys_def)

lemma deleteSeriesRange_effect:
  fixes mn0 mx0 :: int
  defines "mn \<equiv> (if mn0 = influxql_MinTime then MinInt64 else mn0)"
    and "mx \<equiv> (if mx0 = influxql_MaxTime then MaxInt64 else mx0)"
  assumes g: "cache_good hash ty T (eg_cache e)"
  shows "engine_view hash (deleteSeriesRange hash clen keys mn0 mx0 e) =
    (\<lambda>k t. if series_of k \<in> set keys \<and> mn \<le> t \<and> t \<le> mx then a_snap (cache_abs hash (eg_cache e)) k t
           else engine_view hash e k t)"
proof (cases "keys = []")
  case False
  let ?c = "eg_cache e"
  define ds where "ds = filter (\<lambda>k. series_of k \<in> set keys) (storer_keys (ca_store ?c) True)"
  have so: "stores_ok hash ?c" using g cache_invD(1) by (auto simp: cache_good_def)
  have ds: "k \<in> set ds \<longleftrightarrow> series_of k \<in> set keys \<and> (\<exists>en. hot hash ?c k = Some en \<and> en_values en \<noteq> [])" for k
    using storer_keys_spec [OF stores_ok_cases(1) [OF so]] by (auto simp: ds_def)
  have st: "stamped.cache_ok hash ?c" using g by (simp add: cache_good_def)
  have h: "a_hot (cache_abs hash (Cache_DeleteRange hash ?c ds mn mx)) = cut ds mn mx (entry_map (hot hash ?c))"
    using DeleteRange_entries(1) [OF so, of ds mn mx] apply_delete_map [OF stamped.cache_okD(1) [OF st], of mn mx ds]
    by (simp add: cache_abs_def)
  have s: "a_snap (cache_abs hash (Cache_DeleteRange hash ?c ds mn mx)) = a_snap (cache_abs hash ?c)"
    using snapshot_entry_cong [OF DeleteRange_entries(2) [OF so], of hash] by (simp add: cache_abs_def)
  have z: "entry_map (hot hash ?c) k = Map.empty" if "series_of k \<in> set keys" "k \<notin> set ds" for k
    using ds [of k] that by (auto simp: entry_map_def split: option.splits)
  have x: "deleteSeriesRange hash clen keys mn0 mx0 e =
      e\<lparr>eg_files := (\<lambda>k t. if series_of k \<in> set keys \<and> mn \<le> t \<and> t \<le> mx then None else eg_files e k t),
        eg_cache := Cache_DeleteRange hash ?c ds mn mx, eg_wal := WAL_DeleteRange clen ds mn mx (eg_wal e)\<rparr>"
    using False by (simp add: deleteSeriesRange_def mn_def mx_def ds_def Let_def)
  have hk: "cut ds mn mx (entry_map (hot hash ?c)) k t =
      (if series_of k \<in> set keys \<and> mn \<le> t \<and> t \<le> mx then None else entry_map (hot hash ?c) k t)" for k t
    using ds [of k] z [of k] by (cases "k \<in> set ds") (auto simp: cut_def restrict_map_def)
  have hk': "a_hot (cache_abs hash (Cache_DeleteRange hash ?c ds mn mx)) k t =
      (if series_of k \<in> set keys \<and> mn \<le> t \<and> t \<le> mx then None else a_hot (cache_abs hash ?c) k t)" for k t
    unfolding h hk by (simp add: cache_abs_def)
  show ?thesis
    by (intro ext) (auto simp: x engine_view_under under_def s hk' map_add_def split: option.splits)
qed (simp add: deleteSeriesRange_def)

end
