(* ===== verification/StoreProperties.thy ===== *)
theory StoreProperties
  imports TSMEngineReach
begin

text \<open>
  The properties of the slices of values, the cache and the write path of a shard.
\<close>

section \<open>Slices of values\<close>

text \<open>
  (C37) Deduplicate returns the one slice in ascending order with the same last value at every
  timestamp, and merging overlays: where both slices have a value the second one's is taken.  The
  result of a merge is in order, except that a lone slice is returned as it is.
\<close>

theorem Deduplicate_Merge_overlay:
  "(b = Deduplicate a) = (ordered b \<and> vmap b = vmap a) \<and>
   vmap (Merge a b) = vmap a ++ vmap b \<and>
   ordered (Merge a b) = (if a = [] then ordered b else if b = [] then ordered a else True)"
proof (intro conjI)
  show "(b = Deduplicate a) = (ordered b \<and> vmap b = vmap a)"
    using Deduplicate_unique [of b a] Deduplicate_ordered [of a] Deduplicate_vmap [of a] by auto
  show "vmap (Merge a b) = vmap a ++ vmap b" by (rule Merge_vmap)
  show "ordered (Merge a b) = (if a = [] then ordered b else if b = [] then ordered a else True)"
    using Merge_ordered [of a b] by (cases "a = [] \<or> b = []") (auto simp: Merge_def)
qed

text \<open>
  (C38) On a slice in order, Include and Exclude, with their two binary searches, are the filters
  by the closed range.
\<close>

theorem range_cuts_are_filters:
  "ordered a \<Longrightarrow>
   Include a mn mx = filter (\<lambda>v. mn \<le> val_UnixNano v \<and> val_UnixNano v \<le> mx) a \<and>
   Exclude a mn mx = filter (\<lambda>v. \<not> (mn \<le> val_UnixNano v \<and> val_UnixNano v \<le> mx)) a"
  by (simp add: Include_filter Exclude_filter)

lemma range_cuts_are_filters_witness:
  "Include [IntegerValue 1 5, IntegerValue 2 6, IntegerValue 4 7] 2 3 = [IntegerValue 2 6] \<and>
   Exclude [IntegerValue 1 5, IntegerValue 2 6, IntegerValue 4 7] 2 3 = [IntegerValue 1 5, IntegerValue 4 7]"
  using range_cuts_are_filters [of "[IntegerValue 1 5, IntegerValue 2 6, IntegerValue 4 7]" 2 3] by simp

section \<open>The cache\<close>

text \<open>
  (C4) The cache refines two maps from series keys and timestamps to values: in every reachable
  state each call, with the error it returns, does what the abstract cache may do, for any hash of
  the keys.  In particular a snapshot moves the hot values only when the last one is written.
\<close>

theorem cache_refines:
  assumes "total_cost ops + op_cost op < 2 ^ 64"
    and "\<forall>o'\<in>set ops. \<forall>(k, vs)\<in>set (op_batches o'). list_all val_ok vs"
    and "cache_run hash ops (NewCache m) = Some c" "cache_exec hash op c = Some (err, c')"
  shows "acache_step op err (cache_abs hash c) (cache_abs hash c')"
proof (rule cache_exec_simulates)
  show "cache_inv hash (0 + total_cost ops) c"
    using cache_run_inv [OF NewCache_inv [of hash 0 m] _ assms(3)] assms(1) by simp
  show "stamped.cache_ok hash c"
    by (rule stamped.reachable_ok [OF _ _ assms(3)]) (use assms(1,2) in auto)
  show "cache_exec hash op c = Some (err, c')" by (rule assms(4))
qed

lemma cache_refines_witness:
  "\<exists>c err c'. cache_run (\<lambda>_. 0) [OpWrite ''k'' [IntegerValue 1 5], OpSnapshot] (NewCache 0) = Some c \<and>
     cache_exec (\<lambda>_. 0) (OpClearSnapshot True) c = Some (err, c') \<and>
     acache_step (OpClearSnapshot True) err (cache_abs (\<lambda>_. 0) c) (cache_abs (\<lambda>_. 0) c')"
proof -
  have "case cache_run (\<lambda>_. 0) [OpWrite ''k'' [IntegerValue 1 5], OpSnapshot] (NewCache 0) of
      None \<Rightarrow> False | Some c \<Rightarrow> cache_exec (\<lambda>_. 0) (OpClearSnapshot True) c \<noteq> None"
    by code_simp
  then obtain c err c' where x: "cache_run (\<lambda>_. 0) [OpWrite ''k'' [IntegerValue 1 5], OpSnapshot] (NewCache 0) = Some c"
      "cache_exec (\<lambda>_. 0) (OpClearSnapshot True) c = Some (err, c')"
    by (auto split: option.splits)
  show ?thesis
    using cache_refines [OF _ _ x] x by (fastforce simp: val_ok_def MinInt64_def MaxInt64_def values_Size_def)
qed

text \<open>
  The values the cache returns for a series are the slice in order of the snapshot overlaid
  with the hot values, and reading changes neither.
\<close>

theorem Values_overlays_snapshot:
  "(b = fst (Cache_Values hash c key)) =
     (ordered b \<and> vmap b = a_snap (cache_abs hash c) key ++ a_hot (cache_abs hash c) key)"
  using Cache_Values_map [of hash c key] ordered_vmap_unique [of b "fst (Cache_Values hash c key)"] by auto



text \<open>
  An unsigned value has the type \<open>0\<close>, which switches the check off: a series that began with one takes
  values of any type.
\<close>

lemma unsigned_entries_take_anything:
  "case cache_run (\<lambda>_. 0) [OpWrite ''k'' [UnsignedValue 1 5], OpWrite ''k'' [BooleanValue 2 True]] (NewCache 0) of
     None \<Rightarrow> False
   | Some c \<Rightarrow> fst (Cache_Values (\<lambda>_. 0) c ''k'') = [UnsignedValue 1 5, BooleanValue 2 True]"
  by code_simp



text \<open>
  An idle engine frees its cache only when its size is zero, and then no value is lost.
\<close>

theorem idle_Free_loses_nothing:
  assumes "total_cost ops < 2 ^ 64"
    and "\<forall>op\<in>set ops. \<forall>(k, vs)\<in>set (op_batches op). list_all val_ok vs"
    and "cache_run hash ops (NewCache m) = Some c" "Cache_Size c = 0"
  shows "cache_abs hash (Cache_Free c) = cache_abs hash c \<and> a_hot (cache_abs hash c) = (\<lambda>_. Map.empty)"
proof -
  have inv: "cache_inv hash (total_cost ops) c"
    using cache_run_inv [OF NewCache_inv [of hash 0 m] _ assms(3)] assms(1) by simp
  note I = cache_invD [OF inv]
  have "unat (Cache_Size c) = unat (ca_size c) + unat (ca_snapshotSize c)"
    using I(4) assms(1) by (simp add: Cache_Size_def unat_word_ariths)
  then have z: "store_bytes (hot hash c) = 0" using assms(4) I(2) by simp
  have "stamped.cache_ok hash c" by (rule stamped.reachable_ok [OF assms(1) _ assms(3)]) (use assms(2) in auto)
  moreover have fin: "finite (dom (hot hash c))"
    using stores_ok_cases(1) [OF I(1)] st.finite_get by auto
  ultimately have e: "entry_map (hot hash c) = (\<lambda>_. Map.empty)"
    using no_bytes_no_values [OF fin z] stamped.cache_okD(1) by blast
  then show ?thesis
    by (auto simp: cache_abs_def Cache_Free_def snapshot_entry_def [abs_def])
qed

lemma idle_Free_loses_nothing_witness:
  "cache_abs (\<lambda>_. 0) (Cache_Free (NewCache 100)) = cache_abs (\<lambda>_. 0) (NewCache 100)"
  using idle_Free_loses_nothing [of "[]" "\<lambda>_. 0" 100 "NewCache 100"]
  by (simp add: Cache_Size_def) (simp add: NewCache_def)

section \<open>The write path\<close>




text \<open>
  A segment opened again counts as empty until it is written to.  A snapshot taken before that does
  not remove it, a deletion after the snapshot finds no key in the cache and is not logged, and the
  next restart brings the deleted values back.
\<close>

theorem deleted_values_return:
  "case engine_run (\<lambda>_. 0) (\<lambda>_. 1)
      [EWrite [(''cpu#!~#v'', [IntegerValue 1 5])], EReopen, EBegin, ECommit True, EDelete [''cpu''] 0 10] (NewEngine 0) of
     None \<Rightarrow> False
   | Some e \<Rightarrow>
       engine_view (\<lambda>_. 0) e ''cpu#!~#v'' 1 = None \<and>
       engine_view (\<lambda>_. 0) (snd (reopen (\<lambda>_. 0) e)) ''cpu#!~#v'' 1 = Some (IntegerValue 1 5)"
  by code_simp



text \<open>The names of the segments sort by their ids only up to five digits.\<close>

lemma segment_names_out_of_order: "segment_file_name 100000 < segment_file_name 99999"
  by (simp add: segment_file_name_def Let_def dec_digits.simps less_char_def)

end
