(* ===== verification/QueryAuth.thy ===== *)
theory QueryAuth
  imports MetaClient
begin

text \<open>
  Who may run a query (\<open>services/meta/query_authorizer.go\<close>, \<open>write_authorizer.go\<close>), the privileges a
  statement asks for (\<open>services/influxql/ast.go\<close>), and the databases it reads and writes once it was
  rewritten and normalised (\<open>query/statement_rewriter.go\<close>, \<open>coordinator/statement_executor.go\<close>).  Of a
  statement there are the parts that these depend on: the databases, the sources, and whether a
  condition mentions time.
\<close>

section \<open>Statements\<close>

text \<open>\<open>me_Regex\<close>: there is a regular expression for the name.\<close>

record Measurement =
  me_Database :: string
  me_RetentionPolicy :: string
  me_Name :: string
  me_Regex :: bool
  me_IsTarget :: bool
  me_SystemIterator :: string

text \<open>A source is a measurement, a subquery, or the nil interface.\<close>

datatype Source =
    SourceMeasurement Measurement
  | SourceSubQuery SelectStatement
  | SourceNil
and SelectStatement = SelectStatement (Sources: "Source list") (Target: "Measurement option")

text \<open>\<open>Condition b\<close>: there is a condition, and \<open>HasTimeExpr\<close> of it is \<open>b\<close>.\<close>

datatype condition = NoCondition | Condition bool

text \<open>
  The \<open>bool\<close> of the cardinality statements is \<open>Exact\<close>; the second one of series and measurements
  tells whether dimensions, a limit or an offset are given.
\<close>

datatype Statement =
    AlterRetentionPolicyStatement string
  | CreateContinuousQueryStatement string SelectStatement
  | CreateDatabaseStatement
  | CreateRetentionPolicyStatement string
  | CreateSubscriptionStatement string
  | CreateUserStatement bool
  | DeleteSeriesStatement "Source list"
  | DeleteStatement Source
  | DropContinuousQueryStatement string
  | DropDatabaseStatement
  | DropMeasurementStatement
  | DropRetentionPolicyStatement string
  | DropSeriesStatement "Source list"
  | DropSubscriptionStatement string
  | DropUserStatement
  | DropShardStatement
  | ExplainStatement SelectStatement
  | GrantStatement string
  | GrantAdminStatement
  | KillQueryStatement
  | RevokeStatement string
  | RevokeAdminStatement
  | SelectStatementStmt SelectStatement
  | SetPasswordUserStatement
  | ShowContinuousQueriesStatement
  | ShowGrantsForUserStatement
  | ShowServersStatement
  | ShowDatabasesStatement
  | ShowFieldKeyCardinalityStatement string bool "Source list" condition
  | ShowFieldKeysStatement string "Source list"
  | ShowMeasurementCardinalityStatement string bool bool "Source list" condition
  | ShowMeasurementsStatement string "Source option" condition
  | ShowQueriesStatement
  | ShowRetentionPoliciesStatement string
  | ShowSeriesStatement string "Source list" condition
  | ShowSeriesCardinalityStatement string bool bool "Source list" condition
  | ShowShardGroupsStatement
  | ShowShardsStatement
  | ShowStatsStatement
  | ShowSubscriptionsStatement
  | ShowDiagnosticsStatement
  | ShowTagKeyCardinalityStatement string bool "Source list" condition
  | ShowTagKeysStatement string "Source list"
  | ShowTagValuesCardinalityStatement string bool "Source list"
  | ShowTagValuesStatement string "Source list"
  | ShowUsersStatement

section \<open>Required privileges\<close>

record ExecutionPrivilege =
  ep_Admin :: bool
  ep_Name :: string
  ep_Privilege :: Privilege

datatype query_error = QueryError string | ErrAuthorize string string | QueryPanic

fun Sources_RequiredPrivileges :: "Source list \<Rightarrow> query_error + ExecutionPrivilege list"
and Select_RequiredPrivileges :: "SelectStatement \<Rightarrow> query_error + ExecutionPrivilege list" where
  "Sources_RequiredPrivileges [] = Inr []"
| "Sources_RequiredPrivileges (SourceMeasurement m # rest) =
     (case Sources_RequiredPrivileges rest of
        Inl e \<Rightarrow> Inl e
      | Inr ep \<Rightarrow> Inr (\<lparr>ep_Admin = False, ep_Name = me_Database m, ep_Privilege = ReadPrivilege\<rparr> # ep))"
| "Sources_RequiredPrivileges (SourceSubQuery s # rest) =
     (case Select_RequiredPrivileges s of
        Inl e \<Rightarrow> Inl e
      | Inr privs \<Rightarrow> (case Sources_RequiredPrivileges rest of Inl e \<Rightarrow> Inl e | Inr ep \<Rightarrow> Inr (privs @ ep)))"
| "Sources_RequiredPrivileges (SourceNil # rest) = Inl (QueryError ''invalid source'')"
| "Select_RequiredPrivileges (SelectStatement srcs tgt) =
     (case Sources_RequiredPrivileges srcs of
        Inl e \<Rightarrow> Inl e
      | Inr ep \<Rightarrow>
          (case tgt of
             None \<Rightarrow> Inr ep
           | Some m \<Rightarrow> Inr (ep @ [\<lparr>ep_Admin = False, ep_Name = me_Database m, ep_Privilege = WritePrivilege\<rparr>])))"

definition admin_only :: "query_error + ExecutionPrivilege list" where
  "admin_only = Inr [\<lparr>ep_Admin = True, ep_Name = '''', ep_Privilege = AllPrivileges\<rparr>]"

definition requires :: "string \<Rightarrow> Privilege \<Rightarrow> query_error + ExecutionPrivilege list" where
  "requires name p = Inr [\<lparr>ep_Admin = False, ep_Name = name, ep_Privilege = p\<rparr>]"

fun RequiredPrivileges :: "Statement \<Rightarrow> query_error + ExecutionPrivilege list" where
  "RequiredPrivileges (CreateContinuousQueryStatement db s) =
     (case Target s of
        None \<Rightarrow> Inl QueryPanic
      | Some m \<Rightarrow>
          Inr (\<lparr>ep_Admin = False, ep_Name = db, ep_Privilege = ReadPrivilege\<rparr> #
            (if me_Database m \<noteq> ''''
             then [\<lparr>ep_Admin = False, ep_Name = me_Database m, ep_Privilege = WritePrivilege\<rparr>] else [])))"
| "RequiredPrivileges (DeleteSeriesStatement srcs) = requires '''' WritePrivilege"
| "RequiredPrivileges (DeleteStatement src) = requires '''' WritePrivilege"
| "RequiredPrivileges (DropContinuousQueryStatement db) = requires db WritePrivilege"
| "RequiredPrivileges (DropRetentionPolicyStatement db) = requires db WritePrivilege"
| "RequiredPrivileges (DropSeriesStatement srcs) = requires '''' WritePrivilege"
| "RequiredPrivileges (ExplainStatement s) = Select_RequiredPrivileges s"
| "RequiredPrivileges (SelectStatementStmt s) = Select_RequiredPrivileges s"
| "RequiredPrivileges ShowContinuousQueriesStatement = requires '''' ReadPrivilege"
| "RequiredPrivileges ShowDatabasesStatement = requires '''' NoPrivileges"
| "RequiredPrivileges (ShowFieldKeyCardinalityStatement db exact srcs cond) = Sources_RequiredPrivileges srcs"
| "RequiredPrivileges (ShowFieldKeysStatement db srcs) = requires db ReadPrivilege"
| "RequiredPrivileges (ShowMeasurementCardinalityStatement db exact restricted srcs cond) =
     (if \<not> exact then requires db ReadPrivilege else Sources_RequiredPrivileges srcs)"
| "RequiredPrivileges (ShowMeasurementsStatement db src cond) = requires db ReadPrivilege"
| "RequiredPrivileges ShowQueriesStatement = requires '''' ReadPrivilege"
| "RequiredPrivileges (ShowRetentionPoliciesStatement db) = requires db ReadPrivilege"
| "RequiredPrivileges (ShowSeriesStatement db srcs cond) = requires db ReadPrivilege"
| "RequiredPrivileges (ShowSeriesCardinalityStatement db exact restricted srcs cond) =
     (if \<not> exact then requires db ReadPrivilege else Sources_RequiredPrivileges srcs)"
| "RequiredPrivileges (ShowTagKeyCardinalityStatement db exact srcs cond) = Sources_RequiredPrivileges srcs"
| "RequiredPrivileges (ShowTagKeysStatement db srcs) = requires db ReadPrivilege"
| "RequiredPrivileges (ShowTagValuesCardinalityStatement db exact srcs) = Sources_RequiredPrivileges srcs"
| "RequiredPrivileges (ShowTagValuesStatement db srcs) = requires db ReadPrivilege"
| "RequiredPrivileges stmt = admin_only"

section \<open>Authorization\<close>

fun authorize_privileges :: "UserInfo \<Rightarrow> string \<Rightarrow> ExecutionPrivilege list \<Rightarrow> query_error option" where
  "authorize_privileges u database [] = None"
| "authorize_privileges u database (p # ps) =
     (if ep_Admin p then Some (ErrAuthorize (ui_Name u) ''requires admin privilege'')
      else
        let db = (if ep_Name p = '''' then database else ep_Name p) in
        if \<not> AuthorizeDatabase u (ep_Privilege p) db then Some (ErrAuthorize (ui_Name u) ''requires a privilege'')
        else authorize_privileges u database ps)"

fun authorize_statements :: "UserInfo \<Rightarrow> string \<Rightarrow> Statement list \<Rightarrow> query_error option" where
  "authorize_statements u database [] = None"
| "authorize_statements u database (stmt # stmts) =
     (case RequiredPrivileges stmt of
        Inl e \<Rightarrow> Some e
      | Inr privs \<Rightarrow>
          (case authorize_privileges u database privs of
             Some e \<Rightarrow> Some e
           | None \<Rightarrow> authorize_statements u database stmts))"

definition user_AuthorizeQuery :: "UserInfo \<Rightarrow> string \<Rightarrow> Statement list \<Rightarrow> query_error option" where
  "user_AuthorizeQuery u database query =
     (if ui_Admin u then None else authorize_statements u database query)"

definition AuthorizeQuery :: "Client \<Rightarrow> UserInfo option \<Rightarrow> Statement list \<Rightarrow> string \<Rightarrow> query_error option" where
  "AuthorizeQuery c u query database =
     (if UserCount c = 0 then
        (if query \<noteq> [] \<and> hd query = CreateUserStatement True then None
         else Some (ErrAuthorize '''' ''create admin user first or disable authentication''))
      else case u of
        None \<Rightarrow> Some (ErrAuthorize '''' ''no user provided'')
      | Some u \<Rightarrow> user_AuthorizeQuery u database query)"

definition QueryAuthorizer_AuthorizeDatabase :: "UserInfo option \<Rightarrow> Privilege \<Rightarrow> string \<Rightarrow> query_error option" where
  "QueryAuthorizer_AuthorizeDatabase u priv database =
     (case u of
        None \<Rightarrow> Some (ErrAuthorize '''' ''no user provided'')
      | Some u \<Rightarrow> if AuthorizeDatabase u priv database then None else Some (ErrAuthorize '''' ''requires a privilege''))"

definition AuthorizeWrite :: "Client \<Rightarrow> string \<Rightarrow> string \<Rightarrow> query_error option" where
  "AuthorizeWrite c username database =
     (case client_User c username of
        Inl e \<Rightarrow> Some (ErrAuthorize '''' ''not authorized to write'')
      | Inr u \<Rightarrow>
          if \<not> AuthorizeDatabase u WritePrivilege database then Some (ErrAuthorize '''' ''not authorized to write'')
          else None)"

section \<open>Rewriting\<close>

definition zero_Measurement :: Measurement where
  "zero_Measurement = \<lparr>me_Database = '''', me_RetentionPolicy = '''', me_Name = '''', me_Regex = False,
     me_IsTarget = False, me_SystemIterator = ''''\<rparr>"

definition match_all :: Source where
  "match_all = SourceMeasurement (zero_Measurement\<lparr>me_Regex := True\<rparr>)"

fun HasTimeExpr :: "condition \<Rightarrow> bool" where
  "HasTimeExpr NoCondition = False"
| "HasTimeExpr (Condition b) = b"

fun rewrite_source_loop :: "string \<Rightarrow> string \<Rightarrow> Source list \<Rightarrow> query_error + Source list" where
  "rewrite_source_loop systemIterator defaultDatabase [] = Inr []"
| "rewrite_source_loop systemIterator defaultDatabase (SourceNil # srcs) =
     rewrite_source_loop systemIterator defaultDatabase srcs"
| "rewrite_source_loop systemIterator defaultDatabase (SourceSubQuery s # srcs) = Inl QueryPanic"
| "rewrite_source_loop systemIterator defaultDatabase (SourceMeasurement mm # srcs) =
     (let database = (if me_Database mm = '''' then defaultDatabase else me_Database mm)
      in map_sum id (\<lambda>newSources.
           SourceMeasurement (mm\<lparr>me_SystemIterator := systemIterator, me_Database := database\<rparr>) # newSources)
           (rewrite_source_loop systemIterator defaultDatabase srcs))"

definition rewriteSources :: "Source list \<Rightarrow> string \<Rightarrow> string \<Rightarrow> query_error + Source list" where
  "rewriteSources sources systemIterator defaultDatabase =
     map_sum id (\<lambda>newSources.
       if newSources = []
       then [SourceMeasurement (zero_Measurement\<lparr>me_Database := defaultDatabase, me_SystemIterator := systemIterator\<rparr>)]
       else newSources)
       (rewrite_source_loop systemIterator defaultDatabase sources)"

fun default_source :: "string \<Rightarrow> Source \<Rightarrow> Source" where
  "default_source database (SourceMeasurement m) =
     SourceMeasurement (if me_Database m = '''' then m\<lparr>me_Database := database\<rparr> else m)"
| "default_source database s = s"

definition rewriteSources2 :: "Source list \<Rightarrow> string \<Rightarrow> Source list" where
  "rewriteSources2 sources database =
     map (default_source database) (if sources = [] then [match_all] else sources)"

fun is_measurement :: "Source \<Rightarrow> bool" where
  "is_measurement (SourceMeasurement m) = True"
| "is_measurement s = False"

fun filters_name :: "Source \<Rightarrow> bool" where
  "filters_name (SourceMeasurement m) = (me_Regex m \<or> me_Name m \<noteq> '''')"
| "filters_name s = False"

definition rewriteSourcesCondition :: "Source list \<Rightarrow> condition \<Rightarrow> query_error + condition" where
  "rewriteSourcesCondition sources cond =
     (if sources = [] then Inr cond
      else if \<not> list_all is_measurement sources then Inl QueryPanic
      else if cond \<noteq> NoCondition then Inr cond
      else Inr (if list_ex filters_name sources then Condition False else NoCondition))"

text \<open>The statement that a cardinality statement becomes, with all measurements for no source.\<close>

definition select_from :: "Source list \<Rightarrow> Statement" where
  "select_from srcs = SelectStatementStmt (SelectStatement srcs None)"

definition count_statement :: "string \<Rightarrow> Source list \<Rightarrow> condition \<Rightarrow> query_error + Statement" where
  "count_statement database sources cond =
     (if HasTimeExpr cond then Inl (QueryError ''doesn't support time in WHERE clause'')
      else Inr (select_from (rewriteSources2 (if sources = [] then [match_all] else sources) database)))"

fun RewriteStatement :: "Statement \<Rightarrow> query_error + Statement" where
  "RewriteStatement (ShowFieldKeysStatement db srcs) =
     (case rewriteSources srcs ''_fieldKeys'' db of
        Inl e \<Rightarrow> Inl e
      | Inr ss \<Rightarrow>
          (case rewriteSourcesCondition srcs NoCondition of
             Inl e \<Rightarrow> Inl e
           | Inr _ \<Rightarrow> Inr (select_from ss)))"
| "RewriteStatement (ShowFieldKeyCardinalityStatement db exact srcs cond) = count_statement db srcs cond"
| "RewriteStatement (ShowMeasurementsStatement db src cond) =
     (if HasTimeExpr cond then Inl (QueryError ''SHOW MEASUREMENTS doesn't support time in WHERE clause'')
      else
        case rewriteSourcesCondition (case src of None \<Rightarrow> [] | Some s \<Rightarrow> [s]) cond of
          Inl e \<Rightarrow> Inl e
        | Inr cond' \<Rightarrow> Inr (ShowMeasurementsStatement db src cond'))"
| "RewriteStatement (ShowMeasurementCardinalityStatement db exact restricted srcs cond) =
     (if \<not> exact \<and> srcs = [] \<and> cond = NoCondition \<and> \<not> restricted
      then Inr (ShowMeasurementCardinalityStatement db exact restricted srcs cond)
      else count_statement db srcs cond)"
| "RewriteStatement (ShowSeriesStatement db srcs cond) =
     (if \<not> HasTimeExpr cond then
        (case rewriteSources srcs ''_series'' db of
           Inl e \<Rightarrow> Inl e
         | Inr ss \<Rightarrow>
             (case rewriteSourcesCondition ss cond of
                Inl e \<Rightarrow> Inl e
              | Inr _ \<Rightarrow> Inr (select_from ss)))
      else Inr (select_from (rewriteSources2 srcs db)))"
| "RewriteStatement (ShowSeriesCardinalityStatement db exact restricted srcs cond) =
     (if \<not> exact \<and> srcs = [] \<and> cond = NoCondition \<and> \<not> restricted
      then Inr (ShowSeriesCardinalityStatement db exact restricted srcs cond)
      else count_statement db srcs cond)"
| "RewriteStatement (ShowTagKeysStatement db srcs) =
     (case rewriteSourcesCondition srcs NoCondition of
        Inl e \<Rightarrow> Inl e
      | Inr _ \<Rightarrow> Inr (ShowTagKeysStatement db []))"
| "RewriteStatement (ShowTagKeyCardinalityStatement db exact srcs cond) = count_statement db srcs cond"
| "RewriteStatement (ShowTagValuesStatement db srcs) =
     (case rewriteSourcesCondition srcs NoCondition of
        Inl e \<Rightarrow> Inl e
      | Inr _ \<Rightarrow> Inr (ShowTagValuesStatement db []))"
| "RewriteStatement (ShowTagValuesCardinalityStatement db exact srcs) = count_statement db srcs NoCondition"
| "RewriteStatement stmt = Inr stmt"

section \<open>Normalising\<close>

text \<open>The statements with a default database of their own.\<close>

fun DefaultDatabase :: "Statement \<Rightarrow> string" where
  "DefaultDatabase (AlterRetentionPolicyStatement db) = db"
| "DefaultDatabase (CreateContinuousQueryStatement db s) = db"
| "DefaultDatabase (CreateRetentionPolicyStatement db) = db"
| "DefaultDatabase (CreateSubscriptionStatement db) = db"
| "DefaultDatabase (DeleteStatement (SourceMeasurement m)) = me_Database m"
| "DefaultDatabase (DropContinuousQueryStatement db) = db"
| "DefaultDatabase (DropRetentionPolicyStatement db) = db"
| "DefaultDatabase (DropSubscriptionStatement db) = db"
| "DefaultDatabase (GrantStatement db) = db"
| "DefaultDatabase (RevokeStatement db) = db"
| "DefaultDatabase (ShowFieldKeyCardinalityStatement db exact srcs cond) = db"
| "DefaultDatabase (ShowFieldKeysStatement db srcs) = db"
| "DefaultDatabase (ShowMeasurementCardinalityStatement db exact restricted srcs cond) = db"
| "DefaultDatabase (ShowMeasurementsStatement db src cond) = db"
| "DefaultDatabase (ShowRetentionPoliciesStatement db) = db"
| "DefaultDatabase (ShowSeriesStatement db srcs cond) = db"
| "DefaultDatabase (ShowSeriesCardinalityStatement db exact restricted srcs cond) = db"
| "DefaultDatabase (ShowTagKeyCardinalityStatement db exact srcs cond) = db"
| "DefaultDatabase (ShowTagKeysStatement db srcs) = db"
| "DefaultDatabase (ShowTagValuesCardinalityStatement db exact srcs) = db"
| "DefaultDatabase (ShowTagValuesStatement db srcs) = db"
| "DefaultDatabase stmt = ''''"

definition normalizeMeasurement :: "Client \<Rightarrow> string \<Rightarrow> string \<Rightarrow> Measurement \<Rightarrow> query_error + Measurement" where
  "normalizeMeasurement c defaultDatabase defaultRetentionPolicy m0 =
     (if \<not> me_IsTarget m0 \<and> me_Name m0 = '''' \<and> me_SystemIterator m0 = '''' \<and> \<not> me_Regex m0
      then Inl (QueryError ''invalid measurement'')
      else
        let m = (if me_Database m0 = '''' then m0\<lparr>me_Database := defaultDatabase\<rparr> else m0) in
        if me_Database m = '''' then Inl (QueryError ''database name required'')
        else case client_Database c (me_Database m) of
          None \<Rightarrow> Inl (QueryError ''database not found'')
        | Some di \<Rightarrow>
            if me_RetentionPolicy m \<noteq> '''' then Inr m
            else if defaultRetentionPolicy \<noteq> '''' then Inr (m\<lparr>me_RetentionPolicy := defaultRetentionPolicy\<rparr>)
            else if di_DefaultRetentionPolicy di \<noteq> '''' then Inr (m\<lparr>me_RetentionPolicy := di_DefaultRetentionPolicy di\<rparr>)
            else Inl (QueryError ''default retention policy not set''))"

text \<open>Walking a statement visits the target and then the sources.\<close>

fun normalize_sources :: "Client \<Rightarrow> string \<Rightarrow> string \<Rightarrow> Source list \<Rightarrow> query_error + Source list"
and normalize_select :: "Client \<Rightarrow> string \<Rightarrow> string \<Rightarrow> SelectStatement \<Rightarrow> query_error + SelectStatement" where
  "normalize_sources c db rp [] = Inr []"
| "normalize_sources c db rp (SourceNil # srcs) = map_sum id ((#) SourceNil) (normalize_sources c db rp srcs)"
| "normalize_sources c db rp (SourceMeasurement m # srcs) =
     (case normalizeMeasurement c db rp m of
        Inl e \<Rightarrow> Inl e
      | Inr m' \<Rightarrow> map_sum id ((#) (SourceMeasurement m')) (normalize_sources c db rp srcs))"
| "normalize_sources c db rp (SourceSubQuery s # srcs) =
     (case normalize_select c db rp s of
        Inl e \<Rightarrow> Inl e
      | Inr s' \<Rightarrow> map_sum id ((#) (SourceSubQuery s')) (normalize_sources c db rp srcs))"
| "normalize_select c db rp (SelectStatement srcs tgt) =
     (case (case tgt of None \<Rightarrow> Inr None | Some m \<Rightarrow> map_sum id Some (normalizeMeasurement c db rp m)) of
        Inl e \<Rightarrow> Inl e
      | Inr tgt' \<Rightarrow> map_sum id (\<lambda>srcs'. SelectStatement srcs' tgt') (normalize_sources c db rp srcs))"

definition or_default :: "string \<Rightarrow> string \<Rightarrow> string" where
  "or_default db d = (if db = '''' then d else db)"

fun NormalizeStatement :: "Client \<Rightarrow> string \<Rightarrow> string \<Rightarrow> Statement \<Rightarrow> query_error + Statement" where
  "NormalizeStatement c d rp (ShowRetentionPoliciesStatement db) = Inr (ShowRetentionPoliciesStatement (or_default db d))"
| "NormalizeStatement c d rp (ShowMeasurementsStatement db src cond) =
     Inr (ShowMeasurementsStatement (or_default db d) src cond)"
| "NormalizeStatement c d rp (ShowTagKeysStatement db srcs) =
     map_sum id (ShowTagKeysStatement (or_default db d)) (normalize_sources c d rp srcs)"
| "NormalizeStatement c d rp (ShowTagValuesStatement db srcs) =
     map_sum id (ShowTagValuesStatement (or_default db d)) (normalize_sources c d rp srcs)"
| "NormalizeStatement c d rp (ShowMeasurementCardinalityStatement db exact restricted srcs cond) =
     map_sum id (\<lambda>srcs'. ShowMeasurementCardinalityStatement (or_default db d) exact restricted srcs' cond)
       (normalize_sources c d rp srcs)"
| "NormalizeStatement c d rp (ShowSeriesCardinalityStatement db exact restricted srcs cond) =
     map_sum id (\<lambda>srcs'. ShowSeriesCardinalityStatement (or_default db d) exact restricted srcs' cond)
       (normalize_sources c d rp srcs)"
| "NormalizeStatement c d rp (ShowFieldKeyCardinalityStatement db exact srcs cond) =
     map_sum id (\<lambda>srcs'. ShowFieldKeyCardinalityStatement db exact srcs' cond) (normalize_sources c d rp srcs)"
| "NormalizeStatement c d rp (ShowFieldKeysStatement db srcs) =
     map_sum id (ShowFieldKeysStatement db) (normalize_sources c d rp srcs)"
| "NormalizeStatement c d rp (ShowSeriesStatement db srcs cond) =
     map_sum id (\<lambda>srcs'. ShowSeriesStatement db srcs' cond) (normalize_sources c d rp srcs)"
| "NormalizeStatement c d rp (ShowTagKeyCardinalityStatement db exact srcs cond) =
     map_sum id (\<lambda>srcs'. ShowTagKeyCardinalityStatement db exact srcs' cond) (normalize_sources c d rp srcs)"
| "NormalizeStatement c d rp (ShowTagValuesCardinalityStatement db exact srcs) =
     map_sum id (ShowTagValuesCardinalityStatement db exact) (normalize_sources c d rp srcs)"
| "NormalizeStatement c d rp (CreateContinuousQueryStatement db s) =
     map_sum id (CreateContinuousQueryStatement db) (normalize_select c d rp s)"
| "NormalizeStatement c d rp (ExplainStatement s) = map_sum id ExplainStatement (normalize_select c d rp s)"
| "NormalizeStatement c d rp (SelectStatementStmt s) = map_sum id SelectStatementStmt (normalize_select c d rp s)"
| "NormalizeStatement c d rp stmt = Inr stmt"

definition IsSystemName :: "string \<Rightarrow> bool" where
  "IsSystemName name \<longleftrightarrow> name \<in> set [''_fieldKeys'', ''_measurements'', ''_name'', ''_series'', ''_tagKey'', ''_tagKeys'', ''_tags'']"

fun uses_system_name :: "Source \<Rightarrow> bool" where
  "uses_system_name (SourceMeasurement m) = IsSystemName (me_Name m)"
| "uses_system_name s = False"

text \<open>What the executor does to a statement of a query before it executes it.\<close>

definition prepare_statement :: "Client \<Rightarrow> string \<Rightarrow> string \<Rightarrow> Statement \<Rightarrow> query_error + Statement" where
  "prepare_statement c database retentionPolicy stmt =
     (let defaultDB = (if database = '''' then DefaultDatabase stmt else database) in
      if (case stmt of SelectStatementStmt s \<Rightarrow> list_ex uses_system_name (Sources s) | _ \<Rightarrow> False)
      then Inl (QueryError ''unable to use system source'')
      else case RewriteStatement stmt of
        Inl e \<Rightarrow> Inl e
      | Inr stmt' \<Rightarrow> NormalizeStatement c defaultDB retentionPolicy stmt')"
section \<open>What a statement touches\<close>

fun source_dbs :: "Source list \<Rightarrow> string list" and select_dbs :: "SelectStatement \<Rightarrow> string list" where
  "source_dbs [] = []"
| "source_dbs (SourceNil # srcs) = source_dbs srcs"
| "source_dbs (SourceMeasurement m # srcs) = me_Database m # source_dbs srcs"
| "source_dbs (SourceSubQuery s # srcs) = select_dbs s @ source_dbs srcs"
| "select_dbs (SelectStatement srcs tgt) = source_dbs srcs"

text \<open>
  The databases whose data a prepared statement reads (a continuous query when it runs later) and
  those it writes to or deletes from; \<open>database\<close> is that of the request.
\<close>

fun reads :: "Statement \<Rightarrow> string list" where
  "reads (SelectStatementStmt s) = select_dbs s"
| "reads (ExplainStatement s) = select_dbs s"
| "reads (CreateContinuousQueryStatement db s) = select_dbs s"
| "reads (ShowMeasurementCardinalityStatement db exact restricted srcs cond) = [db]"
| "reads (ShowMeasurementsStatement db src cond) = [db]"
| "reads (ShowSeriesCardinalityStatement db exact restricted srcs cond) = [db]"
| "reads (ShowTagKeysStatement db srcs) = [db]"
| "reads (ShowTagValuesStatement db srcs) = [db]"
| "reads stmt = []"

definition target_dbs :: "SelectStatement \<Rightarrow> string list" where
  "target_dbs s = (case Target s of None \<Rightarrow> [] | Some m \<Rightarrow> [me_Database m])"

fun writes :: "string \<Rightarrow> Statement \<Rightarrow> string list" where
  "writes database (SelectStatementStmt s) = target_dbs s"
| "writes database (CreateContinuousQueryStatement db s) = target_dbs s"
| "writes database (DeleteSeriesStatement srcs) = [database]"
| "writes database (DropSeriesStatement srcs) = [database]"
| "writes database (DropRetentionPolicyStatement db) = [db]"
| "writes database (DropContinuousQueryStatement db) = [db]"
| "writes database stmt = []"

text \<open>
  The statements whose privileges cover that: those with sources of their own may name no database
  but the one they are on, the exact cardinalities need a source that names its database unless
  they are on the one of the request, and a continuous query names its target.
\<close>

fun within :: "string \<Rightarrow> Source \<Rightarrow> bool" where
  "within db (SourceMeasurement m) = (me_Database m = '''' \<or> me_Database m = db)"
| "within db s = False"

fun explicit :: "Source \<Rightarrow> bool" where
  "explicit (SourceMeasurement m) = (me_Database m \<noteq> '''')"
| "explicit s = False"

definition counted :: "string \<Rightarrow> string \<Rightarrow> Source list \<Rightarrow> bool" where
  "counted database db srcs \<longleftrightarrow>
     srcs \<noteq> [] \<and> list_all is_measurement srcs \<and> (or_default db database = database \<or> list_all explicit srcs)"

fun covered :: "string \<Rightarrow> Statement \<Rightarrow> bool" where
  "covered database (ShowFieldKeysStatement db srcs) = list_all (within (or_default db database)) srcs"
| "covered database (ShowSeriesStatement db srcs cond) = list_all (within (or_default db database)) srcs"
| "covered database (ShowFieldKeyCardinalityStatement db exact srcs cond) = counted database db srcs"
| "covered database (ShowTagKeyCardinalityStatement db exact srcs cond) = counted database db srcs"
| "covered database (ShowTagValuesCardinalityStatement db exact srcs) = counted database db srcs"
| "covered database (ShowMeasurementCardinalityStatement db exact restricted srcs cond) =
     (if exact then counted database db srcs else list_all (within (or_default db database)) srcs)"
| "covered database (ShowSeriesCardinalityStatement db exact restricted srcs cond) =
     (if exact then counted database db srcs else list_all (within (or_default db database)) srcs)"
| "covered database (CreateContinuousQueryStatement db s) =
     ((\<forall>d \<in> set (select_dbs s). or_default d (or_default database db) = or_default db database) \<and>
      (\<forall>d \<in> set (target_dbs s). d \<noteq> ''''))"
| "covered database (DropContinuousQueryStatement db) = (db \<noteq> '''')"
| "covered database (DropRetentionPolicyStatement db) = (db \<noteq> '''')"
| "covered database stmt = True"

section \<open>Privileges cover accesses\<close>

definition grants :: "string \<Rightarrow> ExecutionPrivilege list \<Rightarrow> Privilege \<Rightarrow> string \<Rightarrow> bool" where
  "grants database ps p d \<longleftrightarrow> (\<exists>ep \<in> set ps. \<not> ep_Admin ep \<and> ep_Privilege ep = p \<and> or_default (ep_Name ep) database = d)"

lemma grants_simps [simp]:
  "grants database [] p d = False"
  "grants database (ep # ps) p d =
     (\<not> ep_Admin ep \<and> ep_Privilege ep = p \<and> or_default (ep_Name ep) database = d \<or> grants database ps p d)"
  "grants database (ps @ qs) p d = (grants database ps p d \<or> grants database qs p d)"
  by (auto simp: grants_def)

lemma authorized_grants:
  "authorize_privileges u database ps = None \<Longrightarrow> grants database ps p d \<Longrightarrow> AuthorizeDatabase u p d"
  by (induction ps) (auto simp: or_default_def Let_def split: if_splits)

lemma authorized_statement:
  "authorize_statements u database stmts = None \<Longrightarrow> stmt \<in> set stmts \<Longrightarrow>
     \<exists>ps. RequiredPrivileges stmt = Inr ps \<and> authorize_privileges u database ps = None"
  by (induction stmts) (auto split: sum.splits option.splits)

lemma or_default_simps [simp]:
  "or_default '''' d = d" "db \<noteq> '''' \<Longrightarrow> or_default db d = db"
  by (simp_all add: or_default_def)

lemma normalizeMeasurement_db:
  "normalizeMeasurement c d rp m = Inr m' \<Longrightarrow> me_Database m' = or_default (me_Database m) d \<and> me_Database m' \<noteq> ''''"
  by (auto simp: normalizeMeasurement_def Let_def or_default_def split: if_splits option.splits)

lemma map_sum_Inr [simp]: "map_sum id f x = Inr y \<longleftrightarrow> (\<exists>z. x = Inr z \<and> y = f z)"
  by (cases x) auto

lemma normalize_dbs:
  "normalize_sources c d rp srcs = Inr srcs' \<Longrightarrow> source_dbs srcs' = map (\<lambda>db. or_default db d) (source_dbs srcs) \<and> '''' \<notin> set (source_dbs srcs')"
  "normalize_select c d rp s = Inr s' \<Longrightarrow> select_dbs s' = map (\<lambda>db. or_default db d) (select_dbs s) \<and> '''' \<notin> set (select_dbs s') \<and>
     target_dbs s' = map (\<lambda>db. or_default db d) (target_dbs s) \<and> '''' \<notin> set (target_dbs s')"
  by (induction c d rp srcs and c d rp s arbitrary: srcs' and s' rule: normalize_sources_normalize_select.induct)
    (fastforce dest: normalizeMeasurement_db simp: target_dbs_def split: sum.splits option.splits)+

lemma privileges_dbs:
  "Sources_RequiredPrivileges srcs = Inr ps \<Longrightarrow> db \<in> set (source_dbs srcs) \<Longrightarrow> grants database ps ReadPrivilege (or_default db database)"
  "Select_RequiredPrivileges s = Inr ps \<Longrightarrow>
     (db \<in> set (select_dbs s) \<longrightarrow> grants database ps ReadPrivilege (or_default db database)) \<and>
     (db \<in> set (target_dbs s) \<longrightarrow> grants database ps WritePrivilege (or_default db database))"
  by (induction srcs and s arbitrary: ps and ps rule: Sources_RequiredPrivileges_Select_RequiredPrivileges.induct)
    (fastforce simp: target_dbs_def split: sum.splits option.splits)+

lemma or_default_empty [simp]: "or_default db '''' = db"
  by (simp add: or_default_def)

lemma within_measurements: "list_all (within db) srcs \<Longrightarrow> list_all is_measurement srcs \<and> (\<forall>d \<in> set (source_dbs srcs). d = '''' \<or> d = db)"
proof (induction srcs)
  case (Cons s srcs)
  then show ?case by (cases s) auto
qed simp

lemma explicit_dbs: "list_all explicit srcs \<Longrightarrow> '''' \<notin> set (source_dbs srcs)"
proof (induction srcs)
  case (Cons s srcs)
  then show ?case by (cases s) auto
qed simp

lemma rewriteSources2_dbs:
  assumes "list_all is_measurement srcs"
  shows "source_dbs (rewriteSources2 srcs db) =
    map (\<lambda>d. or_default d db) (source_dbs (if srcs = [] then [match_all] else srcs))"
proof -
  have "list_all is_measurement ss \<Longrightarrow> source_dbs (map (default_source db) ss) = map (\<lambda>d. or_default d db) (source_dbs ss)" for ss
  proof (induction ss)
    case (Cons s ss)
    then show ?case by (cases s) auto
  qed simp
  with assms show ?thesis by (simp add: rewriteSources2_def match_all_def)
qed

lemma rewriteSources_dbs:
  assumes "rewriteSources srcs si db = Inr ss" "list_all is_measurement srcs"
  shows "source_dbs ss = (if srcs = [] then [db] else map (\<lambda>d. or_default d db) (source_dbs srcs)) \<and> list_all is_measurement ss"
proof -
  have "rewrite_source_loop si db srcs = Inr ss' \<Longrightarrow> list_all is_measurement srcs \<Longrightarrow>
      source_dbs ss' = map (\<lambda>d. or_default d db) (source_dbs srcs) \<and> list_all is_measurement ss' \<and> length ss' = length srcs" for ss'
  proof (induction srcs arbitrary: ss')
    case (Cons s srcs)
    then show ?case by (cases s) (auto simp: or_default_def)
  qed simp
  with assms show ?thesis by (fastforce simp: rewriteSources_def zero_Measurement_def)
qed

lemma normalize_select_db:
  assumes "normalize_select c d rp s = Inr s'"
  shows "x \<in> set (select_dbs s') \<Longrightarrow> x \<noteq> '''' \<and> (\<exists>y \<in> set (select_dbs s). x = or_default y d)"
    "x \<in> set (target_dbs s') \<Longrightarrow> x \<noteq> '''' \<and> (\<exists>y \<in> set (target_dbs s). x = or_default y d)"
  using normalize_dbs(2) [OF assms] by (metis (no_types, lifting) imageE image_set)+

lemma rewriteSources_sub:
  assumes "rewriteSources srcs si db = Inr ss" "list_all is_measurement srcs"
  shows "set (source_dbs ss) \<subseteq> (\<lambda>m. or_default m db) ` insert '''' (set (source_dbs srcs))"
  using rewriteSources_dbs [OF assms] by (cases "srcs = []") auto

lemma rewriteSources2_sub:
  assumes "list_all is_measurement srcs"
  shows "set (source_dbs (rewriteSources2 srcs db)) \<subseteq> (\<lambda>m. or_default m db) ` insert '''' (set (source_dbs srcs))"
  using rewriteSources2_dbs [OF assms, of db] by (cases "srcs = []") (auto simp: match_all_def zero_Measurement_def)

text \<open>The database that a source without one ends up with.\<close>

lemma effective_within:
  assumes "v = or_default (or_default m db) (if database = '''' then db else database)" "v \<noteq> ''''"
    and "m = '''' \<or> m = or_default db database"
  shows "v = or_default db database"
  using assms by (auto simp: or_default_def split: if_splits)

lemma effective_counted:
  assumes "v = or_default (or_default m db) (if database = '''' then db else database)" "v \<noteq> ''''"
    and "or_default db database = database \<or> m \<noteq> ''''"
  shows "v = or_default m database"
  using assms by (auto simp: or_default_def split: if_splits)

lemma prepare_select:
  assumes "RewriteStatement stmt = Inr (select_from ss)" "prepare_statement c database rp stmt = Inr stmt'"
    and "DefaultDatabase stmt = db"
  obtains s' where "stmt' = SelectStatementStmt s'" "target_dbs s' = []"
    "\<And>d. d \<in> set (select_dbs s') \<Longrightarrow>
       d \<noteq> '''' \<and> (\<exists>x \<in> set (source_dbs ss). d = or_default x (if database = '''' then db else database))"
proof -
  have "NormalizeStatement c (if database = '''' then DefaultDatabase stmt else database) rp (select_from ss) = Inr stmt'"
    using assms(2) unfolding prepare_statement_def Let_def assms(1) by (simp split: if_split_asm)
  then obtain s' where s': "stmt' = SelectStatementStmt s'"
      "normalize_select c (if database = '''' then db else database) rp (SelectStatement ss None) = Inr s'"
    unfolding assms(3) select_from_def by (auto simp del: normalize_select.simps)
  show ?thesis
  proof (rule that [OF s'(1)])
    show "target_dbs s' = []" using normalize_dbs(2) [OF s'(2)] by (simp add: target_dbs_def)
    show "d \<noteq> '''' \<and> (\<exists>x \<in> set (source_dbs ss). d = or_default x (if database = '''' then db else database))"
      if "d \<in> set (select_dbs s')" for d
      using normalize_select_db(1) [OF s'(2) that] unfolding select_dbs.simps .
  qed
qed

lemma select_within:
  assumes "RewriteStatement stmt = Inr (select_from ss)" "prepare_statement c database rp stmt = Inr stmt'"
    and "DefaultDatabase stmt = db" "list_all (within (or_default db database)) srcs"
    and "set (source_dbs ss) \<subseteq> (\<lambda>m. or_default m db) ` insert '''' (set (source_dbs srcs))"
    and "d \<in> set (reads stmt')"
  shows "d = or_default db database"
proof -
  obtain s' where s': "stmt' = SelectStatementStmt s'"
      "\<And>d. d \<in> set (select_dbs s') \<Longrightarrow>
         d \<noteq> '''' \<and> (\<exists>x \<in> set (source_dbs ss). d = or_default x (if database = '''' then db else database))"
    using prepare_select [OF assms(1-3)] by metis
  with assms(6) obtain x where x: "x \<in> set (source_dbs ss)"
      "d = or_default x (if database = '''' then db else database)" "d \<noteq> ''''" by auto
  from x(1) assms(5) obtain m where m: "m = '''' \<or> m \<in> set (source_dbs srcs)" "x = or_default m db" by blast
  with within_measurements [OF assms(4)] have "m = '''' \<or> m = or_default db database" by blast
  from effective_within [OF x(2) [unfolded m(2)] x(3) this] show ?thesis .
qed

lemma select_counted:
  assumes "RewriteStatement stmt = count_statement db srcs cond" "prepare_statement c database rp stmt = Inr stmt'"
    and "DefaultDatabase stmt = db" "counted database db srcs" "d \<in> set (reads stmt')"
  shows "\<exists>m \<in> set (source_dbs srcs). d = or_default m database"
proof -
  have ne: "srcs \<noteq> []" and ms: "list_all is_measurement srcs" using assms(4) by (auto simp: counted_def)
  from assms(1,2) ne have r: "RewriteStatement stmt = Inr (select_from (rewriteSources2 srcs db))"
    by (auto simp: prepare_statement_def count_statement_def Let_def split: if_splits)
  obtain s' where s': "stmt' = SelectStatementStmt s'"
      "\<And>d. d \<in> set (select_dbs s') \<Longrightarrow>
         d \<noteq> '''' \<and> (\<exists>x \<in> set (source_dbs (rewriteSources2 srcs db)). d = or_default x (if database = '''' then db else database))"
    using prepare_select [OF r assms(2,3)] by metis
  with assms(5) obtain x where x: "x \<in> set (source_dbs (rewriteSources2 srcs db))"
      "d = or_default x (if database = '''' then db else database)" "d \<noteq> ''''" by auto
  from x(1) rewriteSources2_dbs [OF ms, of db] ne obtain m where m: "m \<in> set (source_dbs srcs)" "x = or_default m db" by auto
  have "or_default db database = database \<or> m \<noteq> ''''"
    using assms(4) explicit_dbs m(1) by (auto simp: counted_def)
  with effective_counted [OF x(2) [unfolded m(2)] x(3)] m(1) show ?thesis by auto
qed

lemma count_within:
  assumes "RewriteStatement stmt = count_statement db srcs cond" "prepare_statement c database rp stmt = Inr stmt'"
    and "DefaultDatabase stmt = db" "list_all (within (or_default db database)) srcs" "d \<in> set (reads stmt')"
  shows "d = or_default db database"
proof -
  let ?srcs = "if srcs = [] then [match_all] else srcs"
  from assms(1,2) have r: "RewriteStatement stmt = Inr (select_from (rewriteSources2 ?srcs db))"
    by (auto simp: prepare_statement_def count_statement_def Let_def split: if_splits)
  have "list_all is_measurement ?srcs" using within_measurements [OF assms(4)] by (simp add: match_all_def)
  then have "source_dbs (rewriteSources2 ?srcs db) = map (\<lambda>d. or_default d db) (source_dbs ?srcs)"
    using rewriteSources2_dbs [of ?srcs db] by simp
  then have "set (source_dbs (rewriteSources2 ?srcs db)) \<subseteq> (\<lambda>m. or_default m db) ` insert '''' (set (source_dbs srcs))"
    by (auto simp: match_all_def zero_Measurement_def)
  from select_within [OF r assms(2,3,4) this assms(5)] show ?thesis .
qed

text \<open>What a covered statement reads and writes is what its privileges grant.\<close>

lemma prepare_normalized:
  assumes "prepare_statement c database rp stmt = Inr stmt'" "RewriteStatement stmt = Inr s1"
  shows "NormalizeStatement c (or_default database (DefaultDatabase stmt)) rp s1 = Inr stmt'"
  using assms(1) unfolding prepare_statement_def Let_def assms(2) or_default_def by (simp split: if_split_asm)

lemma prepare_rewritten:
  assumes "prepare_statement c database rp stmt = Inr stmt'"
  obtains s1 where "RewriteStatement stmt = Inr s1"
  using assms unfolding prepare_statement_def Let_def by (auto split: if_split_asm sum.splits)

lemma prepared_reads:
  assumes ps: "RequiredPrivileges stmt = Inr ps" and cov: "covered database stmt"
    and prep: "prepare_statement c database rp stmt = Inr stmt'" and d: "d \<in> set (reads stmt')"
  shows "grants database ps ReadPrivilege d"
proof -
  obtain s1 where s1: "RewriteStatement stmt = Inr s1" using prepare_rewritten [OF prep] .
  note n = prepare_normalized [OF prep s1]
  have W: "RequiredPrivileges stmt = requires db ReadPrivilege \<Longrightarrow> d = or_default db database \<Longrightarrow> ?thesis" for db
    using ps by (auto simp: requires_def)
  have P: "Sources_RequiredPrivileges srcs = Inr ps \<Longrightarrow> \<exists>m \<in> set (source_dbs srcs). d = or_default m database \<Longrightarrow> ?thesis" for srcs
    using privileges_dbs(1) by blast
  show ?thesis
  proof (cases stmt)
    case (ShowFieldKeysStatement db srcs)
    then obtain ss where ss: "rewriteSources srcs ''_fieldKeys'' db = Inr ss" "s1 = select_from ss"
      using s1 by (auto split: sum.splits)
    have w: "list_all (within (or_default db database)) srcs" using cov ShowFieldKeysStatement by simp
    note sub = rewriteSources_sub [OF ss(1) conjunct1 [OF within_measurements [OF w]]]
    have "d = or_default db database" by (rule select_within [OF s1 [unfolded ss(2)] prep _ w sub d]) (simp add: ShowFieldKeysStatement)
    with ShowFieldKeysStatement W [of db] show ?thesis by simp
  next
    case (ShowSeriesStatement db srcs cond)
    have w: "list_all (within (or_default db database)) srcs" using cov ShowSeriesStatement by simp
    obtain ss where ss: "s1 = select_from ss" "set (source_dbs ss) \<subseteq> (\<lambda>m. or_default m db) ` insert '''' (set (source_dbs srcs))"
    proof (cases "HasTimeExpr cond")
      case True
      with s1 ShowSeriesStatement that [OF _ rewriteSources2_sub] within_measurements [OF w] show ?thesis by simp
    next
      case False
      with s1 ShowSeriesStatement obtain ss where ss: "rewriteSources srcs ''_series'' db = Inr ss" "s1 = select_from ss"
        by (auto split: sum.splits)
      with that [OF ss(2) rewriteSources_sub [OF ss(1)]] within_measurements [OF w] show ?thesis by simp
    qed
    have "d = or_default db database" by (rule select_within [OF s1 [unfolded ss(1)] prep _ w ss(2) d]) (simp add: ShowSeriesStatement)
    with ShowSeriesStatement W [of db] show ?thesis by simp
  next
    case (ShowFieldKeyCardinalityStatement db exact srcs cond)
    show ?thesis
      by (rule P [of srcs], use ps ShowFieldKeyCardinalityStatement in simp, rule select_counted [OF _ prep _ _ d, of db srcs cond])
        (use cov ShowFieldKeyCardinalityStatement in simp_all)
  next
    case (ShowTagKeyCardinalityStatement db exact srcs cond)
    show ?thesis
      by (rule P [of srcs], use ps ShowTagKeyCardinalityStatement in simp, rule select_counted [OF _ prep _ _ d, of db srcs cond])
        (use cov ShowTagKeyCardinalityStatement in simp_all)
  next
    case (ShowTagValuesCardinalityStatement db exact srcs)
    show ?thesis
      by (rule P [of srcs], use ps ShowTagValuesCardinalityStatement in simp, rule select_counted [OF _ prep _ _ d, of db srcs NoCondition])
        (use cov ShowTagValuesCardinalityStatement in simp_all)
  next
    case (ShowMeasurementCardinalityStatement db exact restricted srcs cond)
    show ?thesis
    proof (cases "exact")
      case True
      show ?thesis
        by (rule P [of srcs], use ps True ShowMeasurementCardinalityStatement in simp, rule select_counted [OF _ prep _ _ d, of db srcs cond])
          (use cov True ShowMeasurementCardinalityStatement in simp_all)
    next
      case False
      have "d = or_default db database"
      proof (cases "srcs = [] \<and> cond = NoCondition \<and> \<not> restricted")
        case True
        with False s1 n d ShowMeasurementCardinalityStatement show ?thesis by (auto simp: or_default_def split: if_splits)
      next
        case False
        then show ?thesis
          by (intro count_within [OF _ prep _ _ d, of db srcs cond]) (use cov \<open>\<not> exact\<close> ShowMeasurementCardinalityStatement in auto)
      qed
      with False ShowMeasurementCardinalityStatement W [of db] show ?thesis by auto
    qed
  next
    case (ShowSeriesCardinalityStatement db exact restricted srcs cond)
    show ?thesis
    proof (cases "exact")
      case True
      show ?thesis
        by (rule P [of srcs], use ps True ShowSeriesCardinalityStatement in simp, rule select_counted [OF _ prep _ _ d, of db srcs cond])
          (use cov True ShowSeriesCardinalityStatement in simp_all)
    next
      case False
      have "d = or_default db database"
      proof (cases "srcs = [] \<and> cond = NoCondition \<and> \<not> restricted")
        case True
        with False s1 n d ShowSeriesCardinalityStatement show ?thesis by (auto simp: or_default_def split: if_splits)
      next
        case False
        then show ?thesis
          by (intro count_within [OF _ prep _ _ d, of db srcs cond]) (use cov \<open>\<not> exact\<close> ShowSeriesCardinalityStatement in auto)
      qed
      with False ShowSeriesCardinalityStatement W [of db] show ?thesis by auto
    qed
  next
    case (SelectStatementStmt s)
    with s1 n obtain s' where s': "normalize_select c database rp s = Inr s'" "stmt' = SelectStatementStmt s'"
      by (auto split: if_splits)
    with normalize_select_db(1) [OF s'(1)] d obtain x where "x \<in> set (select_dbs s)" "d = or_default x database" by auto
    with privileges_dbs(2) [of s ps x database] ps SelectStatementStmt show ?thesis by simp
  next
    case (ExplainStatement s)
    with s1 n obtain s' where s': "normalize_select c database rp s = Inr s'" "stmt' = ExplainStatement s'"
      by (auto split: if_splits)
    with normalize_select_db(1) [OF s'(1)] d obtain x where "x \<in> set (select_dbs s)" "d = or_default x database" by auto
    with privileges_dbs(2) [of s ps x database] ps ExplainStatement show ?thesis by simp
  next
    case (CreateContinuousQueryStatement db s)
    with s1 n obtain s' where s': "normalize_select c (or_default database db) rp s = Inr s'"
        "stmt' = CreateContinuousQueryStatement db s'"
      by auto
    with normalize_select_db(1) [OF s'(1)] d obtain x where "x \<in> set (select_dbs s)" "d = or_default x (or_default database db)"
      by auto
    with cov CreateContinuousQueryStatement have "d = or_default db database" by auto
    with ps CreateContinuousQueryStatement show ?thesis by (auto split: option.splits)
  next
    case (ShowMeasurementsStatement db src cond)
    with s1 n d have "d = or_default db database" by (auto simp: or_default_def split: if_splits sum.splits)
    with ShowMeasurementsStatement W [of db] show ?thesis by simp
  next
    case (ShowTagKeysStatement db srcs)
    with s1 n d have "d = or_default db database" by (auto simp: or_default_def split: if_splits sum.splits)
    with ShowTagKeysStatement W [of db] show ?thesis by simp
  next
    case (ShowTagValuesStatement db srcs)
    with s1 n d have "d = or_default db database" by (auto simp: or_default_def split: if_splits sum.splits)
    with ShowTagValuesStatement W [of db] show ?thesis by simp
  qed (use s1 n d in auto)
qed

lemma prepared_writes:
  assumes ps: "RequiredPrivileges stmt = Inr ps" and cov: "covered database stmt"
    and prep: "prepare_statement c database rp stmt = Inr stmt'" and d: "d \<in> set (writes database stmt')"
  shows "grants database ps WritePrivilege d"
proof -
  obtain s1 where s1: "RewriteStatement stmt = Inr s1" using prepare_rewritten [OF prep] .
  note n = prepare_normalized [OF prep s1]
  have S: ?thesis if "s1 = select_from ss" for ss
    using d prepare_select [OF s1 [unfolded that] prep refl] by (metis list.set(1) empty_iff writes.simps(1))
  have C: ?thesis if "count_statement db srcs cond = Inr s1" for db srcs cond
    using that S by (auto simp: count_statement_def split: if_splits)
  show ?thesis
  proof (cases stmt)
    case (SelectStatementStmt s)
    with s1 n obtain s' where s': "normalize_select c database rp s = Inr s'" "stmt' = SelectStatementStmt s'"
      by (auto split: if_splits)
    with normalize_select_db(2) [OF s'(1)] d obtain x where "x \<in> set (target_dbs s)" "d = or_default x database" by auto
    with privileges_dbs(2) [of s ps x database] ps SelectStatementStmt show ?thesis by simp
  next
    case (CreateContinuousQueryStatement db s)
    with s1 n obtain s' where s': "normalize_select c (or_default database db) rp s = Inr s'"
        "stmt' = CreateContinuousQueryStatement db s'"
      by auto
    with normalize_select_db(2) [OF s'(1)] d obtain x
      where x: "x \<in> set (target_dbs s)" "d = or_default x (or_default database db)" by auto
    with cov CreateContinuousQueryStatement have "d = x" "x \<noteq> ''''" by auto
    with x ps CreateContinuousQueryStatement show ?thesis by (auto simp: target_dbs_def split: option.splits)
  next
    case (ShowFieldKeysStatement db srcs)
    with s1 S show ?thesis by (auto split: sum.splits)
  next
    case (ShowSeriesStatement db srcs cond)
    with s1 S show ?thesis by (auto split: sum.splits if_splits)
  next
    case (ShowFieldKeyCardinalityStatement db exact srcs cond)
    with s1 C show ?thesis by simp
  next
    case (ShowTagKeyCardinalityStatement db exact srcs cond)
    with s1 C show ?thesis by simp
  next
    case (ShowTagValuesCardinalityStatement db exact srcs)
    with s1 C show ?thesis by simp
  next
    case (ShowMeasurementCardinalityStatement db exact restricted srcs cond)
    with s1 C n d show ?thesis by (auto split: if_splits)
  next
    case (ShowSeriesCardinalityStatement db exact restricted srcs cond)
    with s1 C n d show ?thesis by (auto split: if_splits)
  next
    case (ExplainStatement s)
    with s1 n d show ?thesis by auto
  next
    case (ShowMeasurementsStatement db src cond)
    with s1 n d show ?thesis by (auto split: if_splits sum.splits)
  next
    case (ShowTagKeysStatement db srcs)
    with s1 n d show ?thesis by (auto split: sum.splits)
  next
    case (ShowTagValuesStatement db srcs)
    with s1 n d show ?thesis by (auto split: sum.splits)
  qed (use s1 n d ps cov in \<open>auto simp: requires_def\<close>)
qed

end
