(* ===== verification/Retention.thy ===== *)
theory Retention
  imports ClusterService MetaOwners
begin

text \<open>
  The enforcement of retention policies on a data node (\<open>services/retention/service.go\<close>): at every
  tick the expired shard groups are deleted through the meta client, the shards of deleted groups
  that the node stores are removed, and the groups that were deleted long ago are pruned.
\<close>

section \<open>A check\<close>

definition shard_ids_of_group :: "ShardGroupInfo \<Rightarrow> u64 list" where
  "shard_ids_of_group g = map si_ID (sgi_Shards g)"

text \<open>The expired groups of a policy: the shards to remove grow by those of the groups that could be deleted.\<close>

fun expire_groups ::
    "('w, 'z) service_scheme \<Rightarrow> string \<Rightarrow> string \<Rightarrow> ShardGroupInfo list \<Rightarrow> u64 list \<Rightarrow> bool \<Rightarrow> Client \<Rightarrow> 'w \<Rightarrow>
     u64 list \<times> bool \<times> Client \<times> 'w" where
  "expire_groups sv db rp [] deleted retryNeeded c w = (deleted, retryNeeded, c, w)"
| "expire_groups sv db rp (g # gs) deleted retryNeeded c w =
     (case client_DeleteShardGroup sv db rp (sgi_ID g) c w of
        (Some err, c', w') \<Rightarrow> expire_groups sv db rp gs deleted True c' w'
      | (None, c', w') \<Rightarrow> expire_groups sv db rp gs (deleted @ shard_ids_of_group g) retryNeeded c' w')"

text \<open>The clock is read once for each policy: \<open>now\<close> of the names of the database and the policy.\<close>

fun check_policies ::
    "('w, 'z) service_scheme \<Rightarrow> (string \<Rightarrow> string \<Rightarrow> go_time) \<Rightarrow> string \<Rightarrow> RetentionPolicyInfo list \<Rightarrow>
     u64 list \<Rightarrow> bool \<Rightarrow> Client \<Rightarrow> 'w \<Rightarrow> u64 list \<times> bool \<times> Client \<times> 'w" where
  "check_policies sv now db [] deleted retryNeeded c w = (deleted, retryNeeded, c, w)"
| "check_policies sv now db (r # rs) deleted retryNeeded c w =
     (case expire_groups sv db (rpi_Name r) (ExpiredShardGroups r (now db (rpi_Name r)))
             (deleted @ concat (map shard_ids_of_group (DeletedShardGroups r))) retryNeeded c w of
        (deleted', retryNeeded', c', w') \<Rightarrow> check_policies sv now db rs deleted' retryNeeded' c' w')"

fun check_databases ::
    "('w, 'z) service_scheme \<Rightarrow> (string \<Rightarrow> string \<Rightarrow> go_time) \<Rightarrow> DatabaseInfo list \<Rightarrow>
     u64 list \<Rightarrow> bool \<Rightarrow> Client \<Rightarrow> 'w \<Rightarrow> u64 list \<times> bool \<times> Client \<times> 'w" where
  "check_databases sv now [] deleted retryNeeded c w = (deleted, retryNeeded, c, w)"
| "check_databases sv now (d # ds) deleted retryNeeded c w =
     (case check_policies sv now (di_Name d) (di_RetentionPolicies d) deleted retryNeeded c w of
        (deleted', retryNeeded', c', w') \<Rightarrow> check_databases sv now ds deleted' retryNeeded' c' w')"

text \<open>The shards stored here; \<open>fails\<close> tells for which of them \<open>DeleteShard\<close> returns an error.\<close>

fun remove_shards :: "(u64 \<Rightarrow> bool) \<Rightarrow> u64 list \<Rightarrow> u64 list \<Rightarrow> bool \<Rightarrow> u64 list \<times> bool" where
  "remove_shards fails deleted [] retryNeeded = ([], retryNeeded)"
| "remove_shards fails deleted (i # shards) retryNeeded =
     (if i \<in> set deleted \<and> \<not> fails i then remove_shards fails deleted shards retryNeeded
      else
        let (kept, retry) = remove_shards fails deleted shards (if i \<in> set deleted then True else retryNeeded)
        in (i # kept, retry))"

definition retention_check ::
    "('w, 'z) service_scheme \<Rightarrow> (Data \<Rightarrow> meta_error option) \<Rightarrow> (string \<Rightarrow> string \<Rightarrow> go_time) \<Rightarrow> go_time \<Rightarrow> (u64 \<Rightarrow> bool) \<Rightarrow>
     Client \<Rightarrow> 'w \<Rightarrow> u64 list \<Rightarrow> bool \<times> Client \<times> 'w \<times> u64 list" where
  "retention_check sv snap now prune_now fails c w shards =
     (let (deleted, retry1, c1, w1) = check_databases sv now (Databases (cl_cacheData c)) [] False c w;
          (kept, retry2) = remove_shards fails deleted shards retry1;
          (err, c2) = PruneShardGroups snap prune_now c1
      in (if err \<noteq> None then True else retry2, c2, w1, kept))"

section \<open>The shards that are removed\<close>

text \<open>A shard whose group is deleted or expired, and one whose group is neither.\<close>

definition dead_group :: "(string \<Rightarrow> string \<Rightarrow> go_time) \<Rightarrow> DatabaseInfo \<Rightarrow> RetentionPolicyInfo \<Rightarrow> ShardGroupInfo \<Rightarrow> bool" where
  "dead_group now d r g \<longleftrightarrow> Deleted g \<or> g \<in> set (ExpiredShardGroups r (now (di_Name d) (rpi_Name r)))"

definition dead_of_policy :: "(string \<Rightarrow> string \<Rightarrow> go_time) \<Rightarrow> string \<Rightarrow> RetentionPolicyInfo \<Rightarrow> u64 list" where
  "dead_of_policy now db r =
     concat (map shard_ids_of_group (DeletedShardGroups r @ ExpiredShardGroups r (now db (rpi_Name r))))"

definition dead_shards :: "(string \<Rightarrow> string \<Rightarrow> go_time) \<Rightarrow> Data \<Rightarrow> u64 set" where
  "dead_shards now data =
     (\<Union>d \<in> set (Databases data). \<Union>r \<in> set (di_RetentionPolicies d). set (dead_of_policy now (di_Name d) r))"

definition live_shards :: "(string \<Rightarrow> string \<Rightarrow> go_time) \<Rightarrow> Data \<Rightarrow> u64 set" where
  "live_shards now data =
     {sid. \<exists>d \<in> set (Databases data). \<exists>r \<in> set (di_RetentionPolicies d). \<exists>g \<in> set (rpi_ShardGroups r).
        \<not> dead_group now d r g \<and> sid \<in> set (shard_ids_of_group g)}"

lemma expire_groups_deleted:
  assumes "expire_groups sv db rp gs deleted retryNeeded c w = (deleted', retry', c', w')"
  shows "set deleted \<subseteq> set deleted' \<and> set deleted' \<subseteq> set deleted \<union> set (concat (map shard_ids_of_group gs)) \<and>
    (\<not> retry' \<longrightarrow> \<not> retryNeeded \<and> set deleted' = set deleted \<union> set (concat (map shard_ids_of_group gs)))"
  using assms
  by (induction gs arbitrary: deleted retryNeeded c w) (fastforce split: prod.splits option.splits)+

lemma check_policies_deleted:
  assumes "check_policies sv now db rs deleted retryNeeded c w = (deleted', retry', c', w')"
  shows "set deleted \<subseteq> set deleted' \<and> set deleted' \<subseteq> set deleted \<union> (\<Union>r \<in> set rs. set (dead_of_policy now db r)) \<and>
    (\<not> retry' \<longrightarrow> \<not> retryNeeded \<and> set deleted' = set deleted \<union> (\<Union>r \<in> set rs. set (dead_of_policy now db r)))"
  using assms
proof (induction rs arbitrary: deleted retryNeeded c w)
  case (Cons r rs)
  let ?del = "deleted @ concat (map shard_ids_of_group (DeletedShardGroups r))"
  obtain del1 retry1 c1 w1 where e: "expire_groups sv db (rpi_Name r) (ExpiredShardGroups r (now db (rpi_Name r)))
      ?del retryNeeded c w = (del1, retry1, c1, w1)" by (metis prod_cases4)
  with Cons.prems have "check_policies sv now db rs del1 retry1 c1 w1 = (deleted', retry', c', w')" by simp
  from Cons.IH [OF this] expire_groups_deleted [OF e] show ?case by (auto simp: dead_of_policy_def)
qed simp

lemma check_databases_deleted:
  assumes "check_databases sv now ds deleted retryNeeded c w = (deleted', retry', c', w')"
  defines "D \<equiv> \<Union>d \<in> set ds. \<Union>r \<in> set (di_RetentionPolicies d). set (dead_of_policy now (di_Name d) r)"
  shows "set deleted \<subseteq> set deleted' \<and> set deleted' \<subseteq> set deleted \<union> D \<and>
    (\<not> retry' \<longrightarrow> \<not> retryNeeded \<and> set deleted' = set deleted \<union> D)"
  using assms(1) unfolding D_def
proof (induction ds arbitrary: deleted retryNeeded c w)
  case (Cons d ds)
  obtain del1 retry1 c1 w1 where e: "check_policies sv now (di_Name d) (di_RetentionPolicies d) deleted retryNeeded c w =
      (del1, retry1, c1, w1)" by (metis prod_cases4)
  with Cons.prems have "check_databases sv now ds del1 retry1 c1 w1 = (deleted', retry', c', w')" by simp
  from Cons.IH [OF this] check_policies_deleted [OF e] show ?case by auto
qed simp

lemma remove_shards_kept:
  "remove_shards fails deleted shards retryNeeded = (kept, retry) \<Longrightarrow>
     set kept \<subseteq> set shards \<and> set shards - set deleted \<subseteq> set kept \<and>
     (\<not> retry \<longrightarrow> \<not> retryNeeded \<and> set kept = set shards - set deleted)"
  by (induction shards arbitrary: retryNeeded kept) (fastforce simp: Let_def split: if_splits prod.splits)+

lemma remove_shards_succeeds:
  "\<forall>i. \<not> fails i \<Longrightarrow> remove_shards fails deleted shards retryNeeded = (kept, retry) \<Longrightarrow> retry = retryNeeded"
  by (induction shards arbitrary: retryNeeded kept) (auto split: if_splits prod.splits)

lemma retention_check_shards:
  assumes "retention_check sv snap now prune_now fails c w shards = (retry, c', w', shards')"
  shows "set shards' \<subseteq> set shards" "set shards - dead_shards now (cl_cacheData c) \<subseteq> set shards'"
    "\<not> retry \<Longrightarrow> set shards' = set shards - dead_shards now (cl_cacheData c)"
proof -
  obtain del retry1 c1 w1 where d: "check_databases sv now (Databases (cl_cacheData c)) [] False c w = (del, retry1, c1, w1)"
    by (metis prod_cases4)
  obtain kept retry2 where k: "remove_shards fails del shards retry1 = (kept, retry2)" by fastforce
  from assms d k have s: "shards' = kept" "\<not> retry \<Longrightarrow> \<not> retry2"
    by (auto simp: retention_check_def split: prod.splits if_splits)
  note D = check_databases_deleted [OF d, folded dead_shards_def]
  note K = remove_shards_kept [OF k]
  show "set shards' \<subseteq> set shards" using s K by simp
  show "set shards - dead_shards now (cl_cacheData c) \<subseteq> set shards'" using s K D by auto
  show "set shards' = set shards - dead_shards now (cl_cacheData c)" if "\<not> retry" using s(1) s(2) [OF that] K D by simp
qed

text \<open>Shard identifiers are unique, so no shard is both.\<close>

lemma distinct_concat_map_unique:
  "distinct (concat (map f xs)) \<Longrightarrow> x \<in> set xs \<Longrightarrow> y \<in> set xs \<Longrightarrow> a \<in> set (f x) \<Longrightarrow> a \<in> set (f y) \<Longrightarrow> x = y"
  by (induction xs) auto

lemma live_not_dead:
  assumes "shard_inv data" "sid \<in> live_shards now data"
  shows "sid \<notin> dead_shards now data"
proof
  assume "sid \<in> dead_shards now data"
  then obtain d r g where g: "d \<in> set (Databases data)" "r \<in> set (di_RetentionPolicies d)" "g \<in> set (rpi_ShardGroups r)"
      "dead_group now d r g" "sid \<in> set (shard_ids_of_group g)"
    by (auto simp: dead_shards_def dead_of_policy_def dead_group_def DeletedShardGroups_def ExpiredShardGroups_def)
  from assms(2) obtain d' r' g' where g': "d' \<in> set (Databases data)" "r' \<in> set (di_RetentionPolicies d')"
      "g' \<in> set (rpi_ShardGroups r')" "\<not> dead_group now d' r' g'" "sid \<in> set (shard_ids_of_group g')"
    by (auto simp: live_shards_def)
  have dg: "distinct (concat (map groups_of_db (Databases data)))"
    using assms(1) by (simp add: shard_inv_iff distinct_map groups_of_def)
  have mem: "g \<in> set (groups_of_db d)" "g' \<in> set (groups_of_db d')" using g g' by (auto simp: groups_of_db_def)
  have "distinct (concat (map shard_ids_of_group (groups_of data)))"
    using assms(1) by (simp add: shard_inv_iff shards_of_def map_concat o_def shard_ids_of_group_def [abs_def])
  moreover have "g \<in> set (groups_of data)" "g' \<in> set (groups_of data)" using g g' mem by (auto simp: groups_of_def)
  ultimately have eq: "g = g'" using distinct_concat_map_unique g(5) g'(5) by metis
  have "d = d'" using distinct_concat_map_unique [OF dg g(1) g'(1) mem(1)] mem(2) eq by simp
  moreover have "distinct (concat (map rpi_ShardGroups (di_RetentionPolicies d)))"
    using distinct_concat_member [OF dg, of "groups_of_db d"] g(1) by (simp add: groups_of_db_def)
  ultimately have "r = r'" using distinct_concat_map_unique [of rpi_ShardGroups "di_RetentionPolicies d"] g g' eq by metis
  with \<open>d = d'\<close> eq g(4) g'(4) show False by simp
qed

section \<open>A check with the leader\<close>

text \<open>The data after some groups were marked as deleted.\<close>

definition marked_later :: "ShardGroupInfo \<Rightarrow> ShardGroupInfo \<Rightarrow> bool" where
  "marked_later g g' \<longleftrightarrow> g' = g \<or> (\<exists>t. t \<noteq> 0 \<and> g' = g\<lparr>sgi_DeletedAt := t\<rparr>)"

definition policy_later :: "RetentionPolicyInfo \<Rightarrow> RetentionPolicyInfo \<Rightarrow> bool" where
  "policy_later r r' \<longleftrightarrow> rpi_Duration r' = rpi_Duration r \<and> list_all2 marked_later (rpi_ShardGroups r) (rpi_ShardGroups r')"

definition data_later :: "Data \<Rightarrow> Data \<Rightarrow> bool" where
  "data_later D D' \<longleftrightarrow> (\<forall>db rp.
     case find_rp D db rp of
       Inl e \<Rightarrow> find_rp D' db rp = Inl e
     | Inr r \<Rightarrow> \<exists>r'. find_rp D' db rp = Inr r' \<and> policy_later r r')"

definition group_gone :: "Data \<Rightarrow> string \<Rightarrow> string \<Rightarrow> u64 \<Rightarrow> bool" where
  "group_gone D db rp gid \<longleftrightarrow>
     (\<exists>r. find_rp D db rp = Inr r \<and> (\<forall>g \<in> set (rpi_ShardGroups r). sgi_ID g = gid \<longrightarrow> Deleted g))"

lemma marked_later_refl [simp]: "marked_later g g"
  by (simp add: marked_later_def)

lemma marked_later_ID: "marked_later g g' \<Longrightarrow> sgi_ID g' = sgi_ID g"
  by (auto simp: marked_later_def)

lemma marked_later_Deleted: "marked_later g g' \<Longrightarrow> Deleted g \<Longrightarrow> Deleted g'"
  by (auto simp: marked_later_def Deleted_def IsZero_def)

lemma marked_later_trans: "marked_later g g' \<Longrightarrow> marked_later g' g'' \<Longrightarrow> marked_later g g''"
  by (auto simp: marked_later_def)

lemma policy_later_refl [simp]: "policy_later r r"
  by (simp add: policy_later_def list_all2_same)

lemma policy_later_trans: "policy_later r r' \<Longrightarrow> policy_later r' r'' \<Longrightarrow> policy_later r r''"
  unfolding policy_later_def using list_all2_trans [of marked_later marked_later marked_later] marked_later_trans by metis

lemma data_later_refl [simp]: "data_later D D"
  by (simp add: data_later_def split: sum.split)

lemma data_laterD:
  assumes "data_later D D'" "find_rp D db rp = Inr r"
  obtains r' where "find_rp D' db rp = Inr r'" "policy_later r r'"
proof -
  from assms(1) have "case find_rp D db rp of Inl e \<Rightarrow> find_rp D' db rp = Inl e
      | Inr r \<Rightarrow> \<exists>r'. find_rp D' db rp = Inr r' \<and> policy_later r r'" by (simp add: data_later_def)
  with assms(2) that show ?thesis by auto
qed

lemma data_later_Inl: "data_later D D' \<Longrightarrow> find_rp D db rp = Inl e \<Longrightarrow> find_rp D' db rp = Inl e"
  unfolding data_later_def by (drule spec [of _ db], drule spec [of _ rp]) simp

lemma data_laterD2:
  assumes "data_later D D'" "find_rp D' db rp = Inr r'"
  obtains r where "find_rp D db rp = Inr r" "policy_later r r'"
proof (cases "find_rp D db rp")
  case (Inl e)
  with data_later_Inl [OF assms(1) this] assms(2) show ?thesis by simp
next
  case (Inr r)
  from data_laterD [OF assms(1) this] assms(2) Inr that show ?thesis by (metis Inr_inject)
qed

lemma data_later_trans:
  assumes "data_later D D'" "data_later D' D''"
  shows "data_later D D''"
  unfolding data_later_def
proof (intro allI)
  fix db rp
  show "case find_rp D db rp of Inl e \<Rightarrow> find_rp D'' db rp = Inl e
      | Inr r \<Rightarrow> \<exists>r'. find_rp D'' db rp = Inr r' \<and> policy_later r r'"
  proof (cases "find_rp D db rp")
    case (Inl e)
    with data_later_Inl [OF assms(2) data_later_Inl [OF assms(1)]] show ?thesis by simp
  next
    case (Inr r)
    obtain r' where r': "find_rp D' db rp = Inr r'" "policy_later r r'" using data_laterD [OF assms(1) Inr] .
    obtain r'' where "find_rp D'' db rp = Inr r''" "policy_later r' r''" using data_laterD [OF assms(2) r'(1)] .
    with Inr policy_later_trans [OF r'(2)] show ?thesis by auto
  qed
qed

lemma policy_later_ids: "policy_later r r' \<Longrightarrow> map sgi_ID (rpi_ShardGroups r') = map sgi_ID (rpi_ShardGroups r)"
  unfolding policy_later_def by (auto simp: list_all2_conv_all_nth marked_later_ID intro!: nth_equalityI)

lemma group_gone_later:
  assumes "group_gone D db rp gid" "data_later D D'"
  shows "group_gone D' db rp gid"
proof -
  from assms(1) obtain r where r: "find_rp D db rp = Inr r" "\<forall>g \<in> set (rpi_ShardGroups r). sgi_ID g = gid \<longrightarrow> Deleted g"
    by (auto simp: group_gone_def)
  obtain r' where r': "find_rp D' db rp = Inr r'" "policy_later r r'" using data_laterD [OF assms(2) r(1)] .
  have "Deleted g'" if "g' \<in> set (rpi_ShardGroups r')" "sgi_ID g' = gid" for g'
  proof -
    from that(1) r'(2) obtain g where "g \<in> set (rpi_ShardGroups r)" "marked_later g g'"
      unfolding policy_later_def by (metis list_all2_mem2)
    with r(2) that(2) show ?thesis using marked_later_Deleted marked_later_ID by metis
  qed
  with r'(1) show ?thesis by (auto simp: group_gone_def)
qed

text \<open>Deleting a group marks it and changes no other policy.\<close>

lemma find_update_first_key:
  "(\<And>x. k (f x) = k x) \<Longrightarrow>
     find (\<lambda>x. k x = m) (update_first (\<lambda>x. k x = n) f xs) =
       (if m = n then map_option f (find (\<lambda>x. k x = n) xs) else find (\<lambda>x. k x = m) xs)"
  by (induction xs) auto

lemma find_rp_update_rp_other:
  assumes "\<And>r. rpi_Name (f r) = rpi_Name r"
  shows "find_rp (update_rp n p f d) n' p' =
    (if n' = n \<and> p' = p then map_sum id f (find_rp d n p) else find_rp d n' p')"
proof -
  let ?g = "\<lambda>di. di\<lparr>di_RetentionPolicies := update_first (\<lambda>rp. rpi_Name rp = p) f (di_RetentionPolicies di)\<rparr>"
  have "Database (update_rp n p f d) n' = (if n' = n then map_option ?g (Database d n) else Database d n')"
    by (simp add: Database_def update_rp_def update_db_def find_update_first_key [of di_Name ?g])
  moreover have "find (\<lambda>rp. rpi_Name rp = p') (di_RetentionPolicies (?g di)) =
      (if p' = p then map_option f (find (\<lambda>rp. rpi_Name rp = p) (di_RetentionPolicies di))
       else find (\<lambda>rp. rpi_Name rp = p') (di_RetentionPolicies di))" for di :: DatabaseInfo
    using find_update_first_key [of rpi_Name f p' p, OF assms] by simp
  ultimately show ?thesis
    by (cases "n' = n"; cases "p' = p"; cases "Database d n")
      (simp_all add: find_rp_def RetentionPolicy_def split: option.split)
qed

lemma update_first_marks:
  assumes "t \<noteq> 0"
  shows "list_all2 marked_later gs (update_first P (\<lambda>g. g\<lparr>sgi_DeletedAt := t\<rparr>) gs)"
proof (induction gs)
  case (Cons g gs)
  have "marked_later g (g\<lparr>sgi_DeletedAt := t\<rparr>)" using assms by (auto simp: marked_later_def)
  with Cons show ?case by (simp add: list_all2_same)
qed simp

lemma update_first_all:
  assumes "distinct (map sgi_ID gs)" "t \<noteq> 0" "sgi_ID g = gid"
    and "g \<in> set (update_first (\<lambda>g. sgi_ID g = gid) (\<lambda>g. g\<lparr>sgi_DeletedAt := t\<rparr>) gs)"
  shows "Deleted g"
  using assms(1,4)
proof (induction gs)
  case (Cons x gs)
  show ?case
  proof (cases "sgi_ID x = gid")
    case True
    with Cons.prems(1) have "\<forall>y \<in> set gs. sgi_ID y \<noteq> gid" by (auto simp: image_iff)
    with True Cons.prems(2) assms(2,3) show ?thesis by (auto simp: Deleted_def IsZero_def)
  next
    case False
    with Cons assms(3) show ?thesis by auto
  qed
qed simp

lemma DeleteShardGroup_later:
  assumes "find_rp D db rp = Inr r" "gid \<in> sgi_ID ` set (rpi_ShardGroups r)" "distinct (map sgi_ID (rpi_ShardGroups r))" "t \<noteq> 0"
  obtains D' where "DeleteShardGroup t db rp gid D = (None, D')" "data_later D D'" "group_gone D' db rp gid"
    "MetaNodes D' = MetaNodes D"
proof -
  let ?f = "\<lambda>rpi. rpi\<lparr>rpi_ShardGroups := update_first (\<lambda>g. sgi_ID g = gid) (\<lambda>g. g\<lparr>sgi_DeletedAt := t\<rparr>) (rpi_ShardGroups rpi)\<rparr>"
  have d: "DeleteShardGroup t db rp gid D = (None, update_rp db rp ?f D)"
    using assms(1,2) by (auto simp: DeleteShardGroup_def list_ex_iff)
  have f: "find_rp (update_rp db rp ?f D) db' rp' =
      (if db' = db \<and> rp' = rp then map_sum id ?f (find_rp D db rp) else find_rp D db' rp')" for db' rp'
    by (rule find_rp_update_rp_other) simp
  have "policy_later r' (?f r')" for r' using update_first_marks [OF assms(4)] by (simp add: policy_later_def)
  then have "data_later D (update_rp db rp ?f D)"
    unfolding data_later_def f using assms(1) by (simp split: sum.split)
  moreover have "group_gone (update_rp db rp ?f D) db rp gid"
    using f [of db rp] assms(1) update_first_all [OF assms(3,4)] by (simp add: group_gone_def)
  ultimately show ?thesis using that [OF d] by simp
qed

lemma find_rp_Term_Index [simp]: "find_rp (D\<lparr>Term := t, Index := i\<rparr>) db rp = find_rp D db rp"
  by (simp add: find_rp_def RetentionPolicy_def Database_def)

definition clock_set :: "(store \<Rightarrow> raft_env) \<Rightarrow> bool" where
  "clock_set re \<longleftrightarrow> (\<forall>s. env_now (re_env (re s)) \<noteq> 0)"

definition unique_groups :: "Data \<Rightarrow> bool" where
  "unique_groups D \<longleftrightarrow> (\<forall>db rp r. find_rp D db rp = Inr r \<longrightarrow> distinct (map sgi_ID (rpi_ShardGroups r)))"

definition has_groups :: "Data \<Rightarrow> string \<Rightarrow> string \<Rightarrow> ShardGroupInfo list \<Rightarrow> bool" where
  "has_groups D db rp gs \<longleftrightarrow> (\<exists>r. find_rp D db rp = Inr r \<and> sgi_ID ` set gs \<subseteq> sgi_ID ` set (rpi_ShardGroups r))"

lemma unique_groups_later:
  assumes "unique_groups D" "data_later D D'"
  shows "unique_groups D'"
  unfolding unique_groups_def
proof (intro allI impI)
  fix db rp r'
  assume "find_rp D' db rp = Inr r'"
  then obtain r where r: "find_rp D db rp = Inr r" "policy_later r r'" using data_laterD2 [OF assms(2)] by blast
  then show "distinct (map sgi_ID (rpi_ShardGroups r'))"
    using assms(1) policy_later_ids [OF r(2)] unfolding unique_groups_def by metis
qed

lemma has_groups_later:
  assumes "has_groups D db rp gs" "data_later D D'"
  shows "has_groups D' db rp gs"
proof -
  from assms(1) obtain r where r: "find_rp D db rp = Inr r" "sgi_ID ` set gs \<subseteq> sgi_ID ` set (rpi_ShardGroups r)"
    by (auto simp: has_groups_def)
  obtain r' where r': "find_rp D' db rp = Inr r'" "policy_later r r'" using data_laterD [OF assms(2) r(1)] .
  have "sgi_ID ` set (rpi_ShardGroups r') = sgi_ID ` set (rpi_ShardGroups r)"
    using policy_later_ids [OF r'(2)] by (metis list.set_map)
  with r r' show ?thesis by (auto simp: has_groups_def)
qed

lemma has_groups_sub: "has_groups D db rp gs \<Longrightarrow> set gs' \<subseteq> set gs \<Longrightarrow> has_groups D db rp gs'"
  unfolding has_groups_def by (meson image_mono subset_trans)

lemma delete_group_step:
  assumes room: "0 < room re (c, s)" and clock: "clock_set re"
    and u: "unique_groups (st_data s)" and h: "has_groups (st_data s) db rp (g # gs)"
  obtains c' s' where "client_DeleteShardGroup (leader_service msg re) db rp (sgi_ID g) c s = (None, c', s')"
    "in_sync c' s'" "data_later (st_data s) (st_data s')" "group_gone (st_data s') db rp (sgi_ID g)"
    "room re (c, s) \<le> room re (c', s') + 1"
proof -
  from h obtain r where r: "find_rp (st_data s) db rp = Inr r" "sgi_ID g \<in> sgi_ID ` set (rpi_ShardGroups r)"
    by (auto simp: has_groups_def)
  have di: "distinct (map sgi_ID (rpi_ShardGroups r))" using u r(1) by (auto simp: unique_groups_def)
  have now: "env_now (re_env (re s)) \<noteq> 0" using clock by (simp add: clock_set_def)
  obtain d' where d': "DeleteShardGroup (env_now (re_env (re s))) db rp (sgi_ID g) (st_data s) = (None, d')"
      "data_later (st_data s) d'" "group_gone d' db rp (sgi_ID g)" "MetaNodes d' = MetaNodes (st_data s)"
    using DeleteShardGroup_later [OF r di now] .
  have app: "apply_command (re_env (re s)) (DeleteShardGroupCommand db rp (sgi_ID g)) (st_data s) = ((None, d'), [])"
    by (simp add: applyDeleteShardGroupCommand_def on_clone_def d'(1))
  have mn: "MetaNodes d' \<noteq> []" using room d'(4) by (simp add: room_pos in_sync_def)
  obtain c' s' t i where e: "retryUntilExec (leader_service msg re) (DeleteShardGroupCommand db rp (sgi_ID g)) c s = (None, c', s')"
      "in_sync c' s'" "st_data s' = d'\<lparr>Term := t, Index := i\<rparr>" "room re (c, s) \<le> room re (c', s') + 1"
    using leader_exec [OF room app mn] by metis
  have "data_later (st_data s) (st_data s')" using d'(2) unfolding data_later_def e(3) find_rp_Term_Index .
  moreover have "group_gone (st_data s') db rp (sgi_ID g)" using d'(3) by (simp add: e(3) group_gone_def)
  ultimately show ?thesis using that [OF _ e(2)] e(1,4) by (simp add: client_DeleteShardGroup_def)
qed

lemma expire_groups_all:
  assumes "clock_set re" "in_sync c s" "length gs \<le> room re (c, s)" "unique_groups (st_data s)"
    and "gs \<noteq> [] \<Longrightarrow> has_groups (st_data s) db rp gs"
  shows "\<exists>c' s'. expire_groups (leader_service msg re) db rp gs deleted retryNeeded c s =
      (deleted @ concat (map shard_ids_of_group gs), retryNeeded, c', s') \<and>
    in_sync c' s' \<and> data_later (st_data s) (st_data s') \<and> (\<forall>g \<in> set gs. group_gone (st_data s') db rp (sgi_ID g)) \<and>
    room re (c, s) \<le> room re (c', s') + length gs"
  using assms(2-)
proof (induction gs arbitrary: deleted c s)
  case (Cons g gs)
  have room: "0 < room re (c, s)" using Cons.prems(2) by simp
  obtain c1 s1 where 1: "client_DeleteShardGroup (leader_service msg re) db rp (sgi_ID g) c s = (None, c1, s1)"
      "in_sync c1 s1" "data_later (st_data s) (st_data s1)" "group_gone (st_data s1) db rp (sgi_ID g)"
      "room re (c, s) \<le> room re (c1, s1) + 1"
    using delete_group_step [OF room assms(1) Cons.prems(3) Cons.prems(4)] by blast
  have "has_groups (st_data s) db rp gs" using Cons.prems(4) by (auto simp: has_groups_def)
  then have h: "has_groups (st_data s1) db rp gs" using has_groups_later [OF _ 1(3)] by blast
  have len: "length gs \<le> room re (c1, s1)" using Cons.prems(2) 1(5) by simp
  obtain c2 s2 where 2: "expire_groups (leader_service msg re) db rp gs (deleted @ shard_ids_of_group g) retryNeeded c1 s1 =
        ((deleted @ shard_ids_of_group g) @ concat (map shard_ids_of_group gs), retryNeeded, c2, s2)"
      "in_sync c2 s2" "data_later (st_data s1) (st_data s2)" "\<forall>g \<in> set gs. group_gone (st_data s2) db rp (sgi_ID g)"
      "room re (c1, s1) \<le> room re (c2, s2) + length gs"
    using Cons.IH [OF 1(2) len unique_groups_later [OF Cons.prems(3) 1(3)] h, of "deleted @ shard_ids_of_group g"] by blast
  show ?case
  proof (intro exI conjI)
    show "expire_groups (leader_service msg re) db rp (g # gs) deleted retryNeeded c s =
        (deleted @ concat (map shard_ids_of_group (g # gs)), retryNeeded, c2, s2)" using 1(1) 2(1) by simp
    show "data_later (st_data s) (st_data s2)" using data_later_trans [OF 1(3) 2(3)] .
    show "\<forall>g \<in> set (g # gs). group_gone (st_data s2) db rp (sgi_ID g)"
      using 2(4) group_gone_later [OF 1(4) 2(3)] by simp
    show "room re (c, s) \<le> room re (c2, s2) + length (g # gs)" using 1(5) 2(5) by simp
  qed (rule 2(2))
qed simp

definition expired_of :: "(string \<Rightarrow> string \<Rightarrow> go_time) \<Rightarrow> string \<Rightarrow> RetentionPolicyInfo \<Rightarrow> ShardGroupInfo list" where
  "expired_of now db r = ExpiredShardGroups r (now db (rpi_Name r))"

lemma check_policies_all:
  assumes "clock_set re" "in_sync c s" "sum_list (map (\<lambda>r. length (expired_of now db r)) rs) \<le> room re (c, s)"
    and "unique_groups (st_data s)" "\<forall>r \<in> set rs. has_groups (st_data s) db (rpi_Name r) (rpi_ShardGroups r)"
  shows "\<exists>deleted' c' s'. check_policies (leader_service msg re) now db rs deleted retryNeeded c s = (deleted', retryNeeded, c', s') \<and>
    in_sync c' s' \<and> data_later (st_data s) (st_data s') \<and>
    (\<forall>r \<in> set rs. \<forall>g \<in> set (expired_of now db r). group_gone (st_data s') db (rpi_Name r) (sgi_ID g)) \<and>
    room re (c, s) \<le> room re (c', s') + sum_list (map (\<lambda>r. length (expired_of now db r)) rs)"
  using assms(2-)
proof (induction rs arbitrary: deleted c s)
  case (Cons r rs)
  let ?gs = "expired_of now db r" and ?n = "sum_list (map (\<lambda>r. length (expired_of now db r)) rs)"
  have "set ?gs \<subseteq> set (rpi_ShardGroups r)" by (auto simp: expired_of_def ExpiredShardGroups_def)
  moreover have "has_groups (st_data s) db (rpi_Name r) (rpi_ShardGroups r)" using Cons.prems(4) by simp
  ultimately have h: "has_groups (st_data s) db (rpi_Name r) ?gs" by (rule has_groups_sub [rotated])
  have len: "length ?gs \<le> room re (c, s)" using Cons.prems(2) by simp
  obtain c1 s1 where 1: "expire_groups (leader_service msg re) db (rpi_Name r) ?gs
        (deleted @ concat (map shard_ids_of_group (DeletedShardGroups r))) retryNeeded c s =
        ((deleted @ concat (map shard_ids_of_group (DeletedShardGroups r))) @ concat (map shard_ids_of_group ?gs), retryNeeded, c1, s1)"
      "in_sync c1 s1" "data_later (st_data s) (st_data s1)" "\<forall>g \<in> set ?gs. group_gone (st_data s1) db (rpi_Name r) (sgi_ID g)"
      "room re (c, s) \<le> room re (c1, s1) + length ?gs"
    using expire_groups_all [OF assms(1) Cons.prems(1) len Cons.prems(3) h] by blast
  have h1: "\<forall>r \<in> set rs. has_groups (st_data s1) db (rpi_Name r) (rpi_ShardGroups r)"
    using Cons.prems(4) has_groups_later [OF _ 1(3)] by simp
  have len1: "?n \<le> room re (c1, s1)" using Cons.prems(2) 1(5) by simp
  obtain del2 c2 s2 where 2: "check_policies (leader_service msg re) now db rs
        ((deleted @ concat (map shard_ids_of_group (DeletedShardGroups r))) @ concat (map shard_ids_of_group ?gs))
        retryNeeded c1 s1 = (del2, retryNeeded, c2, s2)"
      "in_sync c2 s2" "data_later (st_data s1) (st_data s2)"
      "\<forall>r \<in> set rs. \<forall>g \<in> set (expired_of now db r). group_gone (st_data s2) db (rpi_Name r) (sgi_ID g)"
      "room re (c1, s1) \<le> room re (c2, s2) + ?n"
    using Cons.IH [OF 1(2) len1 unique_groups_later [OF Cons.prems(3) 1(3)] h1] by blast
  show ?case
  proof (intro exI conjI)
    show "check_policies (leader_service msg re) now db (r # rs) deleted retryNeeded c s = (del2, retryNeeded, c2, s2)"
      using 1(1) 2(1) by (simp add: expired_of_def)
    show "data_later (st_data s) (st_data s2)" using data_later_trans [OF 1(3) 2(3)] .
    show "\<forall>r \<in> set (r # rs). \<forall>g \<in> set (expired_of now db r). group_gone (st_data s2) db (rpi_Name r) (sgi_ID g)"
      using 2(4) 1(4) group_gone_later [OF _ 2(3)] by simp
    show "room re (c, s) \<le> room re (c2, s2) + sum_list (map (\<lambda>r. length (expired_of now db r)) (r # rs))" using 1(5) 2(5) by simp
  qed (rule 2(2))
qed simp

definition expired_count :: "(string \<Rightarrow> string \<Rightarrow> go_time) \<Rightarrow> DatabaseInfo list \<Rightarrow> nat" where
  "expired_count now ds =
     sum_list (map (\<lambda>d. sum_list (map (\<lambda>r. length (expired_of now (di_Name d) r)) (di_RetentionPolicies d))) ds)"

lemma check_databases_all:
  assumes "clock_set re" "in_sync c s" "expired_count now ds \<le> room re (c, s)" "unique_groups (st_data s)"
    and "\<forall>d \<in> set ds. \<forall>r \<in> set (di_RetentionPolicies d). has_groups (st_data s) (di_Name d) (rpi_Name r) (rpi_ShardGroups r)"
  shows "\<exists>deleted' c' s'. check_databases (leader_service msg re) now ds deleted retryNeeded c s = (deleted', retryNeeded, c', s') \<and>
    data_later (st_data s) (st_data s') \<and>
    (\<forall>d \<in> set ds. \<forall>r \<in> set (di_RetentionPolicies d). \<forall>g \<in> set (expired_of now (di_Name d) r).
       group_gone (st_data s') (di_Name d) (rpi_Name r) (sgi_ID g))"
  using assms(2-)
proof (induction ds arbitrary: deleted c s)
  case (Cons d ds)
  have len: "sum_list (map (\<lambda>r. length (expired_of now (di_Name d) r)) (di_RetentionPolicies d)) \<le> room re (c, s)"
    using Cons.prems(2) by (simp add: expired_count_def)
  have h: "\<forall>r \<in> set (di_RetentionPolicies d). has_groups (st_data s) (di_Name d) (rpi_Name r) (rpi_ShardGroups r)"
    using Cons.prems(4) by simp
  obtain del1 c1 s1 where 1: "check_policies (leader_service msg re) now (di_Name d) (di_RetentionPolicies d) deleted retryNeeded c s =
        (del1, retryNeeded, c1, s1)" "in_sync c1 s1" "data_later (st_data s) (st_data s1)"
      "\<forall>r \<in> set (di_RetentionPolicies d). \<forall>g \<in> set (expired_of now (di_Name d) r).
         group_gone (st_data s1) (di_Name d) (rpi_Name r) (sgi_ID g)"
      "room re (c, s) \<le> room re (c1, s1) + sum_list (map (\<lambda>r. length (expired_of now (di_Name d) r)) (di_RetentionPolicies d))"
    using check_policies_all [OF assms(1) Cons.prems(1) len Cons.prems(3) h] by blast
  have h1: "\<forall>d \<in> set ds. \<forall>r \<in> set (di_RetentionPolicies d). has_groups (st_data s1) (di_Name d) (rpi_Name r) (rpi_ShardGroups r)"
    using Cons.prems(4) has_groups_later [OF _ 1(3)] by simp
  have len1: "expired_count now ds \<le> room re (c1, s1)" using Cons.prems(2) 1(5) by (simp add: expired_count_def)
  obtain del2 c2 s2 where 2: "check_databases (leader_service msg re) now ds del1 retryNeeded c1 s1 = (del2, retryNeeded, c2, s2)"
      "data_later (st_data s1) (st_data s2)"
      "\<forall>d \<in> set ds. \<forall>r \<in> set (di_RetentionPolicies d). \<forall>g \<in> set (expired_of now (di_Name d) r).
         group_gone (st_data s2) (di_Name d) (rpi_Name r) (sgi_ID g)"
    using Cons.IH [OF 1(2) len1 unique_groups_later [OF Cons.prems(3) 1(3)] h1] by blast
  show ?case
  proof (intro exI conjI)
    show "check_databases (leader_service msg re) now (d # ds) deleted retryNeeded c s = (del2, retryNeeded, c2, s2)"
      using 1(1) 2(1) by simp
    show "data_later (st_data s) (st_data s2)" using data_later_trans [OF 1(3) 2(2)] .
    show "\<forall>d \<in> set (d # ds). \<forall>r \<in> set (di_RetentionPolicies d). \<forall>g \<in> set (expired_of now (di_Name d) r).
        group_gone (st_data s2) (di_Name d) (rpi_Name r) (sgi_ID g)"
      using 2(3) 1(4) group_gone_later [OF _ 2(2)] by simp
  qed
qed simp

text \<open>With unique names and identifiers, the policies that the check goes through are those of a lookup.\<close>

lemma names_ok_find_rp:
  assumes "names_ok D" "d \<in> set (Databases D)" "r \<in> set (di_RetentionPolicies d)"
  shows "find_rp D (di_Name d) (rpi_Name r) = Inr r"
proof -
  have "distinct (map di_Name (Databases D))" "db_names_ok d" using assms(1,2) by (auto simp: names_ok_def)
  then have "find (\<lambda>x. di_Name x = di_Name d) (Databases D) = Some d"
      "find (\<lambda>x. rpi_Name x = rpi_Name r) (di_RetentionPolicies d) = Some r"
    using assms(2,3) by (auto simp: db_names_ok_def intro!: find_distinct)
  then show ?thesis by (auto simp: find_rp_Inr)
qed

lemma find_rp_mem:
  "find_rp D db rp = Inr r \<Longrightarrow> \<exists>d \<in> set (Databases D). r \<in> set (di_RetentionPolicies d) \<and> di_Name d = db \<and> rpi_Name r = rp"
  by (auto simp: find_rp_Inr dest!: find_SomeD)

lemma shard_inv_unique_groups:
  assumes "shard_inv D"
  shows "unique_groups D"
  unfolding unique_groups_def
proof (intro allI impI)
  fix db rp r
  assume "find_rp D db rp = Inr r"
  then obtain d where d: "d \<in> set (Databases D)" "r \<in> set (di_RetentionPolicies d)" using find_rp_mem by blast
  have "distinct (concat (map (\<lambda>d. concat (map (\<lambda>r. map sgi_ID (rpi_ShardGroups r)) (di_RetentionPolicies d))) (Databases D)))"
    using assms by (simp add: shard_inv_iff groups_of_def groups_of_db_def [abs_def] map_concat o_def)
  from distinct_concat_member [OF this] d(1)
  have "distinct (concat (map (\<lambda>r. map sgi_ID (rpi_ShardGroups r)) (di_RetentionPolicies d)))" by auto
  from distinct_concat_member [OF this] d(2) show "distinct (map sgi_ID (rpi_ShardGroups r))" by auto
qed

text \<open>A check by a client in touch with a working cluster leaves no expired group.\<close>

lemma retention_enforced_aux:
  assumes "clock_set re" "in_sync c s" "shard_inv (st_data s)" "names_ok (st_data s)" "expired_count now (Databases (st_data s)) \<le> room re (c, s)"
  obtains deleted c' s' where
    "check_databases (leader_service msg re) now (Databases (cl_cacheData c)) [] False c s = (deleted, False, c', s')"
    "data_later (st_data s) (st_data s')"
    "\<And>db rp r. find_rp (st_data s') db rp = Inr r \<Longrightarrow> ExpiredShardGroups r (now db rp) = []"
proof -
  let ?D = "st_data s"
  have cd: "cl_cacheData c = ?D" using assms(2) by (simp add: in_sync_def)
  note inv = assms(3,4)
  have h: "\<forall>d \<in> set (Databases ?D). \<forall>r \<in> set (di_RetentionPolicies d). has_groups ?D (di_Name d) (rpi_Name r) (rpi_ShardGroups r)"
    using names_ok_find_rp [OF inv(2)] by (auto simp: has_groups_def)
  obtain deleted c' s' where 1: "check_databases (leader_service msg re) now (Databases ?D) [] False c s = (deleted, False, c', s')"
      "data_later ?D (st_data s')"
      "\<forall>d \<in> set (Databases ?D). \<forall>r \<in> set (di_RetentionPolicies d). \<forall>g \<in> set (expired_of now (di_Name d) r).
         group_gone (st_data s') (di_Name d) (rpi_Name r) (sgi_ID g)"
    using check_databases_all [OF assms(1,2,5) shard_inv_unique_groups [OF inv(1)] h] by blast
  have "ExpiredShardGroups r' (now db rp) = []" if f: "find_rp (st_data s') db rp = Inr r'" for db rp r'
  proof (rule ccontr)
    assume "ExpiredShardGroups r' (now db rp) \<noteq> []"
    then obtain g' where g': "g' \<in> set (rpi_ShardGroups r')" "\<not> Deleted g'" "rpi_Duration r' \<noteq> 0"
        "sgi_EndTime g' + rpi_Duration r' < now db rp"
      by (auto simp: ExpiredShardGroups_def filter_empty_conv)
    obtain r where r: "find_rp ?D db rp = Inr r" "policy_later r r'" using data_laterD2 [OF 1(2) f] .
    obtain d where d: "d \<in> set (Databases ?D)" "r \<in> set (di_RetentionPolicies d)" "di_Name d = db" "rpi_Name r = rp"
      using find_rp_mem [OF r(1)] by blast
    obtain g where g: "g \<in> set (rpi_ShardGroups r)" "marked_later g g'"
      using r(2) g'(1) unfolding policy_later_def by (metis list_all2_mem2)
    with g'(2) have "g' = g" by (auto simp: marked_later_def Deleted_def IsZero_def)
    with g g' r(2) d have "g \<in> set (expired_of now (di_Name d) r)"
      by (simp add: expired_of_def ExpiredShardGroups_def policy_later_def)
    with 1(3) d have "group_gone (st_data s') db rp (sgi_ID g)" by blast
    with f g'(1,2) \<open>g' = g\<close> show False by (auto simp: group_gone_def)
  qed
  with 1(1,2) that show ?thesis by (simp add: cd)
qed

end
