(* ===== verification/ServiceProperties.thy ===== *)
theory ServiceProperties
  imports QueryAuth Retention WriteProperties
begin

text \<open>
  The properties of the authorization of queries and of the enforcement of retention policies.
\<close>

section \<open>Authorization\<close>

text \<open>
  (C13) A user that is not an admin and whose query is authorized only reads databases on which it
  has the privilege to read, and only writes to those on which it has the privilege to write, for
  every statement whose databases are covered: after the executor has rewritten and normalised the
  statement, which fills in the databases that it left out.
\<close>

theorem authorized_queries_respect_privileges:
  assumes "AuthorizeQuery c (Some u) query database = None" "UserCount c \<noteq> 0" "\<not> ui_Admin u"
    and "stmt \<in> set query" "covered database stmt" "prepare_statement c database rp stmt = Inr stmt'"
  shows "(\<forall>d \<in> set (reads stmt'). AuthorizeDatabase u ReadPrivilege d) \<and>
    (\<forall>d \<in> set (writes database stmt'). AuthorizeDatabase u WritePrivilege d)"
proof -
  from assms(1-3) have "authorize_statements u database query = None"
    by (simp add: AuthorizeQuery_def user_AuthorizeQuery_def)
  from authorized_statement [OF this assms(4)] obtain ps
    where ps: "RequiredPrivileges stmt = Inr ps" "authorize_privileges u database ps = None" by blast
  then show ?thesis
    using prepared_reads [OF ps(1) assms(5,6)] prepared_writes [OF ps(1) assms(5,6)] authorized_grants [OF ps(2)] by blast
qed

text \<open>A user that may read one database and write another one, and a client that knows three.\<close>

definition cpu_of :: "string \<Rightarrow> Source" where
  "cpu_of db = SourceMeasurement (zero_Measurement\<lparr>me_Database := db, me_Name := ''cpu''\<rparr>)"

definition into :: "string \<Rightarrow> Measurement" where
  "into db = zero_Measurement\<lparr>me_Database := db, me_Name := ''out'', me_IsTarget := True\<rparr>"

definition auth_user :: UserInfo where
  "auth_user = \<lparr>ui_Name = ''u'', ui_Hash = ''h'', ui_Admin = False,
     ui_Privileges = [(''mine'', ReadPrivilege), (''copy'', WritePrivilege)]\<rparr>"

definition auth_client :: Client where
  "auth_client = (NewClient 0 None)\<lparr>cl_cacheData := zero_Data\<lparr>Users := [auth_user],
     Databases := map (\<lambda>n. \<lparr>di_Name = n, di_DefaultRetentionPolicy = ''rp'', di_RetentionPolicies = [],
       di_ContinuousQueries = []\<rparr>) [''mine'', ''copy'', ''secret'']\<rparr>\<rparr>"

lemma authorized_queries_respect_privileges_witness:
  "AuthorizeDatabase auth_user ReadPrivilege ''mine'' \<and> AuthorizeDatabase auth_user WritePrivilege ''copy''"
proof -
  let ?stmt = "SelectStatementStmt (SelectStatement [cpu_of ''''] (Some (into ''copy'')))"
  have a: "AuthorizeQuery auth_client (Some auth_user) [?stmt] ''mine'' = None" by code_simp
  have p: "map_sum id (\<lambda>s. (reads s, writes ''mine'' s)) (prepare_statement auth_client ''mine'' '''' ?stmt) =
      Inr ([''mine''], [''copy''])" by code_simp
  then obtain s where s: "prepare_statement auth_client ''mine'' '''' ?stmt = Inr s" "reads s = [''mine'']"
      "writes ''mine'' s = [''copy'']" by auto
  have c: "UserCount auth_client \<noteq> 0" "\<not> ui_Admin auth_user" by code_simp+
  from authorized_queries_respect_privileges [OF a c _ _ s(1)] s(2,3) show ?thesis by simp
qed


text \<open>A write is authorized exactly for the users that are admins or hold the privilege.\<close>

lemma AuthorizeWrite_iff:
  "AuthorizeWrite c username database = None \<longleftrightarrow>
     (\<exists>u. client_User c username = Inr u \<and>
        (ui_Admin u \<or> (\<exists>p \<in> {WritePrivilege, AllPrivileges}. map_of (ui_Privileges u) database = Some p)))"
  by (auto simp: AuthorizeWrite_def AuthorizeDatabase_def WritePrivilege_def NoPrivileges_def
      split: sum.splits option.splits if_splits)

section \<open>Retention\<close>

text \<open>
  (C15) A check of the retention policies, whatever the cluster answers, never removes a stored shard
  whose group is neither deleted nor expired in the metadata that the node knows; and when it
  reports no need to try again it has removed exactly the shards of the deleted and the expired ones.
\<close>

theorem retention_removes_dead_shards_only:
  assumes "shard_inv (cl_cacheData c)"
    and "retention_check sv snap now prune_now fails c w shards = (retry, c', w', shards')"
  shows "set shards' \<subseteq> set shards \<and> set shards \<inter> live_shards now (cl_cacheData c) \<subseteq> set shards' \<and>
    (\<not> retry \<longrightarrow> set shards' = set shards - dead_shards now (cl_cacheData c))"
  using retention_check_shards [OF assms(2)] live_not_dead [OF assms(1)] by fastforce

text \<open>
  (C14) A check by a client that is in touch with a working cluster leaves no group behind that had
  expired, in any policy of the metadata of the leader, and none of its shards on the node.
\<close>

theorem retention_enforced:
  assumes "clock_set re" "in_sync c s" "shard_inv (st_data s)" "names_ok (st_data s)"
    and "expired_count now (Databases (st_data s)) \<le> room re (c, s)" "\<forall>d. snap d = None" "\<forall>i. \<not> fails i"
  shows "\<exists>c' s' shards'. retention_check (leader_service msg re) snap now prune_now fails c s shards = (False, c', s', shards') \<and>
    (\<forall>db rp r. find_rp (st_data s') db rp = Inr r \<longrightarrow> ExpiredShardGroups r (now db rp) = []) \<and>
    set shards' = set shards - dead_shards now (st_data s)"
proof -
  obtain deleted c1 s1 where 1:
      "check_databases (leader_service msg re) now (Databases (cl_cacheData c)) [] False c s = (deleted, False, c1, s1)"
      "\<And>db rp r. find_rp (st_data s1) db rp = Inr r \<Longrightarrow> ExpiredShardGroups r (now db rp) = []"
    using retention_enforced_aux [OF assms(1-5)] by metis
  obtain kept retry2 where k: "remove_shards fails deleted shards False = (kept, retry2)" by fastforce
  have "\<not> retry2" using remove_shards_succeeds [OF _ k] assms(7) by simp
  moreover have "fst (PruneShardGroups snap prune_now c1) = None"
    using assms(6) by (simp add: PruneShardGroups_def commit_def Let_def)
  then obtain c2 where "PruneShardGroups snap prune_now c1 = (None, c2)" by (metis prod.collapse)
  ultimately have r: "retention_check (leader_service msg re) snap now prune_now fails c s shards = (False, c2, s1, kept)"
    by (simp add: retention_check_def 1(1) k)
  show ?thesis
    using r 1(2) retention_check_shards(3) [OF r] assms(2) by (auto simp: in_sync_def)
qed

definition expired_data :: Data where
  "expired_data = write_data\<lparr>Databases := [\<lparr>di_Name = ''db'', di_DefaultRetentionPolicy = ''rp'',
     di_RetentionPolicies = [sample_policy\<lparr>rpi_Duration := Hour\<rparr>], di_ContinuousQueries = []\<rparr>]\<rparr>"

definition expired_client :: Client where
  "expired_client = (NewClient 0 None)\<lparr>cl_metaServers := [''m''], cl_cacheData := expired_data\<rparr>"

definition expired_store :: store where
  "expired_store = \<lparr>st_data = expired_data, st_changed = 0, st_removed = []\<rparr>"

lemma expired_find_rp: "find_rp expired_data ''db'' ''rp'' = Inr (sample_policy\<lparr>rpi_Duration := Hour\<rparr>)"
  by (simp add: expired_data_def find_rp_def RetentionPolicy_def Database_def sample_policy_def)

lemma expired_data_inv: "shard_inv expired_data" "names_ok expired_data"
proof -
  have "gkeys expired_data = gkeys sample_data" 
    by (simp add: gkeys_groups groups_of_def groups_of_db_def expired_data_def sample_data_def)
  then show "shard_inv expired_data"
    using sample_shard_inv by (simp add: shard_inv_def expired_data_def write_data_def)
  show "names_ok expired_data"
    by (simp add: names_ok_def db_names_ok_def expired_data_def sample_policy_def)
qed

lemma retention_removes_dead_shards_only_witness:
  "set (snd (snd (snd (retention_check (leader_service (\<lambda>_. ''e'') sample_raft) (\<lambda>_. None) (\<lambda>_ _. unix_epoch) unix_epoch (\<lambda>_. False)
     expired_client expired_store [2, 9])))) \<supseteq> {2 :: u64}"
proof -
  obtain retry c' w' shards' where r: "retention_check (leader_service (\<lambda>_. ''e'') sample_raft) (\<lambda>_. None) (\<lambda>_ _. unix_epoch)
      unix_epoch (\<lambda>_. False) expired_client expired_store [2, 9] = (retry, c', w', shards')"
    by (metis prod_cases4)
  have "2 \<in> live_shards (\<lambda>_ _. unix_epoch) expired_data"
    by (simp add: live_shards_def expired_data_def sample_policy_def sample_group_def dead_group_def
        ExpiredShardGroups_def Deleted_def IsZero_def shard_ids_of_group_def sample_shard_def Hour_def Second_def)
  moreover have "cl_cacheData expired_client = expired_data" by (simp add: expired_client_def)
  ultimately have "2 \<in> set shards'"
    using retention_removes_dead_shards_only [OF _ r] expired_data_inv(1) by auto
  then show ?thesis by (simp add: r)
qed

lemma retention_enforced_witness:
  "\<exists>c' s' shards'. retention_check (leader_service (\<lambda>_. ''e'') sample_raft) (\<lambda>_. None) (\<lambda>_ _. unix_epoch + 3 * Hour)
      unix_epoch (\<lambda>_. False) expired_client expired_store [2, 9] = (False, c', s', shards') \<and>
    set shards' = {9 :: u64} \<and>
    (\<forall>r. find_rp (st_data s') ''db'' ''rp'' = Inr r \<longrightarrow> ExpiredShardGroups r (unix_epoch + 3 * Hour) = [])"
proof -
  let ?now = "\<lambda>_ _. unix_epoch + 3 * Hour"
  have sync: "in_sync expired_client expired_store"
    by (simp add: in_sync_def expired_client_def expired_store_def expired_data_def write_data_def)
  have clock: "clock_set sample_raft"
    by (simp add: clock_set_def sample_raft_def sample_env_def unix_epoch_def Second_def)
  have exp: "ExpiredShardGroups (sample_policy\<lparr>rpi_Duration := Hour\<rparr>) (unix_epoch + 3 * Hour) = [sample_group]"
    by (simp add: ExpiredShardGroups_def sample_policy_def sample_group_def Deleted_def IsZero_def Hour_def Second_def)
  have room: "expired_count ?now (Databases (st_data expired_store)) \<le> room sample_raft (expired_client, expired_store)"
    using sync raft_works_sample
    by (simp add: expired_count_def expired_of_def room_def expired_store_def)
      (simp add: expired_data_def exp write_data_def)
  have dead: "dead_shards ?now (st_data expired_store) = {1, 2, 3}"
    by (simp add: dead_shards_def dead_of_policy_def expired_store_def expired_data_def exp DeletedShardGroups_def)
      (auto simp: sample_policy_def sample_group_def shard_ids_of_group_def sample_shard_def Deleted_def IsZero_def)
  have inv: "shard_inv (st_data expired_store)" "names_ok (st_data expired_store)"
    using expired_data_inv by (simp_all add: expired_store_def)
  obtain c' s' shards' where r: "retention_check (leader_service (\<lambda>_. ''e'') sample_raft) (\<lambda>_. None) ?now unix_epoch
        (\<lambda>_. False) expired_client expired_store [2, 9] = (False, c', s', shards')"
      "\<forall>db rp r. find_rp (st_data s') db rp = Inr r \<longrightarrow> ExpiredShardGroups r (?now db rp) = []"
      "set shards' = set [2, 9] - dead_shards ?now (st_data expired_store)"
    using retention_enforced [OF clock sync inv room, of "\<lambda>_. None" "\<lambda>_. False" "\<lambda>_. ''e''" unix_epoch "[2, 9]"] by blast
  have "set shards' = {9}" using r(3) dead by auto
  with r(1,2) show ?thesis by blast
qed

end
