(* ===== verification/Spec2Isabelle.thy ===== *)
theory Spec2Isabelle
  imports WriteProperties ClientProperties HHProperties TSMProperties StoreProperties ServiceProperties
begin

text \<open>
  A verification library for the cluster core and the write path of freetsdb (\<open>src/freetsdb-0.1.2\<close>), a clustered
  time series database.  Paths below are relative to that directory.

  \<^bold>\<open>The program.\<close>  Meta nodes keep the metadata of the cluster (nodes, databases, retention
  policies, shard groups with their shards and owners, continuous queries, subscriptions,
  users) as the state of a raft state machine: commands are posted to the leader, applied in
  the order of the log on every meta node, and saved as snapshots.  A data node reads the
  metadata through a client that keeps a cache, waits for newer snapshots and sends commands
  with retries and redirects.  The points writer of a data node maps the points of a request
  to shards, asking the client to create shard groups, and writes every shard to its owners up
  to a consistency level.  A write to an owner that cannot be reached goes to hinted handoff, a
  queue of segment files per node that is sent later.  An owner stores a write in the storage
  engine of the shard: in a cache and a write-ahead log, and from time to time in TSM files.

  \<^bold>\<open>Metadata\<close> (\<open>services/meta/data.go\<close>).  \<open>MetaTypes\<close> has the structures as records, the errors
  of \<open>errors.go\<close>, the sort orders and the lookups; \<open>MetaNodes\<close>, \<open>MetaDatabases\<close>, \<open>MetaUsers\<close> and
  \<open>MetaShards\<close> have the operations of \<open>Data\<close>, one function for each method, with an error and the
  data it leaves behind.  \<open>MetaMarshal\<close> has the encoding of every structure as its protobuf
  message.  \<open>MetaShardProps\<close>, \<open>MetaShardInv\<close>, \<open>MetaAccess\<close>, \<open>MetaInv\<close> and \<open>MetaOwners\<close> prove what
  the operations keep: identifiers of shards and groups are unique and below their counters,
  names are unique, shard durations fit their policies, users and databases agree, and every
  live shard has distinct owners among the nodes.

  \<^bold>\<open>State machine\<close> (\<open>store_fsm.go\<close>, \<open>store.go\<close>, \<open>raft_state.go\<close>).  \<open>MetaFSM\<close> has the commands, a
  handler for each of them, \<open>Apply\<close>, snapshots, \<open>Persist\<close> and \<open>Restore\<close>.  \<open>MetaFSMProps\<close> states the
  contract of an invariant as the locale \<open>data_invariant\<close>, and interprets it for the metadata
  and for shard ownership; \<open>MetaReach\<close> bounds the growth of the counters along a log, so that
  the invariants hold in every state that a log leads to.

  \<^bold>\<open>Handlers and leases\<close> (\<open>store.go\<close>, \<open>handler.go\<close>).  \<open>MetaHandler\<close> has applying a command through
  raft, joining and removing meta nodes, the HTTP handlers as functions of the store, and the
  leases.

  \<^bold>\<open>Meta client\<close> (\<open>client.go\<close>).  \<open>MetaClient\<close> has the cache, taking over a snapshot and the
  submission of a command with retries and redirects; \<open>MetaClientOps\<close> the operations over it,
  local commits, the authentication cache and leases; \<open>MetaClientProps\<close> the facts about the
  submission loop.

  \<^bold>\<open>Points writer\<close> (\<open>coordinator/points_writer.go\<close>).  \<open>PointsWriter\<close> has consistency levels,
  mapping points to shards, writing a shard and whole requests.  \<open>PointsWriterProps\<close> proves the
  mapping correct for every service that creates shard groups: the locale
  \<open>shard_group_service\<close> says what such a service promises and \<open>live_shard_group_service\<close> that it
  answers.  \<open>ClusterService\<close> composes the client with the leader and the state machine, and
  shows that they keep that promise (interpretation \<open>cluster_groups\<close>).

  \<^bold>\<open>Hinted handoff\<close> (\<open>services/hh\<close>).  \<open>HHSegment\<close> has the segments (\<open>queue.go\<close>) down to the bytes of
  their files, every operation a sequence of seeks, reads and writes; \<open>HHQueue\<close> has the queue
  over them.  \<open>HHQueueProps\<close> shows that the queue refines a FIFO list, the locale \<open>fifo_queue\<close>.
  \<open>HHProcessor\<close> has the processors and the service (\<open>node_processor.go\<close>, \<open>service.go\<close>) over a
  \<open>fifo_queue\<close>; \<open>HHClose\<close> has the locks of a processor as a step relation.

  \<^bold>\<open>Authorization and retention.\<close>  \<open>QueryAuth\<close> has the privileges that every statement requires
  (\<open>services/influxql/ast.go\<close>), the authorizers (\<open>query_authorizer.go\<close>, \<open>write_authorizer.go\<close>) and the
  rewriting and normalising of statements, as far as it decides which databases they touch
  (\<open>query/statement_rewriter.go\<close>, \<open>coordinator/statement_executor.go\<close>).  \<open>Retention\<close> has a check of the
  retention policies (\<open>services/retention/service.go\<close>) over the meta client and the leader.

  \<^bold>\<open>Block encodings\<close> (\<open>pkg/encoding/simple8b\<close>, \<open>tsdb/engine/tsm1\<close>).  \<open>Binary\<close> has the big endian and
  variable length integers of the Go library; \<open>Simple8b\<close> packing of values into words
  (\<open>encoding.go\<close>), its encoder in place as in the code, and \<open>Simple8bProps\<close> its correctness;
  \<open>TSMBlocks\<close> the encodings of integers, timestamps and booleans (\<open>batch_integer.go\<close>,
  \<open>batch_timestamp.go\<close>, \<open>batch_boolean.go\<close>); \<open>TSMArray\<close> the blocks of both (\<open>array_encoding.go\<close>).
  \<open>TSMBlockProps\<close> and \<open>TSMBoolProps\<close> show that decoding undoes encoding, \<open>TSMProperties\<close> states it.

  \<^bold>\<open>Storage engine\<close> (\<open>tsdb/engine/tsm1\<close>).  \<open>TSMValues\<close> has slices of values (\<open>encoding.gen.go\<close>) and shows
  that they stand for finite maps.  \<open>TSMRing\<close> has the entries and the partitioned store (\<open>ring.go\<close>) and
  the contract of a store of entries, the locale \<open>entry_store\<close>.  \<open>TSMCache\<close> has the cache (\<open>cache.go\<close>) with
  its snapshot, sizes and counters; \<open>TSMCacheProps\<close> its invariant, \<open>TSMCacheRefine\<close> what each call does
  to the entries and the contract \<open>entry_invariant\<close> of a property of entries, with three instances;
  \<open>TSMCacheSpec\<close> the abstract cache, two maps, as a step relation, and the simulation.  \<open>TSMEngine\<close> has
  the segments of the log (\<open>wal.go\<close>) and the engine over them (\<open>engine.go\<close>); \<open>TSMEngineProps\<close> shows
  what a query sees along a run, and \<open>TSMEngineReach\<close> what holds in every reachable state.

  \<^bold>\<open>Shared\<close>: \<open>Prelude\<close> has times and durations, slices, maps as association lists with unique
  keys, \<open>sort.Sort\<close> as any stable or unstable sort (locale \<open>go_sort\<close>), \<open>sort.Search\<close> and strings.

  \<^bold>\<open>What is shown.\<close>  \<open>MetaProperties\<close>: the invariants of all reachable metadata, the effect of
  the operations on shard groups and nodes, determinism of the state machine, that failed
  commands change nothing, and the round trip of a snapshot.  \<open>WriteProperties\<close>: every point of
  a request is mapped to a shard whose group contains its time, a successful write reached as
  many owners as its level asks for, and two quorum writes share an owner.
  \<open>ClientProperties\<close>: authentication accepts current passwords only, leases are exclusive,
  submission is bounded, and pruning is exact.  \<open>HHProperties\<close>: hinted writes are sent in order
  and completely, and survive a restart.  \<open>TSMProperties\<close>: blocks survive encoding and decoding.
  \<open>StoreProperties\<close>: slices of values behave as maps, the cache refines its abstract
  specification and accounts for its size, and acknowledged writes survive restarts.
  \<open>ServiceProperties\<close>: authorized queries keep to the privileges of their user, and retention removes
  exactly what has expired.  Each of these theories also proves the situations
  in which the code does not do what it means to: they are stated as the code behaves.

  \<^bold>\<open>Modelling.\<close>  Fallible code returns a sum or an option; a panic is an error of its own.
  Identifiers, terms and indices are 64 bit words and wrap; times and durations are integers,
  with the wrap-around of \<open>UnixNano\<close> written out; sizes of segment files are integers, and the
  invariant of a segment keeps them below \<open>2 ^ 62\<close>.  Slices have value semantics.  The iteration
  order of a Go map is an argument wherever the result could depend on it.  A function that
  reads the clock takes the time as an argument.  Goroutines that answer on a channel are a
  schedule of events, in any order and possibly incomplete.  A client that polls gets the list
  of the snapshots it receives.  \<open>Privilege\<close> is an integer, as in the code, so that unknown values
  are possible; \<open>strings.ToLower\<close> is ASCII.

  \<^bold>\<open>Code outside the repository\<close> is an argument: \<open>proto.Marshal\<close> and \<open>proto.Unmarshal\<close>,
  \<open>url.Parse\<close>, bcrypt and sha256, raft (an index and an error for every command), regular
  expressions, the hash of series keys, and the network.  \<open>models.ParsePoints\<close>, the line protocol, is
  an argument as well; what is used of it is a hypothesis (parsing the printed points gives them
  back).  For the points writer the storage of a shard is an argument too, its answers.

  \<^bold>\<open>Bounds.\<close>  The invariants of reachable metadata are for logs of fewer than \<open>2 ^ 32\<close> entries, far
  from the wrap-around of the 64 bit counters; they exclude \<open>SetDataCommand\<close>, which replaces the
  metadata by what it is given, and, for the ownership of shards, the legacy commands for nodes.  The submission of a command retries at
  most ten times in the code, and the model's loop runs through those rounds.  The loop of
  \<open>PurgeOlderThan\<close> has fuel, one round for each segment and one more; running out of fuel is the
  value \<open>None\<close>.  The sizes of the cache are exact as long as fewer than \<open>2 ^ 64\<close> bytes were written,
  and a block has fewer than \<open>2 ^ 56\<close> values.

  \<^bold>\<open>Not modelled.\<close>  Of the storage engine: the encoding of log entries, compaction, the TSM files and the
  file store (a map here), the index of series, cursors, the encodings of floats and strings and
  the encoders with iterators, failures of the disk, and writers that run at the same time.  The
  query engine and InfluxQL, mostly generated iterators and a separate language, apart from the
  authorization of statements; RPC and HTTP
  transport, routing and encoding; opening and closing of stores, listeners and clients, the
  cache file of the client, statistics for monitoring apart from those of hinted handoff and the
  cache, rate limiting, logging; the sharing of backing arrays by slices; the command line
  programs.  The copy of InfluxDB in \<open>src/influxdb-1.8.4\<close> is another program.
\<close>

end
